(* ===== verification/Rust_Prelude.thy ===== *)
theory Rust_Prelude
  imports Main "HOL-Library.Word" "HOL-Library.Monad_Syntax"
begin

text \<open>
  Shared vocabulary of the development: the fixed-width integers of the sources, the
  checked, saturating and unchecked operations of Rust's standard library on them,
  little-endian byte strings, and list lemmas used by several components.

  Conventions.
  \<^item> A \<open>uN\<close> value is an \<open>N word\<close>. Unchecked \<open>+\<close>, \<open>-\<close>, \<open>*\<close> wrap, which is the
    behaviour of the release profile (\<^verbatim>\<open>Cargo.toml\<close> leaves \<open>overflow-checks\<close> off there);
    the theorems state when no wrap happens, and there the debug profile agrees.
  \<^item> A shift count is reduced modulo the width, again the release behaviour.
  \<^item> A panic (division by zero, index out of range, failed \<open>assert!\<close>) is \<open>None\<close>.
  \<^item> A \<open>Result\<close> is a sum: \<open>Inl\<close> the error, \<open>Inr\<close> the value.
\<close>

unbundle bit_operations_syntax

named_theorems rust_arith \<open>unfolding of the checked, saturating and shifting operations\<close>
named_theorems le_simps \<open>little-endian encoding and decoding\<close>

type_synonym u8 = "8 word"
type_synonym u16 = "16 word"
type_synonym u32 = "32 word"
type_synonym u64 = "64 word"
type_synonym bytes = "u8 list"

section \<open>Arithmetic of the standard library\<close>

definition checked_add :: "'a::len word \<Rightarrow> 'a word \<Rightarrow> 'a word option" where
  "checked_add a b = (if unat a + unat b < 2 ^ LENGTH('a) then Some (a + b) else None)"

definition checked_mul :: "'a::len word \<Rightarrow> 'a word \<Rightarrow> 'a word option" where
  "checked_mul a b = (if unat a * unat b < 2 ^ LENGTH('a) then Some (a * b) else None)"

definition rust_div :: "'a::len word \<Rightarrow> 'a word \<Rightarrow> 'a word option" where
  "rust_div a b = (if b = 0 then None else Some (a div b))"

definition rust_rem :: "'a::len word \<Rightarrow> 'a word \<Rightarrow> 'a word option" where
  "rust_rem a b = (if b = 0 then None else Some (a mod b))"

definition is_multiple_of :: "'a::len word \<Rightarrow> 'a word \<Rightarrow> bool" where
  "is_multiple_of a b \<longleftrightarrow> (if b = 0 then a = 0 else a mod b = 0)"

definition saturating_sub :: "'a::len word \<Rightarrow> 'a word \<Rightarrow> 'a word" where
  "saturating_sub a b = (if a < b then 0 else a - b)"

definition rust_shl :: "'a::len word \<Rightarrow> nat \<Rightarrow> 'a word" where
  "rust_shl x n = push_bit (n mod LENGTH('a)) x"

definition rust_shr :: "'a::len word \<Rightarrow> nat \<Rightarrow> 'a word" where
  "rust_shr x n = drop_bit (n mod LENGTH('a)) x"

definition rust_index :: "'a list \<Rightarrow> nat \<Rightarrow> 'a option" where
  "rust_index xs i = (if i < length xs then Some (xs ! i) else None)"

text \<open>The \<^verbatim>\<open>?\<close> operator on results.\<close>

definition and_then :: "'e + 'a \<Rightarrow> ('a \<Rightarrow> 'e + 'b) \<Rightarrow> 'e + 'b" where
  "and_then r f = (case r of Inl e \<Rightarrow> Inl e | Inr x \<Rightarrow> f x)"

declare checked_add_def [rust_arith] checked_mul_def [rust_arith] rust_div_def [rust_arith]
  rust_rem_def [rust_arith] is_multiple_of_def [rust_arith] saturating_sub_def [rust_arith]
  rust_shl_def [rust_arith] rust_shr_def [rust_arith] rust_index_def [rust_arith]

lemma and_then_simps [simp]: "and_then (Inl e) f = Inl e" "and_then (Inr x) f = f x"
  by (simp_all add: and_then_def)

lemma checked_add_Some:
  "checked_add a b = Some c \<Longrightarrow> unat c = unat a + unat b"
  by (auto simp: checked_add_def unat_word_ariths split: if_splits)

lemma checked_mul_Some:
  "checked_mul a b = Some c \<Longrightarrow> unat c = unat a * unat b"
  by (auto simp: checked_mul_def unat_word_ariths split: if_splits)

lemma checked_add_eq_None:
  "checked_add (a :: 'a::len word) b = None \<longleftrightarrow> 2 ^ LENGTH('a) \<le> unat a + unat b"
  by (auto simp: checked_add_def)

lemma checked_mul_eq_None:
  "checked_mul (a :: 'a::len word) b = None \<longleftrightarrow> 2 ^ LENGTH('a) \<le> unat a * unat b"
  by (auto simp: checked_mul_def)

lemma unat_mult_no_overflow:
  "unat (a :: 'a::len word) * unat b < 2 ^ LENGTH('a) \<Longrightarrow> unat (a * b) = unat a * unat b"
  by (simp add: unat_word_ariths)

lemma unat_add_no_overflow:
  "unat (a :: 'a::len word) + unat b < 2 ^ LENGTH('a) \<Longrightarrow> unat (a + b) = unat a + unat b"
  by (simp add: unat_word_ariths)

lemma is_multiple_of_dvd: "is_multiple_of a b \<longleftrightarrow> unat b dvd unat a"
proof (cases "b = 0")
  case True
  then show ?thesis by (simp add: is_multiple_of_def unat_eq_zero)
next
  case False
  have "a mod b = 0 \<longleftrightarrow> unat (a mod b) = 0" by (simp add: unat_eq_zero)
  with False show ?thesis by (auto simp: is_multiple_of_def unat_mod dvd_eq_mod_eq_0)
qed

lemma unat_u16_less: "unat (w :: u16) < 2 ^ 16"
  using unsigned_less [of w] by simp

lemma unat_u32_less: "unat (w :: u32) < 2 ^ 32"
  using unsigned_less [of w] by simp

lemma unat_u64_less: "unat (w :: u64) < 2 ^ 64"
  using unsigned_less [of w] by simp

lemma unat_ucast_up:
  assumes "LENGTH('a) \<le> LENGTH('b)"
  shows "unat (ucast (w :: 'a::len word) :: 'b::len word) = unat w"
proof -
  have "unat w < 2 ^ LENGTH('a)" by (rule unsigned_less)
  also have "(2 :: nat) ^ LENGTH('a) \<le> 2 ^ LENGTH('b)" using assms by (rule power_increasing) simp
  finally have "unat w < 2 ^ LENGTH('b)" .
  then show ?thesis by (simp add: unsigned_ucast_eq take_bit_nat_eq_self)
qed

lemma unat_of_nat_no_overflow:
  "n < 2 ^ LENGTH('a) \<Longrightarrow> unat (of_nat n :: 'a::len word) = n"
  by (simp add: unat_of_nat take_bit_nat_eq_self)

lemma unat_gt_0_iff: "0 < unat (w :: 'a::len word) \<longleftrightarrow> w \<noteq> 0"
  by (simp add: unat_gt_0)

section \<open>Shifts and fields\<close>

text \<open>
  A field packed by shifting and or-ing is the sum of its parts when the low part fits
  below the shift and nothing is lost at the top.
\<close>

lemma unat_push_bit_no_overflow:
  assumes "unat (w :: 'a::len word) * 2 ^ n < 2 ^ LENGTH('a)"
  shows "unat (push_bit n w) = unat w * 2 ^ n"
proof -
  have "unat (push_bit n w) = take_bit LENGTH('a) (push_bit n (unat w))"
    by (rule unsigned_push_bit_eq)
  with assms show ?thesis by (simp only: push_bit_eq_mult take_bit_nat_eq_self)
qed

lemma not_bit_unat_less: "unat (b :: 'a::len word) < 2 ^ n \<Longrightarrow> \<not> bit b n"
proof -
  assume "unat b < 2 ^ n"
  then have "\<not> bit (unat b) n" by (simp add: bit_iff_odd)
  then show "\<not> bit b n" by (simp add: bit_unsigned_iff)
qed

lemma or_push_bit_eq_plus:
  assumes "unat (b :: 'a::len word) < 2 ^ n"
  shows "push_bit n a OR b = push_bit n a + b"
proof -
  have "push_bit n a AND b = 0"
  proof (rule bit_eqI)
    fix i
    show "bit (push_bit n a AND b) i = bit (0 :: 'a word) i"
    proof (cases "i < n")
      case True
      then show ?thesis by (simp add: bit_and_iff bit_push_bit_iff)
    next
      case False
      with assms have "unat b < 2 ^ i"
        by (meson less_le_trans not_less one_le_numeral power_increasing)
      then show ?thesis by (simp add: bit_and_iff not_bit_unat_less)
    qed
  qed
  then show ?thesis using word_plus_and_or [of "push_bit n a" b] by simp
qed

text \<open>The packed field as a number, and reading it back by shifting and masking.\<close>

lemma unat_pack:
  assumes "unat (b :: 'a::len word) < 2 ^ n" and "(unat a + 1) * 2 ^ n \<le> 2 ^ LENGTH('a)"
  shows "unat (push_bit n a OR b) = unat a * 2 ^ n + unat b"
proof -
  have lt: "unat a * 2 ^ n + unat b < 2 ^ LENGTH('a)"
    using assms by (simp add: algebra_simps)
  then have push: "unat (push_bit n a) = unat a * 2 ^ n"
    by (simp add: unat_push_bit_no_overflow)
  with lt show ?thesis
    by (simp add: or_push_bit_eq_plus [OF assms(1)] unat_add_no_overflow)
qed

section \<open>Little-endian byte strings\<close>

fun le_bytes :: "nat \<Rightarrow> nat \<Rightarrow> bytes" where
  "le_bytes 0 n = []"
| "le_bytes (Suc k) n = of_nat (n mod 256) # le_bytes k (n div 256)"

fun le_value :: "bytes \<Rightarrow> nat" where
  "le_value [] = 0"
| "le_value (b # bs) = unat b + 256 * le_value bs"

lemma unat_byte_less [simp]: "unat (b :: u8) < 256"
  using unsigned_less [of b] by simp

lemma unat_of_nat_byte [simp]: "unat (of_nat (n mod 256) :: u8) = n mod 256"
  by (simp add: unat_of_nat)

lemma length_le_bytes [simp]: "length (le_bytes k n) = k"
  by (induction k arbitrary: n) auto

lemma digit_bound: "(x :: nat) < 256 \<Longrightarrow> v < p \<Longrightarrow> x + 256 * v < 256 * p"
  by linarith

lemma le_value_bound: "le_value bs < 256 ^ length bs"
proof (induction bs)
  case Nil
  show ?case by simp
next
  case (Cons b bs)
  from digit_bound [OF unat_byte_less Cons]
  show ?case by (simp only: le_value.simps list.size power_Suc add_0_right add_Suc_right)
qed

lemma le_value_le_bytes [le_simps]: "n < 256 ^ k \<Longrightarrow> le_value (le_bytes k n) = n"
  by (induction k arbitrary: n) (auto simp: less_mult_imp_div_less mult.commute)

lemma le_bytes_le_value [le_simps]: "le_bytes (length bs) (le_value bs) = bs"
  by (induction bs) (auto simp: word_unat_eq_iff unat_of_nat)

lemma le_value_inject: "length xs = length ys \<Longrightarrow> le_value xs = le_value ys \<longleftrightarrow> xs = ys"
  by (metis le_bytes_le_value)

definition to_le_bytes :: "nat \<Rightarrow> 'a::len word \<Rightarrow> bytes" where
  "to_le_bytes k w = le_bytes k (unat w)"

definition from_le_bytes :: "bytes \<Rightarrow> 'a::len word" where
  "from_le_bytes bs = of_nat (le_value bs)"

lemma le_bytes_numeral:
  "le_bytes (numeral k) n = of_nat (n mod 256) # le_bytes (pred_numeral k) (n div 256)"
  by (simp only: numeral_eq_Suc [of k] le_bytes.simps)

lemma length_to_le_bytes [simp]: "length (to_le_bytes k w) = k"
  by (simp add: to_le_bytes_def)

lemma from_le_to_le [le_simps]:
  assumes "LENGTH('a) = 8 * k"
  shows "from_le_bytes (to_le_bytes k (w :: 'a::len word)) = w"
proof -
  have "unat w < 2 ^ (8 * k)" using unsigned_less [of w] assms by simp
  also have "(2 :: nat) ^ (8 * k) = 256 ^ k" by (simp add: power_mult)
  finally show ?thesis by (simp add: to_le_bytes_def from_le_bytes_def le_value_le_bytes)
qed

lemma to_le_from_le [le_simps]:
  assumes "LENGTH('a) = 8 * length bs"
  shows "to_le_bytes (length bs) (from_le_bytes bs :: 'a::len word) = bs"
proof -
  have "(256 :: nat) ^ length bs = 2 ^ LENGTH('a)" by (simp add: assms power_mult)
  then have "le_value bs < 2 ^ LENGTH('a)" using le_value_bound [of bs] by simp
  then have "unat (from_le_bytes bs :: 'a word) = le_value bs"
    by (simp add: from_le_bytes_def unat_of_nat take_bit_nat_eq_self)
  then show ?thesis by (simp add: to_le_bytes_def le_bytes_le_value)
qed

lemma unat_from_le_bytes:
  assumes "LENGTH('a) = 8 * length bs"
  shows "unat (from_le_bytes bs :: 'a::len word) = le_value bs"
proof -
  have "(256 :: nat) ^ length bs = 2 ^ LENGTH('a)" by (simp add: assms power_mult)
  then have "le_value bs < 2 ^ LENGTH('a)" using le_value_bound [of bs] by simp
  then show ?thesis by (simp add: from_le_bytes_def unat_of_nat take_bit_nat_eq_self)
qed

text \<open>The slice \<^verbatim>\<open>bs[a..b]\<close> of a buffer that is long enough.\<close>

definition byte_slice :: "bytes \<Rightarrow> nat \<Rightarrow> nat \<Rightarrow> bytes" where
  "byte_slice bs a b = take (b - a) (drop a bs)"

lemma length_byte_slice [simp]: "b \<le> length bs \<Longrightarrow> length (byte_slice bs a b) = b - a"
  by (simp add: byte_slice_def)

lemma byte_slice_append:
  assumes "a \<le> b" and "b \<le> c"
  shows "byte_slice bs a b @ byte_slice bs b c = byte_slice bs a c"
proof -
  have "drop b bs = drop (b - a) (drop a bs)" using assms by simp
  then have "byte_slice bs a b @ byte_slice bs b c
      = take (b - a) (drop a bs) @ take (c - b) (drop (b - a) (drop a bs))"
    by (simp only: byte_slice_def)
  also have "\<dots> = take ((b - a) + (c - b)) (drop a bs)" by (rule take_add [symmetric])
  finally show ?thesis using assms by (simp add: byte_slice_def)
qed

lemma byte_slice_full [simp]: "n = length bs \<Longrightarrow> byte_slice bs 0 n = bs"
  by (simp add: byte_slice_def)

lemma to_le_from_slice:
  assumes "LENGTH('a) = 8 * (b - a)" and "b \<le> length bs" and "k = b - a"
  shows "to_le_bytes k (from_le_bytes (byte_slice bs a b) :: 'a::len word) = byte_slice bs a b"
  using to_le_from_le [where 'a = 'a, of "byte_slice bs a b"] assms by simp

section \<open>Lists\<close>

text \<open>Overwriting a part of a list.\<close>

definition overwrite :: "nat \<Rightarrow> 'a list \<Rightarrow> 'a list \<Rightarrow> 'a list" where
  "overwrite pos ys xs = take pos xs @ ys @ drop (pos + length ys) xs"

lemma overwrite_Nil [simp]: "overwrite pos [] xs = xs"
  by (simp add: overwrite_def)

lemma length_overwrite [simp]: "pos + length ys \<le> length xs \<Longrightarrow> length (overwrite pos ys xs) = length xs"
  by (simp add: overwrite_def)

lemma take_drop_overwrite_same: "pos + length ys \<le> length xs \<Longrightarrow> take (length ys) (drop pos (overwrite pos ys xs)) = ys"
  by (simp add: overwrite_def)

lemma take_drop_overwrite_other:
  assumes "pos + length ys \<le> length xs" and "a + n \<le> pos \<or> pos + length ys \<le> a"
  shows "take n (drop a (overwrite pos ys xs)) = take n (drop a xs)"
proof (cases "a + n \<le> pos")
  case True
  then show ?thesis using assms(1) by (simp add: overwrite_def take_drop min_def)
next
  case False
  with assms have "pos + length ys \<le> a" by simp
  with assms(1) show ?thesis by (simp add: overwrite_def)
qed

lemma unat_sum_list:
  "sum_list (map unat ws) < 2 ^ LENGTH('a) \<Longrightarrow>
   unat (sum_list (ws :: 'a::len word list)) = sum_list (map unat ws)"
  by (induction ws) (auto simp: unat_add_no_overflow)

lemma sum_list_take_le: "sum_list (take n xs) \<le> sum_list (xs :: nat list)"
proof -
  have "sum_list xs = sum_list (take n xs) + sum_list (drop n xs)"
    by (metis append_take_drop_id sum_list_append)
  then show ?thesis by simp
qed

lemma sum_list_take_mono:
  assumes "m \<le> n"
  shows "sum_list (take m xs) \<le> sum_list (take n (xs :: nat list))"
proof -
  have "take m xs = take m (take n xs)" using assms by (simp add: min_absorb1)
  then show ?thesis using sum_list_take_le [of m "take n xs"] by (simp only:)
qed

lemma those_map_Some: "(\<forall>x \<in> set xs. f x = Some (g x)) \<Longrightarrow> those (map f xs) = Some (map g xs)"
  by (induction xs) simp_all

lemma those_map_map: "those (map f xs) = Some ys \<Longrightarrow> those (map (\<lambda>x. map_option g (f x)) xs) = Some (map g ys)"
  by (induction xs arbitrary: ys) (auto split: option.splits)

lemma those_length: "those xs = Some ys \<Longrightarrow> length ys = length xs"
  by (induction xs arbitrary: ys) (auto split: option.splits)

lemma map_by_nth: "map f xs = map (\<lambda>i. f (xs ! i)) [0..<length xs]"
  by (rule nth_equalityI) simp_all

lemma those_nth:
  "(\<forall>i < length xs. f (xs ! i) = Some (g i)) \<Longrightarrow> those (map f xs) = Some (map g [0..<length xs])"
proof (induction xs arbitrary: g)
  case (Cons x xs)
  have "f x = Some (g 0)" using Cons.prems by fastforce
  moreover have "those (map f xs) = Some (map (\<lambda>i. g (Suc i)) [0..<length xs])"
    using Cons.prems by (intro Cons.IH) fastforce
  ultimately show ?case by (simp add: map_upt_Suc del: upt_Suc)
qed simp

lemma foldl_sum_list: "foldl (+) a xs = a + sum_list (xs :: 'a::monoid_add list)"
  by (induction xs arbitrary: a) (simp_all add: add.assoc)

lemma sum_list_update_word:
  "k < length xs \<Longrightarrow> sum_list (xs[k := x]) = sum_list xs + x - (xs ! k :: 'a::len word)"
  by (induction xs arbitrary: k) (auto split: nat.splits simp: algebra_simps)

lemma length_concat_const: "\<forall>x \<in> set xs. length x = k \<Longrightarrow> length (concat xs) = length xs * k"
  by (induction xs) simp_all

end
