(* ===== verification/Topology.thy ===== *)
theory Topology
  imports Rust_Prelude
begin

text \<open>
  The CPU and NUMA topology of a guest (\<^verbatim>\<open>src/vmm/topology.rs\<close>): the configuration
  records, their panicking constructors and non-panicking validators, and the queries the
  rest of the VMM asks of a topology. The lemmas show that the two ways of checking a
  configuration agree, that a validated topology never overflows or divides by zero, and
  that LLCs and logical CPUs are partitioned exactly.
\<close>

section \<open>Configuration records\<close>

record mem_side_cache =
  mc_size :: u64
  associativity :: u8
  write_policy :: u8
  line_size :: u16

record numa_node =
  nn_llcs :: u32
  memory_mb :: u32
  latency_ns :: "u32 option"
  bandwidth_mbs :: "u32 option"
  cache_of :: "mem_side_cache option"

record numa_distance =
  nd_n :: u32
  nd_entries :: "u8 list"

record topology =
  llcs :: u32
  cores_per_llc :: u32
  threads_per_core :: u32
  numa_nodes :: u32
  nodes :: "numa_node list option"
  distances :: "numa_distance option"

text \<open>The messages of the \<open>Err\<close> values, with the values they interpolate.\<close>

datatype topo_error =
    AssociativityTooBig u8
  | WritePolicyTooBig u8
  | DistanceZeroDim
  | DistanceBadLen nat nat
  | DistanceDiagonal nat nat u8
  | DistanceOffDiagonal nat nat u8
  | DistanceAsymmetric nat nat u8 u8
  | ZeroLlcs
  | ZeroCores
  | ZeroThreads
  | ZeroNodes
  | CpuOverflow
  | LlcsNotDivisible u32 u32
  | NodeCountMismatch nat u32
  | LlcSumMismatch u32 u32
  | NodeWithoutMemory nat u32
  | DistanceDimMismatch u32 u32

section \<open>Memory-side caches and NUMA nodes\<close>

definition mem_side_cache_new :: "u64 \<Rightarrow> u8 \<Rightarrow> u8 \<Rightarrow> u16 \<Rightarrow> mem_side_cache option" where
  "mem_side_cache_new sz assoc wp line =
     (if assoc \<le> 15 \<and> wp \<le> 15
      then Some \<lparr>mc_size = sz, associativity = assoc, write_policy = wp, line_size = line\<rparr>
      else None)"

definition mem_side_cache_validate :: "mem_side_cache \<Rightarrow> topo_error + unit" where
  "mem_side_cache_validate c =
     (if 15 < associativity c then Inl (AssociativityTooBig (associativity c))
      else if 15 < write_policy c then Inl (WritePolicyTooBig (write_policy c))
      else Inr ())"

definition numa_node_new :: "u32 \<Rightarrow> u32 \<Rightarrow> numa_node" where
  "numa_node_new l m =
     \<lparr>nn_llcs = l, memory_mb = m, latency_ns = None, bandwidth_mbs = None, cache_of = None\<rparr>"

definition numa_node_with_hmat :: "u32 \<Rightarrow> u32 \<Rightarrow> u32 \<Rightarrow> u32 \<Rightarrow> numa_node" where
  "numa_node_with_hmat l m lat bw =
     \<lparr>nn_llcs = l, memory_mb = m, latency_ns = Some lat, bandwidth_mbs = Some bw,
      cache_of = None\<rparr>"

definition numa_node_with_cache :: "numa_node \<Rightarrow> mem_side_cache \<Rightarrow> numa_node" where
  "numa_node_with_cache n c = n\<lparr>cache_of := Some c\<rparr>"

definition is_memory_only :: "numa_node \<Rightarrow> bool" where
  "is_memory_only n \<longleftrightarrow> nn_llcs n = 0"

section \<open>The distance matrix\<close>

text \<open>
  One cell of the double loop of \<^verbatim>\<open>NumaDistance::validate\<close>: the first complaint about
  entry \<open>(i, j)\<close>, if any. The caller has checked that the slice holds \<open>dim * dim\<close> entries,
  so both reads are in range.
\<close>

definition distance_cell :: "nat \<Rightarrow> u8 list \<Rightarrow> nat \<Rightarrow> nat \<Rightarrow> topo_error option" where
  "distance_cell dim es i j =
     (let v = es ! (i * dim + j) in
      if i = j then (if v \<noteq> 10 then Some (DistanceDiagonal i j v) else None)
      else if v \<le> 10 then Some (DistanceOffDiagonal i j v)
      else (let sym = es ! (j * dim + i) in
            if v \<noteq> sym then Some (DistanceAsymmetric i j v sym) else None))"

definition cells :: "nat \<Rightarrow> (nat \<times> nat) list" where
  "cells dim = List.product [0..<dim] [0..<dim]"

fun first_error :: "('a \<Rightarrow> 'e option) \<Rightarrow> 'a list \<Rightarrow> 'e + unit" where
  "first_error f [] = Inr ()"
| "first_error f (x # xs) = (case f x of Some e \<Rightarrow> Inl e | None \<Rightarrow> first_error f xs)"

definition numa_distance_validate :: "numa_distance \<Rightarrow> topo_error + unit" where
  "numa_distance_validate d =
     (let dim = unat (nd_n d); expected = dim * dim in
      if nd_n d = 0 then Inl DistanceZeroDim
      else if length (nd_entries d) \<noteq> expected
        then Inl (DistanceBadLen (length (nd_entries d)) expected)
      else first_error (\<lambda>(i, j). distance_cell dim (nd_entries d) i j) (cells dim))"

text \<open>The const-evaluated constructor: every failed \<open>assert!\<close> is a panic.\<close>

definition distance_entries_ok :: "nat \<Rightarrow> u8 list \<Rightarrow> bool" where
  "distance_entries_ok dim es =
     list_all (\<lambda>(i, j). if i = j then es ! (i * dim + j) = 10
                        else 10 < es ! (i * dim + j)
                             \<and> es ! (i * dim + j) = es ! (j * dim + i)) (cells dim)"

definition numa_distance_new :: "u32 \<Rightarrow> u8 list \<Rightarrow> numa_distance option" where
  "numa_distance_new n es =
     (if 0 < n \<and> length es = unat n * unat n \<and> distance_entries_ok (unat n) es
      then Some \<lparr>nd_n = n, nd_entries = es\<rparr> else None)"

definition numa_distance_get :: "numa_distance \<Rightarrow> u32 \<Rightarrow> u32 \<Rightarrow> u8 option" where
  "numa_distance_get d i j = rust_index (nd_entries d) (unat i * unat (nd_n d) + unat j)"

section \<open>Constructors and validation\<close>

definition DEFAULT_FOR_PAYLOAD :: topology where
  "DEFAULT_FOR_PAYLOAD =
     \<lparr>llcs = 1, cores_per_llc = 2, threads_per_core = 1, numa_nodes = 1,
      nodes = None, distances = None\<rparr>"

definition topology_new :: "u32 \<Rightarrow> u32 \<Rightarrow> u32 \<Rightarrow> u32 \<Rightarrow> topology option" where
  "topology_new n l c t =
     (if 0 < l \<and> 0 < c \<and> 0 < t \<and> 0 < n \<and> is_multiple_of l n then
        do {
          cpus_per_llc \<leftarrow> checked_mul c t;
          _ \<leftarrow> checked_mul l cpus_per_llc;
          Some \<lparr>llcs = l, cores_per_llc = c, threads_per_core = t, numa_nodes = n,
                nodes = None, distances = None\<rparr>
        }
      else None)"

text \<open>The node loop of \<^verbatim>\<open>with_nodes\<close>: a checked running sum and an assertion per node.\<close>

fun sum_node_llcs :: "u32 \<Rightarrow> numa_node list \<Rightarrow> u32 option" where
  "sum_node_llcs acc [] = Some acc"
| "sum_node_llcs acc (n # ns) =
     do {
       acc' \<leftarrow> checked_add acc (nn_llcs n);
       if 0 < nn_llcs n \<and> memory_mb n = 0 then None else sum_node_llcs acc' ns
     }"

definition topology_with_nodes :: "u32 \<Rightarrow> u32 \<Rightarrow> numa_node list \<Rightarrow> topology option" where
  "topology_with_nodes c t ns =
     (if ns \<noteq> [] \<and> 0 < c \<and> 0 < t then
        do {
          l \<leftarrow> sum_node_llcs 0 ns;
          if 0 < l then do {
            cpus_per_llc \<leftarrow> checked_mul c t;
            _ \<leftarrow> checked_mul l cpus_per_llc;
            Some \<lparr>llcs = l, cores_per_llc = c, threads_per_core = t,
                  numa_nodes = of_nat (length ns), nodes = Some ns, distances = None\<rparr>
          } else None
        }
      else None)"

definition with_distances :: "topology \<Rightarrow> numa_distance \<Rightarrow> topology option" where
  "with_distances t d = (if nd_n d = numa_nodes t then Some (t\<lparr>distances := Some d\<rparr>) else None)"

definition nodes_memory_error :: "numa_node list \<Rightarrow> topo_error + unit" where
  "nodes_memory_error ns =
     first_error (\<lambda>(i, n). if 0 < nn_llcs n \<and> memory_mb n = 0
                           then Some (NodeWithoutMemory i (nn_llcs n)) else None)
       (List.enumerate 0 ns)"

definition validate_nodes :: "topology \<Rightarrow> topo_error + unit" where
  "validate_nodes t =
     (case nodes t of
        None \<Rightarrow>
          if \<not> is_multiple_of (llcs t) (numa_nodes t)
          then Inl (LlcsNotDivisible (llcs t) (numa_nodes t)) else Inr ()
      | Some ns \<Rightarrow>
          if length ns \<noteq> unat (numa_nodes t)
          then Inl (NodeCountMismatch (length ns) (numa_nodes t))
          else (let llc_sum = sum_list (map nn_llcs ns) in
                if llc_sum \<noteq> llcs t then Inl (LlcSumMismatch llc_sum (llcs t))
                else nodes_memory_error ns))"

definition validate_distances :: "topology \<Rightarrow> topo_error + unit" where
  "validate_distances t =
     (case distances t of
        None \<Rightarrow> Inr ()
      | Some d \<Rightarrow>
          if nd_n d \<noteq> numa_nodes t then Inl (DistanceDimMismatch (nd_n d) (numa_nodes t))
          else numa_distance_validate d)"

definition validate :: "topology \<Rightarrow> topo_error + unit" where
  "validate t =
     (if llcs t = 0 then Inl ZeroLlcs
      else if cores_per_llc t = 0 then Inl ZeroCores
      else if threads_per_core t = 0 then Inl ZeroThreads
      else if numa_nodes t = 0 then Inl ZeroNodes
      else if Option.bind (checked_mul (cores_per_llc t) (threads_per_core t))
                (checked_mul (llcs t)) = None then Inl CpuOverflow
      else (case validate_nodes t of
              Inl e \<Rightarrow> Inl e
            | Inr _ \<Rightarrow> validate_distances t))"

section \<open>Queries\<close>

definition total_cpus :: "topology \<Rightarrow> u32" where
  "total_cpus t = llcs t * cores_per_llc t * threads_per_core t"

definition llcs_in_node :: "topology \<Rightarrow> u32 \<Rightarrow> u32 option" where
  "llcs_in_node t node_id =
     (case nodes t of
        Some ns \<Rightarrow> map_option nn_llcs (rust_index ns (unat node_id))
      | None \<Rightarrow> rust_div (llcs t) (numa_nodes t))"

definition llcs_per_numa_node :: "topology \<Rightarrow> u32 option" where
  "llcs_per_numa_node t =
     (if nodes t = None \<and> 0 < numa_nodes t \<and> is_multiple_of (llcs t) (numa_nodes t)
      then rust_div (llcs t) (numa_nodes t) else None)"

fun numa_walk :: "numa_node list \<Rightarrow> nat \<Rightarrow> u32 \<Rightarrow> u32 \<Rightarrow> u32 option" where
  "numa_walk [] i cumulative llc_id = None"
| "numa_walk (n # ns) i cumulative llc_id =
     (let cumulative' = cumulative + nn_llcs n in
      if llc_id < cumulative' then Some (of_nat i) else numa_walk ns (Suc i) cumulative' llc_id)"

definition numa_node_of :: "topology \<Rightarrow> u32 \<Rightarrow> u32 option" where
  "numa_node_of t llc_id =
     (case nodes t of
        Some ns \<Rightarrow>
          (case numa_walk ns 0 0 llc_id of
             Some i \<Rightarrow> Some i
           | None \<Rightarrow> Some (of_nat (length ns) - 1))
      | None \<Rightarrow> do { per_node \<leftarrow> rust_div (llcs t) (numa_nodes t); rust_div llc_id per_node })"

definition first_llc_in_node :: "topology \<Rightarrow> u32 \<Rightarrow> u32 option" where
  "first_llc_in_node t node_id =
     (case nodes t of
        Some ns \<Rightarrow>
          if unat node_id \<le> length ns
          then Some (sum_list (map nn_llcs (take (unat node_id) ns))) else None
      | None \<Rightarrow> do { per_node \<leftarrow> rust_div (llcs t) (numa_nodes t); Some (node_id * per_node) })"

definition node_memory_mb :: "topology \<Rightarrow> u32 \<Rightarrow> u32 option option" where
  "node_memory_mb t node_id =
     (case nodes t of
        None \<Rightarrow> Some None
      | Some ns \<Rightarrow> map_option (\<lambda>n. Some (memory_mb n)) (rust_index ns (unat node_id)))"

definition total_node_memory_mb :: "topology \<Rightarrow> u32 option" where
  "total_node_memory_mb t = map_option (\<lambda>ns. sum_list (map memory_mb ns)) (nodes t)"

definition distance :: "topology \<Rightarrow> u32 \<Rightarrow> u32 \<Rightarrow> u8 option" where
  "distance t i j =
     (case distances t of
        Some d \<Rightarrow> numa_distance_get d i j
      | None \<Rightarrow> Some (if i = j then 10 else 20))"

definition has_memory_only_nodes :: "topology \<Rightarrow> bool" where
  "has_memory_only_nodes t = (case nodes t of None \<Rightarrow> False | Some ns \<Rightarrow> list_ex is_memory_only ns)"

definition cpu_bearing_nodes :: "topology \<Rightarrow> u32" where
  "cpu_bearing_nodes t =
     (case nodes t of
        Some ns \<Rightarrow> of_nat (length (filter (\<lambda>n. \<not> is_memory_only n) ns))
      | None \<Rightarrow> numa_nodes t)"

definition decompose :: "topology \<Rightarrow> u32 \<Rightarrow> (u32 \<times> u32 \<times> u32) option" where
  "decompose t cpu_id =
     (let threads = threads_per_core t; cores = cores_per_llc t in
      do {
        thread_id \<leftarrow> rust_rem cpu_id threads;
        c \<leftarrow> rust_div cpu_id threads;
        core_id \<leftarrow> rust_rem c cores;
        llc_id \<leftarrow> rust_div cpu_id (threads * cores);
        Some (llc_id, core_id, thread_id)
      })"

section \<open>Specification functions and sample values\<close>

text \<open>Every triple in range is the decomposition of a CPU, so the map is a bijection.\<close>

definition compose_cpu :: "topology \<Rightarrow> u32 \<times> u32 \<times> u32 \<Rightarrow> u32" where
  "compose_cpu t = (\<lambda>(l, c, h). (l * cores_per_llc t + c) * threads_per_core t + h)"

text \<open>The node an LLC belongs to, by the prefix sums of the per-node LLC counts.\<close>

definition node_llcs :: "topology \<Rightarrow> nat list" where
  "node_llcs t = (case nodes t of
     Some ns \<Rightarrow> map (\<lambda>n. unat (nn_llcs n)) ns
   | None \<Rightarrow> replicate (unat (numa_nodes t)) (unat (llcs t) div unat (numa_nodes t)))"

text \<open>
  A well-formed topology: validated, and its node LLC counts really add up. The validator
  compares a wrapping 32-bit sum, so the second half is not implied by the first; both
  constructors establish it.
\<close>

definition wf_topology :: "topology \<Rightarrow> bool" where
  "wf_topology t \<longleftrightarrow> validate t = Inr () \<and> sum_list (node_llcs t) = unat (llcs t)"

definition topo_2n4l3c2t :: topology where
  "topo_2n4l3c2t = \<lparr>llcs = 4, cores_per_llc = 3, threads_per_core = 2, numa_nodes = 2,
     nodes = None, distances = None\<rparr>"

definition topo_cxl :: topology where
  "topo_cxl = \<lparr>llcs = 3, cores_per_llc = 2, threads_per_core = 1, numa_nodes = 3,
     nodes = Some [numa_node_new 2 512, numa_node_new 0 256, numa_node_new 1 512],
     distances = None\<rparr>"

definition topo_dist :: topology where
  "topo_dist = topo_2n4l3c2t\<lparr>distances := Some \<lparr>nd_n = 2, nd_entries = [10, 21, 21, 10]\<rparr>\<rparr>"

section \<open>Agreement of the constructors and the validators\<close>

lemma first_error_Inr_iff [simp]:
  "first_error f xs = Inr u \<longleftrightarrow> (\<forall>x \<in> set xs. f x = None)"
  by (induction xs) (auto split: option.splits)

lemma Ball_cells [simp]: "(\<forall>x \<in> set (cells dim). P x) \<longleftrightarrow> (\<forall>i < dim. \<forall>j < dim. P (i, j))"
  by (auto simp: cells_def)

lemma Ball_enumerate: "(\<forall>x \<in> set (enumerate 0 xs). P x) \<longleftrightarrow> (\<forall>i < length xs. P (i, xs ! i))"
  by (simp add: all_set_conv_all_nth nth_enumerate_eq)

lemma distance_cell_None_iff:
  "distance_cell dim es i j = None \<longleftrightarrow>
   (if i = j then es ! (i * dim + j) = 10
    else 10 < es ! (i * dim + j) \<and> es ! (i * dim + j) = es ! (j * dim + i))"
  by (auto simp: distance_cell_def Let_def not_le)

lemma mem_side_cache_new_iff_validate:
  "mem_side_cache_new sz a w l = Some c \<longleftrightarrow>
   c = \<lparr>mc_size = sz, associativity = a, write_policy = w, line_size = l\<rparr>
   \<and> mem_side_cache_validate c = Inr ()"
  by (auto simp: mem_side_cache_new_def mem_side_cache_validate_def not_less)

lemma numa_distance_validate_iff:
  "numa_distance_validate d = Inr () \<longleftrightarrow>
   nd_n d \<noteq> 0 \<and> length (nd_entries d) = unat (nd_n d) * unat (nd_n d)
   \<and> distance_entries_ok (unat (nd_n d)) (nd_entries d)"
  by (simp add: numa_distance_validate_def Let_def distance_entries_ok_def list_all_iff
      distance_cell_None_iff)

lemma numa_distance_new_iff_validate:
  "numa_distance_new n es = Some d \<longleftrightarrow>
   d = \<lparr>nd_n = n, nd_entries = es\<rparr> \<and> numa_distance_validate d = Inr ()"
  by (auto simp: numa_distance_new_def numa_distance_validate_iff word_gt_0)

lemma checked_cpus_None_iff:
  "Option.bind (checked_mul c t) (checked_mul l) = None \<longleftrightarrow>
   \<not> (unat c * unat t < 2 ^ 32 \<and> unat l * (unat c * unat t) < 2 ^ 32)"
  for l c t :: u32
  by (auto simp: checked_mul_def unat_mult_no_overflow)

lemma validate_iff:
  "validate t = Inr () \<longleftrightarrow>
   llcs t \<noteq> 0 \<and> cores_per_llc t \<noteq> 0 \<and> threads_per_core t \<noteq> 0 \<and> numa_nodes t \<noteq> 0
   \<and> unat (cores_per_llc t) * unat (threads_per_core t) < 2 ^ 32
   \<and> unat (llcs t) * (unat (cores_per_llc t) * unat (threads_per_core t)) < 2 ^ 32
   \<and> validate_nodes t = Inr () \<and> validate_distances t = Inr ()"
  by (auto simp: validate_def checked_cpus_None_iff split: sum.split)

lemma topology_new_iff_validate:
  "topology_new n l c t = Some topo \<longleftrightarrow>
   topo = \<lparr>llcs = l, cores_per_llc = c, threads_per_core = t, numa_nodes = n,
           nodes = None, distances = None\<rparr>
   \<and> validate topo = Inr ()"
  by (auto simp: topology_new_def validate_iff validate_nodes_def validate_distances_def
      checked_mul_def unat_mult_no_overflow word_gt_0 split: if_splits)

lemma sum_node_llcs_Some:
  "sum_node_llcs acc ns = Some l \<Longrightarrow>
   l = acc + sum_list (map nn_llcs ns)
   \<and> unat l = unat acc + sum_list (map (\<lambda>n. unat (nn_llcs n)) ns)
   \<and> (\<forall>n \<in> set ns. 0 < nn_llcs n \<longrightarrow> memory_mb n \<noteq> 0)"
proof (induction ns arbitrary: acc)
  case Nil
  then show ?case by simp
next
  case (Cons n ns)
  from Cons.prems obtain acc' where acc': "checked_add acc (nn_llcs n) = Some acc'"
    and rest: "sum_node_llcs acc' ns = Some l" and mem: "\<not> (0 < nn_llcs n \<and> memory_mb n = 0)"
    by (auto simp: bind_eq_Some_conv split: if_splits)
  from acc' have "acc' = acc + nn_llcs n" by (simp add: checked_add_def split: if_splits)
  with Cons.IH [OF rest] checked_add_Some [OF acc'] mem show ?case
    by (auto simp: add.assoc)
qed

lemma nodes_memory_error_Inr_iff:
  "nodes_memory_error ns = Inr () \<longleftrightarrow> (\<forall>n \<in> set ns. 0 < nn_llcs n \<longrightarrow> memory_mb n \<noteq> 0)"
  unfolding nodes_memory_error_def first_error_Inr_iff Ball_enumerate
  by (auto simp: all_set_conv_all_nth)

lemma topology_with_nodes_validate:
  assumes "topology_with_nodes c t ns = Some topo" and "length ns < 2 ^ 32"
  shows "validate topo = Inr ()"
proof -
  from assms(1) obtain l m where ns: "ns \<noteq> []" and pos: "c \<noteq> 0" "t \<noteq> 0" "l \<noteq> 0"
    and l: "sum_node_llcs 0 ns = Some l" and m: "checked_mul c t = Some m"
    and lm: "checked_mul l m \<noteq> None"
    and topo: "topo = \<lparr>llcs = l, cores_per_llc = c, threads_per_core = t,
      numa_nodes = of_nat (length ns), nodes = Some ns, distances = None\<rparr>"
    by (auto simp: topology_with_nodes_def bind_eq_Some_conv word_gt_0 split: if_splits)
  have len: "unat (of_nat (length ns) :: u32) = length ns"
    using assms(2) by (simp add: unat_of_nat take_bit_nat_eq_self)
  then have "(of_nat (length ns) :: u32) \<noteq> 0" using ns by (metis length_0_conv unat_0)
  moreover have "unat c * unat t < 2 ^ 32" "unat l * (unat c * unat t) < 2 ^ 32"
    using m lm checked_mul_Some [OF m] by (auto simp: checked_mul_def split: if_splits)
  moreover have "validate_nodes topo = Inr ()"
    using sum_node_llcs_Some [OF l] len
    by (simp add: topo validate_nodes_def nodes_memory_error_Inr_iff)
  ultimately show ?thesis
    using pos by (simp add: validate_iff topo validate_distances_def)
qed

section \<open>A validated topology\<close>

lemma validate_no_overflow:
  assumes "validate t = Inr ()"
  shows "unat (total_cpus t) = unat (llcs t) * unat (cores_per_llc t) * unat (threads_per_core t)"
    and "unat (threads_per_core t * cores_per_llc t) =
         unat (threads_per_core t) * unat (cores_per_llc t)"
proof -
  define l c h where lch: "l = unat (llcs t)" "c = unat (cores_per_llc t)"
    "h = unat (threads_per_core t)"
  from assms have b: "c * h < 2 ^ 32" "l * (c * h) < 2 ^ 32" and h: "h \<noteq> 0"
    by (simp_all add: validate_iff lch unat_eq_zero)
  have "l * c \<le> l * (c * h)" using h by simp
  then have "l * c < 2 ^ 32" using b(2) by (rule le_less_trans)
  then have lc: "unat (llcs t * cores_per_llc t) = l * c"
    by (simp add: lch unat_mult_no_overflow)
  then show "unat (total_cpus t) = unat (llcs t) * unat (cores_per_llc t) * unat (threads_per_core t)"
    using b(2) unat_mult_no_overflow [of "llcs t * cores_per_llc t" "threads_per_core t"]
    by (simp add: total_cpus_def lch mult.assoc)
  show "unat (threads_per_core t * cores_per_llc t) =
        unat (threads_per_core t) * unat (cores_per_llc t)"
    using b(1) by (simp add: unat_mult_no_overflow lch mult.commute)
qed

text \<open>Two digits of a mixed-radix number: what \<^verbatim>\<open>decompose\<close> computes, over the naturals.\<close>

lemma mixed_radix_digits:
  fixes n c h :: nat
  shows "n = (n div (h * c) * c + n div h mod c) * h + n mod h"
proof -
  have "n div (h * c) * c + n div h mod c = n div h"
    by (simp add: div_mult2_eq)
  then show ?thesis by simp
qed

lemma decompose_Some:
  assumes "validate t = Inr ()"
  shows "\<exists>l c h. decompose t cpu = Some (l, c, h)
    \<and> unat l = unat cpu div (unat (threads_per_core t) * unat (cores_per_llc t))
    \<and> unat c = unat cpu div unat (threads_per_core t) mod unat (cores_per_llc t)
    \<and> unat h = unat cpu mod unat (threads_per_core t)"
proof -
  from assms have nz: "threads_per_core t \<noteq> 0" "cores_per_llc t \<noteq> 0"
    by (simp_all add: validate_iff)
  note prod = validate_no_overflow(2) [OF assms]
  from nz have "unat (threads_per_core t * cores_per_llc t) \<noteq> 0"
    by (simp only: prod) (simp add: unat_eq_zero)
  then have "threads_per_core t * cores_per_llc t \<noteq> 0" by force
  with nz show ?thesis
    by (simp add: decompose_def Let_def rust_div_def rust_rem_def unat_div unat_mod prod)
qed

lemma decompose_correct:
  assumes "validate t = Inr ()" and "cpu < total_cpus t"
  shows "\<exists>l c h. decompose t cpu = Some (l, c, h)
    \<and> l < llcs t \<and> c < cores_per_llc t \<and> h < threads_per_core t
    \<and> unat cpu = (unat l * unat (cores_per_llc t) + unat c) * unat (threads_per_core t) + unat h"
proof -
  define C H where CH: "C = unat (cores_per_llc t)" "H = unat (threads_per_core t)"
  from assms(1) have pos: "0 < C" "0 < H"
    by (simp_all add: validate_iff CH unat_gt_0_iff)
  obtain l c h where d: "decompose t cpu = Some (l, c, h)"
    and l: "unat l = unat cpu div (H * C)" and c: "unat c = unat cpu div H mod C"
    and h: "unat h = unat cpu mod H"
    using decompose_Some [OF assms(1), of cpu] by (auto simp: CH)
  have "unat cpu < unat (llcs t) * (H * C)"
    using assms(2) validate_no_overflow(1) [OF assms(1)]
    by (simp add: word_less_nat_alt CH mult_ac)
  then have "unat l < unat (llcs t)" by (simp add: l less_mult_imp_div_less)
  moreover have "unat c < C" "unat h < H" using pos by (simp_all add: c h)
  moreover have "unat cpu = (unat l * C + unat c) * H + unat h"
    unfolding l c h by (rule mixed_radix_digits)
  ultimately show ?thesis using d by (simp add: word_less_nat_alt CH)
qed

lemma compose_decompose:
  assumes "validate t = Inr ()" and "cpu < total_cpus t" and "decompose t cpu = Some x"
  shows "compose_cpu t x = cpu"
proof -
  obtain l c h where "x = (l, c, h)" by (cases x)
  with decompose_correct [OF assms(1,2)] assms(3)
  have "unat cpu = (unat l * unat (cores_per_llc t) + unat c) * unat (threads_per_core t) + unat h"
    by auto
  then have "of_nat (unat cpu) = (of_nat ((unat l * unat (cores_per_llc t) + unat c) *
      unat (threads_per_core t) + unat h) :: u32)" by (rule arg_cong)
  then show ?thesis by (simp add: \<open>x = _\<close> compose_cpu_def)
qed

section \<open>The NUMA partition of the LLCs\<close>

lemma numa_walk_correct:
  assumes "unat cum + sum_list (map (\<lambda>n. unat (nn_llcs n)) ns) < 2 ^ 32"
    and "unat cum \<le> unat llc" and "unat llc < unat cum + sum_list (map (\<lambda>n. unat (nn_llcs n)) ns)"
  shows "\<exists>k < length ns. numa_walk ns i cum llc = Some (of_nat (i + k))
    \<and> unat cum + sum_list (take k (map (\<lambda>n. unat (nn_llcs n)) ns)) \<le> unat llc
    \<and> unat llc < unat cum + sum_list (take (Suc k) (map (\<lambda>n. unat (nn_llcs n)) ns))"
  using assms
proof (induction ns arbitrary: i cum)
  case Nil
  then show ?case by simp
next
  case (Cons n ns)
  let ?cum = "cum + nn_llcs n"
  have cum: "unat ?cum = unat cum + unat (nn_llcs n)"
    using Cons.prems(1) by (intro unat_add_no_overflow) simp
  show ?case
  proof (cases "llc < ?cum")
    case True
    with Cons.prems(2) cum show ?thesis
      by (intro exI [of _ 0]) (simp add: word_less_nat_alt)
  next
    case False
    then have "unat ?cum \<le> unat llc" by (simp add: word_less_nat_alt)
    then obtain k where "k < length ns" "numa_walk ns (Suc i) ?cum llc = Some (of_nat (Suc i + k))"
      and "unat ?cum + sum_list (take k (map (\<lambda>n. unat (nn_llcs n)) ns)) \<le> unat llc"
      and "unat llc < unat ?cum + sum_list (take (Suc k) (map (\<lambda>n. unat (nn_llcs n)) ns))"
      using Cons.IH [of ?cum "Suc i"] Cons.prems cum by auto
    with False cum show ?thesis
      by (intro exI [of _ "Suc k"]) (simp add: add.assoc)
  qed
qed

lemma node_llcs_length: "validate t = Inr () \<Longrightarrow> length (node_llcs t) = unat (numa_nodes t)"
  by (auto simp: validate_iff validate_nodes_def node_llcs_def Let_def
      split: option.splits if_splits)

lemma topology_new_wf: "topology_new n l c t = Some topo \<Longrightarrow> wf_topology topo"
  by (auto simp: topology_new_iff_validate wf_topology_def node_llcs_def sum_list_replicate
      validate_iff validate_nodes_def is_multiple_of_dvd split: if_splits)

lemma topology_with_nodes_wf:
  assumes "topology_with_nodes c t ns = Some topo" and "length ns < 2 ^ 32"
  shows "wf_topology topo"
proof -
  from assms(1) obtain l where "sum_node_llcs 0 ns = Some l" "nodes topo = Some ns" "llcs topo = l"
    by (auto simp: topology_with_nodes_def bind_eq_Some_conv split: if_splits)
  with sum_node_llcs_Some [of 0 ns l] topology_with_nodes_validate [OF assms] show ?thesis
    by (auto simp: wf_topology_def node_llcs_def)
qed

lemma take_replicate_sum: "sum_list (take k (replicate n (p::nat))) = min k n * p"
  by (simp add: sum_list_replicate)

lemma uniform_node_of:
  assumes "wf_topology t" and "nodes t = None" and "llc < llcs t"
  shows "\<exists>k. numa_node_of t llc = Some k \<and> k < numa_nodes t
    \<and> sum_list (take (unat k) (node_llcs t)) \<le> unat llc
    \<and> unat llc < sum_list (take (Suc (unat k)) (node_llcs t))"
proof -
  define N p where Np: "N = unat (numa_nodes t)" "p = unat (llcs t) div unat (numa_nodes t)"
  from assms(1,2) have nz: "numa_nodes t \<noteq> 0" and N: "N * p = unat (llcs t)"
    by (simp_all add: wf_topology_def validate_iff node_llcs_def sum_list_replicate Np)
  have "0 < p" using N assms(3) by (cases p) (auto simp: word_less_nat_alt)
  then have "llcs t div numa_nodes t \<noteq> 0" by (auto simp: Np word_unat_eq_iff unat_div)
  with assms(2) nz have k: "numa_node_of t llc = Some (llc div (llcs t div numa_nodes t))"
    by (simp add: numa_node_of_def rust_div_def)
  define k where "k = llc div (llcs t div numa_nodes t)"
  have uk: "unat k = unat llc div p" by (simp add: k_def Np unat_div)
  have "unat llc < N * p" using assms(3) N by (simp add: word_less_nat_alt)
  then have kN: "unat k < N" by (simp add: uk less_mult_imp_div_less)
  have "unat k * p \<le> unat llc" by (simp add: uk)
  moreover have "unat llc < Suc (unat k) * p"
    using \<open>0 < p\<close> by (simp add: uk dividend_less_div_times)
  moreover have "node_llcs t = replicate N p" using assms(2) by (simp add: node_llcs_def Np)
  ultimately show ?thesis
    using k kN
    by (intro exI [of _ k])
      (simp add: k_def [symmetric] word_less_nat_alt Np(1) take_replicate_sum min_def
        del: take_replicate)
qed

lemma explicit_node_of:
  assumes "wf_topology t" and "nodes t = Some ns" and "llc < llcs t"
  shows "\<exists>k. numa_node_of t llc = Some k \<and> k < numa_nodes t
    \<and> sum_list (take (unat k) (node_llcs t)) \<le> unat llc
    \<and> unat llc < sum_list (take (Suc (unat k)) (node_llcs t))"
proof -
  from assms(1,2) have sum: "sum_list (map (\<lambda>n. unat (nn_llcs n)) ns) = unat (llcs t)"
    and len: "length ns = unat (numa_nodes t)"
    using node_llcs_length [of t] by (simp_all add: wf_topology_def node_llcs_def)
  have "\<exists>k < length ns. numa_walk ns 0 0 llc = Some (of_nat k)
    \<and> sum_list (take k (map (\<lambda>n. unat (nn_llcs n)) ns)) \<le> unat llc
    \<and> unat llc < sum_list (take (Suc k) (map (\<lambda>n. unat (nn_llcs n)) ns))"
    using numa_walk_correct [of 0 ns llc 0] sum assms(3) unat_u32_less [of "llcs t"]
    by (simp add: word_less_nat_alt)
  then obtain k where k: "k < length ns" "numa_walk ns 0 0 llc = Some (of_nat k)"
    "sum_list (take k (map (\<lambda>n. unat (nn_llcs n)) ns)) \<le> unat llc"
    "unat llc < sum_list (take (Suc k) (map (\<lambda>n. unat (nn_llcs n)) ns))" by blast
  have "k < 2 ^ 32" using k(1) len unat_u32_less [of "numa_nodes t"] by simp
  then have "unat (of_nat k :: u32) = k" by (simp add: unat_of_nat take_bit_nat_eq_self)
  with k len assms(2) show ?thesis
    by (intro exI [of _ "of_nat k"]) (simp add: numa_node_of_def node_llcs_def word_less_nat_alt)
qed

lemma numa_node_of_bounds:
  assumes "wf_topology t" and "llc < llcs t"
  shows "\<exists>k. numa_node_of t llc = Some k \<and> k < numa_nodes t
    \<and> sum_list (take (unat k) (node_llcs t)) \<le> unat llc
    \<and> unat llc < sum_list (take (Suc (unat k)) (node_llcs t))"
  using assms uniform_node_of explicit_node_of by (cases "nodes t") blast+

lemma first_llc_in_node_eq:
  assumes "wf_topology t" and "k < numa_nodes t"
  shows "\<exists>f m. first_llc_in_node t k = Some f \<and> llcs_in_node t k = Some m
    \<and> unat f = sum_list (take (unat k) (node_llcs t))
    \<and> unat f + unat m = sum_list (take (Suc (unat k)) (node_llcs t))"
proof (cases "nodes t")
  case None
  define N p where Np: "N = unat (numa_nodes t)" "p = unat (llcs t) div unat (numa_nodes t)"
  from assms None have nz: "numa_nodes t \<noteq> 0" and N: "N * p = unat (llcs t)" and kN: "unat k < N"
    by (simp_all add: wf_topology_def validate_iff node_llcs_def sum_list_replicate Np
        word_less_nat_alt)
  have "unat k * p \<le> N * p" using kN by simp
  then have "unat k * p < 2 ^ 32" using N unat_u32_less [of "llcs t"] by simp
  then have "unat (k * (llcs t div numa_nodes t)) = unat k * p"
    by (simp add: Np unat_mult_no_overflow unat_div)
  with None nz kN show ?thesis
    by (simp add: first_llc_in_node_def llcs_in_node_def rust_div_def node_llcs_def unat_div
        take_replicate_sum Np min_def del: take_replicate)
next
  case (Some ns)
  let ?ls = "map (\<lambda>n. unat (nn_llcs n)) ns"
  from assms Some have len: "unat k < length ns"
    using node_llcs_length [of t] by (simp add: wf_topology_def node_llcs_def word_less_nat_alt)
  have "sum_list (take (unat k) ?ls) \<le> sum_list ?ls" by (rule sum_list_take_le)
  also have "\<dots> < 2 ^ 32"
    using assms(1) Some unat_u32_less [of "llcs t"] by (simp add: wf_topology_def node_llcs_def)
  finally have "unat (sum_list (map nn_llcs (take (unat k) ns))) = sum_list (take (unat k) ?ls)"
    by (simp add: unat_sum_list comp_def take_map)
  with Some len show ?thesis
    by (simp add: first_llc_in_node_def llcs_in_node_def rust_index_def node_llcs_def
        take_Suc_conv_app_nth take_map)
qed

section \<open>Distances\<close>

lemma distance_entries_okD:
  assumes "distance_entries_ok dim es" and "i < dim" and "j < dim"
  shows "es ! (i * dim + j) = es ! (j * dim + i)"
    and "i = j \<Longrightarrow> es ! (i * dim + j) = 10" and "i \<noteq> j \<Longrightarrow> 10 < es ! (i * dim + j)"
  using assms by (auto simp: distance_entries_ok_def list_all_iff split: if_splits)

lemma square_index_less: "(i :: nat) < n \<Longrightarrow> j < n \<Longrightarrow> i * n + j < n * n"
  using mult_le_mono1 [of "Suc i" n n] by simp

lemma distance_valid:
  assumes "validate t = Inr ()" and "i < numa_nodes t" and "j < numa_nodes t"
  shows "\<exists>v. distance t i j = Some v \<and> distance t j i = Some v
    \<and> (if i = j then v = 10 else 10 < v)"
proof (cases "distances t")
  case None
  then show ?thesis by (simp add: distance_def)
next
  case (Some d)
  let ?n = "unat (nd_n d)"
  from assms(1) Some have n: "nd_n d = numa_nodes t"
    and len: "length (nd_entries d) = ?n * ?n" and ok: "distance_entries_ok ?n (nd_entries d)"
    by (auto simp: validate_iff validate_distances_def numa_distance_validate_iff split: if_splits)
  from assms(2,3) n have ij: "unat i < ?n" "unat j < ?n" by (simp_all add: word_less_nat_alt)
  from distance_entries_okD [OF ok ij] square_index_less [OF ij] square_index_less [OF ij(2,1)]
  show ?thesis
    by (intro exI [of _ "nd_entries d ! (unat i * ?n + unat j)"])
      (simp add: distance_def Some numa_distance_get_def rust_index_def len word_unat_eq_iff [of i j])
qed

section \<open>Properties\<close>

text \<open>
  the panicking constructor of a uniform topology returns exactly when the
  non-panicking validator accepts the same fields, and then it returns those fields.
\<close>

theorem topology_new_agrees_with_validate:
  "topology_new n l c t = Some topo \<longleftrightarrow>
   topo = \<lparr>llcs = l, cores_per_llc = c, threads_per_core = t, numa_nodes = n,
           nodes = None, distances = None\<rparr>
   \<and> validate topo = Inr ()"
  by (rule topology_new_iff_validate)

text \<open>
  C39: in a validated topology every CPU number below the total decomposes, without
  overflow or division by zero, into an LLC, a core and a thread that are each in range,
  and the triple determines the CPU: recomposing gives the CPU number back.
\<close>

theorem decompose_bijective:
  assumes "validate t = Inr ()" and "cpu < total_cpus t"
  shows "\<exists>l c h. decompose t cpu = Some (l, c, h)
    \<and> l < llcs t \<and> c < cores_per_llc t \<and> h < threads_per_core t
    \<and> unat cpu = (unat l * unat (cores_per_llc t) + unat c) * unat (threads_per_core t) + unat h"
  by (rule decompose_correct [OF assms])

lemma validate_topo_2n4l3c2t: "validate topo_2n4l3c2t = Inr ()"
  by (simp add: validate_iff topo_2n4l3c2t_def validate_nodes_def validate_distances_def
      is_multiple_of_def)

theorem decompose_bijective_witness:
  "(17 :: u32) < total_cpus topo_2n4l3c2t
   \<and> (\<exists>l c h. decompose topo_2n4l3c2t 17 = Some (l, c, h) \<and> l < 4 \<and> c < 3 \<and> h < 2
        \<and> (17 :: nat) = (unat l * 3 + unat c) * 2 + unat h)"
proof -
  have "(17 :: u32) < total_cpus topo_2n4l3c2t" by (simp add: total_cpus_def topo_2n4l3c2t_def)
  with decompose_bijective [OF validate_topo_2n4l3c2t this] show ?thesis
    by (simp add: topo_2n4l3c2t_def)
qed

text \<open>
  the NUMA nodes partition the LLCs. In a well-formed topology, uniform or with
  explicit (possibly memory-only) nodes, the node reported for an LLC is in range and the
  LLC lies in the half-open interval that starts at the node's first LLC and has the
  node's LLC count as its length.
\<close>

theorem numa_node_of_partition:
  assumes "wf_topology t" and "llc < llcs t"
  shows "\<exists>k f m. numa_node_of t llc = Some k \<and> k < numa_nodes t
    \<and> first_llc_in_node t k = Some f \<and> llcs_in_node t k = Some m
    \<and> unat f \<le> unat llc \<and> unat llc < unat f + unat m"
proof -
  obtain k where k: "numa_node_of t llc = Some k" "k < numa_nodes t"
    and b: "sum_list (take (unat k) (node_llcs t)) \<le> unat llc"
      "unat llc < sum_list (take (Suc (unat k)) (node_llcs t))"
    using numa_node_of_bounds [OF assms] by blast
  from first_llc_in_node_eq [OF assms(1) k(2)] b k show ?thesis by fastforce
qed

lemma wf_topo_cxl: "wf_topology topo_cxl"
  by (simp add: wf_topology_def validate_iff topo_cxl_def validate_nodes_def
      validate_distances_def nodes_memory_error_def numa_node_new_def node_llcs_def)

theorem numa_node_of_partition_witness:
  "numa_node_of topo_cxl 2 = Some 2
   \<and> (\<exists>k f m. numa_node_of topo_cxl 2 = Some k \<and> k < numa_nodes topo_cxl
    \<and> first_llc_in_node topo_cxl k = Some f \<and> llcs_in_node topo_cxl k = Some m
    \<and> unat f \<le> 2 \<and> 2 < unat f + unat m)"
proof -
  have lt: "(2 :: u32) < llcs topo_cxl" by (simp add: topo_cxl_def)
  have "numa_node_of topo_cxl 2 = Some 2"
    by (simp add: numa_node_of_def topo_cxl_def numa_node_new_def)
  with numa_node_of_partition [OF wf_topo_cxl lt] show ?thesis by simp
qed

text \<open>
  In a validated topology the distance between any two nodes is defined, symmetric,
  10 on the diagonal and greater than 10 off it, with or without an explicit matrix.
\<close>

theorem distance_symmetric:
  assumes "validate t = Inr ()" and "i < numa_nodes t" and "j < numa_nodes t"
  shows "\<exists>v. distance t i j = Some v \<and> distance t j i = Some v
    \<and> (if i = j then v = 10 else 10 < v)"
  by (rule distance_valid [OF assms])

lemma validate_topo_dist: "validate topo_dist = Inr ()"
  by (simp add: validate_iff topo_dist_def topo_2n4l3c2t_def validate_nodes_def
      validate_distances_def is_multiple_of_def numa_distance_validate_iff
      distance_entries_ok_def cells_def upt_rec)

theorem distance_symmetric_witness:
  "distance topo_dist 0 1 = Some 21
   \<and> (\<exists>v. distance topo_dist 0 1 = Some v \<and> distance topo_dist 1 0 = Some v \<and> 10 < v)"
proof -
  have "distance topo_dist 0 1 = Some 21"
    by (simp add: distance_def topo_dist_def numa_distance_get_def rust_index_def)
  moreover have "(0 :: u32) < numa_nodes topo_dist" "1 < numa_nodes topo_dist"
    by (simp_all add: topo_dist_def topo_2n4l3c2t_def)
  ultimately show ?thesis using distance_symmetric [OF validate_topo_dist, of 0 1] by simp
qed

text \<open>
  The validator sums the node LLC counts in wrapping 32-bit arithmetic, so, unlike
  the constructor with its checked sum, it accepts a topology whose nodes own more than
  four thousand million LLCs in total while the topology claims one.
\<close>

theorem validate_accepts_wrapped_llc_sum:
  "\<exists>t ns. nodes t = Some ns \<and> validate t = Inr ()
    \<and> sum_list (map (\<lambda>n. unat (nn_llcs n)) ns) = unat (llcs t) + 2 ^ 32
    \<and> topology_with_nodes (cores_per_llc t) (threads_per_core t) ns = None"
proof -
  let ?ns = "[numa_node_new 4294967295 512, numa_node_new 2 512]"
  let ?t = "\<lparr>llcs = 1, cores_per_llc = 1, threads_per_core = 1, numa_nodes = 2,
    nodes = Some ?ns, distances = None\<rparr> :: topology"
  have "validate ?t = Inr ()"
    by (simp add: validate_iff validate_nodes_def validate_distances_def nodes_memory_error_def
        numa_node_new_def)
  moreover have "topology_with_nodes 1 1 ?ns = None"
    by (simp add: topology_with_nodes_def checked_add_def numa_node_new_def)
  ultimately show ?thesis
    by (intro exI [of _ ?t] exI [of _ ?ns]) (simp add: numa_node_new_def)
qed

end
