(* ===== verification/Apic_Topology.thy ===== *)
theory Apic_Topology
  imports Topology
begin

text \<open>
  The x86 view of the topology (\<^verbatim>\<open>src/vmm/x86_64/topology.rs\<close>): the APIC id layout and the
  CPUID leaves handed to each vCPU. Registers are 32-bit words, shift counts are reduced
  modulo the width as in a release build, and a panic (a division by zero inside the
  topology queries) is \<open>None\<close>. The base table comes from KVM and is an argument.
\<close>

section \<open>APIC ids\<close>

text \<open>\<^verbatim>\<open>u32::leading_zeros\<close>, through the length of the binary representation.\<close>

fun bit_length :: "nat \<Rightarrow> nat" where
  "bit_length n = (if n = 0 then 0 else Suc (bit_length (n div 2)))"

definition leading_zeros :: "u32 \<Rightarrow> u32" where
  "leading_zeros w = of_nat (32 - bit_length (unat w))"

definition bits_needed :: "u32 \<Rightarrow> u32" where
  "bits_needed n = (if n \<le> 1 then 0 else 32 - leading_zeros (n - 1))"

definition apic_id :: "topology \<Rightarrow> u32 \<Rightarrow> u32 option" where
  "apic_id topo cpu_id =
     do {
       (llc_id, core_id, thread_id) \<leftarrow> decompose topo cpu_id;
       let thread_bits = bits_needed (threads_per_core topo);
           core_bits = bits_needed (cores_per_llc topo)
       in Some (rust_shl llc_id (unat (core_bits + thread_bits))
                OR rust_shl core_id (unat thread_bits) OR thread_id)
     }"

definition max_apic_id :: "topology \<Rightarrow> u32 option" where
  "max_apic_id topo =
     (let total = total_cpus topo in if total = 0 then Some 0 else apic_id topo (total - 1))"

definition smt_shift :: "topology \<Rightarrow> u32" where
  "smt_shift topo = bits_needed (threads_per_core topo)"

definition core_shift :: "topology \<Rightarrow> u32" where
  "core_shift topo = bits_needed (threads_per_core topo) + bits_needed (cores_per_llc topo)"

section \<open>CPUID\<close>

datatype cpu_vendor = Intel | Amd | UnknownVendor

record cpuid_entry =
  function_of :: u32
  index_of :: u32
  flags :: u32
  eax :: u32
  ebx :: u32
  ecx :: u32
  edx :: u32

definition detect_vendor :: "cpuid_entry list \<Rightarrow> cpu_vendor" where
  "detect_vendor entries =
     (case find (\<lambda>e. function_of e = 0 \<and> index_of e = 0) entries of
        Some e \<Rightarrow>
          if (ebx e, edx e, ecx e) = (0x756e6547, 0x49656e69, 0x6c65746e) then Intel
          else if (ebx e, edx e, ecx e) = (0x68747541, 0x69746e65, 0x444d4163) then Amd
          else UnknownVendor
      | None \<Rightarrow> UnknownVendor)"

definition patch_cache_topology_eax :: "u32 \<Rightarrow> u32 \<Rightarrow> u32 \<Rightarrow> cpuid_entry \<Rightarrow> cpuid_entry" where
  "patch_cache_topology_eax smt core cores e =
     (let cache_level = rust_shr (eax e) 5 AND 7;
          max_sharing =
            (if cache_level = 1 \<or> cache_level = 2 then saturating_sub (rust_shl 1 (unat smt)) 1
             else if cache_level = 3 then saturating_sub (rust_shl 1 (unat core)) 1
             else 0);
          eax1 = (eax e AND 0xfc003fff) OR rust_shl (max_sharing AND 0xfff) 14;
          max_core_ids = saturating_sub (rust_shl 1 (unat (bits_needed cores))) 1
      in e\<lparr>eax := (eax1 AND 0x03ffffff) OR rust_shl (max_core_ids AND 0x3f) 26\<rparr>)"

definition PMU_ARCH_PERFMON_VERSION :: u32 where "PMU_ARCH_PERFMON_VERSION = 2"
definition PMU_NUM_GP_COUNTERS :: u32 where "PMU_NUM_GP_COUNTERS = 4"
definition PMU_GP_COUNTER_WIDTH :: u32 where "PMU_GP_COUNTER_WIDTH = 48"
definition PMU_EVENT_MASK_LENGTH :: u32 where "PMU_EVENT_MASK_LENGTH = 7"
definition PMU_NUM_FIXED_COUNTERS :: u32 where "PMU_NUM_FIXED_COUNTERS = 3"
definition PMU_FIXED_COUNTER_WIDTH :: u32 where "PMU_FIXED_COUNTER_WIDTH = 48"

text \<open>The arms of the leaf match, one definition per leaf that rewrites registers.\<close>

definition patch_leaf_1 :: "u32 \<Rightarrow> u32 \<Rightarrow> cpuid_entry \<Rightarrow> cpuid_entry" where
  "patch_leaf_1 apic threads_per_llc e =
     (let ebx1 = (ebx e AND 0x00ffffff) OR rust_shl (apic AND 0xff) 24;
          ebx2 = (ebx1 AND 0xff00ffff) OR rust_shl (min threads_per_llc 255) 16
      in e\<lparr>ebx := ebx2,
           edx := (if 1 < threads_per_llc then edx e OR rust_shl 1 28 else edx e)\<rparr>)"

definition patch_ext_topology :: "topology \<Rightarrow> u32 \<Rightarrow> u32 \<Rightarrow> cpuid_entry \<Rightarrow> cpuid_entry" where
  "patch_ext_topology topo apic threads_per_llc e =
     (if index_of e = 0 then
        e\<lparr>eax := smt_shift topo, ebx := threads_per_core topo AND 0xffff,
          ecx := rust_shl 1 8 OR (index_of e AND 0xff), edx := apic\<rparr>
      else if index_of e = 1 then
        e\<lparr>eax := core_shift topo, ebx := threads_per_llc AND 0xffff,
          ecx := rust_shl 2 8 OR (index_of e AND 0xff), edx := apic\<rparr>
      else
        e\<lparr>eax := 0, ebx := 0, ecx := index_of e AND 0xff, edx := apic\<rparr>)"

definition patch_pmu :: "cpuid_entry \<Rightarrow> cpuid_entry" where
  "patch_pmu e =
     (if eax e AND 0xff \<noteq> 0 then
        e\<lparr>eax := PMU_ARCH_PERFMON_VERSION OR rust_shl PMU_NUM_GP_COUNTERS 8
                 OR rust_shl PMU_GP_COUNTER_WIDTH 16 OR rust_shl PMU_EVENT_MASK_LENGTH 24,
          ebx := 0, ecx := 0,
          edx := PMU_NUM_FIXED_COUNTERS OR rust_shl PMU_FIXED_COUNTER_WIDTH 5\<rparr>
      else e)"

definition patch_address_sizes :: "topology \<Rightarrow> u32 \<Rightarrow> cpuid_entry \<Rightarrow> cpuid_entry" where
  "patch_address_sizes topo threads_per_llc e =
     e\<lparr>ecx := (if 1 < threads_per_llc
               then rust_shl (core_shift topo) 12 OR (threads_per_llc - 1) else 0)\<rparr>"

definition patch_amd_topology :: "topology \<Rightarrow> u32 \<Rightarrow> u32 \<Rightarrow> cpuid_entry \<Rightarrow> cpuid_entry option" where
  "patch_amd_topology topo cpu_id apic e =
     do {
       (llc_id, core_id, _) \<leftarrow> decompose topo cpu_id;
       node_id \<leftarrow> numa_node_of topo llc_id;
       Some (e\<lparr>eax := apic,
               ebx := rust_shl (threads_per_core topo - 1) 8 OR (core_id AND 0xff),
               ecx := node_id OR rust_shl (numa_nodes topo - 1) 8,
               edx := 0\<rparr>)
     }"

definition patch_entry ::
  "cpu_vendor \<Rightarrow> topology \<Rightarrow> u32 \<Rightarrow> u32 \<Rightarrow> cpuid_entry \<Rightarrow> cpuid_entry option" where
  "patch_entry vendor topo cpu_id apic e =
     (let f = function_of e;
          smt = smt_shift topo; core = core_shift topo;
          threads_per_llc = cores_per_llc topo * threads_per_core topo
      in if f = 0x1 then Some (patch_leaf_1 apic threads_per_llc e)
         else if f = 0x4 \<and> vendor = Intel
           then Some (patch_cache_topology_eax smt core (cores_per_llc topo) e)
         else if f = 0xb \<or> f = 0x1f then Some (patch_ext_topology topo apic threads_per_llc e)
         else if f = 0x8000001d \<and> vendor = Amd
           then Some (patch_cache_topology_eax smt core (cores_per_llc topo) e)
         else if f = 0xa then Some (patch_pmu e)
         else if f = 0x80000001 \<and> vendor = Amd \<and> 1 < threads_per_llc
           then Some (e\<lparr>ecx := ecx e OR (rust_shl 1 1 OR rust_shl 1 22)\<rparr>)
         else if f = 0x80000008 then Some (patch_address_sizes topo threads_per_llc e)
         else if f = 0x8000001e \<and> vendor = Amd then patch_amd_topology topo cpu_id apic e
         else Some e)"

definition hypervisor_leaf :: cpuid_entry where
  "hypervisor_leaf =
     \<lparr>function_of = 0x40000000, index_of = 0, flags = 0, eax = 0x40000001,
      ebx = 0x4b564d4b, ecx = 0x564b4d56, edx = 0x0000004d\<rparr>"

fun update_first :: "('a \<Rightarrow> bool) \<Rightarrow> ('a \<Rightarrow> 'a) \<Rightarrow> 'a list \<Rightarrow> 'a list" where
  "update_first p f [] = []"
| "update_first p f (x # xs) = (if p x then f x # xs else x # update_first p f xs)"

definition add_hypervisor_leaf :: "cpuid_entry list \<Rightarrow> cpuid_entry list" where
  "add_hypervisor_leaf es =
     (if list_ex (\<lambda>e. function_of e = 0x40000000) es then es else es @ [hypervisor_leaf])"

definition set_realtime_hint :: "cpuid_entry list \<Rightarrow> cpuid_entry list" where
  "set_realtime_hint es =
     update_first (\<lambda>e. function_of e = 0x40000000) (\<lambda>e. e\<lparr>eax := max (eax e) 0x40000001\<rparr>)
       (update_first (\<lambda>e. function_of e = 0x40000001) (\<lambda>e. e\<lparr>edx := edx e OR 1\<rparr>) es)"

definition generate_cpuid ::
  "cpuid_entry list \<Rightarrow> topology \<Rightarrow> u32 \<Rightarrow> bool \<Rightarrow> cpuid_entry list option" where
  "generate_cpuid base_cpuid topo cpu_id performance_mode =
     do {
       let vendor = detect_vendor base_cpuid;
       apic \<leftarrow> apic_id topo cpu_id;
       patched \<leftarrow> those (map (patch_entry vendor topo cpu_id apic) base_cpuid);
       let entries = add_hypervisor_leaf patched;
       Some (if performance_mode then set_realtime_hint entries else entries)
     }"

section \<open>Specification functions and sample values\<close>

text \<open>
  How x86 software recovers a CPU's position from the extended topology leaf: the sub-leaf
  for the SMT level and the one for the core level give the two shift widths, the core
  level's EDX the x2APIC id.
\<close>

definition x2apic_decode :: "cpuid_entry \<Rightarrow> cpuid_entry \<Rightarrow> u32 \<times> u32 \<times> u32" where
  "x2apic_decode smt_leaf core_leaf =
     (let id = edx core_leaf; s = unat (eax smt_leaf); k = unat (eax core_leaf)
      in (drop_bit k id, drop_bit s (take_bit k id), take_bit s id))"

definition leaf_key :: "cpuid_entry \<Rightarrow> u32 \<times> u32 \<times> u32" where
  "leaf_key e = (function_of e, index_of e, flags e)"

definition patched_leaves :: "u32 set" where
  "patched_leaves = {0x1, 0x4, 0xa, 0xb, 0x1f, 0x40000000, 0x40000001,
     0x80000001, 0x80000008, 0x8000001d, 0x8000001e}"

definition ext_leaf :: "u32 \<Rightarrow> cpuid_entry" where
  "ext_leaf i = \<lparr>function_of = 0xb, index_of = i, flags = 1, eax = 0, ebx = 0, ecx = 0, edx = 0\<rparr>"

definition sample_cpuid :: "cpuid_entry list" where
  "sample_cpuid =
     [\<lparr>function_of = 0, index_of = 0, flags = 0, eax = 0x1f,
        ebx = 0x756e6547, ecx = 0x6c65746e, edx = 0x49656e69\<rparr>, ext_leaf 0, ext_leaf 1]"

section \<open>Bit counts\<close>

declare bit_length.simps [simp del]

lemma bit_length_upper: "n < 2 ^ bit_length n"
proof (induction n rule: bit_length.induct)
  case (1 n)
  show ?case
  proof (cases "n = 0")
    case False
    with 1 have "n div 2 < 2 ^ bit_length (n div 2)" by simp
    with False show ?thesis by (simp add: bit_length.simps [of n])
  qed (simp add: bit_length.simps)
qed

lemma bit_length_lower: "0 < n \<Longrightarrow> 2 ^ bit_length n \<le> 2 * n"
proof (induction n rule: bit_length.induct)
  case (1 n)
  show ?case
  proof (cases "n div 2 = 0")
    case True
    with 1 show ?thesis by (simp add: bit_length.simps [of n] bit_length.simps [of 0])
  next
    case False
    with 1 have "2 ^ bit_length (n div 2) \<le> 2 * (n div 2)" by simp
    with 1 show ?thesis by (simp add: bit_length.simps [of n])
  qed
qed

lemma bit_length_le_32: "n < 2 ^ 32 \<Longrightarrow> bit_length n \<le> 32"
proof (cases "n = 0")
  case False
  assume "n < 2 ^ 32"
  with bit_length_lower [of n] False have "(2 :: nat) ^ bit_length n < 2 ^ 33" by simp
  then have "bit_length n < 33" by (rule power_less_imp_less_exp [rotated]) simp
  then show ?thesis by simp
qed (simp add: bit_length.simps)

lemma unat_bits_needed:
  "unat (bits_needed n) = (if unat n \<le> 1 then 0 else bit_length (unat n - 1))"
proof (cases "n \<le> 1")
  case False
  then have n: "1 < unat n" by (simp add: word_le_nat_alt)
  then have pred: "unat (n - 1) = unat n - 1" by (simp add: unat_sub word_le_nat_alt)
  let ?b = "bit_length (unat n - 1)"
  have b: "?b \<le> 32"
    using unat_u32_less [of n] by (intro bit_length_le_32) (simp add: less_imp_diff_less)
  then have "(32 :: u32) - of_nat (32 - ?b) = of_nat ?b" by (simp add: of_nat_diff)
  with False pred have "bits_needed n = of_nat ?b" by (simp add: bits_needed_def leading_zeros_def)
  with b n show ?thesis by (simp add: unat_of_nat_no_overflow)
qed (simp add: bits_needed_def word_le_nat_alt)

lemma bits_needed_upper: "unat n \<le> 2 ^ unat (bits_needed n)"
  using bit_length_upper [of "unat n - 1"] by (simp add: unat_bits_needed) linarith

lemma bits_needed_lower: "n \<noteq> 0 \<Longrightarrow> 2 ^ unat (bits_needed n) < 2 * unat n"
  using bit_length_lower [of "unat n - 1"] by (auto simp: unat_bits_needed unat_gt_0_iff [symmetric])

section \<open>The APIC id layout\<close>

text \<open>
  The number of CPUs an x86 topology may have so that no field of the APIC id is shifted
  out of the 32-bit register: rounding cores and threads up to powers of two costs at most
  a factor of four.
\<close>

lemma shift_budget:
  fixes L C H cb tb :: nat
  assumes "4 * (L * C * H) \<le> 2 ^ 32" and "0 < L" and "2 ^ cb < 2 * C" and "2 ^ tb < 2 * H"
  shows "L * 2 ^ (cb + tb) \<le> 2 ^ 32" and "cb + tb < 32"
proof -
  have lt: "(2 :: nat) ^ (cb + tb) < (2 * C) * (2 * H)"
    using assms(3,4) by (simp only: power_add) (rule mult_strict_mono; simp)
  then have "L * 2 ^ (cb + tb) < L * ((2 * C) * (2 * H))" using assms(2) by simp
  also have "\<dots> \<le> 2 ^ 32" using assms(1) by (simp add: algebra_simps)
  finally have total: "L * 2 ^ (cb + tb) < 2 ^ 32" .
  then show "L * 2 ^ (cb + tb) \<le> 2 ^ 32" by simp
  have "(2 :: nat) ^ (cb + tb) \<le> L * 2 ^ (cb + tb)" using assms(2) by simp
  with total have "(2 :: nat) ^ (cb + tb) < 2 ^ 32" by linarith
  then show "cb + tb < 32" by (rule power_less_imp_less_exp [rotated]) simp
qed

lemma field_pair_less:
  fixes c h :: nat
  assumes "c < 2 ^ cb" and "h < 2 ^ tb"
  shows "c * 2 ^ tb + h < 2 ^ (cb + tb)"
proof -
  have "(c + 1) * 2 ^ tb \<le> 2 ^ cb * 2 ^ tb" using assms(1) by (intro mult_le_mono1) simp
  with assms(2) show ?thesis by (simp add: power_add)
qed

lemma apic_fields:
  assumes "validate t = Inr ()" and "4 * unat (total_cpus t) \<le> 2 ^ 32"
  shows "unat (core_shift t) = unat (bits_needed (cores_per_llc t)) + unat (smt_shift t)"
    and "unat (core_shift t) < 32"
    and "unat (llcs t) * 2 ^ unat (core_shift t) \<le> 2 ^ 32"
proof -
  let ?cb = "unat (bits_needed (cores_per_llc t))" and ?tb = "unat (smt_shift t)"
  from assms(1) have nz: "llcs t \<noteq> 0" "cores_per_llc t \<noteq> 0" "threads_per_core t \<noteq> 0"
    by (auto simp: validate_iff)
  note b = shift_budget [of "unat (llcs t)" "unat (cores_per_llc t)" "unat (threads_per_core t)" ?cb ?tb]
  have *: "unat (llcs t) * 2 ^ (?cb + ?tb) \<le> 2 ^ 32" "?cb + ?tb < 32"
    using b assms nz bits_needed_lower [OF nz(2)] bits_needed_lower [OF nz(3)]
    by (simp_all add: validate_no_overflow smt_shift_def unat_gt_0_iff [symmetric])
  then show sh: "unat (core_shift t) = ?cb + ?tb"
    by (simp add: core_shift_def smt_shift_def unat_add_no_overflow)
  from * sh show "unat (core_shift t) < 32"
    and "unat (llcs t) * 2 ^ unat (core_shift t) \<le> 2 ^ 32" by simp_all
qed

lemma apic_id_layout:
  assumes v: "validate t = Inr ()" and bound: "4 * unat (total_cpus t) \<le> 2 ^ 32"
    and "cpu < total_cpus t"
  obtains a l c h where "apic_id t cpu = Some a" and "decompose t cpu = Some (l, c, h)"
    and "unat a = unat l * 2 ^ unat (core_shift t) + (unat c * 2 ^ unat (smt_shift t) + unat h)"
    and "unat h < 2 ^ unat (smt_shift t)"
    and "unat c * 2 ^ unat (smt_shift t) + unat h < 2 ^ unat (core_shift t)"
    and "unat cpu = (unat l * unat (cores_per_llc t) + unat c) * unat (threads_per_core t) + unat h"
    and "unat c < unat (cores_per_llc t)" and "unat h < unat (threads_per_core t)"
proof -
  let ?s = "unat (smt_shift t)" and ?k = "unat (core_shift t)"
  note f = apic_fields [OF v bound]
  obtain l c h where d: "decompose t cpu = Some (l, c, h)"
    and lt: "unat l < unat (llcs t)" "unat c < unat (cores_per_llc t)" "unat h < unat (threads_per_core t)"
    and eq: "unat cpu = (unat l * unat (cores_per_llc t) + unat c) * unat (threads_per_core t) + unat h"
    using decompose_correct [OF v assms(3)] by (auto simp: word_less_nat_alt)
  have h: "unat h < 2 ^ ?s" and c: "unat c < 2 ^ unat (bits_needed (cores_per_llc t))"
    using lt bits_needed_upper [of "threads_per_core t"] bits_needed_upper [of "cores_per_llc t"]
    by (simp_all add: smt_shift_def)
  have ch: "unat c * 2 ^ ?s + unat h < 2 ^ ?k" using field_pair_less [OF c h] f(1) by simp
  have k32: "(2 :: nat) ^ ?k \<le> 2 ^ 32" using f(2) by (intro power_increasing) simp_all
  have "(unat c + 1) * 2 ^ ?s \<le> 2 ^ unat (bits_needed (cores_per_llc t)) * 2 ^ ?s"
    using c by (intro mult_le_mono1) simp
  with k32 f(1) have c1: "(unat c + 1) * 2 ^ ?s \<le> 2 ^ LENGTH(32)" by (simp add: power_add)
  define m where "m = push_bit ?s c OR h"
  have m: "unat m = unat c * 2 ^ ?s + unat h"
    using h c1 unfolding m_def by (intro unat_pack) simp_all
  have "(unat l + 1) * 2 ^ ?k \<le> unat (llcs t) * 2 ^ ?k" using lt(1) by (intro mult_le_mono1) simp
  with f(3) have "(unat l + 1) * 2 ^ ?k \<le> 2 ^ LENGTH(32)" by simp
  then have a: "unat (push_bit ?k l OR m) = unat l * 2 ^ ?k + (unat c * 2 ^ ?s + unat h)"
    using m ch by (subst unat_pack) simp_all
  have "bits_needed (cores_per_llc t) + bits_needed (threads_per_core t) = core_shift t"
    by (simp add: core_shift_def)
  then have "apic_id t cpu = Some (push_bit ?k l OR m)"
    using f by (simp add: apic_id_def d rust_shl_def m_def Let_def flip: smt_shift_def)
  from that [OF this d a h ch eq lt(2,3)] show ?thesis .
qed

lemma apic_order:
  fixes l c h l' c' h' C H s k :: nat
  assumes "(l * C + c) * H + h < (l' * C + c') * H + h'"
    and "h < H" "h' < H" "c < C" "c' < C"
    and "c * 2 ^ s + h < 2 ^ k" and "c' * 2 ^ s + h' < 2 ^ k" and "h < 2 ^ s"
  shows "l * 2 ^ k + (c * 2 ^ s + h) < l' * 2 ^ k + (c' * 2 ^ s + h')"
proof -
  have le: "a \<le> b" if "a * n + x < b * n + y" "y < n" for a b n x y :: nat
    using that mult_le_mono1 [of "Suc b" a n] by (fastforce intro: leI)
  have lt: "a * n + x < b * n + y" if "a < b" "x < n" for a b n x y :: nat
    using that mult_le_mono1 [of "Suc a" b n] by simp
  have "l * C + c \<le> l' * C + c'" using le [OF assms(1,3)] .
  then consider "l * C + c < l' * C + c'" | "l * C + c = l' * C + c'" "h < h'"
    using assms(1) by fastforce
  then show ?thesis
  proof cases
    case 1
    then have "l \<le> l'" using le assms(5) by blast
    then consider "l < l'" | "l = l'" "c < c'" using 1 by fastforce
    then show ?thesis using lt [OF _ assms(6)] lt [OF _ assms(8)] by cases simp_all
  next
    case 2
    have "(l * C + c) div C = l" "(l' * C + c') div C = l'" using assms(4,5) by simp_all
    with 2 have "l = l'" by simp
    with 2 show ?thesis by simp
  qed
qed

lemma apic_id_strict_mono:
  assumes v: "validate t = Inr ()" and bound: "4 * unat (total_cpus t) \<le> 2 ^ 32"
    and "cpu < cpu'" and cpu': "cpu' < total_cpus t"
  shows "\<exists>a a'. apic_id t cpu = Some a \<and> apic_id t cpu' = Some a' \<and> a < a'"
proof -
  from assms(3,4) have cpu: "cpu < total_cpus t" by (rule less_trans)
  obtain a l c h where 1: "apic_id t cpu = Some a"
    "decompose t cpu = Some (l, c, h)"
    "unat a = unat l * 2 ^ unat (core_shift t) + (unat c * 2 ^ unat (smt_shift t) + unat h)"
    "unat h < 2 ^ unat (smt_shift t)"
    "unat c * 2 ^ unat (smt_shift t) + unat h < 2 ^ unat (core_shift t)"
    "unat cpu = (unat l * unat (cores_per_llc t) + unat c) * unat (threads_per_core t) + unat h"
    "unat c < unat (cores_per_llc t)" "unat h < unat (threads_per_core t)"
    by (rule apic_id_layout [OF v bound cpu])
  obtain a' l' c' h' where 2: "apic_id t cpu' = Some a'"
    "decompose t cpu' = Some (l', c', h')"
    "unat a' = unat l' * 2 ^ unat (core_shift t) + (unat c' * 2 ^ unat (smt_shift t) + unat h')"
    "unat h' < 2 ^ unat (smt_shift t)"
    "unat c' * 2 ^ unat (smt_shift t) + unat h' < 2 ^ unat (core_shift t)"
    "unat cpu' = (unat l' * unat (cores_per_llc t) + unat c') * unat (threads_per_core t) + unat h'"
    "unat c' < unat (cores_per_llc t)" "unat h' < unat (threads_per_core t)"
    by (rule apic_id_layout [OF v bound cpu'])
  have "unat a < unat a'"
    unfolding 1(3) 2(3)
    using assms(3) by (intro apic_order [OF _ 1(8) 2(8) 1(7) 2(7) 1(5) 2(5) 1(4)])
      (simp add: word_less_nat_alt 1(6) 2(6))
  with 1(1) 2(1) show ?thesis by (simp add: word_less_nat_alt)
qed

lemma max_apic_id_upper:
  assumes v: "validate t = Inr ()" and bound: "4 * unat (total_cpus t) \<le> 2 ^ 32"
    and cpu: "cpu < total_cpus t"
  shows "\<exists>a m. apic_id t cpu = Some a \<and> max_apic_id t = Some m \<and> a \<le> m"
proof (cases "cpu = total_cpus t - 1")
  case True
  from cpu have "total_cpus t \<noteq> 0" by auto
  moreover obtain a where "apic_id t cpu = Some a" by (rule apic_id_layout [OF v bound cpu])
  ultimately show ?thesis using True by (simp add: max_apic_id_def Let_def)
next
  case False
  let ?last = "total_cpus t - 1"
  from cpu have nz: "total_cpus t \<noteq> 0" by auto
  then have "cpu \<le> ?last" using cpu by (simp add: word_less_nat_alt word_le_nat_alt unat_minus_one)
  with False have "cpu < ?last" by simp
  moreover have "?last < total_cpus t" using nz by (simp add: word_less_nat_alt unat_minus_one unat_gt_0_iff)
  ultimately show ?thesis
    using apic_id_strict_mono [OF v bound, of cpu ?last] nz by (auto simp: max_apic_id_def)
qed

section \<open>The generated CPUID table\<close>

lemma unat_drop_bit: "unat (drop_bit n (w :: 'a::len word)) = unat w div 2 ^ n"
proof -
  have "unat (drop_bit n w) = drop_bit n (unat w)" by (rule unat_drop_bit_eq)
  then show ?thesis by (simp only: drop_bit_eq_div)
qed

lemma unat_take_bit: "unat (take_bit n (w :: 'a::len word)) = unat w mod 2 ^ n"
proof -
  have "unat (take_bit n w) = take_bit n (unat w)" by (rule unsigned_take_bit_eq)
  then show ?thesis by (simp only: take_bit_eq_mod)
qed

lemma apic_unpack:
  assumes "unat a = unat l * 2 ^ k + (unat c * 2 ^ s + unat h)" and "unat h < 2 ^ s"
    and "unat c * 2 ^ s + unat h < 2 ^ k" and "s \<le> k"
  shows "drop_bit k a = l" and "drop_bit s (take_bit k a) = c" and "take_bit s a = (h :: u32)"
proof -
  from assms(4) obtain d where k: "k = s + d" using le_Suc_ex by blast
  show "drop_bit k a = l"
    using assms(1,3) by (subst word_unat_eq_iff) (simp add: unat_drop_bit)
  have "unat a mod 2 ^ k = unat c * 2 ^ s + unat h" using assms(1,3) by simp
  with assms(2) show "drop_bit s (take_bit k a) = c"
    by (subst word_unat_eq_iff) (simp add: unat_drop_bit unat_take_bit)
  have "unat a mod 2 ^ s = ((unat l * 2 ^ d + unat c) * 2 ^ s + unat h) mod 2 ^ s"
    by (simp add: assms(1) k power_add algebra_simps)
  with assms(2) show "take_bit s a = h"
    by (subst word_unat_eq_iff) (simp add: unat_take_bit)
qed

lemma leaf_key_patch:
  "leaf_key (patch_cache_topology_eax x y z e) = leaf_key e"
  "leaf_key (patch_leaf_1 x y e) = leaf_key e"
  "leaf_key (patch_ext_topology t x y e) = leaf_key e"
  "leaf_key (patch_pmu e) = leaf_key e"
  "leaf_key (patch_address_sizes t x e) = leaf_key e"
  "leaf_key (e\<lparr>ecx := x\<rparr>) = leaf_key e"
  by (simp_all add: leaf_key_def patch_cache_topology_eax_def patch_leaf_1_def
      patch_ext_topology_def patch_pmu_def patch_address_sizes_def Let_def)

lemma leaf_key_patch_amd: "patch_amd_topology t cpu a e = Some e' \<Longrightarrow> leaf_key e' = leaf_key e"
  by (auto simp: patch_amd_topology_def leaf_key_def bind_eq_Some_conv)

lemma patch_entry_key: "patch_entry v t cpu a e = Some e' \<Longrightarrow> leaf_key e' = leaf_key e"
  unfolding patch_entry_def Let_def
  by (simp only: option.inject split: if_splits)
    ((erule leaf_key_patch_amd | (hypsubst, (rule refl | rule leaf_key_patch)))+)

lemma patch_entry_other:
  "function_of e \<notin> patched_leaves \<Longrightarrow> patch_entry v t cpu a e = Some e"
  by (simp add: patch_entry_def patched_leaves_def Let_def)

lemma numa_node_of_total:
  assumes "validate t = Inr ()"
  shows "numa_node_of t llc \<noteq> None"
proof (cases "nodes t")
  case None
  with assms have *: "llcs t \<noteq> 0" "numa_nodes t \<noteq> 0" "is_multiple_of (llcs t) (numa_nodes t)"
    by (auto simp: validate_iff validate_nodes_def split: if_splits)
  then have "unat (numa_nodes t) dvd unat (llcs t)" by (simp add: is_multiple_of_dvd)
  then have "unat (numa_nodes t) \<le> unat (llcs t)" using *(1) by (simp add: dvd_imp_le unat_gt_0_iff)
  then have "0 < unat (llcs t) div unat (numa_nodes t)"
    using *(2) by (simp add: div_greater_zero_iff unat_gt_0_iff)
  then have "llcs t div numa_nodes t \<noteq> 0" by (metis unat_div unat_0 less_irrefl)
  with None *(2) show ?thesis by (simp add: numa_node_of_def rust_div_def)
qed (simp add: numa_node_of_def split: option.split)

lemma patch_entry_total: "validate t = Inr () \<Longrightarrow> patch_entry v t cpu a e \<noteq> None"
proof -
  assume v: "validate t = Inr ()"
  obtain l c h where "decompose t cpu = Some (l, c, h)" using decompose_Some [OF v] by blast
  moreover obtain k where "numa_node_of t l = Some k" using numa_node_of_total [OF v] by blast
  ultimately show ?thesis by (simp add: patch_entry_def Let_def patch_amd_topology_def)
qed

lemma those_map_Some_iff:
  "those (map f xs) = Some ys \<longleftrightarrow> list_all2 (\<lambda>x y. f x = Some y) xs ys"
  by (induction xs arbitrary: ys) (auto simp: list_all2_Cons1 split: option.splits)

lemma those_map_total: "(\<And>x. x \<in> set xs \<Longrightarrow> f x \<noteq> None) \<Longrightarrow> those (map f xs) \<noteq> None"
  by (induction xs) (auto split: option.splits)

lemma map_update_first: "(\<And>x. g (f x) = g x) \<Longrightarrow> map g (update_first p f xs) = map g xs"
  by (induction xs) auto

lemma set_update_first:
  "x \<in> set (update_first p f xs) \<Longrightarrow> x \<in> set xs \<or> (\<exists>y \<in> set xs. p y \<and> x = f y)"
  by (induction xs) (auto split: if_splits)

lemma generate_cpuid_Some:
  assumes "generate_cpuid base t cpu perf = Some es"
  obtains a patched where "apic_id t cpu = Some a"
    and "list_all2 (\<lambda>e e'. patch_entry (detect_vendor base) t cpu a e = Some e') base patched"
    and "es = (if perf then set_realtime_hint else id) (add_hypervisor_leaf patched)"
proof -
  from assms obtain a patched where "apic_id t cpu = Some a"
    and "those (map (patch_entry (detect_vendor base) t cpu a) base) = Some patched"
    and "es = (if perf then set_realtime_hint else id) (add_hypervisor_leaf patched)"
    by (auto simp: generate_cpuid_def Let_def bind_eq_Some_conv)
  with that show thesis by (simp only: those_map_Some_iff)
qed

lemma hint_other:
  assumes "function_of e \<noteq> 0x40000000" and "function_of e \<noteq> 0x40000001"
    and "e \<in> set ((if perf then set_realtime_hint else id) es)"
  shows "e \<in> set es"
proof (cases perf)
  case True
  let ?hint = "\<lambda>e :: cpuid_entry. e\<lparr>edx := edx e OR 1\<rparr>"
  from True assms(3) have "e \<in> set (set_realtime_hint es)" by simp
  then have "e \<in> set (update_first (\<lambda>e. function_of e = 0x40000001) ?hint es)"
    using assms(1) unfolding set_realtime_hint_def by (auto dest!: set_update_first)
  then show ?thesis using assms(2) by (auto dest!: set_update_first)
qed (use assms in simp)

lemma ext_topology_leaf:
  assumes "generate_cpuid base t cpu perf = Some es" and "e \<in> set es" and "function_of e = 0xb"
  obtains a e' where "apic_id t cpu = Some a"
    and "e = patch_ext_topology t a (cores_per_llc t * threads_per_core t) e'"
    and "index_of e' = index_of e"
proof -
  obtain a patched where a: "apic_id t cpu = Some a"
    and l2: "list_all2 (\<lambda>e e'. patch_entry (detect_vendor base) t cpu a e = Some e') base patched"
    and es: "es = (if perf then set_realtime_hint else id) (add_hypervisor_leaf patched)"
    by (rule generate_cpuid_Some [OF assms(1)])
  have "e \<in> set (add_hypervisor_leaf patched)"
    using assms(2) unfolding es by (rule hint_other [rotated 2]) (simp_all add: assms(3))
  with assms(3) have "e \<in> set patched"
    by (auto simp: add_hypervisor_leaf_def hypervisor_leaf_def split: if_splits)
  then obtain i where "i < length patched" "e = patched ! i" by (auto simp only: in_set_conv_nth)
  with list_all2_nthD2 [OF l2] obtain e' where
    pe: "patch_entry (detect_vendor base) t cpu a e' = Some e" by blast
  from patch_entry_key [OF pe] have k: "function_of e' = 0xb" "index_of e' = index_of e"
    using assms(3) by (simp_all add: leaf_key_def)
  have "e = patch_ext_topology t a (cores_per_llc t * threads_per_core t) e'"
    using pe k(1) by (simp add: patch_entry_def Let_def)
  from that [OF a this k(2)] show thesis .
qed

lemma update_first_nth:
  "i < length xs \<Longrightarrow> \<not> p (xs ! i) \<Longrightarrow> update_first p f xs ! i = xs ! i"
  by (induction xs arbitrary: i) (auto simp: nth_Cons split: nat.splits)

lemma length_update_first [simp]: "length (update_first p f xs) = length xs"
  by (induction xs) auto

lemma set_realtime_hint_nth:
  assumes "i < length es" and "function_of (es ! i) \<notin> {0x40000000, 0x40000001}"
  shows "set_realtime_hint es ! i = es ! i"
  using assms by (simp add: set_realtime_hint_def update_first_nth)

lemma map_leaf_key_hint: "map leaf_key (set_realtime_hint es) = map leaf_key es"
  by (simp add: set_realtime_hint_def map_update_first leaf_key_def)

lemma list_ex_function_of_cong:
  assumes "map leaf_key xs = map leaf_key ys"
  shows "list_ex (\<lambda>e. function_of e = f) xs = list_ex (\<lambda>e. function_of e = f) ys"
proof -
  have *: "list_ex (\<lambda>e. function_of e = f) zs = list_ex (\<lambda>k. fst k = f) (map leaf_key zs)" for zs
    by (induction zs) (simp_all add: leaf_key_def)
  show ?thesis unfolding * using assms by simp
qed

lemma generate_cpuid_shape:
  assumes v: "validate t = Inr ()"
  obtains a patched where
    "generate_cpuid base t cpu perf =
       Some ((if perf then set_realtime_hint else id) (add_hypervisor_leaf patched))"
    and "map leaf_key patched = map leaf_key base"
    and "\<And>i. i < length base \<Longrightarrow> patch_entry (detect_vendor base) t cpu a (base ! i) = Some (patched ! i)"
proof -
  obtain l c h where "decompose t cpu = Some (l, c, h)" using decompose_Some [OF v] by blast
  then obtain a where a: "apic_id t cpu = Some a" by (simp add: apic_id_def Let_def)
  let ?f = "patch_entry (detect_vendor base) t cpu a"
  obtain patched where p: "those (map ?f base) = Some patched"
    using those_map_total [of base ?f, OF patch_entry_total [OF v]] by (rule not_None_eq [THEN iffD1, THEN exE])
  then have l2: "list_all2 (\<lambda>e e'. ?f e = Some e') base patched" by (simp only: those_map_Some_iff)
  then have len: "length base = length patched"
    and nth: "\<And>i. i < length base \<Longrightarrow> ?f (base ! i) = Some (patched ! i)"
    by (simp_all add: list_all2_conv_all_nth)
  have key: "map leaf_key patched = map leaf_key base"
    using patch_entry_key [OF nth] len by (intro nth_equalityI) simp_all
  have "generate_cpuid base t cpu perf =
       Some ((if perf then set_realtime_hint else id) (add_hypervisor_leaf patched))"
    by (simp add: generate_cpuid_def a p Let_def)
  from that [OF this key nth] show thesis .
qed

section \<open>Properties\<close>

text \<open>
  C38: software in the guest that decodes the extended topology leaf (0xB) of the CPUID table
  generated for a CPU obtains exactly the LLC, core and thread that the topology assigns to
  that CPU, for every base table and every topology of up to a quarter of the 32-bit range.
\<close>

theorem cpuid_topology_roundtrip:
  assumes v: "validate t = Inr ()" and bound: "4 * unat (total_cpus t) \<le> 2 ^ 32"
    and cpu: "cpu < total_cpus t" and gen: "generate_cpuid base t cpu perf = Some es"
    and e0: "e0 \<in> set es" "function_of e0 = 0xb" "index_of e0 = 0"
    and e1: "e1 \<in> set es" "function_of e1 = 0xb" "index_of e1 = 1"
  shows "decompose t cpu = Some (x2apic_decode e0 e1)"
proof -
  obtain a l c h where a: "apic_id t cpu = Some a" and d: "decompose t cpu = Some (l, c, h)"
    and eq: "unat a = unat l * 2 ^ unat (core_shift t) + (unat c * 2 ^ unat (smt_shift t) + unat h)"
    and h: "unat h < 2 ^ unat (smt_shift t)"
    and ch: "unat c * 2 ^ unat (smt_shift t) + unat h < 2 ^ unat (core_shift t)"
    by (rule apic_id_layout [OF v bound cpu])
  have "unat (smt_shift t) \<le> unat (core_shift t)" using apic_fields(1) [OF v bound] by simp
  note u = apic_unpack [OF eq h ch this]
  obtain a0 e0' where "apic_id t cpu = Some a0" "index_of e0' = index_of e0"
    "e0 = patch_ext_topology t a0 (cores_per_llc t * threads_per_core t) e0'"
    by (rule ext_topology_leaf [OF gen e0(1,2)])
  then have "eax e0 = smt_shift t" using e0(3) by (simp add: patch_ext_topology_def)
  moreover obtain a1 e1' where 1: "apic_id t cpu = Some a1"
    "e1 = patch_ext_topology t a1 (cores_per_llc t * threads_per_core t) e1'"
    "index_of e1' = index_of e1"
    by (rule ext_topology_leaf [OF gen e1(1,2)])
  then have "eax e1 = core_shift t" "edx e1 = a" using e1(3) a by (simp_all add: patch_ext_topology_def)
  ultimately show ?thesis using d u by (simp add: x2apic_decode_def)
qed

lemma sample_topology_facts:
  "4 * unat (total_cpus topo_2n4l3c2t) \<le> 2 ^ 32" "17 < total_cpus topo_2n4l3c2t"
  "decompose topo_2n4l3c2t 17 = Some (2, 2, 1)"
  "bits_needed 2 = 1" "bits_needed 3 = 2"
  by (simp_all add: total_cpus_def topo_2n4l3c2t_def decompose_def rust_div_def rust_rem_def
      bits_needed_def leading_zeros_def bit_length.simps word_le_nat_alt Let_def)

lemma sample_generate:
  "generate_cpuid sample_cpuid topo_2n4l3c2t 17 False =
     Some [hd sample_cpuid,
       (ext_leaf 0)\<lparr>eax := 1, ebx := 2, ecx := 0x100, edx := 21\<rparr>,
       (ext_leaf 1)\<lparr>eax := 3, ebx := 6, ecx := 0x201, edx := 21\<rparr>, hypervisor_leaf]"
  using sample_topology_facts(3-5)
  by (simp add: generate_cpuid_def apic_id_def sample_cpuid_def ext_leaf_def patch_entry_def
      patch_ext_topology_def add_hypervisor_leaf_def smt_shift_def core_shift_def rust_shl_def
      topo_2n4l3c2t_def Let_def)

theorem cpuid_topology_roundtrip_witness:
  "decompose topo_2n4l3c2t 17 =
     Some (x2apic_decode ((ext_leaf 0)\<lparr>eax := 1, ebx := 2, ecx := 0x100, edx := 21\<rparr>)
       ((ext_leaf 1)\<lparr>eax := 3, ebx := 6, ecx := 0x201, edx := 21\<rparr>))
   \<and> decompose topo_2n4l3c2t 17 = Some (2, 2, 1)"
  using cpuid_topology_roundtrip [OF validate_topo_2n4l3c2t sample_topology_facts(1,2) sample_generate,
      of "(ext_leaf 0)\<lparr>eax := 1, ebx := 2, ecx := 0x100, edx := 21\<rparr>"
         "(ext_leaf 1)\<lparr>eax := 3, ebx := 6, ecx := 0x201, edx := 21\<rparr>"]
  by (simp add: ext_leaf_def sample_topology_facts(3))

text \<open>
  APIC ids grow strictly with the CPU number, so no two CPUs of a guest share one, and
  the id reported as the maximum bounds them all.
\<close>

theorem apic_id_unique_and_bounded:
  assumes "validate t = Inr ()" and "4 * unat (total_cpus t) \<le> 2 ^ 32"
    and "cpu < cpu'" and "cpu' < total_cpus t"
  shows "\<exists>a a' m. apic_id t cpu = Some a \<and> apic_id t cpu' = Some a' \<and> max_apic_id t = Some m
    \<and> a < a' \<and> a' \<le> m"
  using apic_id_strict_mono [OF assms] max_apic_id_upper [OF assms(1,2,4)] by fastforce

theorem apic_id_unique_and_bounded_witness:
  "apic_id topo_2n4l3c2t 17 = Some 21
   \<and> (\<exists>a a' m. apic_id topo_2n4l3c2t 5 = Some a \<and> apic_id topo_2n4l3c2t 17 = Some a'
        \<and> max_apic_id topo_2n4l3c2t = Some m \<and> a < a' \<and> a' \<le> m)"
  using apic_id_unique_and_bounded [OF validate_topo_2n4l3c2t sample_topology_facts(1) _
      sample_topology_facts(2), of 5] sample_topology_facts(3-5)
  by (simp add: apic_id_def topo_2n4l3c2t_def rust_shl_def Let_def)

text \<open>
  For a validated topology the generator never panics, and it only rewrites registers:
  the table keeps the leaf, sub-leaf and flags of every base entry in order, gains the
  hypervisor leaf exactly when the base lacks it, and leaves every entry outside the
  patched leaves untouched.
\<close>

theorem generate_cpuid_stable:
  assumes "validate t = Inr ()"
  shows "\<exists>es. generate_cpuid base t cpu perf = Some es
    \<and> map leaf_key es = map leaf_key base
        @ (if list_ex (\<lambda>e. function_of e = 0x40000000) base then [] else [leaf_key hypervisor_leaf])
    \<and> (\<forall>i < length base. function_of (base ! i) \<notin> patched_leaves \<longrightarrow> es ! i = base ! i)"
proof -
  obtain a patched where g: "generate_cpuid base t cpu perf =
       Some ((if perf then set_realtime_hint else id) (add_hypervisor_leaf patched))"
    and key: "map leaf_key patched = map leaf_key base"
    and nth: "\<And>i. i < length base \<Longrightarrow> patch_entry (detect_vendor base) t cpu a (base ! i) = Some (patched ! i)"
    by (rule generate_cpuid_shape [OF assms]) blast
  let ?h = "add_hypervisor_leaf patched"
  have len: "length patched = length base" using key by (rule map_eq_imp_length_eq)
  have keys: "map leaf_key ?h = map leaf_key base
        @ (if list_ex (\<lambda>e. function_of e = 0x40000000) base then [] else [leaf_key hypervisor_leaf])"
    using key by (simp add: add_hypervisor_leaf_def list_ex_function_of_cong [OF key])
  have same: "?h ! i = base ! i" "i < length ?h"
    if "i < length base" "function_of (base ! i) \<notin> patched_leaves" for i
    using nth [OF that(1)] patch_entry_other [OF that(2)] that len
    by (simp_all add: add_hypervisor_leaf_def nth_append)
  have "set_realtime_hint ?h ! i = base ! i"
    if "i < length base" "function_of (base ! i) \<notin> patched_leaves" for i
    using same [OF that] that(2) set_realtime_hint_nth [of i ?h] by (simp add: patched_leaves_def)
  with g keys same show ?thesis by (simp add: map_leaf_key_hint)
qed

theorem generate_cpuid_stable_witness:
  "\<exists>es. generate_cpuid sample_cpuid topo_2n4l3c2t 17 True = Some es
    \<and> map leaf_key es = map leaf_key sample_cpuid @ [leaf_key hypervisor_leaf]
    \<and> es ! 0 = hd sample_cpuid"
proof -
  have "\<not> list_ex (\<lambda>e. function_of e = 0x40000000) sample_cpuid"
    "function_of (sample_cpuid ! 0) \<notin> patched_leaves" "0 < length sample_cpuid"
    by (simp_all add: sample_cpuid_def ext_leaf_def patched_leaves_def)
  with generate_cpuid_stable [OF validate_topo_2n4l3c2t, of sample_cpuid 17 True] show ?thesis
    by (fastforce simp: hd_conv_nth)
qed

text \<open>
  The twelve signature bytes of the hypervisor leaf that is appended when KVM supplies
  none spell KMVKVMKVM, not the KVMKVMKVM that guests compare against: two bytes of the
  first register are exchanged.
\<close>

theorem hypervisor_signature_bytes:
  "concat (map (to_le_bytes 4) [ebx hypervisor_leaf, ecx hypervisor_leaf, edx hypervisor_leaf])
     = map of_char ''KMVKVMKVM'' @ [0, 0, 0]
   \<and> map of_char ''KMVKVMKVM'' \<noteq> (map of_char ''KVMKVMKVM'' :: u8 list)"
  by (simp add: hypervisor_leaf_def to_le_bytes_def le_bytes_numeral)

end
