(* ===== verification/Numa_Memory.thy ===== *)
theory Numa_Memory
  imports Topology
begin

text \<open>
  The per-node guest physical memory layout (\<^verbatim>\<open>src/vmm/numa_mem.rs\<close>): the split of guest
  RAM into one region per NUMA node and the placement of every region inside the one
  reservation of host address space. Addresses are 64-bit words with wrapping addition;
  the system calls that map and register the planned ranges are not part of the model.
\<close>

record node_region =
  node_id :: u32
  gpa_start :: u64
  region_size :: u64
  slot :: u32

type_synonym numa_layout = "node_region list"

datatype layout_error = MemoryMismatch u32 u32 | NoNodeMemory

definition mib_bytes :: "u32 \<Rightarrow> u64" where
  "mib_bytes mb = rust_shl (ucast mb) 20"

text \<open>The loop over explicit nodes; a node without memory is skipped and takes no slot.\<close>

fun explicit_regions :: "numa_node list \<Rightarrow> nat \<Rightarrow> u64 \<Rightarrow> nat \<Rightarrow> node_region list" where
  "explicit_regions [] i gpa n = []"
| "explicit_regions (node # ns) i gpa n =
     (let sz = mib_bytes (memory_mb node) in
      if sz = 0 then explicit_regions ns (Suc i) gpa n
      else \<lparr>node_id = of_nat i, gpa_start = gpa, region_size = sz, slot = of_nat n\<rparr>
             # explicit_regions ns (Suc i) (gpa + sz) (Suc n))"

text \<open>The loop over uniform nodes; the last one takes the remainder.\<close>

definition uniform_node_mb :: "u32 \<Rightarrow> u32 \<Rightarrow> u32 \<Rightarrow> nat \<Rightarrow> u32" where
  "uniform_node_mb total_memory_mb count per_node_mb i =
     (if of_nat i = count - 1 then total_memory_mb - per_node_mb * (count - 1)
      else per_node_mb)"

fun uniform_regions :: "(nat \<Rightarrow> u32) \<Rightarrow> nat list \<Rightarrow> u64 \<Rightarrow> node_region list" where
  "uniform_regions mb [] gpa = []"
| "uniform_regions mb (i # is) gpa =
     (let sz = mib_bytes (mb i) in
      \<lparr>node_id = of_nat i, gpa_start = gpa, region_size = sz, slot = of_nat i\<rparr>
        # uniform_regions mb is (gpa + sz))"

definition compute :: "topology \<Rightarrow> u32 \<Rightarrow> u64 \<Rightarrow> layout_error + numa_layout" where
  "compute topo total_memory_mb base =
     (case nodes topo of
        Some ns \<Rightarrow>
          (let node_total_mb = sum_list (map memory_mb ns) in
           if total_memory_mb \<noteq> node_total_mb then Inl (MemoryMismatch total_memory_mb node_total_mb)
           else (let regions = explicit_regions ns 0 base 0 in
                 if regions = [] then Inl NoNodeMemory else Inr regions))
      | None \<Rightarrow>
          if numa_nodes topo \<le> 1 then
            Inr [\<lparr>node_id = 0, gpa_start = base, region_size = mib_bytes total_memory_mb, slot = 0\<rparr>]
          else
            (let per_node_mb = total_memory_mb div numa_nodes topo in
             Inr (uniform_regions (uniform_node_mb total_memory_mb (numa_nodes topo) per_node_mb)
                    [0..<unat (numa_nodes topo)] base)))"

definition total_bytes :: "numa_layout \<Rightarrow> u64" where
  "total_bytes regions = sum_list (map region_size regions)"

definition dram_base :: "numa_layout \<Rightarrow> u64 option" where
  "dram_base regions = map_option gpa_start (rust_index regions 0)"

text \<open>
  Where \<^verbatim>\<open>allocate_and_register\<close> places a region inside the reservation of \<open>total_bytes\<close>
  bytes: the offset passed to the fixed mapping and the KVM slot it registers.
\<close>

definition mapping_plan :: "numa_layout \<Rightarrow> (u64 \<times> u64 \<times> u32 \<times> u64) list option" where
  "mapping_plan regions =
     those (map (\<lambda>r. map_option (\<lambda>b. (gpa_start r - b, region_size r, slot r, gpa_start r))
                       (dram_base regions)) regions)"

section \<open>Specification\<close>

fun contiguous_from :: "u64 \<Rightarrow> nat \<Rightarrow> node_region list \<Rightarrow> bool" where
  "contiguous_from gpa n [] = True"
| "contiguous_from gpa n (r # rs) \<longleftrightarrow>
     gpa_start r = gpa \<and> slot r = of_nat n \<and> contiguous_from (gpa + region_size r) (Suc n) rs"

definition region_bytes :: "node_region list \<Rightarrow> nat" where
  "region_bytes rs = sum_list (map (\<lambda>r. unat (region_size r)) rs)"

section \<open>Lemmas\<close>

lemma unat_mib_bytes: "unat (mib_bytes mb) = unat mb * 2 ^ 20"
proof -
  have "unat mb * 2 ^ 20 < 2 ^ 64" using unat_u32_less [of mb] by simp
  then show ?thesis
    unfolding mib_bytes_def rust_shl_def by (subst unat_push_bit_no_overflow) (simp_all add: unat_ucast_up)
qed

lemma contiguous_explicit: "contiguous_from gpa n (explicit_regions ns i gpa n)"
  by (induction ns i gpa n rule: explicit_regions.induct) (simp_all add: Let_def)

lemma contiguous_uniform: "contiguous_from gpa n (uniform_regions mb [n..<m] gpa)"
proof (induction "m - n" arbitrary: n gpa)
  case (Suc k)
  then have "[n..<m] = n # [Suc n..<m]" by (simp add: upt_conv_Cons)
  with Suc show ?case by (simp add: Let_def)
qed simp

lemma uniform_regions_Nil_iff: "uniform_regions f is gpa = [] \<longleftrightarrow> is = []"
  by (cases "is") (simp_all add: Let_def)

lemma compute_contiguous:
  assumes "compute t mb base = Inr rs"
  shows "contiguous_from base 0 rs" and "rs \<noteq> []"
proof -
  show "contiguous_from base 0 rs"
    using assms contiguous_uniform [of base 0] contiguous_explicit [of base 0]
    by (auto simp: compute_def Let_def split: option.splits if_splits)
  have "\<not> n \<le> 1 \<Longrightarrow> uniform_regions f [0..<unat n] base \<noteq> []" for n :: u32 and f
    by (auto simp: uniform_regions_Nil_iff word_le_nat_alt)
  then show "rs \<noteq> []"
    using assms by (auto simp: compute_def Let_def split: option.splits if_splits)
qed

lemma contiguous_nth:
  assumes "contiguous_from gpa n rs" and "unat gpa + region_bytes rs < 2 ^ 64" and "i < length rs"
  shows "unat (gpa_start (rs ! i)) = unat gpa + region_bytes (take i rs)
    \<and> slot (rs ! i) = of_nat (n + i)"
  using assms
proof (induction rs arbitrary: gpa n i)
  case (Cons r rs)
  show ?case
  proof (cases i)
    case 0
    with Cons.prems show ?thesis by (simp add: region_bytes_def)
  next
    case (Suc j)
    have u: "unat (gpa + region_size r) = unat gpa + unat (region_size r)"
      using Cons.prems(2) by (intro unat_add_no_overflow) (simp add: region_bytes_def)
    from Cons.prems have "contiguous_from (gpa + region_size r) (Suc n) rs" by simp
    from Cons.IH [OF this, of j] Cons.prems(2,3) Suc u show ?thesis
      by (simp add: region_bytes_def)
  qed
qed simp

lemma region_bytes_take:
  assumes "i < length rs"
  shows "region_bytes (take i rs) + unat (region_size (rs ! i)) \<le> region_bytes rs"
proof -
  have "region_bytes (take i rs) + unat (region_size (rs ! i)) = region_bytes (take (Suc i) rs)"
    using assms by (simp add: region_bytes_def take_Suc_conv_app_nth)
  also have "\<dots> \<le> region_bytes (take (Suc i) rs) + region_bytes (drop (Suc i) rs)" by simp
  also have "\<dots> = region_bytes rs" unfolding region_bytes_def
    by (simp only: flip: sum_list_append map_append) simp
  finally show ?thesis .
qed

lemma unat_total_bytes: "region_bytes rs < 2 ^ 64 \<Longrightarrow> unat (total_bytes rs) = region_bytes rs"
  using unat_sum_list [of "map region_size rs"] by (simp add: total_bytes_def region_bytes_def comp_def)

lemma dram_base_compute:
  assumes "compute t mb base = Inr rs"
  shows "dram_base rs = Some base"
  using compute_contiguous [OF assms] by (cases rs) (auto simp: dram_base_def rust_index_def)

lemma mapping_plan_nth:
  assumes "dram_base rs = Some base"
  shows "mapping_plan rs = Some (map (\<lambda>r. (gpa_start r - base, region_size r, slot r, gpa_start r)) rs)"
  unfolding mapping_plan_def assms
  by (induction rs) simp_all

text \<open>The uniform split gives every node its share and the last one the remainder.\<close>

lemma uniform_bytes:
  "region_bytes (uniform_regions mb is gpa) = (\<Sum>i \<leftarrow> is. unat (mb i) * 2 ^ 20)"
  by (induction "is" arbitrary: gpa) (simp_all add: region_bytes_def Let_def unat_mib_bytes)

lemma uniform_node_mb_sum:
  assumes "1 < n"
  shows "(\<Sum>i \<leftarrow> [0..<unat n]. unat (uniform_node_mb tot n (tot div n) i)) = unat tot"
proof -
  define N T p where NTp: "N = unat n" "T = unat tot" "p = T div N"
  from assms have N: "1 < N" by (simp add: NTp word_less_nat_alt)
  have p: "unat (tot div n) = p" by (simp add: NTp unat_div)
  have n1: "unat (n - 1) = N - 1" using N by (simp add: NTp unat_minus_one unat_gt_0_iff [symmetric])
  have le: "p * (N - 1) \<le> T"
  proof -
    have "p * (N - 1) \<le> p * N" by simp
    also have "\<dots> \<le> T" unfolding NTp(3) by (rule div_times_less_eq_dividend)
    finally show ?thesis .
  qed
  have prod: "unat (tot div n * (n - 1)) = p * (N - 1)"
    using le unat_u32_less [of tot] by (subst unat_mult_no_overflow) (simp_all add: p n1 NTp)
  have "of_nat (unat (n - 1)) = n - 1" by simp
  then have last_index: "of_nat (N - 1) = n - 1" by (simp only: n1)
  have last: "unat (uniform_node_mb tot n (tot div n) (N - 1)) = T - p * (N - 1)"
    using le prod last_index by (simp add: uniform_node_mb_def unat_sub word_le_nat_alt NTp(2))
  have init: "unat (uniform_node_mb tot n (tot div n) i) = p" if "i < N - 1" for i
  proof -
    have "unat (of_nat i :: u32) = i"
      using that unat_u32_less [of n] by (intro unat_of_nat_no_overflow) (simp add: NTp)
    with that n1 have "of_nat i \<noteq> n - 1" by auto
    then show ?thesis by (simp add: uniform_node_mb_def p)
  qed
  have shares: "map (\<lambda>i. unat (uniform_node_mb tot n (tot div n) i)) [0..<N - 1] = replicate (N - 1) p"
    using init by (intro nth_equalityI) simp_all
  have "[0..<N] = [0..<N - 1] @ [N - 1]" using N by (cases N) simp_all
  then have "(\<Sum>i \<leftarrow> [0..<N]. unat (uniform_node_mb tot n (tot div n) i)) = (N - 1) * p + (T - p * (N - 1))"
    using shares last by (simp add: sum_list_replicate)
  with le show ?thesis by (simp add: NTp)
qed

lemma explicit_bytes:
  "region_bytes (explicit_regions ns i gpa n) = (\<Sum>m \<leftarrow> ns. unat (memory_mb m) * 2 ^ 20)"
  by (induction ns i gpa n rule: explicit_regions.induct)
    (auto simp: region_bytes_def Let_def unat_mib_bytes dest: arg_cong [of _ 0 unat])

lemma length_explicit_regions: "length (explicit_regions ns i gpa k) \<le> length ns"
  by (induction ns arbitrary: i gpa k) (simp_all add: Let_def le_SucI)

lemma length_uniform_regions: "length (uniform_regions f is gpa) \<le> length is"
  by (induction "is" arbitrary: gpa) (simp_all add: Let_def)

text \<open>A node has at most one region.\<close>

lemma compute_length:
  assumes "validate t = Inr ()" and "compute t mb base = Inr rs"
  shows "length rs \<le> unat (numa_nodes t)"
proof (cases "nodes t")
  case None
  have "0 < unat (numa_nodes t)" using assms(1) by (simp add: validate_iff unat_gt_0)
  with None assms(2) length_uniform_regions [of _ "[0..<unat (numa_nodes t)]" base] show ?thesis
    by (auto simp: compute_def Let_def split: if_splits)
next
  case (Some ns)
  with assms(1) have "length ns = unat (numa_nodes t)"
    by (auto simp: validate_iff validate_nodes_def Let_def split: if_splits)
  with Some assms(2) length_explicit_regions [of ns 0 base 0] show ?thesis
    by (auto simp: compute_def Let_def split: if_splits)
qed

lemma compute_bytes:
  assumes "compute t mb base = Inr rs"
  shows "region_bytes rs = (case nodes t of
      None \<Rightarrow> unat mb
    | Some ns \<Rightarrow> (\<Sum>m \<leftarrow> ns. unat (memory_mb m))) * 2 ^ 20"
proof (cases "nodes t")
  case None
  with assms show ?thesis
    using uniform_node_mb_sum [of "numa_nodes t" mb]
    by (auto simp: compute_def Let_def uniform_bytes sum_list_mult_const not_le
        region_bytes_def [of "[_]"] unat_mib_bytes split: if_splits)
next
  case (Some ns)
  with assms show ?thesis
    by (auto simp: compute_def Let_def explicit_bytes sum_list_mult_const split: if_splits)
qed

section \<open>Properties\<close>

text \<open>
  C40: when the layout does not run past the end of the 64-bit address space, the regions
  tile guest RAM: region i starts where the regions before it end, carries slot number i,
  and the mapping planned for it lies inside the reservation of total_bytes bytes, at the
  same distance from the start of the reservation as its guest address from the DRAM base.
\<close>

theorem compute_tiles_memory:
  assumes c: "compute t mb base = Inr rs" and fits: "unat base + region_bytes rs < 2 ^ 64"
  shows "rs \<noteq> [] \<and> unat (total_bytes rs) = region_bytes rs
    \<and> (\<exists>plan. mapping_plan rs = Some plan \<and> length plan = length rs
        \<and> (\<forall>i < length rs. slot (rs ! i) = of_nat i
            \<and> unat (gpa_start (rs ! i)) = unat base + region_bytes (take i rs)
            \<and> (\<exists>off. plan ! i = (off, region_size (rs ! i), slot (rs ! i), gpa_start (rs ! i))
                \<and> unat off = region_bytes (take i rs)
                \<and> unat off + unat (region_size (rs ! i)) \<le> unat (total_bytes rs))))"
proof -
  note cont = compute_contiguous [OF c]
  have total: "unat (total_bytes rs) = region_bytes rs" using fits by (intro unat_total_bytes) simp
  have "slot (rs ! i) = of_nat i \<and> unat (gpa_start (rs ! i)) = unat base + region_bytes (take i rs)
      \<and> unat (gpa_start (rs ! i) - base) = region_bytes (take i rs)" if "i < length rs" for i
    using contiguous_nth [OF cont(1) fits that] by (simp add: unat_sub word_le_nat_alt)
  with mapping_plan_nth [OF dram_base_compute [OF c]] total cont(2) region_bytes_take [of _ rs]
  show ?thesis by simp
qed

lemma compute_topo_cxl:
  "compute topo_cxl 1280 0 = Inr
     [\<lparr>node_id = 0, gpa_start = 0, region_size = 0x20000000, slot = 0\<rparr>,
      \<lparr>node_id = 1, gpa_start = 0x20000000, region_size = 0x10000000, slot = 1\<rparr>,
      \<lparr>node_id = 2, gpa_start = 0x30000000, region_size = 0x20000000, slot = 2\<rparr>]"
  by (simp add: compute_def topo_cxl_def numa_node_new_def mib_bytes_def rust_shl_def Let_def)

theorem compute_tiles_memory_witness:
  "\<exists>rs. compute topo_cxl 1280 0 = Inr rs \<and> unat (total_bytes rs) = 0x50000000
     \<and> length rs = 3 \<and> unat (gpa_start (rs ! 2)) = 0x30000000"
  using compute_tiles_memory [OF compute_topo_cxl] compute_topo_cxl
  by (simp add: region_bytes_def)

text \<open>
  no guest memory is lost or invented by the split. The regions of a uniform topology
  add up to the requested memory, remainder included, and those of explicit nodes to the
  memory of the nodes.
\<close>

theorem compute_conserves_memory:
  assumes "compute t mb base = Inr rs"
  shows "region_bytes rs = (case nodes t of
      None \<Rightarrow> unat mb
    | Some ns \<Rightarrow> (\<Sum>m \<leftarrow> ns. unat (memory_mb m))) * 2 ^ 20"
  by (rule compute_bytes [OF assms])

theorem compute_conserves_memory_witness:
  "\<exists>rs. compute (topo_2n4l3c2t\<lparr>numa_nodes := 4\<rparr>) 1023 0x40000000 = Inr rs \<and> length rs = 4
    \<and> region_bytes rs = 1023 * 2 ^ 20"
proof -
  let ?t = "topo_2n4l3c2t\<lparr>numa_nodes := 4\<rparr>"
  obtain rs where rs: "compute ?t 1023 0x40000000 = Inr rs" "length rs = 4"
    by (simp add: compute_def topo_2n4l3c2t_def Let_def upt_rec word_le_nat_alt)
  with compute_conserves_memory [OF rs(1)] show ?thesis by (simp add: topo_2n4l3c2t_def)
qed

text \<open>
  The check that the requested memory equals the sum of the node memories uses a
  wrapping 32-bit sum, so a request for 1 MiB is accepted for nodes that hold \<open>2\<^sup>3\<^sup>2\<close>
  MiB more, and the layout then maps all of it.
\<close>

theorem compute_accepts_wrapped_memory:
  "\<exists>t rs. topology_with_nodes 1 1 [numa_node_new 1 4294967295, numa_node_new 0 2] = Some t
    \<and> compute t 1 0 = Inr rs \<and> region_bytes rs = (2 ^ 32 + 1) * 2 ^ 20"
proof -
  let ?ns = "[numa_node_new 1 4294967295, numa_node_new 0 2]"
  obtain t where t: "topology_with_nodes 1 1 ?ns = Some t" "nodes t = Some ?ns"
    by (simp add: topology_with_nodes_def checked_add_def checked_mul_def numa_node_new_def)
  then obtain rs where rs: "compute t 1 0 = Inr rs"
    by (simp add: compute_def numa_node_new_def mib_bytes_def rust_shl_def Let_def)
  with t compute_bytes [OF rs] show ?thesis by (simp add: numa_node_new_def)
qed

end
