(* ===== verification/Acpi_Tables.thy ===== *)
theory Acpi_Tables
  imports Apic_Topology Numa_Memory
begin

text \<open>
  The ACPI tables of the guest (\<^verbatim>\<open>src/vmm/x86_64/acpi.rs\<close>): the packed structures, the builders
  of the individual tables and \<^verbatim>\<open>setup_acpi\<close>, which lays them out behind the RSDP and writes
  them to guest memory. Packed structures are serialised field by field in little-endian order. A
  builder fills a zeroed buffer at a moving offset; writing past its end panics. Guest memory
  (\<^verbatim>\<open>vm_memory\<close>) is a parameter.
\<close>

section \<open>Packed structures\<close>

definition RSDP_ADDR :: u64 where "RSDP_ADDR = 0xE0000"
definition RSDP_SIZE :: u64 where "RSDP_SIZE = 36"
definition FADT_F_PWR_BUTTON :: u32 where "FADT_F_PWR_BUTTON = rust_shl 1 4"
definition FADT_F_SLP_BUTTON :: u32 where "FADT_F_SLP_BUTTON = rust_shl 1 5"
definition IOAPIC_ADDR :: u32 where "IOAPIC_ADDR = 0xFEC00000"
definition IOAPIC_ID :: u8 where "IOAPIC_ID = 0"
definition LAPIC_ADDR :: u32 where "LAPIC_ADDR = 0xFEE00000"

record acpi_layout =
  dsdt_addr :: u64
  dsdt_size :: u64
  madt_addr :: u64
  madt_size :: u64
  fadt_addr :: u64
  fadt_size :: u64
  srat_addr :: u64
  srat_size :: u64
  slit_addr :: u64
  slit_size :: u64
  hmat_addr :: u64
  hmat_size :: u64
  rsdt_addr :: u64
  rsdt_size :: u64
  xsdt_addr :: u64
  xsdt_size :: u64
  rsdp_addr :: u64
  rsdp_size :: u64

definition ascii :: "string \<Rightarrow> bytes" where
  "ascii s = map of_char s"

record sdt_header =
  sh_signature :: bytes
  sh_length :: u32
  sh_revision :: u8
  sh_checksum :: u8
  sh_oem_id :: bytes
  sh_oem_table_id :: bytes
  sh_oem_revision :: u32
  sh_creator_id :: bytes
  sh_creator_revision :: u32

definition sdt_header_bytes :: "sdt_header \<Rightarrow> bytes" where
  "sdt_header_bytes h = sh_signature h @ to_le_bytes 4 (sh_length h) @ [sh_revision h, sh_checksum h]
     @ sh_oem_id h @ sh_oem_table_id h @ to_le_bytes 4 (sh_oem_revision h)
     @ sh_creator_id h @ to_le_bytes 4 (sh_creator_revision h)"

definition sdt_header_new :: "string \<Rightarrow> u32 \<Rightarrow> u8 \<Rightarrow> sdt_header" where
  "sdt_header_new sig len revision =
     \<lparr>sh_signature = ascii sig, sh_length = len, sh_revision = revision, sh_checksum = 0,
      sh_oem_id = ascii ''KTSTR'' @ [0], sh_oem_table_id = ascii ''KTSR'' @ ascii sig,
      sh_oem_revision = 1, sh_creator_id = ascii ''KTSR'', sh_creator_revision = 1\<rparr>"

record rsdp =
  rp_signature :: bytes
  rp_checksum :: u8
  rp_oem_id :: bytes
  rp_revision :: u8
  rp_rsdt_address :: u32
  rp_length :: u32
  rp_xsdt_address :: u64
  rp_extended_checksum :: u8

definition rsdp_bytes :: "rsdp \<Rightarrow> bytes" where
  "rsdp_bytes r = rp_signature r @ [rp_checksum r] @ rp_oem_id r @ [rp_revision r]
     @ to_le_bytes 4 (rp_rsdt_address r) @ to_le_bytes 4 (rp_length r)
     @ to_le_bytes 8 (rp_xsdt_address r) @ [rp_extended_checksum r] @ [0, 0, 0]"

definition madt_header_bytes :: "sdt_header \<Rightarrow> u32 \<Rightarrow> u32 \<Rightarrow> bytes" where
  "madt_header_bytes sdt local_apic_address fl =
     sdt_header_bytes sdt @ to_le_bytes 4 local_apic_address @ to_le_bytes 4 fl"

text \<open>
  The entries of the tables. Each function is one packed structure, its arguments the fields the
  builder sets; reserved fields are zero.
\<close>

definition madt_local_apic :: "u8 \<Rightarrow> u8 \<Rightarrow> u32 \<Rightarrow> bytes" where
  "madt_local_apic processor_id apic fl = [0, 8, processor_id, apic] @ to_le_bytes 4 fl"

definition madt_x2apic :: "u32 \<Rightarrow> u32 \<Rightarrow> u32 \<Rightarrow> bytes" where
  "madt_x2apic x2apic_id fl processor_uid =
     [9, 16] @ [0, 0] @ to_le_bytes 4 x2apic_id @ to_le_bytes 4 fl @ to_le_bytes 4 processor_uid"

definition madt_io_apic :: "u8 \<Rightarrow> u32 \<Rightarrow> u32 \<Rightarrow> bytes" where
  "madt_io_apic io_apic_id io_apic_address gsi_base =
     [1, 12, io_apic_id, 0] @ to_le_bytes 4 io_apic_address @ to_le_bytes 4 gsi_base"

definition madt_iso :: "u8 \<Rightarrow> u8 \<Rightarrow> u32 \<Rightarrow> u16 \<Rightarrow> bytes" where
  "madt_iso bus source gsi fl = [2, 10, bus, source] @ to_le_bytes 4 gsi @ to_le_bytes 2 fl"

definition madt_lapic_nmi :: "u8 \<Rightarrow> u16 \<Rightarrow> u8 \<Rightarrow> bytes" where
  "madt_lapic_nmi processor_id fl lint = [4, 6, processor_id] @ to_le_bytes 2 fl @ [lint]"

definition madt_x2apic_nmi :: "u16 \<Rightarrow> u32 \<Rightarrow> u8 \<Rightarrow> bytes" where
  "madt_x2apic_nmi fl processor_uid lint =
     [0x0A, 12] @ to_le_bytes 2 fl @ to_le_bytes 4 processor_uid @ [lint] @ [0, 0, 0]"

definition srat_cpu_affinity :: "u32 \<Rightarrow> u32 \<Rightarrow> u32 \<Rightarrow> bytes" where
  "srat_cpu_affinity proximity_domain x2apic_id fl =
     [2, 24] @ [0, 0] @ to_le_bytes 4 proximity_domain @ to_le_bytes 4 x2apic_id @ to_le_bytes 4 fl
     @ to_le_bytes 4 (0 :: u32) @ to_le_bytes 4 (0 :: u32)"

definition srat_mem_affinity :: "u32 \<Rightarrow> u64 \<Rightarrow> u64 \<Rightarrow> u32 \<Rightarrow> bytes" where
  "srat_mem_affinity proximity_domain base_address address_length fl =
     [1, 40] @ to_le_bytes 4 proximity_domain @ [0, 0] @ to_le_bytes 8 base_address
     @ to_le_bytes 8 address_length @ to_le_bytes 4 (0 :: u32) @ to_le_bytes 4 fl
     @ to_le_bytes 8 (0 :: u64)"

definition hmat_mpda :: "u16 \<Rightarrow> u32 \<Rightarrow> u32 \<Rightarrow> bytes" where
  "hmat_mpda fl initiator memory =
     to_le_bytes 2 (0 :: u16) @ [0, 0] @ to_le_bytes 4 (40 :: u32) @ to_le_bytes 2 fl @ [0, 0]
     @ to_le_bytes 4 initiator @ to_le_bytes 4 memory @ replicate 20 0"

definition hmat_sllbi_header :: "u32 \<Rightarrow> u8 \<Rightarrow> u32 \<Rightarrow> u32 \<Rightarrow> u64 \<Rightarrow> bytes" where
  "hmat_sllbi_header len data_type num_initiator_pds num_target_pds entry_base_unit =
     to_le_bytes 2 (1 :: u16) @ [0, 0] @ to_le_bytes 4 len @ [0, data_type, 0, 0]
     @ to_le_bytes 4 num_initiator_pds @ to_le_bytes 4 num_target_pds @ replicate 4 0
     @ to_le_bytes 8 entry_base_unit"

definition hmat_msci :: "u32 \<Rightarrow> u64 \<Rightarrow> u32 \<Rightarrow> bytes" where
  "hmat_msci memory cache_sz cache_attributes =
     to_le_bytes 2 (2 :: u16) @ [0, 0] @ to_le_bytes 4 (32 :: u32) @ to_le_bytes 4 memory @ replicate 4 0
     @ to_le_bytes 8 cache_sz @ to_le_bytes 4 cache_attributes @ [0, 0] @ [0, 0]"

section \<open>Buffers and checksums\<close>

definition acpi_checksum :: "bytes \<Rightarrow> u8" where
  "acpi_checksum data = NOT (foldl (+) 0 data) + 1"

definition set_sdt_checksum :: "bytes \<Rightarrow> bytes option" where
  "set_sdt_checksum buf =
     (if 9 < length buf then let b = buf[9 := 0] in Some (b[9 := acpi_checksum b]) else None)"

text \<open>\<^verbatim>\<open>buf[offset..offset + n].copy_from_slice(src)\<close>, and the same followed by \<^verbatim>\<open>offset += n\<close>.\<close>

definition copy_at :: "nat \<Rightarrow> bytes \<Rightarrow> bytes \<Rightarrow> bytes option" where
  "copy_at offset src buf = (if offset + length src \<le> length buf then Some (overwrite offset src buf) else None)"

definition put :: "bytes \<Rightarrow> bytes \<times> nat \<Rightarrow> (bytes \<times> nat) option" where
  "put src = (\<lambda>(buf, offset). map_option (\<lambda>b. (b, offset + length src)) (copy_at offset src buf))"

fun fold_opt :: "('a \<Rightarrow> 's \<Rightarrow> 's option) \<Rightarrow> 'a list \<Rightarrow> 's \<Rightarrow> 's option" where
  "fold_opt f [] s = Some s"
| "fold_opt f (x # xs) s = Option.bind (f x s) (fold_opt f xs)"

definition u32_range :: "u32 \<Rightarrow> u32 list" where
  "u32_range n = map of_nat [0..<unat n]"

section \<open>MADT\<close>

definition use_x2apic_entry :: "u32 \<Rightarrow> bool" where
  "use_x2apic_entry apic \<longleftrightarrow> 255 \<le> apic"

text \<open>The scan over the CPUs: the size of their entries and which kinds of entry occur.\<close>

definition madt_scan :: "topology \<Rightarrow> (u32 \<times> bool \<times> bool) option" where
  "madt_scan topo =
     fold_opt (\<lambda>cpu_id (cpu_entries_size, has_x2apic, has_lapic).
         map_option (\<lambda>id. if use_x2apic_entry id then (cpu_entries_size + 16, True, has_lapic)
                          else (cpu_entries_size + 8, has_x2apic, True)) (apic_id topo cpu_id))
       (u32_range (total_cpus topo)) (0, False, False)"

definition compute_madt_size :: "topology \<Rightarrow> u32 option" where
  "compute_madt_size topo =
     do {
       (cpu_entries_size, has_x2apic, has_lapic) \<leftarrow> madt_scan topo;
       let nmi_size = (if has_lapic then 6 else 0) + (if has_x2apic then 12 else 0);
       Some (44 + cpu_entries_size + 12 + 10 + nmi_size)
     }"

definition madt_cpu_entry :: "topology \<Rightarrow> u32 \<Rightarrow> bytes option" where
  "madt_cpu_entry topo cpu_id =
     map_option (\<lambda>id. if use_x2apic_entry id then madt_x2apic id 1 cpu_id
                      else madt_local_apic (ucast cpu_id) (ucast id) 1) (apic_id topo cpu_id)"

definition madt_table :: "topology \<Rightarrow> bytes option" where
  "madt_table topo =
     do {
       (_, has_x2apic, has_lapic) \<leftarrow> madt_scan topo;
       len \<leftarrow> compute_madt_size topo;
       let buf = replicate (unat len) 0;
       buf \<leftarrow> copy_at 0 (madt_header_bytes (sdt_header_new ''APIC'' len 3) LAPIC_ADDR 1) buf;
       s \<leftarrow> fold_opt (\<lambda>cpu_id s. Option.bind (madt_cpu_entry topo cpu_id) (\<lambda>e. put e s))
              (u32_range (total_cpus topo)) (buf, 44);
       s \<leftarrow> put (madt_io_apic IOAPIC_ID IOAPIC_ADDR 0) s;
       s \<leftarrow> put (madt_iso 0 0 2 0) s;
       s \<leftarrow> (if has_lapic then put (madt_lapic_nmi 0xFF 0 1) s else Some s);
       s \<leftarrow> (if has_x2apic then put (madt_x2apic_nmi 0 0xFFFFFFFF 1) s else Some s);
       set_sdt_checksum (fst s)
     }"

section \<open>SRAT and SLIT\<close>

definition srat_len :: "topology \<Rightarrow> numa_layout \<Rightarrow> u32" where
  "srat_len topo layout = 48 + 24 * total_cpus topo + 40 * of_nat (length layout)"

definition srat_cpu_entry :: "topology \<Rightarrow> u32 \<Rightarrow> bytes option" where
  "srat_cpu_entry topo cpu_id =
     do {
       (llc_id, _, _) \<leftarrow> decompose topo cpu_id;
       node \<leftarrow> numa_node_of topo llc_id;
       id \<leftarrow> apic_id topo cpu_id;
       Some (srat_cpu_affinity node id 1)
     }"

definition srat_mem_entry :: "node_region \<Rightarrow> bytes" where
  "srat_mem_entry region = srat_mem_affinity (node_id region) (gpa_start region) (region_size region) 1"

definition srat_table :: "topology \<Rightarrow> numa_layout \<Rightarrow> bytes option" where
  "srat_table topo layout =
     do {
       let len = srat_len topo layout;
       let buf = replicate (unat len) 0;
       buf \<leftarrow> copy_at 0 (sdt_header_bytes (sdt_header_new ''SRAT'' len 3)) buf;
       buf \<leftarrow> copy_at 36 (to_le_bytes 4 (1 :: u32)) buf;
       s \<leftarrow> fold_opt (\<lambda>cpu_id s. Option.bind (srat_cpu_entry topo cpu_id) (\<lambda>e. put e s))
              (u32_range (total_cpus topo)) (buf, 48);
       s \<leftarrow> fold_opt (\<lambda>region. put (srat_mem_entry region)) layout s;
       set_sdt_checksum (fst s)
     }"

definition slit_len :: "topology \<Rightarrow> nat" where
  "slit_len topo = 36 + 8 + unat (numa_nodes topo) * unat (numa_nodes topo)"

definition slit_cell :: "topology \<Rightarrow> nat \<times> nat \<Rightarrow> bytes \<Rightarrow> bytes option" where
  "slit_cell topo = (\<lambda>(i, j) buf.
     do {
       d \<leftarrow> distance topo (of_nat i) (of_nat j);
       copy_at (44 + (i * unat (numa_nodes topo) + j)) [d] buf
     })"

definition slit_table :: "topology \<Rightarrow> bytes option" where
  "slit_table topo =
     do {
       let buf = replicate (slit_len topo) 0;
       buf \<leftarrow> copy_at 0 (sdt_header_bytes (sdt_header_new ''SLIT'' (of_nat (slit_len topo)) 1)) buf;
       buf \<leftarrow> copy_at 36 (to_le_bytes 8 (ucast (numa_nodes topo) :: u64)) buf;
       buf \<leftarrow> fold_opt (slit_cell topo) (cells (unat (numa_nodes topo))) buf;
       set_sdt_checksum buf
     }"

section \<open>HMAT\<close>

definition HMAT_LATENCY_BASE_PS :: u64 where "HMAT_LATENCY_BASE_PS = 100000"
definition HMAT_DRAM_LATENCY_ENTRY :: u16 where "HMAT_DRAM_LATENCY_ENTRY = 1"
definition HMAT_CXL_LATENCY_ENTRY :: u16 where "HMAT_CXL_LATENCY_ENTRY = 3"
definition HMAT_BW_BASE_MBS :: u64 where "HMAT_BW_BASE_MBS = 10240"
definition HMAT_DRAM_BW_ENTRY :: u16 where "HMAT_DRAM_BW_ENTRY = 5"
definition HMAT_CXL_BW_ENTRY :: u16 where "HMAT_CXL_BW_ENTRY = 2"

definition num_msci :: "topology \<Rightarrow> u32" where
  "num_msci topo = (case nodes topo of
     Some ns \<Rightarrow> of_nat (length (filter (\<lambda>n. cache_of n \<noteq> None) ns)) | None \<Rightarrow> 0)"

definition compute_hmat_size :: "topology \<Rightarrow> numa_layout \<Rightarrow> u32" where
  "compute_hmat_size topo layout =
     (let num_initiators = cpu_bearing_nodes topo;
          num_targets = of_nat (length layout);
          mpda_size = 40 * num_targets;
          sllbi_size = (32 + 4 * num_initiators + 4 * num_targets + 2 * num_initiators * num_targets) * 2;
          msci_size = 32 * num_msci topo
      in 40 + mpda_size + sllbi_size + msci_size)"

definition hmat_initiators :: "topology \<Rightarrow> u32 list option" where
  "hmat_initiators topo =
     fold_opt (\<lambda>n acc. map_option (\<lambda>k. if 0 < k then acc @ [n] else acc) (llcs_in_node topo n))
       (u32_range (numa_nodes topo)) []"

text \<open>\<^verbatim>\<open>Iterator::min_by_key\<close>: the first element with the least key.\<close>

fun min_by_key :: "('a \<times> u8) list \<Rightarrow> 'a option" where
  "min_by_key [] = None"
| "min_by_key ((x, k) # xs) =
     Some (fst (foldl (\<lambda>(y, l) (z, m). if m < l then (z, m) else (y, l)) (x, k) xs))"

definition hmat_initiator_of :: "topology \<Rightarrow> u32 list \<Rightarrow> u32 \<Rightarrow> u32 option" where
  "hmat_initiator_of topo initiators target_node =
     do {
       k \<leftarrow> llcs_in_node topo target_node;
       if 0 < k then Some target_node
       else do {
         ds \<leftarrow> those (map (\<lambda>i. distance topo i target_node) initiators);
         min_by_key (zip initiators ds)
       }
     }"

definition hmat_mpda_entry :: "topology \<Rightarrow> u32 list \<Rightarrow> u32 \<Rightarrow> bytes option" where
  "hmat_mpda_entry topo initiators target_node =
     map_option (\<lambda>initiator. hmat_mpda 3 initiator target_node) (hmat_initiator_of topo initiators target_node)"

text \<open>The node of a target, when the topology has explicit nodes; an unknown node panics.\<close>

definition hmat_node :: "topology \<Rightarrow> u32 \<Rightarrow> numa_node option option" where
  "hmat_node topo tgt = (case nodes topo of
     None \<Rightarrow> Some None | Some ns \<Rightarrow> map_option Some (rust_index ns (unat tgt)))"

definition hmat_latency_entry :: "numa_node option \<Rightarrow> u8 \<Rightarrow> u16" where
  "hmat_latency_entry node dist =
     (let is_cxl = (case node of None \<Rightarrow> False | Some n \<Rightarrow> is_memory_only n);
          base = (case Option.bind node latency_ns of
                    Some ns \<Rightarrow> ucast (max (ucast ns * 1000 div HMAT_LATENCY_BASE_PS) 1)
                  | None \<Rightarrow> if is_cxl then HMAT_CXL_LATENCY_ENTRY else HMAT_DRAM_LATENCY_ENTRY)
      in max (ucast ((ucast base :: u32) * ucast dist div 10)) 1)"

definition hmat_bandwidth_entry :: "numa_node option \<Rightarrow> u8 \<Rightarrow> u16" where
  "hmat_bandwidth_entry node dist =
     (let is_cxl = (case node of None \<Rightarrow> False | Some n \<Rightarrow> is_memory_only n);
          base = (case Option.bind node bandwidth_mbs of
                    Some mbs \<Rightarrow> ucast (max (ucast mbs div HMAT_BW_BASE_MBS) 1)
                  | None \<Rightarrow> if is_cxl then HMAT_CXL_BW_ENTRY else HMAT_DRAM_BW_ENTRY)
      in max (ucast ((ucast base :: u32) * 10 div max (ucast dist) 1)) 1)"

definition hmat_entry :: "topology \<Rightarrow> u8 \<Rightarrow> u32 \<times> u32 \<Rightarrow> bytes option" where
  "hmat_entry topo data_type = (\<lambda>(init_node, tgt_node).
     do {
       node \<leftarrow> hmat_node topo tgt_node;
       dist \<leftarrow> distance topo init_node tgt_node;
       Some (to_le_bytes 2 (if data_type = 0 then hmat_latency_entry node dist
                            else hmat_bandwidth_entry node dist))
     })"

definition hmat_sllbi :: "topology \<Rightarrow> u32 list \<Rightarrow> u32 list \<Rightarrow> u8 \<times> u64 \<Rightarrow> bytes \<times> nat \<Rightarrow> (bytes \<times> nat) option" where
  "hmat_sllbi topo initiators targets = (\<lambda>(data_type, base_unit) s.
     do {
       let ni = of_nat (length initiators);
       let nt = of_nat (length targets);
       let sllbi_len = 32 + 4 * ni + 4 * nt + 2 * ni * nt;
       s \<leftarrow> put (hmat_sllbi_header sllbi_len data_type ni nt base_unit) s;
       s \<leftarrow> fold_opt (\<lambda>i. put (to_le_bytes 4 i)) initiators s;
       s \<leftarrow> fold_opt (\<lambda>i. put (to_le_bytes 4 i)) targets s;
       fold_opt (\<lambda>p s. Option.bind (hmat_entry topo data_type p) (\<lambda>e. put e s))
         (List.product initiators targets) s
     })"

definition msci_attributes :: "mem_side_cache \<Rightarrow> u32" where
  "msci_attributes cache =
     1 OR rust_shl 1 4 OR rust_shl (ucast (associativity cache) AND 0xF) 8
     OR rust_shl (ucast (write_policy cache) AND 0xF) 12 OR rust_shl (ucast (line_size cache)) 16"

fun hmat_msci_entries :: "numa_node list \<Rightarrow> nat \<Rightarrow> bytes \<times> nat \<Rightarrow> (bytes \<times> nat) option" where
  "hmat_msci_entries [] i s = Some s"
| "hmat_msci_entries (n # ns) i s =
     (case cache_of n of
        None \<Rightarrow> hmat_msci_entries ns (Suc i) s
      | Some cache \<Rightarrow> Option.bind (put (hmat_msci (of_nat i) (mc_size cache) (msci_attributes cache)) s)
                        (hmat_msci_entries ns (Suc i)))"

definition hmat_table :: "topology \<Rightarrow> numa_layout \<Rightarrow> bytes option" where
  "hmat_table topo layout =
     do {
       let len = compute_hmat_size topo layout;
       let buf = replicate (unat len) 0;
       buf \<leftarrow> copy_at 0 (sdt_header_bytes (sdt_header_new ''HMAT'' len 2)) buf;
       initiators \<leftarrow> hmat_initiators topo;
       let targets = map node_id layout;
       s \<leftarrow> fold_opt (\<lambda>t s. Option.bind (hmat_mpda_entry topo initiators t) (\<lambda>e. put e s)) targets (buf, 40);
       s \<leftarrow> fold_opt (hmat_sllbi topo initiators targets)
              [(0, HMAT_LATENCY_BASE_PS), (3, HMAT_BW_BASE_MBS)] s;
       s \<leftarrow> (case nodes topo of Some ns \<Rightarrow> hmat_msci_entries ns 0 s | None \<Rightarrow> Some s);
       set_sdt_checksum (fst s)
     }"

section \<open>The fixed tables and the root pointers\<close>

definition dsdt_table :: "bytes option" where
  "dsdt_table =
     do {
       buf \<leftarrow> copy_at 0 (sdt_header_bytes (sdt_header_new ''DSDT'' 36 2)) (replicate 36 0);
       set_sdt_checksum buf
     }"

definition fadt_table :: "acpi_layout \<Rightarrow> bytes option" where
  "fadt_table layout =
     do {
       buf \<leftarrow> copy_at 0 (sdt_header_bytes (sdt_header_new ''FACP'' 276 6)) (replicate 276 0);
       buf \<leftarrow> copy_at 40 (to_le_bytes 4 (ucast (dsdt_addr layout) :: u32)) buf;
       buf \<leftarrow> copy_at 140 (to_le_bytes 8 (dsdt_addr layout)) buf;
       buf \<leftarrow> copy_at 112 (to_le_bytes 4 (FADT_F_PWR_BUTTON OR FADT_F_SLP_BUTTON)) buf;
       buf \<leftarrow> copy_at 131 [5] buf;
       set_sdt_checksum buf
     }"

definition rsdt_entries :: "acpi_layout \<Rightarrow> u64 list" where
  "rsdt_entries layout =
     [fadt_addr layout, madt_addr layout, srat_addr layout, slit_addr layout]
     @ (if 0 < hmat_size layout then [hmat_addr layout] else [])"

definition rsdt_table :: "acpi_layout \<Rightarrow> bytes option" where
  "rsdt_table layout =
     do {
       let len = unat (rsdt_size layout);
       buf \<leftarrow> copy_at 0 (sdt_header_bytes (sdt_header_new ''RSDT'' (of_nat len) 1)) (replicate len 0);
       s \<leftarrow> fold_opt (\<lambda>a. put (to_le_bytes 4 (ucast a :: u32))) (rsdt_entries layout) (buf, 36);
       set_sdt_checksum (fst s)
     }"

definition xsdt_table :: "acpi_layout \<Rightarrow> bytes option" where
  "xsdt_table layout =
     do {
       let len = unat (xsdt_size layout);
       buf \<leftarrow> copy_at 0 (sdt_header_bytes (sdt_header_new ''XSDT'' (of_nat len) 1)) (replicate len 0);
       s \<leftarrow> fold_opt (\<lambda>a. put (to_le_bytes 8 a)) (rsdt_entries layout) (buf, 36);
       set_sdt_checksum (fst s)
     }"

definition rsdp_table :: "acpi_layout \<Rightarrow> bytes" where
  "rsdp_table layout =
     (let r = \<lparr>rp_signature = ascii ''RSD PTR '', rp_checksum = 0, rp_oem_id = ascii ''KTSTR'' @ [0],
               rp_revision = 2, rp_rsdt_address = ucast (rsdt_addr layout), rp_length = 36,
               rp_xsdt_address = xsdt_addr layout, rp_extended_checksum = 0\<rparr>;
          r = r\<lparr>rp_checksum := acpi_checksum (take 20 (rsdp_bytes r))\<rparr>;
          r = r\<lparr>rp_extended_checksum := acpi_checksum (rsdp_bytes r)\<rparr>
      in rsdp_bytes r)"

section \<open>Layout and writing\<close>

text \<open>
  The layout chosen by \<^verbatim>\<open>setup_acpi\<close>: each table follows the previous one. A table size that cannot
  be computed is a panic.
\<close>

definition acpi_layout_of :: "topology \<Rightarrow> numa_layout \<Rightarrow> acpi_layout option" where
  "acpi_layout_of topo numa =
     do {
       madt \<leftarrow> compute_madt_size topo;
       let emit_hmat = 1 < numa_nodes topo;
       let madt = ucast madt;
       let srat = ucast (srat_len topo numa);
       let n = ucast (numa_nodes topo);
       let slit = 36 + 8 + n * n;
       let hmat = (if emit_hmat then ucast (compute_hmat_size topo numa) else 0);
       let table_count = (if emit_hmat then 5 else 4);
       let rsdt = 36 + table_count * 4;
       let xsdt = 36 + table_count * 8;
       let a0 = RSDP_ADDR + RSDP_SIZE;
       let a1 = a0 + 36;
       let a2 = a1 + madt;
       let a3 = a2 + 276;
       let a4 = a3 + srat;
       let a5 = a4 + slit;
       let a6 = a5 + hmat;
       let a7 = a6 + rsdt;
       Some \<lparr>dsdt_addr = a0, dsdt_size = 36, madt_addr = a1, madt_size = madt,
             fadt_addr = a2, fadt_size = 276, srat_addr = a3, srat_size = srat,
             slit_addr = a4, slit_size = slit, hmat_addr = a5, hmat_size = hmat,
             rsdt_addr = a6, rsdt_size = rsdt, xsdt_addr = a7, xsdt_size = xsdt,
             rsdp_addr = RSDP_ADDR, rsdp_size = RSDP_SIZE\<rparr>
     }"

text \<open>\<open>Panicked\<close> is a panic, \<open>WriteFailed\<close> the error with the context added to a failed write.\<close>

datatype acpi_error = Panicked | WriteFailed string

definition write_table ::
  "('m \<Rightarrow> bytes \<Rightarrow> u64 \<Rightarrow> 'm option) \<Rightarrow> bytes option \<Rightarrow> u64 \<Rightarrow> string \<Rightarrow> 'm \<Rightarrow> acpi_error + 'm" where
  "write_table write_slice table addr what m =
     (case table of
        None \<Rightarrow> Inl Panicked
      | Some buf \<Rightarrow> (case write_slice m buf addr of
                       None \<Rightarrow> Inl (WriteFailed (''write '' @ what))
                     | Some m' \<Rightarrow> Inr m'))"

definition setup_acpi ::
  "('m \<Rightarrow> bytes \<Rightarrow> u64 \<Rightarrow> 'm option) \<Rightarrow> 'm \<Rightarrow> topology \<Rightarrow> numa_layout \<Rightarrow> acpi_error + acpi_layout \<times> 'm" where
  "setup_acpi write_slice m topo numa =
     (case acpi_layout_of topo numa of
        None \<Rightarrow> Inl Panicked
      | Some layout \<Rightarrow>
          and_then (write_table write_slice dsdt_table (dsdt_addr layout) ''DSDT'' m) (\<lambda>m.
          and_then (write_table write_slice (madt_table topo) (madt_addr layout) ''MADT'' m) (\<lambda>m.
          and_then (write_table write_slice (fadt_table layout) (fadt_addr layout) ''FADT'' m) (\<lambda>m.
          and_then (write_table write_slice (srat_table topo numa) (srat_addr layout) ''SRAT'' m) (\<lambda>m.
          and_then (write_table write_slice (slit_table topo) (slit_addr layout) ''SLIT'' m) (\<lambda>m.
          and_then (if 1 < numa_nodes topo
                    then write_table write_slice (hmat_table topo numa) (hmat_addr layout) ''HMAT'' m
                    else Inr m) (\<lambda>m.
          and_then (write_table write_slice (rsdt_table layout) (rsdt_addr layout) ''RSDT'' m) (\<lambda>m.
          and_then (write_table write_slice (xsdt_table layout) (xsdt_addr layout) ''XSDT'' m) (\<lambda>m.
          and_then (write_table write_slice (Some (rsdp_table layout)) RSDP_ADDR ''RSDP'' m) (\<lambda>m.
          Inr (layout, m)))))))))))"

section \<open>Specification functions and sample values\<close>

text \<open>A zeroed buffer filled up to the offset: \<open>k\<close> bytes are left.\<close>

definition cursor :: "bytes \<Rightarrow> nat \<Rightarrow> bytes \<times> nat" where
  "cursor pre k = (pre @ replicate k 0, length pre)"

text \<open>A well-formed system description table, as its reader checks it.\<close>

definition sdt_ok :: "string \<Rightarrow> bytes \<Rightarrow> bool" where
  "sdt_ok sig tbl \<longleftrightarrow> 36 \<le> length tbl \<and> take 4 tbl = ascii sig
     \<and> unat (from_le_bytes (byte_slice tbl 4 8) :: u32) = length tbl \<and> sum_list tbl = 0"

text \<open>
  The sizes for which the size computations do not overflow: the most virtual CPUs KVM offers, and
  as many nodes and memory regions.
\<close>

definition acpi_small :: "topology \<Rightarrow> numa_layout \<Rightarrow> bool" where
  "acpi_small t rs \<longleftrightarrow> unat (total_cpus t) \<le> 4096 \<and> unat (numa_nodes t) \<le> 4096 \<and> length rs \<le> 4096"

definition apic_ids :: "topology \<Rightarrow> u32 list" where
  "apic_ids t = map (\<lambda>c. the (apic_id t (of_nat c))) [0..<unat (total_cpus t)]"

definition madt_entry :: "u32 \<Rightarrow> u32 \<Rightarrow> bytes" where
  "madt_entry cpu_id a = (if use_x2apic_entry a then madt_x2apic a 1 cpu_id
     else madt_local_apic (ucast cpu_id) (ucast a) 1)"

definition madt_entries :: "topology \<Rightarrow> bytes list" where
  "madt_entries t = map (\<lambda>c. madt_entry (of_nat c) (apic_ids t ! c)) [0..<unat (total_cpus t)]
     @ [madt_io_apic IOAPIC_ID IOAPIC_ADDR 0, madt_iso 0 0 2 0]
     @ (if list_ex (\<lambda>id. \<not> use_x2apic_entry id) (apic_ids t) then [madt_lapic_nmi 0xFF 0 1] else [])
     @ (if list_ex use_x2apic_entry (apic_ids t) then [madt_x2apic_nmi 0 0xFFFFFFFF 1] else [])"

definition scan_step :: "u32 \<Rightarrow> u32 \<times> bool \<times> bool \<Rightarrow> u32 \<times> bool \<times> bool" where
  "scan_step a = (\<lambda>(n, x, l). if use_x2apic_entry a then (n + 16, True, l) else (n + 8, x, True))"

text \<open>
  How an operating system reads the variable part of a table: entries of a type byte, a length byte
  and the rest, one after the other.
\<close>

fun split_entries :: "bytes \<Rightarrow> bytes list option" where
  "split_entries bs =
     (if bs = [] then Some []
      else if length bs < 2 \<or> unat (bs ! 1) < 2 \<or> length bs < unat (bs ! 1) then None
      else map_option ((#) (take (unat (bs ! 1)) bs)) (split_entries (drop (unat (bs ! 1)) bs)))"

definition entry_ok :: "bytes \<Rightarrow> bool" where
  "entry_ok e \<longleftrightarrow> 2 \<le> length e \<and> unat (e ! 1) = length e"

text \<open>The enabled processors of the MADT: APIC id and processor number.\<close>

definition madt_cpu :: "bytes \<Rightarrow> (u32 \<times> u32) option" where
  "madt_cpu e =
     (if length e = 8 \<and> e ! 0 = 0 \<and> e ! 4 AND 1 = 1 then Some (ucast (e ! 3), ucast (e ! 2))
      else if length e = 16 \<and> e ! 0 = 9 \<and> e ! 8 AND 1 = 1
        then Some (from_le_bytes (byte_slice e 4 8), from_le_bytes (byte_slice e 12 16))
      else None)"

text \<open>The node a CPU belongs to.\<close>

definition node_of_cpu :: "topology \<Rightarrow> u32 \<Rightarrow> u32 option" where
  "node_of_cpu t cpu = do { (llc_id, _, _) \<leftarrow> decompose t cpu; numa_node_of t llc_id }"

definition srat_entries :: "topology \<Rightarrow> numa_layout \<Rightarrow> bytes list" where
  "srat_entries t rs = map (\<lambda>c. srat_cpu_affinity (the (node_of_cpu t (of_nat c))) (apic_ids t ! c) 1) [0..<unat (total_cpus t)]
     @ map srat_mem_entry rs"

text \<open>The enabled affinities of the SRAT: APIC id with node, and node with address range.\<close>

definition srat_cpu :: "bytes \<Rightarrow> (u32 \<times> u32) option" where
  "srat_cpu e = (if length e = 24 \<and> e ! 0 = 2 \<and> e ! 12 AND 1 = 1
     then Some (from_le_bytes (byte_slice e 8 12), from_le_bytes (byte_slice e 4 8)) else None)"

definition srat_mem :: "bytes \<Rightarrow> (u32 \<times> u64 \<times> u64) option" where
  "srat_mem e = (if length e = 40 \<and> e ! 0 = 1 \<and> e ! 28 AND 1 = 1
     then Some (from_le_bytes (byte_slice e 2 6), from_le_bytes (byte_slice e 8 16), from_le_bytes (byte_slice e 16 24))
     else None)"

definition slit_matrix :: "topology \<Rightarrow> bytes" where
  "slit_matrix t = map (\<lambda>(i, j). the (distance t (of_nat i) (of_nat j))) (cells (unat (numa_nodes t)))"

definition initiators_of :: "topology \<Rightarrow> u32 list" where
  "initiators_of t = filter (\<lambda>n. 0 < the (llcs_in_node t n)) (u32_range (numa_nodes t))"

text \<open>The variable part of the HMAT.\<close>

definition hmat_entries :: "topology \<Rightarrow> u32 list \<Rightarrow> u8 \<Rightarrow> bytes list" where
  "hmat_entries t targets data_type = map (\<lambda>p. the (hmat_entry t data_type p)) (List.product (initiators_of t) targets)"

definition hmat_matrix :: "topology \<Rightarrow> u32 list \<Rightarrow> u8 \<times> u64 \<Rightarrow> bytes list" where
  "hmat_matrix t targets = (\<lambda>(data_type, base_unit).
     let ni = length (initiators_of t); nt = length targets in
     [hmat_sllbi_header (of_nat (32 + 4 * ni + 4 * nt + 2 * ni * nt)) data_type (of_nat ni) (of_nat nt) base_unit]
     @ map (to_le_bytes 4) (initiators_of t) @ map (to_le_bytes 4) targets @ hmat_entries t targets data_type)"

fun msci_list :: "numa_node list \<Rightarrow> nat \<Rightarrow> bytes list" where
  "msci_list [] i = []"
| "msci_list (n # ns) i = (case cache_of n of None \<Rightarrow> []
     | Some cache \<Rightarrow> [hmat_msci (of_nat i) (mc_size cache) (msci_attributes cache)]) @ msci_list ns (Suc i)"

definition hmat_mpdas :: "topology \<Rightarrow> u32 list \<Rightarrow> bytes list" where
  "hmat_mpdas t targets = map (\<lambda>tgt. hmat_mpda 3 (the (hmat_initiator_of t (initiators_of t) tgt)) tgt) targets"

definition hmat_chunks :: "topology \<Rightarrow> u32 list \<Rightarrow> bytes list" where
  "hmat_chunks t targets = hmat_mpdas t targets
     @ hmat_matrix t targets (0, HMAT_LATENCY_BASE_PS) @ hmat_matrix t targets (3, HMAT_BW_BASE_MBS)
     @ (case nodes t of Some ns \<Rightarrow> msci_list ns 0 | None \<Rightarrow> [])"

text \<open>A root pointer that its reader accepts.\<close>

definition rsdp_ok :: "bytes \<Rightarrow> bool" where
  "rsdp_ok r \<longleftrightarrow> length r = 36 \<and> take 8 r = ascii ''RSD PTR '' \<and> sum_list (take 20 r) = 0 \<and> sum_list r = 0"

section \<open>Filling a buffer\<close>

lemma copy_at_fresh:
  "length src \<le> n \<Longrightarrow> copy_at 0 src (replicate n 0) = Some (fst (cursor src (n - length src)))"
  by (simp add: copy_at_def cursor_def overwrite_def)

lemma put_cursor: "length e \<le> k \<Longrightarrow> put e (cursor pre k) = Some (cursor (pre @ e) (k - length e))"
  by (simp add: put_def cursor_def copy_at_def overwrite_def)

lemma fold_put_cursor:
  "length (concat es) \<le> k \<Longrightarrow> fold_opt put es (cursor pre k) = Some (cursor (pre @ concat es) (k - length (concat es)))"
proof (induction es arbitrary: pre k)
  case (Cons e es)
  then have "length (concat es) \<le> k - length e" by simp
  from Cons.IH [OF this] Cons.prems show ?case by (simp add: put_cursor)
qed simp

lemma fold_opt_bind:
  "those (map f xs) = Some ys \<Longrightarrow> fold_opt (\<lambda>x s. Option.bind (f x) (\<lambda>y. g y s)) xs s = fold_opt g ys s"
proof (induction xs arbitrary: ys s)
  case (Cons x xs)
  then obtain y ys' where y: "f x = Some y" "those (map f xs) = Some ys'" "ys = y # ys'"
    by (auto split: option.splits)
  show ?case by (simp add: y Cons.IH [OF y(2)] split: Option.bind_split)
qed simp

lemma fold_opt_map: "fold_opt (\<lambda>x. g (h x)) xs s = fold_opt g (map h xs) s"
  by (induction xs arbitrary: s) (simp_all split: Option.bind_split)

lemma fold_opt_Some: "fold_opt (\<lambda>x s. Some (g x s)) xs s = Some (fold g xs s)"
  by (induction xs arbitrary: s) simp_all

lemma fold_put_those:
  assumes "those (map f xs) = Some es" and "length (concat es) \<le> k"
  shows "fold_opt (\<lambda>x s. Option.bind (f x) (\<lambda>e. put e s)) xs (cursor pre k)
    = Some (cursor (pre @ concat es) (k - length (concat es)))"
  using fold_put_cursor [OF assms(2)] fold_opt_bind [OF assms(1), of put] by simp

section \<open>Checksums and headers\<close>

lemma acpi_checksum_eq: "acpi_checksum data = - sum_list data"
  by (simp add: acpi_checksum_def foldl_sum_list minus_eq_not_plus_1)

lemma set_sdt_checksum_zero:
  assumes "set_sdt_checksum buf = Some tbl"
  shows "sum_list tbl = 0" and "length tbl = length buf" and "\<exists>c. tbl = buf[9 := c]"
  using assms by (auto simp: set_sdt_checksum_def Let_def acpi_checksum_eq sum_list_update_word split: if_splits)

lemma length_ascii [simp]: "length (ascii s) = length s"
  by (simp add: ascii_def)

lemma length_sdt_header [simp]:
  "length sig = 4 \<Longrightarrow> length (sdt_header_bytes (sdt_header_new sig len v)) = 36"
  by (simp add: sdt_header_bytes_def sdt_header_new_def)

lemma sdt_finish:
  assumes sig: "length sig = 4" and buf: "buf = sdt_header_bytes (sdt_header_new sig len v) @ rest"
    and len: "unat len = 36 + length rest"
  shows "\<exists>tbl. set_sdt_checksum buf = Some tbl \<and> sdt_ok sig tbl \<and> length tbl = unat len \<and> drop 36 tbl = rest"
proof -
  have "length buf = unat len" using sig len by (simp add: buf)
  then obtain tbl where tbl: "set_sdt_checksum buf = Some tbl"
    using len by (cases "set_sdt_checksum buf") (simp_all add: set_sdt_checksum_def Let_def)
  obtain c where c: "tbl = buf[9 := c]" using set_sdt_checksum_zero(3) [OF tbl] by blast
  have "byte_slice tbl 4 8 = byte_slice buf 4 8" by (simp add: byte_slice_def take_drop c)
  then have "take 4 tbl = ascii sig" "byte_slice tbl 4 8 = to_le_bytes 4 len"
    using sig by (simp_all add: c buf sdt_header_bytes_def sdt_header_new_def byte_slice_def)
  moreover have "from_le_bytes (to_le_bytes 4 len) = len" by (rule from_le_to_le) simp
  moreover have "drop 36 tbl = rest" using sig by (simp add: c buf)
  ultimately show ?thesis
    using tbl set_sdt_checksum_zero(1,2) [OF tbl] len \<open>length buf = unat len\<close> by (simp add: sdt_ok_def)
qed

section \<open>APIC ids of all CPUs\<close>

lemma nth_u32_range [simp]: "i < unat n \<Longrightarrow> u32_range n ! i = of_nat i"
  and length_u32_range [simp]: "length (u32_range n) = unat n"
  by (simp_all add: u32_range_def)

lemma unat_u32_range: "i < unat (n :: u32) \<Longrightarrow> unat (of_nat i :: u32) = i"
  using unat_u32_less [of n] by (simp add: unat_of_nat_no_overflow)

lemma length_apic_ids [simp]: "length (apic_ids t) = unat (total_cpus t)"
  by (simp add: apic_ids_def)

lemma apic_ids:
  assumes v: "validate t = Inr ()" and b: "unat (total_cpus t) \<le> 4096"
  shows "those (map (apic_id t) (u32_range (total_cpus t))) = Some (apic_ids t)"
    and "c < unat (total_cpus t) \<Longrightarrow> apic_id t (of_nat c) = Some (apic_ids t ! c)"
    and "c < unat (total_cpus t) \<Longrightarrow> c \<le> unat (apic_ids t ! c)"
proof -
  have b': "4 * unat (total_cpus t) \<le> 2 ^ 32" using b by simp
  have lt: "(of_nat c :: u32) < total_cpus t" if "c < unat (total_cpus t)" for c
    using that unat_u32_range [OF that] by (simp add: word_less_nat_alt)
  have some: "apic_id t (of_nat c) = Some (apic_ids t ! c)" if c: "c < unat (total_cpus t)" for c
  proof -
    obtain a where "apic_id t (of_nat c) = Some a" using max_apic_id_upper [OF v b' lt [OF c]] by blast
    with c show ?thesis by (simp add: apic_ids_def)
  qed
  then show "c < unat (total_cpus t) \<Longrightarrow> apic_id t (of_nat c) = Some (apic_ids t ! c)" .
  show "those (map (apic_id t) (u32_range (total_cpus t))) = Some (apic_ids t)"
    using those_nth [of "u32_range (total_cpus t)" "apic_id t" "(!) (apic_ids t)"] some
      map_nth [of "apic_ids t"] by simp
  show "c \<le> unat (apic_ids t ! c)" if "c < unat (total_cpus t)"
    using that
  proof (induction c)
    case (Suc c)
    have "(of_nat c :: u32) < of_nat (Suc c)"
      using unat_u32_range [OF Suc.prems] unat_u32_range [of c "total_cpus t"] Suc.prems
      by (simp add: word_less_nat_alt del: of_nat_Suc)
    from apic_id_strict_mono [OF v b' this lt [OF Suc.prems]] some [OF Suc.prems] some [of c] Suc.prems
    have "apic_ids t ! c < apic_ids t ! Suc c" by (simp del: of_nat_Suc)
    with Suc show ?case by (simp add: word_less_nat_alt)
  qed simp
qed

section \<open>MADT\<close>

lemma fold_scan:
  "fold scan_step ids (n, x, l) = (n + of_nat (\<Sum>id\<leftarrow>ids. if use_x2apic_entry id then 16 else 8),
     x \<or> list_ex use_x2apic_entry ids, l \<or> list_ex (\<lambda>id. \<not> use_x2apic_entry id) ids)"
  by (induction ids arbitrary: n x l) (simp_all add: scan_step_def)

lemma madt_scan_eq:
  assumes "validate t = Inr ()" and "unat (total_cpus t) \<le> 4096"
  shows "madt_scan t = Some (of_nat (\<Sum>id\<leftarrow>apic_ids t. if use_x2apic_entry id then 16 else 8),
     list_ex use_x2apic_entry (apic_ids t), list_ex (\<lambda>id. \<not> use_x2apic_entry id) (apic_ids t))"
proof -
  have "(\<lambda>cpu_id (n, x, l). map_option (\<lambda>id. if use_x2apic_entry id then (n + 16, True, l)
      else (n + 8, x, True)) (apic_id t cpu_id)) = (\<lambda>cpu_id s. Option.bind (apic_id t cpu_id) (\<lambda>id. Some (scan_step id s)))"
    by (intro ext) (auto simp: scan_step_def map_option_case split: option.split)
  then show ?thesis
    by (simp add: madt_scan_def fold_opt_bind [OF apic_ids(1) [OF assms]] fold_opt_Some fold_scan)
qed

lemma length_madt_entry: "length (madt_entry c a) = (if use_x2apic_entry a then 16 else 8)"
  by (simp add: madt_entry_def madt_x2apic_def madt_local_apic_def)

lemmas madt_fixed_entries = madt_io_apic_def madt_iso_def madt_lapic_nmi_def madt_x2apic_nmi_def

lemma madt_entries_length:
  "length (concat (madt_entries t)) = (\<Sum>id\<leftarrow>apic_ids t. if use_x2apic_entry id then 16 else 8) + 22
     + (if list_ex (\<lambda>id. \<not> use_x2apic_entry id) (apic_ids t) then 6 else 0)
     + (if list_ex use_x2apic_entry (apic_ids t) then 12 else 0)"
proof -
  have "(\<Sum>id\<leftarrow>apic_ids t. if use_x2apic_entry id then 16 else 8)
      = (\<Sum>c\<leftarrow>[0..<unat (total_cpus t)]. if use_x2apic_entry (apic_ids t ! c) then 16 else 8 :: nat)"
    by (subst map_by_nth) simp
  then show ?thesis
    by (simp add: madt_entries_def length_concat comp_def length_madt_entry madt_fixed_entries)
qed

lemma madt_size_eq:
  assumes "validate t = Inr ()" and "unat (total_cpus t) \<le> 4096"
  shows "\<exists>len. compute_madt_size t = Some len \<and> unat len = 44 + length (concat (madt_entries t))"
    and "length (concat (madt_entries t)) \<le> 65576"
proof -
  let ?s = "\<Sum>id\<leftarrow>apic_ids t. if use_x2apic_entry id then 16 else (8 :: nat)"
  have "?s \<le> (\<Sum>id\<leftarrow>apic_ids t. 16)" by (rule sum_list_mono) simp
  also have "\<dots> = 16 * unat (total_cpus t)" by (simp add: sum_list_triv)
  finally have s: "?s \<le> 65536" using assms(2) by simp
  then show "length (concat (madt_entries t)) \<le> 65576" by (simp add: madt_entries_length)
  have "compute_madt_size t = Some (of_nat (44 + length (concat (madt_entries t))))"
    by (simp add: compute_madt_size_def madt_scan_eq [OF assms] madt_entries_length Let_def)
  moreover have "unat (of_nat (44 + length (concat (madt_entries t))) :: u32) = 44 + length (concat (madt_entries t))"
    using s by (intro unat_of_nat_no_overflow) (simp add: madt_entries_length)
  ultimately show "\<exists>len. compute_madt_size t = Some len \<and> unat len = 44 + length (concat (madt_entries t))" by blast
qed

lemma those_madt_cpu_entries:
  assumes "validate t = Inr ()" and "unat (total_cpus t) \<le> 4096"
  shows "those (map (madt_cpu_entry t) (u32_range (total_cpus t)))
    = Some (map (\<lambda>c. madt_entry (of_nat c) (apic_ids t ! c)) [0..<unat (total_cpus t)])"
proof -
  have "madt_cpu_entry t (of_nat c) = Some (madt_entry (of_nat c) (apic_ids t ! c))" if "c < unat (total_cpus t)" for c
    using apic_ids(2) [OF assms that] by (simp add: madt_cpu_entry_def madt_entry_def)
  then show ?thesis
    using those_nth [of "u32_range (total_cpus t)" "madt_cpu_entry t" "\<lambda>c. madt_entry (of_nat c) (apic_ids t ! c)"] by simp
qed

lemma put_tail:
  "(do {
      s \<leftarrow> put a s;
      s \<leftarrow> put b s;
      s \<leftarrow> (if l then put c s else Some s);
      s \<leftarrow> (if x then put d s else Some s);
      f s
    }) = Option.bind (fold_opt put ([a, b] @ (if l then [c] else []) @ (if x then [d] else [])) s) f"
  by (cases l; cases x) (simp_all split: Option.bind_split)

lemma cursor_full [simp]: "fst (cursor pre 0) = pre"
  by (simp add: cursor_def)

lemma madt_table_image:
  assumes "validate t = Inr ()" and "unat (total_cpus t) \<le> 4096"
  shows "\<exists>len. compute_madt_size t = Some len \<and> unat len = 44 + length (concat (madt_entries t))
    \<and> madt_table t = set_sdt_checksum (madt_header_bytes (sdt_header_new ''APIC'' len 3) LAPIC_ADDR 1 @ concat (madt_entries t))"
proof -
  obtain len where len: "compute_madt_size t = Some len" "unat len = 44 + length (concat (madt_entries t))"
    using madt_size_eq(1) [OF assms] by blast
  define h where "h = madt_header_bytes (sdt_header_new ''APIC'' len 3) LAPIC_ADDR 1"
  define es where "es = map (\<lambda>c. madt_entry (of_nat c) (apic_ids t ! c)) [0..<unat (total_cpus t)]"
  define tail where "tail = [madt_io_apic IOAPIC_ID IOAPIC_ADDR 0, madt_iso 0 0 2 0]
     @ (if list_ex (\<lambda>id. \<not> use_x2apic_entry id) (apic_ids t) then [madt_lapic_nmi 0xFF 0 1] else [])
     @ (if list_ex use_x2apic_entry (apic_ids t) then [madt_x2apic_nmi 0 0xFFFFFFFF 1] else [])"
  have all: "madt_entries t = es @ tail" by (simp add: madt_entries_def es_def tail_def)
  define k where "k = length (concat (es @ tail))"
  have h: "length h = 44" by (simp add: h_def madt_header_bytes_def)
  have hdr: "copy_at 0 h (replicate (unat len) 0) = Some (fst (cursor h k))"
    using len h by (simp add: copy_at_fresh all k_def)
  have cur: "(fst (cursor h k), 44) = cursor h k" using h by (simp add: cursor_def)
  have "length (concat es) \<le> k" by (simp add: k_def)
  note cpus = fold_put_those [OF those_madt_cpu_entries [OF assms, folded es_def] this, of h]
  have rest: "fold_opt put tail (cursor (h @ concat es) (k - length (concat es))) = Some (cursor (h @ concat es @ concat tail) 0)"
    using fold_put_cursor [of tail "k - length (concat es)" "h @ concat es"] by (simp add: k_def)
  have "madt_table t = set_sdt_checksum (h @ concat (madt_entries t))"
  proof -
    have "madt_table t = Option.bind (Option.bind (copy_at 0 h (replicate (unat len) 0)) (\<lambda>buf.
        fold_opt (\<lambda>cpu_id s. Option.bind (madt_cpu_entry t cpu_id) (\<lambda>e. put e s)) (u32_range (total_cpus t)) (buf, 44)))
        (\<lambda>s. Option.bind (fold_opt put tail s) (\<lambda>s. set_sdt_checksum (fst s)))"
      unfolding tail_def put_tail [symmetric] h_def
      by (simp only: madt_table_def madt_scan_eq [OF assms] len(1) Let_def Option.bind.bind_lunit prod.case Option.bind_assoc)
    then show ?thesis by (simp only: hdr cur cpus rest Option.bind.bind_lunit cursor_full) (simp add: all)
  qed
  with len show ?thesis unfolding h_def by (intro exI [of _ len] conjI)
qed

section \<open>Reading the tables back\<close>

declare split_entries.simps [simp del]

lemma split_entries_concat: "\<forall>e \<in> set es. entry_ok e \<Longrightarrow> split_entries (concat es) = Some es"
proof (induction es)
  case Nil
  then show ?case by (simp add: split_entries.simps)
next
  case (Cons e es)
  then have e: "2 \<le> length e" "unat (e ! 1) = length e" by (simp_all add: entry_ok_def)
  then have "(e @ concat es) ! 1 = e ! 1" by (simp add: nth_append)
  with e Cons show ?case by (subst split_entries.simps) auto
qed

lemma madt_entry_ok: "entry_ok (madt_entry c a)"
  by (simp add: entry_ok_def madt_entry_def madt_x2apic_def madt_local_apic_def)

lemma ucast_byte_back: "unat (w :: u32) < 256 \<Longrightarrow> ucast (ucast w :: u8) = w"
  by (rule unsigned_word_eqI [where 'a = nat]) (simp add: unat_ucast_up unsigned_ucast_eq unsigned_take_bit_eq take_bit_nat_eq_self)

lemma le_one [simp]: "to_le_bytes 4 (1 :: u32) = [1, 0, 0, 0]"
  by (simp add: to_le_bytes_def le_bytes_numeral)

lemma madt_cpu_entry_decode:
  assumes "unat c \<le> unat a"
  shows "madt_cpu (madt_entry c a) = Some (a, c)"
proof (cases "use_x2apic_entry a")
  case True
  have "from_le_bytes (to_le_bytes 4 w) = (w :: u32)" for w by (rule from_le_to_le) simp
  with True show ?thesis
    by (simp add: madt_entry_def madt_x2apic_def madt_cpu_def byte_slice_def nth_append nth_Cons')
next
  case False
  then have "unat a < 256" by (simp add: use_x2apic_entry_def word_le_nat_alt)
  with assms False show ?thesis
    by (simp add: madt_entry_def madt_local_apic_def madt_cpu_def ucast_byte_back)
qed

lemma madt_tail_entries:
  "\<forall>e \<in> {madt_io_apic IOAPIC_ID IOAPIC_ADDR 0, madt_iso 0 0 2 0, madt_lapic_nmi 0xFF 0 1, madt_x2apic_nmi 0 0xFFFFFFFF 1}.
     entry_ok e \<and> madt_cpu e = None"
  by (simp add: madt_fixed_entries entry_ok_def madt_cpu_def)

lemma madt_entries_ok: "\<forall>e \<in> set (madt_entries t). entry_ok e"
  using madt_tail_entries by (auto simp: madt_entries_def madt_entry_ok)

lemma madt_entries_cpus:
  assumes "validate t = Inr ()" and "unat (total_cpus t) \<le> 4096"
  shows "List.map_filter madt_cpu (madt_entries t) = map (\<lambda>cpu. (the (apic_id t cpu), cpu)) (u32_range (total_cpus t))"
proof -
  let ?n = "unat (total_cpus t)"
  have cpu: "madt_cpu (madt_entry (of_nat c) (apic_ids t ! c)) = Some (apic_ids t ! c, of_nat c)" if "c < ?n" for c
    using apic_ids(3) [OF assms that] unat_u32_range [OF that] by (intro madt_cpu_entry_decode) simp
  have "List.map_filter madt_cpu (map (\<lambda>c. madt_entry (of_nat c) (apic_ids t ! c)) [0..<?n])
      = map (\<lambda>c. (apic_ids t ! c, of_nat c)) [0..<?n]"
    using cpu by (simp add: List.map_filter_def comp_def filter_map cong: filter_cong map_cong)
  then show ?thesis
    using madt_tail_entries apic_ids(2) [OF assms]
    by (simp add: madt_entries_def u32_range_def List.map_filter_def comp_def)
qed

lemma madt_table_read:
  assumes "validate t = Inr ()" and "unat (total_cpus t) \<le> 4096"
  shows "\<exists>tbl len. madt_table t = Some tbl \<and> sdt_ok ''APIC'' tbl
    \<and> compute_madt_size t = Some len \<and> length tbl = unat len \<and> length tbl \<le> 65620
    \<and> split_entries (drop 44 tbl) = Some (madt_entries t)"
proof -
  obtain len where len: "compute_madt_size t = Some len" "unat len = 44 + length (concat (madt_entries t))"
    and tbl: "madt_table t = set_sdt_checksum (madt_header_bytes (sdt_header_new ''APIC'' len 3) LAPIC_ADDR 1 @ concat (madt_entries t))"
    using madt_table_image [OF assms] by blast
  let ?rest = "to_le_bytes 4 LAPIC_ADDR @ to_le_bytes 4 (1 :: u32) @ concat (madt_entries t)"
  obtain b where b: "madt_table t = Some b" "sdt_ok ''APIC'' b" "length b = unat len" "drop 36 b = ?rest"
    using sdt_finish [of "''APIC''" _ len 3 ?rest] len by (auto simp: tbl madt_header_bytes_def)
  have "drop 44 b = drop 8 (drop 36 b)" by simp
  also have "\<dots> = concat (madt_entries t)" unfolding b(4) by simp
  finally have "split_entries (drop 44 b) = Some (madt_entries t)"
    by (simp add: split_entries_concat [OF madt_entries_ok])
  with b len madt_size_eq(2) [OF assms] show ?thesis by auto
qed

section \<open>SRAT\<close>

lemma node_of_cpu_Some:
  assumes "wf_topology t" and "cpu < total_cpus t"
  shows "\<exists>n. node_of_cpu t cpu = Some n \<and> n < numa_nodes t"
proof -
  from assms(1) have v: "validate t = Inr ()" by (simp add: wf_topology_def)
  obtain l c h where "decompose t cpu = Some (l, c, h)" "l < llcs t"
    using decompose_correct [OF v assms(2)] by blast
  with numa_node_of_bounds [OF assms(1)] show ?thesis by (auto simp: node_of_cpu_def)
qed

lemma copy_at_cursor:
  "n = length pre \<Longrightarrow> length src \<le> k \<Longrightarrow> copy_at n src (fst (cursor pre k)) = Some (fst (cursor (pre @ src) (k - length src)))"
  by (simp add: copy_at_def cursor_def overwrite_def)

lemma cursor_skip: "n = length pre + z \<Longrightarrow> z \<le> k \<Longrightarrow> (fst (cursor pre k), n) = cursor (pre @ replicate z 0) (k - z)"
  by (simp add: cursor_def replicate_add [symmetric])

lemma length_srat_entries:
  "length (concat (srat_entries t rs)) = 24 * unat (total_cpus t) + 40 * length rs"
  by (simp add: srat_entries_def length_concat comp_def srat_cpu_affinity_def srat_mem_entry_def srat_mem_affinity_def
      sum_list_triv)

lemma srat_len_eq:
  assumes "acpi_small t rs"
  shows "unat (srat_len t rs) = 48 + length (concat (srat_entries t rs))"
proof -
  have "srat_len t rs = of_nat (48 + 24 * unat (total_cpus t) + 40 * length rs)" by (simp add: srat_len_def)
  also have "unat \<dots> = 48 + 24 * unat (total_cpus t) + 40 * length rs"
    using assms by (intro unat_of_nat_no_overflow) (simp add: acpi_small_def)
  finally show ?thesis by (simp add: length_srat_entries)
qed

lemma those_srat_cpu_entries:
  assumes wf: "wf_topology t" and b: "unat (total_cpus t) \<le> 4096"
  shows "those (map (srat_cpu_entry t) (u32_range (total_cpus t)))
    = Some (map (\<lambda>c. srat_cpu_affinity (the (node_of_cpu t (of_nat c))) (apic_ids t ! c) 1) [0..<unat (total_cpus t)])"
proof -
  let ?e = "\<lambda>c. srat_cpu_affinity (the (node_of_cpu t (of_nat c))) (apic_ids t ! c) 1"
  from wf have v: "validate t = Inr ()" by (simp add: wf_topology_def)
  have "srat_cpu_entry t (of_nat c) = Some (?e c)" if c: "c < unat (total_cpus t)" for c
  proof -
    have "(of_nat c :: u32) < total_cpus t" using unat_u32_range [OF c] c by (simp add: word_less_nat_alt)
    then obtain n where "node_of_cpu t (of_nat c) = Some n" using node_of_cpu_Some [OF wf] by blast
    with apic_ids(2) [OF v b c] show ?thesis
      by (auto simp: srat_cpu_entry_def node_of_cpu_def split: Option.bind_splits)
  qed
  then show ?thesis using those_nth [of "u32_range (total_cpus t)" "srat_cpu_entry t" ?e] by simp
qed

lemma srat_table_image:
  assumes wf: "wf_topology t" and small: "acpi_small t rs"
  shows "srat_table t rs = set_sdt_checksum (sdt_header_bytes (sdt_header_new ''SRAT'' (srat_len t rs) 3)
    @ to_le_bytes 4 (1 :: u32) @ replicate 8 0 @ concat (srat_entries t rs))"
proof -
  define h where "h = sdt_header_bytes (sdt_header_new ''SRAT'' (srat_len t rs) 3)"
  define es where "es = map (\<lambda>c. srat_cpu_affinity (the (node_of_cpu t (of_nat c))) (apic_ids t ! c) 1) [0..<unat (total_cpus t)]"
  define ms where "ms = map srat_mem_entry rs"
  define k where "k = length (concat es) + length (concat ms)"
  have h: "length h = 36" by (simp add: h_def)
  have len: "unat (srat_len t rs) = 48 + k"
    using srat_len_eq [OF small] by (simp add: srat_entries_def k_def es_def ms_def)
  have hdr: "copy_at 0 h (replicate (unat (srat_len t rs)) 0) = Some (fst (cursor h (12 + k)))"
    using h len by (simp add: copy_at_fresh)
  have rev1: "copy_at 36 (to_le_bytes 4 (1 :: u32)) (fst (cursor h (12 + k))) = Some (fst (cursor (h @ [1, 0, 0, 0]) (8 + k)))"
    using h by (simp add: copy_at_cursor)
  have cur: "(fst (cursor (h @ [1, 0, 0, 0]) (8 + k)), 48) = cursor (h @ [1, 0, 0, 0] @ replicate 8 0) k"
    using h by (subst cursor_skip [of _ _ 8]) simp_all
  have cpus: "fold_opt (\<lambda>cpu_id s. Option.bind (srat_cpu_entry t cpu_id) (\<lambda>e. put e s)) (u32_range (total_cpus t)) (cursor pre k)
      = Some (cursor (pre @ concat es) (length (concat ms)))" for pre
    using fold_put_those [OF those_srat_cpu_entries [OF wf, folded es_def], of k pre] small by (simp add: k_def acpi_small_def)
  have mems: "fold_opt (\<lambda>region. put (srat_mem_entry region)) rs (cursor pre (length (concat ms))) = Some (cursor (pre @ concat ms) 0)" for pre
    using fold_put_cursor [of ms "length (concat ms)" pre] by (simp add: fold_opt_map ms_def)
  show ?thesis
    unfolding srat_table_def Let_def h_def [symmetric] hdr Option.bind.bind_lunit rev1 cur cpus mems cursor_full
    by (simp add: srat_entries_def es_def ms_def)
qed

lemma from_le_u32 [simp]: "from_le_bytes (to_le_bytes 4 w) = (w :: u32)"
  and from_le_u64 [simp]: "from_le_bytes (to_le_bytes 8 x) = (x :: u64)"
  by (rule from_le_to_le; simp)+

lemma srat_cpu_affinity_decode:
  "entry_ok (srat_cpu_affinity n a 1)" "srat_cpu (srat_cpu_affinity n a 1) = Some (a, n)" "srat_mem (srat_cpu_affinity n a 1) = None"
  by (simp_all add: srat_cpu_affinity_def entry_ok_def srat_cpu_def srat_mem_def byte_slice_def nth_append nth_Cons')

lemma srat_mem_entry_decode:
  "entry_ok (srat_mem_entry r)" "srat_mem (srat_mem_entry r) = Some (node_id r, gpa_start r, region_size r)"
  "srat_cpu (srat_mem_entry r) = None"
  by (simp_all add: srat_mem_entry_def srat_mem_affinity_def entry_ok_def srat_cpu_def srat_mem_def byte_slice_def nth_append nth_Cons')

lemma srat_entries_read:
  assumes "validate t = Inr ()" and "unat (total_cpus t) \<le> 4096"
  shows "\<forall>e \<in> set (srat_entries t rs). entry_ok e"
    and "List.map_filter srat_cpu (srat_entries t rs)
      = map (\<lambda>cpu. (the (apic_id t cpu), the (node_of_cpu t cpu))) (u32_range (total_cpus t))"
    and "List.map_filter srat_mem (srat_entries t rs) = map (\<lambda>r. (node_id r, gpa_start r, region_size r)) rs"
  using apic_ids(2) [OF assms]
  by (auto simp: srat_entries_def srat_cpu_affinity_decode srat_mem_entry_decode List.map_filter_def comp_def u32_range_def)

lemma srat_table_read:
  assumes "wf_topology t" and "acpi_small t rs"
  shows "\<exists>tbl. srat_table t rs = Some tbl \<and> sdt_ok ''SRAT'' tbl \<and> length tbl = unat (srat_len t rs)
    \<and> split_entries (drop 48 tbl) = Some (srat_entries t rs)"
proof -
  let ?rest = "to_le_bytes 4 (1 :: u32) @ replicate 8 0 @ concat (srat_entries t rs)"
  obtain b where b: "srat_table t rs = Some b" "sdt_ok ''SRAT'' b" "length b = unat (srat_len t rs)" "drop 36 b = ?rest"
    using sdt_finish [of "''SRAT''" _ "srat_len t rs" 3 ?rest] srat_len_eq [OF assms(2)]
    by (auto simp: srat_table_image [OF assms] simp del: le_one)
  have "drop 48 b = drop 12 (drop 36 b)" by simp
  also have "\<dots> = concat (srat_entries t rs)" unfolding b(4) by simp
  finally show ?thesis
    using b split_entries_concat [OF srat_entries_read(1)] assms by (simp add: wf_topology_def acpi_small_def)
qed

section \<open>SLIT\<close>

lemma fold_copy_seq:
  assumes "map idx ps = [m..<m + length ps]" and "length pre = off + m" and "length ps \<le> k"
    and "\<forall>p \<in> set ps. f p = Some (g p)"
  shows "fold_opt (\<lambda>p b. Option.bind (f p) (\<lambda>d. copy_at (off + idx p) [d] b)) ps (fst (cursor pre k))
    = Some (fst (cursor (pre @ map g ps) (k - length ps)))"
  using assms
proof (induction ps arbitrary: m pre k)
  case (Cons p ps)
  have m: "idx p = m" "map idx ps = [Suc m..<Suc m + length ps]"
    using Cons.prems(1) upt_conv_Cons [of m "m + length (p # ps)"] by (simp_all del: upt_Suc)
  have "copy_at (off + idx p) [g p] (fst (cursor pre k)) = Some (fst (cursor (pre @ [g p]) (k - 1)))"
    using Cons.prems m by (simp add: copy_at_cursor)
  with Cons.IH [OF m(2), of "pre @ [g p]" "k - 1"] Cons.prems show ?case by simp
qed simp

lemma cells_index: "map (\<lambda>(i, j). i * n + j) (cells n) = [0..<n * n]"
proof (rule nth_equalityI)
  fix k assume "k < length (map (\<lambda>(i, j). i * n + j) (cells n))"
  then have k: "k < n * n" by (simp add: cells_def length_product)
  then have "k div n < n" "k mod n < n" by (auto simp: less_mult_imp_div_less intro!: mod_less_divisor gr0I)
  with k show "map (\<lambda>(i, j). i * n + j) (cells n) ! k = [0..<n * n] ! k"
    by (simp add: cells_def product_nth)
qed (simp add: cells_def length_product)

lemma length_cells [simp]: "length (cells n) = n * n"
  by (simp add: cells_def length_product)

lemma unat_slit_len:
  assumes "unat (numa_nodes t) \<le> 4096"
  shows "unat (of_nat (slit_len t) :: u32) = slit_len t" and "slit_len t \<le> 16777260"
proof -
  have "unat (numa_nodes t) * unat (numa_nodes t) \<le> 4096 * 4096" using assms by (intro mult_le_mono)
  then show "slit_len t \<le> 16777260" by (simp add: slit_len_def)
  then show "unat (of_nat (slit_len t) :: u32) = slit_len t" by (intro unat_of_nat_no_overflow) simp
qed

lemma slit_table_image:
  assumes "validate t = Inr ()"
  shows "slit_table t = set_sdt_checksum (sdt_header_bytes (sdt_header_new ''SLIT'' (of_nat (slit_len t)) 1)
    @ to_le_bytes 8 (ucast (numa_nodes t) :: u64) @ slit_matrix t)"
proof -
  define n where "n = unat (numa_nodes t)"
  define h where "h = sdt_header_bytes (sdt_header_new ''SLIT'' (of_nat (slit_len t)) 1)"
  define nb where "nb = to_le_bytes 8 (ucast (numa_nodes t) :: u64)"
  have l: "length h = 36" "length nb = 8" by (simp_all add: h_def nb_def)
  have hdr: "copy_at 0 h (replicate (slit_len t) 0) = Some (fst (cursor h (8 + n * n)))"
    using l by (simp add: copy_at_fresh slit_len_def n_def)
  have count: "copy_at 36 nb (fst (cursor h (8 + n * n))) = Some (fst (cursor (h @ nb) (n * n)))"
    using l by (simp add: copy_at_cursor)
  have dist: "\<forall>p \<in> set (cells n). (\<lambda>(i, j). distance t (of_nat i) (of_nat j)) p
      = Some ((\<lambda>(i, j). the (distance t (of_nat i) (of_nat j))) p)"
  proof -
    have "\<exists>v. distance t (of_nat i) (of_nat j) = Some v" if "i < n" "j < n" for i j
      using distance_valid [OF assms, of "of_nat i" "of_nat j"] that unat_u32_range [of i "numa_nodes t"]
        unat_u32_range [of j "numa_nodes t"] by (auto simp: n_def word_less_nat_alt)
    then show ?thesis by auto
  qed
  have step: "slit_cell t = (\<lambda>p b. Option.bind ((\<lambda>(i, j). distance t (of_nat i) (of_nat j)) p)
      (\<lambda>d. copy_at (44 + (\<lambda>(i, j). i * n + j) p) [d] b))"
    by (intro ext) (simp add: slit_cell_def n_def split: prod.split)
  have "fold_opt (slit_cell t) (cells n) (fst (cursor (h @ nb) (n * n))) = Some (h @ nb @ slit_matrix t)"
    unfolding step using fold_copy_seq [OF _ _ _ dist, of "\<lambda>(i, j). i * n + j" 0 "h @ nb" 44 "n * n"] l
    by (simp add: cells_index slit_matrix_def n_def)
  then show ?thesis
    unfolding slit_table_def Let_def h_def [symmetric] nb_def [symmetric] hdr Option.bind.bind_lunit count n_def [symmetric]
    by simp
qed

lemma slit_table_read:
  assumes "validate t = Inr ()" and "unat (numa_nodes t) \<le> 4096"
  shows "\<exists>tbl. slit_table t = Some tbl \<and> sdt_ok ''SLIT'' tbl \<and> length tbl = slit_len t
    \<and> drop 36 tbl = to_le_bytes 8 (ucast (numa_nodes t) :: u64) @ slit_matrix t"
proof -
  have "36 + length (to_le_bytes 8 (ucast (numa_nodes t) :: u64) @ slit_matrix t) = slit_len t"
    by (simp add: slit_matrix_def slit_len_def)
  with sdt_finish [of "''SLIT''" _ "of_nat (slit_len t)" 1 "to_le_bytes 8 (ucast (numa_nodes t) :: u64) @ slit_matrix t"]
    unat_slit_len(1) [OF assms(2)]
  show ?thesis by (simp only: slit_table_image [OF assms(1)]) simp
qed

lemma slit_contents:
  assumes "validate t = Inr ()" and "unat (numa_nodes t) \<le> 4096"
  shows "\<exists>d. slit_table t = Some d \<and> from_le_bytes (byte_slice d 36 44) = (ucast (numa_nodes t) :: u64)
    \<and> (\<forall>i < unat (numa_nodes t). \<forall>j < unat (numa_nodes t).
         distance t (of_nat i) (of_nat j) = Some (d ! (44 + i * unat (numa_nodes t) + j)))"
proof -
  let ?n = "unat (numa_nodes t)" and ?nb = "to_le_bytes 8 (ucast (numa_nodes t) :: u64)"
  obtain d where d: "slit_table t = Some d" "length d = slit_len t" "drop 36 d = ?nb @ slit_matrix t"
    using slit_table_read [OF assms] by blast
  have "byte_slice d 36 44 = ?nb" using d(3) by (simp add: byte_slice_def)
  moreover have "distance t (of_nat i) (of_nat j) = Some (d ! (44 + i * ?n + j))" if "i < ?n" "j < ?n" for i j
  proof -
    have k: "i * ?n + j < ?n * ?n" using that by (rule square_index_less)
    have "d ! (44 + i * ?n + j) = drop 36 d ! (8 + (i * ?n + j))" using d(2) by (simp add: slit_len_def add.assoc)
    also have "\<dots> = slit_matrix t ! (i * ?n + j)" unfolding d(3) by (simp add: nth_append)
    also have "\<dots> = the (distance t (of_nat i) (of_nat j))"
      using k that by (simp add: slit_matrix_def cells_def product_nth)
    finally have e: "d ! (44 + i * ?n + j) = the (distance t (of_nat i) (of_nat j))" .
    have "(of_nat i :: u32) < numa_nodes t" "(of_nat j :: u32) < numa_nodes t"
      using that by (simp_all add: word_less_nat_alt unat_u32_range)
    from distance_valid [OF assms(1) this] e show ?thesis by auto
  qed
  ultimately show ?thesis using d(1) by auto
qed

section \<open>HMAT\<close>

lemma take_drop_concat_const:
  "\<forall>x \<in> set xs. length x = k \<Longrightarrow> i < length xs \<Longrightarrow> take k (drop (k * i) (concat xs @ ys)) = xs ! i"
proof (induction xs arbitrary: i)
  case (Cons x xs)
  then show ?case by (cases i) simp_all
qed simp

lemma u32_range_less: "n \<in> set (u32_range m) \<Longrightarrow> n < m"
  using unat_u32_less [of m] by (auto simp: u32_range_def word_less_nat_alt unat_of_nat_no_overflow)

lemma llcs_in_node_Some: "wf_topology t \<Longrightarrow> k < numa_nodes t \<Longrightarrow> \<exists>m. llcs_in_node t k = Some m"
  using first_llc_in_node_eq by blast

lemma hmat_initiators_eq:
  assumes "wf_topology t"
  shows "hmat_initiators t = Some (initiators_of t)"
proof -
  have "fold_opt (\<lambda>n acc. map_option (\<lambda>k. if 0 < k then acc @ [n] else acc) (llcs_in_node t n)) ns acc
      = Some (acc @ filter (\<lambda>n. 0 < the (llcs_in_node t n)) ns)" if "\<forall>n \<in> set ns. n < numa_nodes t" for ns acc
    using that
  proof (induction ns arbitrary: acc)
    case (Cons n ns)
    then obtain k where "llcs_in_node t n = Some k" using llcs_in_node_Some [OF assms, of n] by auto
    with Cons show ?case by simp
  qed simp
  from this [of "u32_range (numa_nodes t)" "[]"] show ?thesis
    by (simp add: hmat_initiators_def initiators_of_def u32_range_less)
qed

lemma length_initiators:
  assumes "wf_topology t" and "unat (numa_nodes t) \<le> 4096"
  shows "unat (cpu_bearing_nodes t) = length (initiators_of t)" and "length (initiators_of t) \<le> 4096"
proof -
  show "length (initiators_of t) \<le> 4096"
    using assms(2) by (auto simp: initiators_of_def intro: le_trans [OF length_filter_le])
  from assms(1) have v: "validate t = Inr ()" by (simp add: wf_topology_def)
  show "unat (cpu_bearing_nodes t) = length (initiators_of t)"
  proof (cases "nodes t")
    case None
    with v have "numa_nodes t \<noteq> 0" "llcs t \<noteq> 0" "is_multiple_of (llcs t) (numa_nodes t)"
      by (auto simp: validate_iff validate_nodes_def split: if_splits)
    then have "0 < llcs t div numa_nodes t"
      by (simp add: word_less_nat_alt unat_div is_multiple_of_dvd div_greater_zero_iff dvd_imp_le unat_gt_0_iff)
    with None \<open>numa_nodes t \<noteq> 0\<close> have "filter (\<lambda>n. 0 < the (llcs_in_node t n)) xs = xs" for xs
      by (simp add: llcs_in_node_def rust_div_def)
    with None show ?thesis by (simp add: initiators_of_def cpu_bearing_nodes_def)
  next
    case (Some ns)
    with v have len: "length ns = unat (numa_nodes t)"
      by (auto simp: validate_iff validate_nodes_def Let_def split: if_splits)
    have "length (initiators_of t) = length (filter (\<lambda>i. 0 < nn_llcs (ns ! i)) [0..<length ns])"
      using Some len unat_u32_range
      by (auto simp: initiators_of_def u32_range_def filter_map comp_def llcs_in_node_def rust_index_def intro!: arg_cong [where f = length] filter_cong)
    also have "\<dots> = length (filter (\<lambda>n. 0 < nn_llcs n) ns)"
      using map_nth [of ns] filter_map [of "\<lambda>n. 0 < nn_llcs n" "(!) ns" "[0..<length ns]"] by (simp add: comp_def)
    finally have e: "length (initiators_of t) = length (filter (\<lambda>n. \<not> is_memory_only n) ns)"
      by (simp add: is_memory_only_def word_gt_0)
    moreover have "length (filter (\<lambda>n. \<not> is_memory_only n) ns) \<le> 4096"
      using assms(2) len by (auto intro: le_trans [OF length_filter_le])
    ultimately show ?thesis using Some by (simp add: cpu_bearing_nodes_def unat_of_nat_no_overflow)
  qed
qed

text \<open>The nearest initiator: the first one at the least distance.\<close>

lemma min_fold:
  fixes xs :: "('a \<times> u8) list"
  shows "\<exists>z. foldl (\<lambda>(y, l) (z, m). if m < l then (z, m) else (y, l)) a xs = z \<and> z \<in> set (a # xs)
    \<and> (\<forall>x \<in> set (a # xs). snd z \<le> snd x)"
proof (induction xs arbitrary: a)
  case (Cons x xs)
  obtain y l z m where [simp]: "a = (y, l)" "x = (z, m)" by (cases a, cases x)
  show ?case
    using Cons.IH [of "if m < l then (z, m) else (y, l)"] by (auto split: if_splits)
qed simp

lemma min_by_key_least:
  assumes "xs \<noteq> []"
  shows "\<exists>x k. min_by_key xs = Some x \<and> (x, k) \<in> set xs \<and> (\<forall>(y, l) \<in> set xs. k \<le> l)"
proof -
  obtain y l ys where xs: "xs = (y, l) # ys" using assms by (cases xs) auto
  obtain x k where "foldl (\<lambda>(y, l) (z, m). if m < l then (z, m) else (y, l)) (y, l) ys = (x, k)"
    "(x, k) \<in> set xs" "\<forall>p \<in> set xs. k \<le> snd p"
    using min_fold [of "(y, l)" ys] xs by (cases "foldl (\<lambda>(y, l) (z, m). if m < l then (z, m) else (y, l)) (y, l) ys") auto
  then show ?thesis by (intro exI [of _ x] exI [of _ k]) (auto simp: xs)
qed

lemma initiators_of_iff: "i \<in> set (initiators_of t) \<Longrightarrow> i < numa_nodes t \<and> 0 < the (llcs_in_node t i)"
  by (simp add: initiators_of_def u32_range_less)

lemma mem_u32_range: "n < m \<Longrightarrow> n \<in> set (u32_range m)"
  by (auto simp: u32_range_def word_less_nat_alt intro!: image_eqI [of _ _ "unat n"])

lemma initiators_nonempty:
  assumes "wf_topology t"
  shows "initiators_of t \<noteq> []"
proof -
  from assms have "0 < llcs t" by (simp add: wf_topology_def validate_iff word_gt_0)
  from numa_node_of_bounds [OF assms this] obtain k where k: "k < numa_nodes t"
    "sum_list (take (unat k) (node_llcs t)) < sum_list (take (Suc (unat k)) (node_llcs t))"
    using le_less_trans by blast
  from first_llc_in_node_eq [OF assms k(1)] k(2) obtain m where m: "llcs_in_node t k = Some m" "0 < unat m" by force
  with k(1) mem_u32_range have "k \<in> set (initiators_of t)" by (simp add: initiators_of_def unat_gt_0 word_gt_0)
  then show ?thesis by auto
qed

lemma hmat_initiator_nearest:
  assumes wf: "wf_topology t" and tgt: "tgt < numa_nodes t"
  shows "\<exists>i d. hmat_initiator_of t (initiators_of t) tgt = Some i \<and> i \<in> set (initiators_of t)
    \<and> distance t i tgt = Some d \<and> (\<forall>j \<in> set (initiators_of t). \<forall>e. distance t j tgt = Some e \<longrightarrow> d \<le> e)"
proof -
  from wf have v: "validate t = Inr ()" by (simp add: wf_topology_def)
  obtain m where m: "llcs_in_node t tgt = Some m" using llcs_in_node_Some [OF wf tgt] by blast
  have dist: "\<exists>d. distance t j tgt = Some d \<and> (if j = tgt then d = 10 else 10 < d)" if "j < numa_nodes t" for j
    using distance_valid [OF v that tgt] by blast
  show ?thesis
  proof (cases "0 < m")
    case True
    with m tgt have "tgt \<in> set (initiators_of t)" by (simp add: initiators_of_def mem_u32_range)
    moreover have "10 \<le> e" if "j \<in> set (initiators_of t)" "distance t j tgt = Some e" for j e
      using dist [of j] initiators_of_iff [OF that(1)] that(2) by (auto split: if_splits)
    ultimately show ?thesis using True m dist [OF tgt] by (auto simp: hmat_initiator_of_def)
  next
    case False
    let ?ds = "map (\<lambda>j. the (distance t j tgt)) (initiators_of t)"
    have ds: "those (map (\<lambda>i. distance t i tgt) (initiators_of t)) = Some ?ds"
      using dist initiators_of_iff by (intro those_map_Some) force
    obtain i d where i: "min_by_key (zip (initiators_of t) ?ds) = Some i" "(i, d) \<in> set (zip (initiators_of t) ?ds)"
      "\<forall>(j, e) \<in> set (zip (initiators_of t) ?ds). d \<le> e"
      using min_by_key_least [of "zip (initiators_of t) ?ds"] initiators_nonempty [OF wf] by (auto simp: zip_eq_Nil_iff)
    have z: "set (zip (initiators_of t) ?ds) = (\<lambda>j. (j, the (distance t j tgt))) ` set (initiators_of t)"
      by (simp add: zip_map2 zip_same_conv_map image_image)
    from i(2) z dist [of i] initiators_of_iff [of i t] have "i \<in> set (initiators_of t)" "distance t i tgt = Some d" by auto
    with False m ds i z show ?thesis by (force simp: hmat_initiator_of_def)
  qed
qed

lemma hmat_entry_Some:
  assumes wf: "wf_topology t" and "i < numa_nodes t" "tgt < numa_nodes t"
  shows "\<exists>e. hmat_entry t ty (i, tgt) = Some e \<and> length e = 2"
proof -
  from wf have v: "validate t = Inr ()" by (simp add: wf_topology_def)
  have "\<exists>n. hmat_node t tgt = Some n"
    using v assms(3) by (auto simp: hmat_node_def rust_index_def validate_iff validate_nodes_def Let_def word_less_nat_alt
        split: option.split if_splits)
  with distance_valid [OF v assms(2,3)] show ?thesis by (auto simp: hmat_entry_def)
qed

lemma those_hmat_entries:
  assumes "wf_topology t" and "\<forall>tgt \<in> set targets. tgt < numa_nodes t"
  shows "those (map (hmat_entry t ty) (List.product (initiators_of t) targets)) = Some (hmat_entries t targets ty)"
    and "length (concat (hmat_entries t targets ty)) = 2 * length (initiators_of t) * length targets"
proof -
  have e: "\<exists>e. hmat_entry t ty p = Some e \<and> length e = 2" if "p \<in> set (List.product (initiators_of t) targets)" for p
  proof -
    obtain i tgt where p: "p = (i, tgt)" by (cases p)
    with that assms(2) initiators_of_iff [of i t] have "i < numa_nodes t" "tgt < numa_nodes t" by simp_all
    then show ?thesis unfolding p by (rule hmat_entry_Some [OF assms(1)])
  qed
  then show "those (map (hmat_entry t ty) (List.product (initiators_of t) targets)) = Some (hmat_entries t targets ty)"
    unfolding hmat_entries_def by (intro those_map_Some) force
  have "\<forall>x \<in> set (hmat_entries t targets ty). length x = 2"
    using e by (force simp: hmat_entries_def simp del: set_product)
  from length_concat_const [OF this]
  show "length (concat (hmat_entries t targets ty)) = 2 * length (initiators_of t) * length targets"
    by (simp add: hmat_entries_def length_product)
qed

lemma length_hmat_matrix:
  assumes "wf_topology t" and "\<forall>tgt \<in> set targets. tgt < numa_nodes t"
  shows "length (concat (hmat_matrix t targets (ty, u)))
    = 32 + 4 * length (initiators_of t) + 4 * length targets + 2 * length (initiators_of t) * length targets"
proof -
  have "length (concat (map (to_le_bytes 4) (ws :: u32 list))) = 4 * length ws" for ws
    by (simp add: length_concat comp_def sum_list_triv)
  then show ?thesis
    using those_hmat_entries(2) [OF assms] by (simp add: hmat_matrix_def Let_def hmat_sllbi_header_def)
qed

lemma hmat_sllbi_cursor:
  assumes "wf_topology t" and "\<forall>tgt \<in> set targets. tgt < numa_nodes t"
    and "length (concat (hmat_matrix t targets (ty, u))) \<le> k"
  shows "hmat_sllbi t (initiators_of t) targets (ty, u) (cursor pre k)
    = Some (cursor (pre @ concat (hmat_matrix t targets (ty, u))) (k - length (concat (hmat_matrix t targets (ty, u)))))"
proof -
  define hd where "hd = hmat_sllbi_header (32 + 4 * of_nat (length (initiators_of t)) + 4 * of_nat (length targets)
      + 2 * of_nat (length (initiators_of t)) * of_nat (length targets)) ty (of_nat (length (initiators_of t))) (of_nat (length targets)) u"
  have mat: "hmat_matrix t targets (ty, u) = [hd] @ map (to_le_bytes 4) (initiators_of t) @ map (to_le_bytes 4) targets @ hmat_entries t targets ty"
    by (simp add: hmat_matrix_def hd_def Let_def)
  have app: "fold_opt f (xs @ ys) s = Option.bind (fold_opt f xs s) (fold_opt f ys)" for f :: "bytes \<Rightarrow> bytes \<times> nat \<Rightarrow> (bytes \<times> nat) option" and xs ys s
    by (induction xs arbitrary: s) (simp_all split: Option.bind_split)
  have "hmat_sllbi t (initiators_of t) targets (ty, u) s = fold_opt put (hmat_matrix t targets (ty, u)) s" for s
    unfolding mat app by (simp add: hmat_sllbi_def Let_def hd_def fold_opt_map
        fold_opt_bind [OF those_hmat_entries(1) [OF assms(1,2)], where g = put] split: Option.bind_split)
  then show ?thesis using fold_put_cursor [OF assms(3)] by simp
qed

lemma length_msci_list: "length (concat (msci_list ns i)) = 32 * length (filter (\<lambda>n. cache_of n \<noteq> None) ns)"
  by (induction ns arbitrary: i) (simp_all add: hmat_msci_def split: option.split)

lemma hmat_msci_cursor:
  "length (concat (msci_list ns i)) \<le> k \<Longrightarrow> hmat_msci_entries ns i (cursor pre k)
    = Some (cursor (pre @ concat (msci_list ns i)) (k - length (concat (msci_list ns i))))"
proof -
  have "hmat_msci_entries ns i s = fold_opt put (msci_list ns i) s" for s
    by (induction ns arbitrary: i s) (simp_all split: option.split Option.bind_split)
  then show "length (concat (msci_list ns i)) \<le> k \<Longrightarrow> ?thesis" by (simp add: fold_put_cursor)
qed

lemma hmat_size_eq:
  assumes wf: "wf_topology t" and small: "acpi_small t rs" and tgt: "\<forall>r \<in> set rs. node_id r < numa_nodes t"
  shows "unat (compute_hmat_size t rs) = 40 + length (concat (hmat_chunks t (map node_id rs)))"
    and "length (concat (hmat_chunks t (map node_id rs))) \<le> 2 ^ 27"
    and "\<exists>ni c. ni \<le> unat (numa_nodes t) \<and> c \<le> unat (numa_nodes t) \<and> length (concat (hmat_chunks t (map node_id rs)))
      = 40 * length rs + 2 * (32 + 4 * ni + 4 * length rs + 2 * ni * length rs) + 32 * c"
proof -
  define ni nt c where nic: "ni = length (initiators_of t)" "nt = length rs"
    "c = (case nodes t of Some ns \<Rightarrow> length (filter (\<lambda>n. cache_of n \<noteq> None) ns) | None \<Rightarrow> 0)"
  have n: "ni \<le> unat (numa_nodes t)" "c \<le> unat (numa_nodes t)"
  proof -
    show "ni \<le> unat (numa_nodes t)" by (auto simp: nic initiators_of_def intro: le_trans [OF length_filter_le])
    have "length ns \<le> unat (numa_nodes t)" if "nodes t = Some ns" for ns
      using wf that by (auto simp: wf_topology_def validate_iff validate_nodes_def Let_def split: if_splits)
    then show "c \<le> unat (numa_nodes t)" by (auto simp: nic split: option.split intro: le_trans [OF length_filter_le])
  qed
  then have b: "ni \<le> 4096" "nt \<le> 4096" "c \<le> 4096" using small by (auto simp: nic(2) acpi_small_def)
  have "length (concat (hmat_mpdas t (map node_id rs))) = 40 * nt"
    by (simp add: hmat_mpdas_def length_concat comp_def hmat_mpda_def sum_list_triv nic)
  then have len: "length (concat (hmat_chunks t (map node_id rs))) = 40 * nt + 2 * (32 + 4 * ni + 4 * nt + 2 * ni * nt) + 32 * c"
    using length_hmat_matrix [OF wf, of "map node_id rs"] tgt
    by (simp add: hmat_chunks_def nic length_msci_list split: option.split)
  with n show "\<exists>ni c. ni \<le> unat (numa_nodes t) \<and> c \<le> unat (numa_nodes t) \<and> length (concat (hmat_chunks t (map node_id rs)))
      = 40 * length rs + 2 * (32 + 4 * ni + 4 * length rs + 2 * ni * length rs) + 32 * c"
    unfolding nic(2) by blast
  have "ni * nt \<le> 4096 * 4096" using b by (intro mult_le_mono)
  with b len show le: "length (concat (hmat_chunks t (map node_id rs))) \<le> 2 ^ 27" by simp
  have "cpu_bearing_nodes t = of_nat ni"
    using length_initiators(1) [OF wf] small b(1)
    by (intro unsigned_word_eqI [where 'a = nat]) (simp add: nic acpi_small_def unat_of_nat_no_overflow)
  moreover have "num_msci t = of_nat c" by (simp add: num_msci_def nic split: option.split)
  ultimately have "compute_hmat_size t rs = of_nat (40 + length (concat (hmat_chunks t (map node_id rs))))"
    by (simp add: compute_hmat_size_def Let_def len nic(2) algebra_simps)
  also have "unat \<dots> = 40 + length (concat (hmat_chunks t (map node_id rs)))"
    using le by (intro unat_of_nat_no_overflow) simp
  finally show "unat (compute_hmat_size t rs) = 40 + length (concat (hmat_chunks t (map node_id rs)))" .
qed

lemma hmat_table_image:
  assumes wf: "wf_topology t" and small: "acpi_small t rs" and tgt: "\<forall>r \<in> set rs. node_id r < numa_nodes t"
  shows "hmat_table t rs = set_sdt_checksum (sdt_header_bytes (sdt_header_new ''HMAT'' (compute_hmat_size t rs) 2)
    @ replicate 4 0 @ concat (hmat_chunks t (map node_id rs)))"
proof -
  define h where "h = sdt_header_bytes (sdt_header_new ''HMAT'' (compute_hmat_size t rs) 2)"
  define ts where "ts = map node_id rs"
  define a b c d where abcd: "a = concat (hmat_mpdas t ts)" "b = concat (hmat_matrix t ts (0, HMAT_LATENCY_BASE_PS))"
    "c = concat (hmat_matrix t ts (3, HMAT_BW_BASE_MBS))" "d = concat (case nodes t of Some ns \<Rightarrow> msci_list ns 0 | None \<Rightarrow> [])"
  have ts: "\<forall>x \<in> set ts. x < numa_nodes t" using tgt by (simp add: ts_def)
  have h: "length h = 36" by (simp add: h_def)
  have chunks: "concat (hmat_chunks t ts) = a @ b @ c @ d" by (simp add: hmat_chunks_def abcd)
  have hdr: "copy_at 0 h (replicate (unat (compute_hmat_size t rs)) 0) = Some (fst (cursor h (4 + length (a @ b @ c @ d))))"
    using hmat_size_eq(1) [OF assms] h by (simp add: copy_at_fresh chunks [unfolded ts_def])
  have cur: "(fst (cursor h (4 + length (a @ b @ c @ d))), 40) = cursor (h @ replicate 4 0) (length (a @ b @ c @ d))"
    using h by (subst cursor_skip [of _ _ 4]) simp_all
  have "those (map (hmat_mpda_entry t (initiators_of t)) ts) = Some (hmat_mpdas t ts)"
    unfolding hmat_mpdas_def using hmat_initiator_nearest [OF wf] ts
    by (intro those_map_Some ballI) (force simp: hmat_mpda_entry_def)
  note mpdas = fold_put_those [OF this, of "length (a @ b @ c @ d)" "h @ replicate 4 0"]
  have s1: "hmat_sllbi t (initiators_of t) ts (0, HMAT_LATENCY_BASE_PS) (cursor pre (length b + (length c + length d)))
      = Some (cursor (pre @ b) (length c + length d))" for pre
    using hmat_sllbi_cursor [OF wf ts, of 0 HMAT_LATENCY_BASE_PS "length b + (length c + length d)" pre] by (simp add: abcd)
  have s2: "hmat_sllbi t (initiators_of t) ts (3, HMAT_BW_BASE_MBS) (cursor pre (length c + length d))
      = Some (cursor (pre @ c) (length d))" for pre
    using hmat_sllbi_cursor [OF wf ts, of 3 HMAT_BW_BASE_MBS "length c + length d" pre] by (simp add: abcd)
  have msci: "(case nodes t of Some ns \<Rightarrow> hmat_msci_entries ns 0 (cursor pre (length d)) | None \<Rightarrow> Some (cursor pre (length d)))
      = Some (cursor (pre @ d) 0)" for pre
    by (simp add: abcd(4) hmat_msci_cursor split: option.split)
  show ?thesis
    using mpdas msci
    by (simp add: hmat_table_def s1 s2 Let_def h_def [symmetric] hdr cur [simplified] hmat_initiators_eq [OF wf] ts_def [symmetric] chunks abcd(1) [symmetric])
qed

lemma hmat_table_read:
  assumes "wf_topology t" and "acpi_small t rs" and "\<forall>r \<in> set rs. node_id r < numa_nodes t"
  shows "\<exists>tbl. hmat_table t rs = Some tbl \<and> sdt_ok ''HMAT'' tbl \<and> length tbl = unat (compute_hmat_size t rs)
    \<and> drop 40 tbl = concat (hmat_chunks t (map node_id rs))"
proof -
  let ?rest = "replicate 4 0 @ concat (hmat_chunks t (map node_id rs))"
  obtain b where b: "hmat_table t rs = Some b" "sdt_ok ''HMAT'' b" "length b = unat (compute_hmat_size t rs)" "drop 36 b = ?rest"
    using sdt_finish [of "''HMAT''" _ "compute_hmat_size t rs" 2 ?rest] hmat_size_eq(1) [OF assms]
    by (auto simp: hmat_table_image [OF assms])
  have "drop 40 b = drop 4 (drop 36 b)" by simp
  with b show ?thesis by simp
qed

section \<open>The remaining tables\<close>

lemma dsdt_table_read: "\<exists>tbl. dsdt_table = Some tbl \<and> sdt_ok ''DSDT'' tbl \<and> length tbl = 36"
  using sdt_finish [of "''DSDT''" _ 36 2 "[]"] by (auto simp: dsdt_table_def copy_at_def overwrite_def)

lemma fadt_table_read:
  "\<exists>tbl. fadt_table l = Some tbl \<and> sdt_ok ''FACP'' tbl \<and> length tbl = 276 \<and> byte_slice tbl 140 148 = to_le_bytes 8 (dsdt_addr l)"
proof -
  define h where "h = sdt_header_bytes (sdt_header_new ''FACP'' 276 6)"
  let ?rest = "replicate 4 0 @ to_le_bytes 4 (ucast (dsdt_addr l) :: u32) @ replicate 68 0
    @ to_le_bytes 4 (FADT_F_PWR_BUTTON OR FADT_F_SLP_BUTTON) @ replicate 15 0 @ [5] @ replicate 8 0
    @ to_le_bytes 8 (dsdt_addr l) @ replicate 128 0"
  have h: "length h = 36" by (simp add: h_def)
  have buf: "fadt_table l = set_sdt_checksum (h @ ?rest)"
    using h by (simp add: fadt_table_def h_def [symmetric] copy_at_def overwrite_def del: replicate_Suc)
  obtain tbl where tbl: "fadt_table l = Some tbl" "sdt_ok ''FACP'' tbl" "length tbl = 276" "drop 36 tbl = ?rest"
    using sdt_finish [of "''FACP''" _ 276 6 ?rest] by (auto simp: buf h_def)
  have "byte_slice tbl 140 148 = take 8 (drop 104 (drop 36 tbl))" by (simp add: byte_slice_def)
  also have "\<dots> = to_le_bytes 8 (dsdt_addr l)" unfolding tbl(4) by simp
  finally show ?thesis using tbl by blast
qed

lemma pointer_table:
  assumes sig: "length sig = 4" and w: "\<forall>x. length (enc x) = k" and len: "n = 36 + k * length xs" "n < 2 ^ 32"
  shows "\<exists>tbl. (do {
      buf \<leftarrow> copy_at 0 (sdt_header_bytes (sdt_header_new sig (of_nat n) 1)) (replicate n 0);
      s \<leftarrow> fold_opt (\<lambda>a. put (enc a)) xs (buf, 36);
      set_sdt_checksum (fst s)
    }) = Some tbl \<and> sdt_ok sig tbl \<and> length tbl = n \<and> drop 36 tbl = concat (map enc xs)"
proof -
  define h where "h = sdt_header_bytes (sdt_header_new sig (of_nat n) 1)"
  have h: "length h = 36" using sig by (simp add: h_def)
  have body: "length (concat (map enc xs)) = k * length xs"
    using length_concat_const [of "map enc xs" k] w by (simp add: mult.commute)
  have hdr: "copy_at 0 h (replicate n 0) = Some (fst (cursor h (k * length xs)))"
    using h len(1) by (simp add: copy_at_fresh)
  have cur: "(fst (cursor h (k * length xs)), 36) = cursor h (k * length xs)" using h by (simp add: cursor_def)
  have step: "fold_opt (\<lambda>a. put (enc a)) xs (cursor h (k * length xs)) = Some (cursor (h @ concat (map enc xs)) 0)"
    using fold_put_cursor [of "map enc xs" "k * length xs" h] body by (simp add: fold_opt_map)
  have "unat (of_nat n :: u32) = n" using len(2) by (intro unat_of_nat_no_overflow) simp
  then have "\<exists>tbl. set_sdt_checksum (h @ concat (map enc xs)) = Some tbl \<and> sdt_ok sig tbl \<and> length tbl = n
      \<and> drop 36 tbl = concat (map enc xs)"
    using sdt_finish [OF sig refl, of "of_nat n" "concat (map enc xs)" 1] body len(1) unfolding h_def by simp
  then show ?thesis by (simp add: h_def [symmetric] hdr cur step)
qed

lemma rsdt_table_read:
  assumes "unat (rsdt_size l) = 36 + 4 * length (rsdt_entries l)"
  shows "\<exists>tbl. rsdt_table l = Some tbl \<and> sdt_ok ''RSDT'' tbl \<and> length tbl = unat (rsdt_size l)
    \<and> drop 36 tbl = concat (map (\<lambda>a. to_le_bytes 4 (ucast a :: u32)) (rsdt_entries l))"
  using pointer_table [of "''RSDT''" "\<lambda>a. to_le_bytes 4 (ucast a :: u32)" 4 "unat (rsdt_size l)" "rsdt_entries l"] assms
  by (simp add: rsdt_table_def Let_def rsdt_entries_def split: if_splits)

lemma xsdt_table_read:
  assumes "unat (xsdt_size l) = 36 + 8 * length (rsdt_entries l)"
  shows "\<exists>tbl. xsdt_table l = Some tbl \<and> sdt_ok ''XSDT'' tbl \<and> length tbl = unat (xsdt_size l)
    \<and> drop 36 tbl = concat (map (to_le_bytes 8) (rsdt_entries l))"
  using pointer_table [of "''XSDT''" "to_le_bytes 8" 8 "unat (xsdt_size l)" "rsdt_entries l"] assms
  by (simp add: xsdt_table_def Let_def rsdt_entries_def split: if_splits)

lemma rsdp_table_read: "rsdp_ok (rsdp_table l)" "byte_slice (rsdp_table l) 24 32 = to_le_bytes 8 (xsdt_addr l)"
  by (simp_all add: rsdp_ok_def rsdp_table_def Let_def rsdp_bytes_def byte_slice_def acpi_checksum_eq algebra_simps)

end
