(* ===== verification/Acpi_Discovery.thy ===== *)
theory Acpi_Discovery
  imports Acpi_Tables
begin

text \<open>
  What \<^verbatim>\<open>setup_acpi\<close> of \<^verbatim>\<open>src/vmm/x86_64/acpi.rs\<close> leaves in guest memory, seen by the operating
  system: the layout of the tables, the effect of writing them, the search from the root pointer, and what the
  tables say about processors, memory and distances. The interface of \<^verbatim>\<open>vm_memory\<close> is the
  hypothesis \<^verbatim>\<open>ram_law\<close>.
\<close>

section \<open>Specification functions and sample values\<close>

text \<open>
  What \<^verbatim>\<open>vm_memory\<close> documents of \<^verbatim>\<open>write_slice\<close>: it stores the whole slice when it fits, and fails
  otherwise. \<open>contents\<close> is the memory as a byte string from address 0.
\<close>

definition ram_law :: "('m \<Rightarrow> bytes \<Rightarrow> u64 \<Rightarrow> 'm option) \<Rightarrow> ('m \<Rightarrow> bytes) \<Rightarrow> bool" where
  "ram_law write_slice contents \<longleftrightarrow> (\<forall>m bs a.
     if unat a + length bs \<le> length (contents m)
     then \<exists>m'. write_slice m bs a = Some m' \<and> contents m' = overwrite (unat a) bs (contents m)
     else write_slice m bs a = None)"

text \<open>
  How an operating system finds a table: it checks the root pointer, follows it to the XSDT, checks
  that, and takes the first well-formed table with the signature among those the XSDT points to.
\<close>

definition table_at :: "bytes \<Rightarrow> nat \<Rightarrow> bytes" where
  "table_at mem a = byte_slice mem a (a + unat (from_le_bytes (byte_slice mem (a + 4) (a + 8)) :: u32))"

fun u64_list :: "bytes \<Rightarrow> u64 list" where
  "u64_list bs = (if length bs < 8 then [] else from_le_bytes (take 8 bs) # u64_list (drop 8 bs))"

definition acpi_find :: "bytes \<Rightarrow> string \<Rightarrow> bytes option" where
  "acpi_find mem sig =
     (let r = byte_slice mem 0xE0000 0xE0024; x = table_at mem (unat (from_le_bytes (byte_slice r 24 32) :: u64)) in
      if rsdp_ok r \<and> sdt_ok ''XSDT'' x
      then find (sdt_ok sig) (map (\<lambda>a. table_at mem (unat a)) (u64_list (drop 36 x))) else None)"

text \<open>A guest memory that is a byte string.\<close>

definition list_write :: "bytes \<Rightarrow> bytes \<Rightarrow> u64 \<Rightarrow> bytes option" where
  "list_write m bs a = (if unat a + length bs \<le> length m then Some (overwrite (unat a) bs m) else None)"

section \<open>Layout\<close>

lemma acpi_layout_addresses:
  assumes wf: "wf_topology t" and small: "acpi_small t rs" and tgt: "\<forall>r \<in> set rs. node_id r < numa_nodes t"
    and len: "compute_madt_size t = Some len"
  defines "H \<equiv> if 1 < numa_nodes t then unat (compute_hmat_size t rs) else 0"
  shows "\<exists>l. acpi_layout_of t rs = Some l \<and> unat (dsdt_addr l) = 0xE0024
    \<and> unat (madt_addr l) = unat (dsdt_addr l) + 36
    \<and> unat (fadt_addr l) = unat (madt_addr l) + unat len
    \<and> unat (srat_addr l) = unat (fadt_addr l) + 276
    \<and> unat (slit_addr l) = unat (srat_addr l) + unat (srat_len t rs)
    \<and> unat (hmat_addr l) = unat (slit_addr l) + slit_len t
    \<and> unat (rsdt_addr l) = unat (hmat_addr l) + H
    \<and> unat (xsdt_addr l) = unat (rsdt_addr l) + unat (rsdt_size l)
    \<and> unat (rsdt_size l) = 36 + 4 * length (rsdt_entries l)
    \<and> unat (xsdt_size l) = 36 + 8 * length (rsdt_entries l)
    \<and> rsdt_entries l = [fadt_addr l, madt_addr l, srat_addr l, slit_addr l] @ (if 1 < numa_nodes t then [hmat_addr l] else [])"
proof -
  from wf have v: "validate t = Inr ()" by (simp add: wf_topology_def)
  define S M n where SMn: "S = unat (srat_len t rs)" "M = unat len" "n = unat (numa_nodes t)"
  have S: "S < 2 ^ 32" and M: "M < 2 ^ 32" and H: "H < 2 ^ 32"
    using unat_u32_less [of "srat_len t rs"] unat_u32_less [of len] unat_u32_less [of "compute_hmat_size t rs"]
    by (auto simp: SMn H_def)
  have n: "n * n \<le> 4096 * 4096" using small unfolding SMn acpi_small_def by (intro mult_le_mono) simp_all
  have up: "(ucast w :: u64) = of_nat (unat w)" for w :: u32 by simp
  have h: "(if 1 < numa_nodes t then ucast (compute_hmat_size t rs) else 0 :: u64) = of_nat H" by (simp add: H_def)
  have fit: "unat (of_nat k :: u64) = k" if "k < 2 ^ 35" for k using that by (intro unat_of_nat_no_overflow) simp
  have hpos: "(0 :: u64) < of_nat H \<longleftrightarrow> 1 < numa_nodes t"
    using fit [of H] H hmat_size_eq(1) [OF wf small tgt] by (simp add: H_def word_less_nat_alt)
  define c where "c = (if 1 < numa_nodes t then 5 else 4 :: nat)"
  define A1 A2 A3 A4 A5 A6 A7 where A: "A1 = (0xE0048 :: nat)" "A2 = A1 + M" "A3 = A2 + 276" "A4 = A3 + S"
    "A5 = A4 + (44 + n * n)" "A6 = A5 + H" "A7 = A6 + (36 + 4 * c)"
  have lay: "acpi_layout_of t rs = Some \<lparr>dsdt_addr = of_nat 0xE0024, dsdt_size = 36, madt_addr = of_nat A1, madt_size = of_nat M,
      fadt_addr = of_nat A2, fadt_size = 276, srat_addr = of_nat A3, srat_size = of_nat S,
      slit_addr = of_nat A4, slit_size = of_nat (44 + n * n), hmat_addr = of_nat A5, hmat_size = of_nat H,
      rsdt_addr = of_nat A6, rsdt_size = of_nat (36 + 4 * c), xsdt_addr = of_nat A7, xsdt_size = of_nat (36 + 8 * c),
      rsdp_addr = RSDP_ADDR, rsdp_size = RSDP_SIZE\<rparr>"
    unfolding acpi_layout_of_def len Option.bind.bind_lunit Let_def h A SMn
    by (simp add: RSDP_ADDR_def RSDP_SIZE_def c_def)
  have "A7 < 2 ^ 35" "A1 \<le> A2" "A2 \<le> A3" "A3 \<le> A4" "A4 \<le> A5" "A5 \<le> A6" "A6 \<le> A7"
    using S M H n by (simp_all add: A c_def)
  then have u: "unat (of_nat A1 :: u64) = A1" "unat (of_nat A2 :: u64) = A2" "unat (of_nat A3 :: u64) = A3" "unat (of_nat A4 :: u64) = A4"
    "unat (of_nat A5 :: u64) = A5" "unat (of_nat A6 :: u64) = A6" "unat (of_nat A7 :: u64) = A7"
    by (simp_all add: fit)
  have uc: "unat (of_nat (36 + 4 * c) :: u64) = 36 + 4 * c" "unat (of_nat (36 + 8 * c) :: u64) = 36 + 8 * c"
    by (rule fit, simp add: c_def)+
  have u0: "unat (of_nat 0xE0024 :: u64) = 0xE0024" by (rule fit) simp
  define l where "l = the (acpi_layout_of t rs)"
  have ls: "acpi_layout_of t rs = Some l" "unat (dsdt_addr l) = 0xE0024" "unat (madt_addr l) = A1" "unat (fadt_addr l) = A2"
    "unat (srat_addr l) = A3" "unat (slit_addr l) = A4" "unat (hmat_addr l) = A5" "unat (rsdt_addr l) = A6" "unat (xsdt_addr l) = A7"
    "unat (rsdt_size l) = 36 + 4 * c" "unat (xsdt_size l) = 36 + 8 * c"
    unfolding l_def lay by (simp_all only: option.sel acpi_layout.simps u u0 uc)
  have "rsdt_entries l = [fadt_addr l, madt_addr l, srat_addr l, slit_addr l] @ (if 1 < numa_nodes t then [hmat_addr l] else [])"
    by (simp add: rsdt_entries_def l_def lay hpos)
  then show ?thesis using ls by (intro exI [of _ l]) (simp add: A slit_len_def SMn [symmetric] c_def)
qed

section \<open>Writing to guest memory\<close>

lemma ram_law_write:
  assumes "ram_law ws contents" and "unat a + length bs \<le> length (contents m)"
  obtains m' where "ws m bs a = Some m'" and "contents m' = overwrite (unat a) bs (contents m)"
  using assms unfolding ram_law_def by metis

lemma overwrite_append:
  "pos + length ys + length zs \<le> length xs \<Longrightarrow> overwrite (pos + length ys) zs (overwrite pos ys xs) = overwrite pos (ys @ zs) xs"
  by (simp add: overwrite_def ac_simps)

lemma overwrite_before:
  assumes "pos + length ys + length zs \<le> length xs"
  shows "overwrite pos ys (overwrite (pos + length ys) zs xs) = overwrite pos (ys @ zs) xs"
  using assms by (simp add: overwrite_def add.assoc take_append)

text \<open>Writing a table directly behind what has been written from \<open>base\<close> on.\<close>

lemma write_table_next:
  assumes law: "ram_law ws contents" and c: "contents m = overwrite base done mem" and t: "table = Some buf"
    and a: "unat addr = base + length done" and fit: "base + length done + length buf \<le> length mem"
  shows "\<exists>m'. write_table ws table addr what m = Inr m' \<and> contents m' = overwrite base (done @ buf) mem"
proof -
  have "length (contents m) = length mem" using c fit by simp
  with a fit obtain m' where m': "ws m buf addr = Some m'" "contents m' = overwrite (unat addr) buf (contents m)"
    by (auto intro: ram_law_write [OF law, of addr buf m])
  with overwrite_append [of base "done" buf mem] a c fit have "contents m' = overwrite base (done @ buf) mem" by simp
  with m'(1) t show ?thesis by (simp add: write_table_def)
qed

lemma length_rsdp [simp]: "length (rsdp_table l) = 36"
  using rsdp_table_read(1) [of l] by (simp add: rsdp_ok_def)

lemma setup_acpi_image:
  assumes law: "ram_law ws contents" and lay: "acpi_layout_of t rs = Some l"
    and tabs: "dsdt_table = Some d" "madt_table t = Some m1" "fadt_table l = Some f" "srat_table t rs = Some s"
      "slit_table t = Some sl" "1 < numa_nodes t \<Longrightarrow> hmat_table t rs = Some h" "\<not> 1 < numa_nodes t \<Longrightarrow> h = []"
      "rsdt_table l = Some r" "xsdt_table l = Some x"
    and adr: "unat (dsdt_addr l) = 0xE0024" "unat (madt_addr l) = unat (dsdt_addr l) + length d"
      "unat (fadt_addr l) = unat (madt_addr l) + length m1" "unat (srat_addr l) = unat (fadt_addr l) + length f"
      "unat (slit_addr l) = unat (srat_addr l) + length s" "unat (hmat_addr l) = unat (slit_addr l) + length sl"
      "unat (rsdt_addr l) = unat (hmat_addr l) + length h" "unat (xsdt_addr l) = unat (rsdt_addr l) + length r"
    and fit: "0xE0000 + length (rsdp_table l @ d @ m1 @ f @ s @ sl @ h @ r @ x) \<le> length (contents m)"
  shows "\<exists>m'. setup_acpi ws m t rs = Inr (l, m')
    \<and> contents m' = overwrite 0xE0000 (rsdp_table l @ d @ m1 @ f @ s @ sl @ h @ r @ x) (contents m)"
proof -
  let ?b = "0xE0024 :: nat" and ?c = "contents m"
  note step = write_table_next [OF law, of _ ?b _ ?c]
  have f0: "contents m = overwrite ?b [] ?c" by (simp add: overwrite_def)
  obtain a1 where a1: "write_table ws dsdt_table (dsdt_addr l) ''DSDT'' m = Inr a1" "contents a1 = overwrite ?b d ?c"
    using step [OF f0 tabs(1), of "dsdt_addr l" "''DSDT''"] adr fit by auto
  obtain a2 where a2: "write_table ws (madt_table t) (madt_addr l) ''MADT'' a1 = Inr a2" "contents a2 = overwrite ?b (d @ m1) ?c"
    using step [OF a1(2) tabs(2), of "madt_addr l" "''MADT''"] adr fit by auto
  obtain a3 where a3: "write_table ws (fadt_table l) (fadt_addr l) ''FADT'' a2 = Inr a3" "contents a3 = overwrite ?b (d @ m1 @ f) ?c"
    using step [OF a2(2) tabs(3), of "fadt_addr l" "''FADT''"] adr fit by auto
  obtain a4 where a4: "write_table ws (srat_table t rs) (srat_addr l) ''SRAT'' a3 = Inr a4" "contents a4 = overwrite ?b (d @ m1 @ f @ s) ?c"
    using step [OF a3(2) tabs(4), of "srat_addr l" "''SRAT''"] adr fit by auto
  obtain a5 where a5: "write_table ws (slit_table t) (slit_addr l) ''SLIT'' a4 = Inr a5" "contents a5 = overwrite ?b (d @ m1 @ f @ s @ sl) ?c"
    using step [OF a4(2) tabs(5), of "slit_addr l" "''SLIT''"] adr fit by auto
  obtain a6 where a6: "(if 1 < numa_nodes t then write_table ws (hmat_table t rs) (hmat_addr l) ''HMAT'' a5 else Inr a5) = Inr a6"
    "contents a6 = overwrite ?b (d @ m1 @ f @ s @ sl @ h) ?c"
    using step [OF a5(2) tabs(6), of "hmat_addr l" "''HMAT''"] tabs(7) a5(2) adr fit by (cases "1 < numa_nodes t") auto
  obtain a7 where a7: "write_table ws (rsdt_table l) (rsdt_addr l) ''RSDT'' a6 = Inr a7" "contents a7 = overwrite ?b (d @ m1 @ f @ s @ sl @ h @ r) ?c"
    using step [OF a6(2) tabs(8), of "rsdt_addr l" "''RSDT''"] adr fit by auto
  obtain a8 where a8: "write_table ws (xsdt_table l) (xsdt_addr l) ''XSDT'' a7 = Inr a8" "contents a8 = overwrite ?b (d @ m1 @ f @ s @ sl @ h @ r @ x) ?c"
    using step [OF a7(2) tabs(9), of "xsdt_addr l" "''XSDT''"] adr fit by auto
  obtain m' where m': "write_table ws (Some (rsdp_table l)) RSDP_ADDR ''RSDP'' a8 = Inr m'" "contents m' = overwrite 0xE0000 (rsdp_table l) (contents a8)"
  proof -
    have "overwrite 0xE0000 [] (contents a8) = contents a8" by (simp add: overwrite_def)
    then show thesis
      using write_table_next [OF law, of a8 "0xE0000" "[]" "contents a8" "Some (rsdp_table l)" "rsdp_table l" RSDP_ADDR "''RSDP''"] fit a8(2) that
      by (auto simp: RSDP_ADDR_def)
  qed
  have "contents m' = overwrite 0xE0000 (rsdp_table l @ d @ m1 @ f @ s @ sl @ h @ r @ x) ?c"
    using m'(2) a8(2) overwrite_before [of "0xE0000" "rsdp_table l" "d @ m1 @ f @ s @ sl @ h @ r @ x" ?c] fit by simp
  moreover have "setup_acpi ws m t rs = Inr (l, m')"
    unfolding setup_acpi_def lay option.case a1(1) and_then_simps a2(1) a3(1) a4(1) a5(1) a6(1) a7(1) a8(1) m'(1) ..
  ultimately show ?thesis by blast
qed

section \<open>Finding the tables\<close>

declare u64_list.simps [simp del]

lemma u64_list_concat: "u64_list (concat (map (to_le_bytes 8) xs)) = xs"
proof (induction xs)
  case Nil
  then show ?case by (simp add: u64_list.simps)
next
  case (Cons x xs)
  then show ?case by (subst u64_list.simps) simp
qed

lemma table_at_append:
  assumes "sdt_ok sig tbl" and "length P = a"
  shows "table_at (P @ tbl @ Q) a = tbl"
proof -
  have l: "36 \<le> length tbl" "unat (from_le_bytes (byte_slice tbl 4 8) :: u32) = length tbl" using assms(1) by (simp_all add: sdt_ok_def)
  have "byte_slice (P @ tbl @ Q) (a + 4) (a + 8) = byte_slice tbl 4 8"
    using assms(2) l(1) by (simp add: byte_slice_def)
  with l assms(2) show ?thesis by (simp add: table_at_def byte_slice_def)
qed

lemma ascii_inject [simp]: "ascii a = ascii b \<longleftrightarrow> a = b"
proof -
  have "inj (of_char :: char \<Rightarrow> u8)"
  proof (rule injI)
    fix a b :: char assume "of_char a = (of_char b :: u8)"
    then have "(of_nat (of_char a) :: u8) = of_nat (of_char b)" by (simp add: of_nat_of_char)
    then have "unat (of_nat (of_char a) :: u8) = unat (of_nat (of_char b) :: u8)" by (rule arg_cong)
    then have "of_char a = (of_char b :: nat)"
      by (subst (asm) (1 2) unat_of_nat_no_overflow) (simp_all add: nat_of_char_less_256)
    then show "a = b" by simp
  qed
  then show ?thesis by (simp add: ascii_def inj_map_eq_map)
qed

lemma sdt_ok_unique: "sdt_ok sig tbl \<Longrightarrow> sdt_ok sig' tbl \<Longrightarrow> sig = sig'"
  by (simp add: sdt_ok_def)

lemma explicit_node_ids:
  "\<forall>r \<in> set (explicit_regions ns i gpa k). \<exists>j < i + length ns. node_id r = of_nat j"
proof (induction ns i gpa k rule: explicit_regions.induct)
  case (2 node ns i gpa k)
  then show ?case by (cases "mib_bytes (memory_mb node) = 0") (simp_all add: Let_def exI [of _ i])
qed simp

lemma uniform_node_ids: "\<forall>r \<in> set (uniform_regions f is gpa). \<exists>j \<in> set is. node_id r = of_nat j"
  by (induction f "is" gpa rule: uniform_regions.induct) (auto simp: Let_def)

lemma compute_node_ids:
  assumes v: "validate t = Inr ()" and c: "compute t mb base = Inr rs"
  shows "\<forall>r \<in> set rs. node_id r < numa_nodes t"
proof
  fix r assume r: "r \<in> set rs"
  have "\<exists>j < unat (numa_nodes t). node_id r = of_nat j"
  proof (cases "nodes t")
    case None
    show ?thesis
    proof (cases "numa_nodes t \<le> 1")
      case True
      with None c r v show ?thesis by (intro exI [of _ 0]) (auto simp: compute_def validate_iff unat_gt_0_iff)
    next
      case False
      with None c obtain f where rs: "rs = uniform_regions f [0..<unat (numa_nodes t)] base" by (auto simp: compute_def Let_def)
      obtain j where "j \<in> set [0..<unat (numa_nodes t)]" "node_id r = of_nat j" using uniform_node_ids r unfolding rs by blast
      then show ?thesis by auto
    qed
  next
    case (Some ns)
    with v have "length ns = unat (numa_nodes t)" by (auto simp: validate_iff validate_nodes_def Let_def split: if_splits)
    moreover from Some c have rs: "rs = explicit_regions ns 0 base 0" by (auto simp: compute_def Let_def split: if_splits)
    ultimately show ?thesis using explicit_node_ids [of ns 0 base 0] r unfolding rs by simp
  qed
  then show "node_id r < numa_nodes t" by (auto simp: word_less_nat_alt unat_u32_range)
qed

lemma find_sdt:
  assumes "sdt_ok sig tbl" and "\<forall>x \<in> set xs. \<not> sdt_ok sig x"
  shows "find (sdt_ok sig) (xs @ tbl # ys) = Some tbl"
  using assms by (induction xs) simp_all

lemma acpi_find_image:
  assumes mem: "mem = P @ rsdp_table l @ d @ m1 @ f @ s @ sl @ h @ r @ x @ Q" and P: "length P = 0xE0000"
    and ok: "sdt_ok ''APIC'' m1" "sdt_ok ''FACP'' f" "sdt_ok ''SRAT'' s" "sdt_ok ''SLIT'' sl" "if b then sdt_ok ''HMAT'' h else h = []" "sdt_ok ''XSDT'' x"
    and adr: "unat (madt_addr l) = 0xE0024 + length d"
      "unat (fadt_addr l) = unat (madt_addr l) + length m1" "unat (srat_addr l) = unat (fadt_addr l) + length f"
      "unat (slit_addr l) = unat (srat_addr l) + length s" "unat (hmat_addr l) = unat (slit_addr l) + length sl"
      "unat (xsdt_addr l) = unat (hmat_addr l) + length h + length r"
    and x: "drop 36 x = concat (map (to_le_bytes 8) (rsdt_entries l))"
    and ents: "rsdt_entries l = [fadt_addr l, madt_addr l, srat_addr l, slit_addr l] @ (if b then [hmat_addr l] else [])"
  shows "acpi_find mem ''FACP'' = Some f" "acpi_find mem ''APIC'' = Some m1" "acpi_find mem ''SRAT'' = Some s"
    "acpi_find mem ''SLIT'' = Some sl" "acpi_find mem ''HMAT'' = (if b then Some h else None)"
proof -
  have r: "byte_slice mem 0xE0000 0xE0024 = rsdp_table l" using P by (simp add: mem byte_slice_def)
  have a: "table_at mem (unat (madt_addr l)) = m1" "table_at mem (unat (fadt_addr l)) = f" "table_at mem (unat (srat_addr l)) = s"
    "table_at mem (unat (slit_addr l)) = sl" "table_at mem (unat (xsdt_addr l)) = x"
    using table_at_append [OF ok(1), of "P @ rsdp_table l @ d"] table_at_append [OF ok(2), of "P @ rsdp_table l @ d @ m1"]
      table_at_append [OF ok(3), of "P @ rsdp_table l @ d @ m1 @ f"] table_at_append [OF ok(4), of "P @ rsdp_table l @ d @ m1 @ f @ s"]
      table_at_append [OF ok(6), of "P @ rsdp_table l @ d @ m1 @ f @ s @ sl @ h @ r"] adr P
    by (simp_all add: mem ac_simps)
  have ah: "b \<Longrightarrow> table_at mem (unat (hmat_addr l)) = h"
    using table_at_append [of "''HMAT''" h "P @ rsdp_table l @ d @ m1 @ f @ s @ sl"] ok(5) adr P by (simp add: mem ac_simps)
  have find: "acpi_find mem sig = find (sdt_ok sig) ([f, m1, s, sl] @ (if b then [h] else []))" for sig
  proof -
    have "u64_list (drop 36 x) = rsdt_entries l" by (simp only: x u64_list_concat)
    moreover have "map (\<lambda>a. table_at mem (unat a)) (rsdt_entries l) = [f, m1, s, sl] @ (if b then [h] else [])"
      using ah by (simp add: ents a)
    ultimately show ?thesis
      using ok(6) rsdp_table_read(1) [of l] by (simp only: acpi_find_def Let_def r rsdp_table_read(2) from_le_u64 a simp_thms if_True)
  qed
  have no: "sdt_ok g y \<Longrightarrow> g \<noteq> g' \<Longrightarrow> \<not> sdt_ok g' y" for g g' y using sdt_ok_unique by blast
  show "acpi_find mem ''FACP'' = Some f" using ok by (simp add: find)
  show "acpi_find mem ''APIC'' = Some m1" using ok no [OF ok(2)] by (simp add: find)
  show "acpi_find mem ''SRAT'' = Some s" using ok no [OF ok(2)] no [OF ok(1)] by (simp add: find)
  show "acpi_find mem ''SLIT'' = Some sl" using ok no [OF ok(2)] no [OF ok(1)] no [OF ok(3)] by (simp add: find)
  show "acpi_find mem ''HMAT'' = (if b then Some h else None)"
    using ok no [OF ok(2)] no [OF ok(1)] no [OF ok(3)] no [OF ok(4)] by (simp add: find)
qed

lemma acpi_setup_image:
  assumes law: "ram_law ws contents" and wf: "wf_topology t" and small: "acpi_small t rs"
    and tgt: "\<forall>r \<in> set rs. node_id r < numa_nodes t" and l: "acpi_layout_of t rs = Some l"
    and fit: "unat (xsdt_addr l) + unat (xsdt_size l) \<le> length (contents m)"
  shows "\<exists>m' f m1 s sl img. setup_acpi ws m t rs = Inr (l, m')
    \<and> 0xE0000 + length img = unat (xsdt_addr l) + unat (xsdt_size l) \<and> contents m' = overwrite 0xE0000 img (contents m)
    \<and> fadt_table l = Some f \<and> madt_table t = Some m1 \<and> srat_table t rs = Some s \<and> slit_table t = Some sl
    \<and> (\<forall>P Q. length P = 0xE0000 \<longrightarrow>
        acpi_find (P @ img @ Q) ''FACP'' = Some f \<and> acpi_find (P @ img @ Q) ''APIC'' = Some m1
        \<and> acpi_find (P @ img @ Q) ''SRAT'' = Some s \<and> acpi_find (P @ img @ Q) ''SLIT'' = Some sl
        \<and> (if 1 < numa_nodes t then \<exists>h. hmat_table t rs = Some h \<and> acpi_find (P @ img @ Q) ''HMAT'' = Some h
           else acpi_find (P @ img @ Q) ''HMAT'' = None))"
proof -
  from wf have v: "validate t = Inr ()" by (simp add: wf_topology_def)
  from small have b: "unat (total_cpus t) \<le> 4096" "unat (numa_nodes t) \<le> 4096" by (simp_all add: acpi_small_def)
  obtain d where d: "dsdt_table = Some d" "length d = 36" using dsdt_table_read by blast
  obtain m1 len where m1: "madt_table t = Some m1" "sdt_ok ''APIC'' m1" "compute_madt_size t = Some len" "length m1 = unat len"
    using madt_table_read [OF v b(1)] by blast
  obtain f where f: "fadt_table l = Some f" "sdt_ok ''FACP'' f" "length f = 276" using fadt_table_read by blast
  obtain s where s: "srat_table t rs = Some s" "sdt_ok ''SRAT'' s" "length s = unat (srat_len t rs)"
    using srat_table_read [OF wf small] by blast
  obtain sl where sl: "slit_table t = Some sl" "sdt_ok ''SLIT'' sl" "length sl = slit_len t"
    using slit_table_read [OF v b(2)] by blast
  define n where "n \<longleftrightarrow> 1 < numa_nodes t"
  define H where "H = (if n then unat (compute_hmat_size t rs) else 0)"
  obtain h where h: "if n then hmat_table t rs = Some h \<and> sdt_ok ''HMAT'' h else h = []" "length h = H"
    using hmat_table_read [OF wf small tgt] by (cases n) (auto simp: H_def)
  note adr = acpi_layout_addresses [OF wf small tgt m1(3), unfolded l option.inject ex_simps simp_thms, folded n_def, folded H_def]
  obtain r where r: "rsdt_table l = Some r" "length r = unat (rsdt_size l)" using rsdt_table_read adr by blast
  obtain x where x: "xsdt_table l = Some x" "sdt_ok ''XSDT'' x" "length x = unat (xsdt_size l)"
    "drop 36 x = concat (map (to_le_bytes 8) (rsdt_entries l))" using xsdt_table_read adr by blast
  let ?img = "rsdp_table l @ d @ m1 @ f @ s @ sl @ h @ r @ x"
  have len: "0xE0000 + length ?img = unat (xsdt_addr l) + unat (xsdt_size l)"
    using adr d m1 f s sl h r x by simp
  obtain m' where m': "setup_acpi ws m t rs = Inr (l, m')" "contents m' = overwrite 0xE0000 ?img (contents m)"
    using setup_acpi_image [OF law l d(1) m1(1) f(1) s(1) sl(1) _ _ r(1) x(1), of h m] adr d m1 f s sl h r x fit len
    by (auto simp: n_def)
  have hm: "if n then sdt_ok ''HMAT'' h else h = []" using h by simp
  have a: "unat (madt_addr l) = 0xE0024 + length d" "unat (fadt_addr l) = unat (madt_addr l) + length m1"
    "unat (srat_addr l) = unat (fadt_addr l) + length f" "unat (slit_addr l) = unat (srat_addr l) + length s"
    "unat (hmat_addr l) = unat (slit_addr l) + length sl" "unat (xsdt_addr l) = unat (hmat_addr l) + length h + length r"
    using adr d(2) m1(4) f(3) s(3) sl(3) h(2) r(2) by simp_all
  have ents: "rsdt_entries l = [fadt_addr l, madt_addr l, srat_addr l, slit_addr l] @ (if n then [hmat_addr l] else [])"
    using adr by blast
  have find: "acpi_find (P @ ?img @ Q) ''FACP'' = Some f \<and> acpi_find (P @ ?img @ Q) ''APIC'' = Some m1
      \<and> acpi_find (P @ ?img @ Q) ''SRAT'' = Some s \<and> acpi_find (P @ ?img @ Q) ''SLIT'' = Some sl
      \<and> (if n then \<exists>h. hmat_table t rs = Some h \<and> acpi_find (P @ ?img @ Q) ''HMAT'' = Some h
         else acpi_find (P @ ?img @ Q) ''HMAT'' = None)" if P: "length P = 0xE0000" for P Q
  proof -
    have mem: "P @ ?img @ Q = P @ rsdp_table l @ d @ m1 @ f @ s @ sl @ h @ r @ x @ Q" by simp
    note fnd = acpi_find_image [OF mem P m1(2) f(2) s(2) sl(2) hm x(2) a x(4) ents]
    have "if n then \<exists>h. hmat_table t rs = Some h \<and> acpi_find (P @ ?img @ Q) ''HMAT'' = Some h
       else acpi_find (P @ ?img @ Q) ''HMAT'' = None" using fnd(5) h(1) by (cases n) simp_all
    with fnd(1-4) show ?thesis by blast
  qed
  show ?thesis unfolding n_def [symmetric]
    by (rule exI [of _ m'], rule exI [of _ f], rule exI [of _ m1], rule exI [of _ s], rule exI [of _ sl], rule exI [of _ ?img])
      (use find m' len f(1) m1(1) s(1) sl(1) in blast)
qed

lemma acpi_setup:
  assumes law: "ram_law ws contents" and wf: "wf_topology t" and small: "acpi_small t rs"
    and tgt: "\<forall>r \<in> set rs. node_id r < numa_nodes t" and l: "acpi_layout_of t rs = Some l"
    and fit: "unat (xsdt_addr l) + unat (xsdt_size l) \<le> length (contents m)"
  shows "\<exists>m' f m1 s sl. setup_acpi ws m t rs = Inr (l, m')
    \<and> (\<exists>img. 0xE0000 + length img = unat (xsdt_addr l) + unat (xsdt_size l) \<and> contents m' = overwrite 0xE0000 img (contents m))
    \<and> fadt_table l = Some f \<and> madt_table t = Some m1 \<and> srat_table t rs = Some s \<and> slit_table t = Some sl
    \<and> acpi_find (contents m') ''FACP'' = Some f \<and> acpi_find (contents m') ''APIC'' = Some m1
    \<and> acpi_find (contents m') ''SRAT'' = Some s \<and> acpi_find (contents m') ''SLIT'' = Some sl
    \<and> (if 1 < numa_nodes t then \<exists>h. hmat_table t rs = Some h \<and> acpi_find (contents m') ''HMAT'' = Some h
       else acpi_find (contents m') ''HMAT'' = None)"
proof -
  obtain m' f m1 s sl img where a: "setup_acpi ws m t rs = Inr (l, m')"
    "0xE0000 + length img = unat (xsdt_addr l) + unat (xsdt_size l)" "contents m' = overwrite 0xE0000 img (contents m)"
    "fadt_table l = Some f" "madt_table t = Some m1" "srat_table t rs = Some s" "slit_table t = Some sl"
    and find: "\<And>P Q. length P = 0xE0000 \<Longrightarrow>
        acpi_find (P @ img @ Q) ''FACP'' = Some f \<and> acpi_find (P @ img @ Q) ''APIC'' = Some m1
        \<and> acpi_find (P @ img @ Q) ''SRAT'' = Some s \<and> acpi_find (P @ img @ Q) ''SLIT'' = Some sl
        \<and> (if 1 < numa_nodes t then \<exists>h. hmat_table t rs = Some h \<and> acpi_find (P @ img @ Q) ''HMAT'' = Some h
           else acpi_find (P @ img @ Q) ''HMAT'' = None)"
    using acpi_setup_image [OF assms] by (elim exE conjE) blast
  have P: "length (take 0xE0000 (contents m)) = 0xE0000" using a(2) fit by simp
  have "contents m' = take 0xE0000 (contents m) @ img @ drop (0xE0000 + length img) (contents m)"
    by (simp add: a(3) overwrite_def)
  with find [OF P, of "drop (0xE0000 + length img) (contents m)"] a show ?thesis by auto
qed

section \<open>Properties\<close>

text \<open>
  C24: an operating system finds the tables. For a well-formed topology of supported size and the memory
  layout computed for it, \<open>setup_acpi\<close> neither panics nor fails when the tables fit into guest memory;
  afterwards the search from the root pointer, which verifies every signature, length and checksum on
  the way, yields exactly the FADT, MADT, SRAT and SLIT that were built, and the HMAT exactly when
  there is more than one node; and no byte outside the area of the tables has changed.
\<close>

theorem acpi_tables_discoverable:
  assumes "ram_law write_slice contents" and "wf_topology t" and "compute t mb base = Inr rs" and "acpi_small t rs"
    and "acpi_layout_of t rs = Some l" and "unat (xsdt_addr l) + unat (xsdt_size l) \<le> length (contents m)"
  shows "\<exists>m' f a s d. setup_acpi write_slice m t rs = Inr (l, m')
    \<and> (\<exists>img. 0xE0000 + length img = unat (xsdt_addr l) + unat (xsdt_size l) \<and> contents m' = overwrite 0xE0000 img (contents m))
    \<and> fadt_table l = Some f \<and> madt_table t = Some a \<and> srat_table t rs = Some s \<and> slit_table t = Some d
    \<and> acpi_find (contents m') ''FACP'' = Some f \<and> acpi_find (contents m') ''APIC'' = Some a
    \<and> acpi_find (contents m') ''SRAT'' = Some s \<and> acpi_find (contents m') ''SLIT'' = Some d
    \<and> (if 1 < numa_nodes t then \<exists>h. hmat_table t rs = Some h \<and> acpi_find (contents m') ''HMAT'' = Some h
       else acpi_find (contents m') ''HMAT'' = None)"
  using acpi_setup [OF assms(1,2,4) _ assms(5,6)] compute_node_ids [OF _ assms(3)] assms(2) by (simp add: wf_topology_def)

text \<open>
  C25: the tables describe the topology. Reading the MADT gives every CPU once, enabled, in order, with
  its APIC id and number; reading the SRAT gives the same APIC ids with the NUMA node of each CPU,
  and every memory region with its node, address and size; the SLIT holds the node count and
  the distance of every pair of nodes.
\<close>

theorem acpi_describes_topology:
  assumes "wf_topology t" and "acpi_small t rs"
  shows "\<exists>a s d es fs. madt_table t = Some a \<and> srat_table t rs = Some s \<and> slit_table t = Some d
    \<and> split_entries (drop 44 a) = Some es \<and> split_entries (drop 48 s) = Some fs
    \<and> List.map_filter madt_cpu es = map (\<lambda>cpu. (the (apic_id t cpu), cpu)) (u32_range (total_cpus t))
    \<and> List.map_filter srat_cpu fs = map (\<lambda>cpu. (the (apic_id t cpu), the (node_of_cpu t cpu))) (u32_range (total_cpus t))
    \<and> List.map_filter srat_mem fs = map (\<lambda>r. (node_id r, gpa_start r, region_size r)) rs
    \<and> from_le_bytes (byte_slice d 36 44) = (ucast (numa_nodes t) :: u64)
    \<and> (\<forall>i < unat (numa_nodes t). \<forall>j < unat (numa_nodes t).
         distance t (of_nat i) (of_nat j) = Some (d ! (44 + i * unat (numa_nodes t) + j)))"
proof -
  from assms have v: "validate t = Inr ()" "unat (total_cpus t) \<le> 4096" "unat (numa_nodes t) \<le> 4096"
    by (simp_all add: wf_topology_def acpi_small_def)
  obtain a where a: "madt_table t = Some a" "split_entries (drop 44 a) = Some (madt_entries t)"
    using madt_table_read [OF v(1,2)] by blast
  obtain s where s: "srat_table t rs = Some s" "split_entries (drop 48 s) = Some (srat_entries t rs)"
    using srat_table_read [OF assms] by blast
  obtain d where d: "slit_table t = Some d" "from_le_bytes (byte_slice d 36 44) = (ucast (numa_nodes t) :: u64)"
    "\<forall>i < unat (numa_nodes t). \<forall>j < unat (numa_nodes t). distance t (of_nat i) (of_nat j) = Some (d ! (44 + i * unat (numa_nodes t) + j))"
    using slit_contents [OF v(1,3)] by blast
  from a s d madt_entries_cpus [OF v(1,2)] srat_entries_read(2,3) [OF v(1,2)] show ?thesis by blast
qed

text \<open>
  the HMAT names the nearest initiator. For every memory region the proximity structure of the
  table names a node with CPUs, and no node with CPUs is nearer to the region's node.
\<close>

theorem hmat_names_nearest_initiator:
  assumes wf: "wf_topology t" and c: "compute t mb base = Inr rs" and small: "acpi_small t rs" and i: "i < length rs"
  shows "\<exists>tbl init dist. hmat_table t rs = Some tbl \<and> sdt_ok ''HMAT'' tbl
    \<and> byte_slice tbl (40 + 40 * i) (80 + 40 * i) = hmat_mpda 3 init (node_id (rs ! i))
    \<and> init < numa_nodes t \<and> 0 < the (llcs_in_node t init) \<and> distance t init (node_id (rs ! i)) = Some dist
    \<and> (\<forall>j < numa_nodes t. 0 < the (llcs_in_node t j) \<longrightarrow> dist \<le> the (distance t j (node_id (rs ! i))))"
proof -
  from wf have v: "validate t = Inr ()" by (simp add: wf_topology_def)
  note tgt = compute_node_ids [OF v c]
  obtain tbl where tbl: "hmat_table t rs = Some tbl" "sdt_ok ''HMAT'' tbl" "drop 40 tbl = concat (hmat_chunks t (map node_id rs))"
    using hmat_table_read [OF wf small tgt] by blast
  let ?tgt = "node_id (rs ! i)"
  have lt: "?tgt < numa_nodes t" using tgt i by simp
  obtain init dist where init: "hmat_initiator_of t (initiators_of t) ?tgt = Some init" "init \<in> set (initiators_of t)"
    "distance t init ?tgt = Some dist" "\<forall>j \<in> set (initiators_of t). \<forall>e. distance t j ?tgt = Some e \<longrightarrow> dist \<le> e"
    using hmat_initiator_nearest [OF wf lt] by blast
  have "byte_slice tbl (40 + 40 * i) (80 + 40 * i) = take 40 (drop (40 * i) (drop 40 tbl))" by (simp add: byte_slice_def add.commute)
  also have "\<dots> = hmat_mpdas t (map node_id rs) ! i"
    unfolding tbl(3) hmat_chunks_def concat_append using i
    by (intro take_drop_concat_const) (simp_all add: hmat_mpdas_def hmat_mpda_def)
  also have "\<dots> = hmat_mpda 3 init ?tgt" using i init(1) by (simp add: hmat_mpdas_def)
  finally have "byte_slice tbl (40 + 40 * i) (80 + 40 * i) = hmat_mpda 3 init ?tgt" .
  moreover have "dist \<le> the (distance t j ?tgt)" if "j < numa_nodes t" "0 < the (llcs_in_node t j)" for j
  proof -
    have "j \<in> set (initiators_of t)" using that by (simp add: initiators_of_def mem_u32_range)
    with init(4) distance_valid [OF v that(1) lt] show ?thesis by auto
  qed
  ultimately show ?thesis using tbl init initiators_of_iff [OF init(2)] by blast
qed

section \<open>Witnesses\<close>

lemma list_write_law: "ram_law list_write (\<lambda>m. m)"
  by (simp add: ram_law_def list_write_def)

lemma acpi_small_cxl: "compute topo_cxl 1280 0 = Inr rs \<Longrightarrow> acpi_small topo_cxl rs"
  using compute_topo_cxl by (auto simp: acpi_small_def topo_cxl_def total_cpus_def)

lemma layout_cxl:
  "\<exists>rs l. compute topo_cxl 1280 0 = Inr rs \<and> acpi_layout_of topo_cxl rs = Some l \<and> unat (xsdt_addr l) + unat (xsdt_size l) \<le> 0x200000"
proof -
  obtain rs where rs: "compute topo_cxl 1280 0 = Inr rs" "length rs = 3" using compute_topo_cxl by simp
  note small = acpi_small_cxl [OF rs(1)]
  have v: "validate topo_cxl = Inr ()" "unat (total_cpus topo_cxl) \<le> 4096"
    using wf_topo_cxl small by (simp_all add: wf_topology_def acpi_small_def)
  obtain len where len: "compute_madt_size topo_cxl = Some len" "unat len \<le> 65620" using madt_table_read [OF v] by auto
  have "unat (srat_len topo_cxl rs) = 312" "unat (compute_hmat_size topo_cxl rs) = 288" "slit_len topo_cxl = 53"
    using rs(2) by (simp_all add: srat_len_def compute_hmat_size_def slit_len_def cpu_bearing_nodes_def num_msci_def topo_cxl_def
        total_cpus_def is_memory_only_def numa_node_new_def)
  with acpi_layout_addresses [OF wf_topo_cxl small compute_node_ids [OF v(1) rs(1)] len(1)] len(2) rs(1) show ?thesis by auto
qed

theorem acpi_tables_discoverable_witness:
  "\<exists>rs l m'. compute topo_cxl 1280 0 = Inr rs \<and> setup_acpi list_write (replicate 0x200000 0) topo_cxl rs = Inr (l, m')
     \<and> (\<exists>a. madt_table topo_cxl = Some a \<and> acpi_find m' ''APIC'' = Some a) \<and> acpi_find m' ''HMAT'' \<noteq> None"
proof -
  obtain rs l where rs: "compute topo_cxl 1280 0 = Inr rs" "acpi_layout_of topo_cxl rs = Some l"
    "unat (xsdt_addr l) + unat (xsdt_size l) \<le> 0x200000" using layout_cxl by blast
  have "1 < numa_nodes topo_cxl" by (simp add: topo_cxl_def)
  with acpi_tables_discoverable [OF list_write_law wf_topo_cxl rs(1) acpi_small_cxl [OF rs(1)] rs(2), of "replicate 0x200000 0"] rs(1,3)
  show ?thesis by (simp only: length_replicate if_True) (metis option.distinct(1))
qed

theorem acpi_describes_topology_witness:
  "\<exists>rs a es. compute topo_cxl 1280 0 = Inr rs \<and> madt_table topo_cxl = Some a \<and> split_entries (drop 44 a) = Some es
     \<and> map snd (List.map_filter madt_cpu es) = [0, 1, 2, 3, 4, 5]"
proof -
  obtain rs where rs: "compute topo_cxl 1280 0 = Inr rs" using compute_topo_cxl by simp
  have "u32_range (total_cpus topo_cxl) = [0, 1, 2, 3, 4, 5]" by (simp add: u32_range_def total_cpus_def topo_cxl_def upt_rec)
  with acpi_describes_topology [OF wf_topo_cxl acpi_small_cxl [OF rs]] rs show ?thesis by (auto simp: comp_def)
qed

theorem hmat_names_nearest_initiator_witness:
  "\<exists>rs tbl init. compute topo_cxl 1280 0 = Inr rs \<and> hmat_table topo_cxl rs = Some tbl
     \<and> byte_slice tbl 80 120 = hmat_mpda 3 init 1 \<and> init \<noteq> 1"
proof -
  obtain rs where rs: "compute topo_cxl 1280 0 = Inr rs" "length rs = 3" "node_id (rs ! 1) = 1" using compute_topo_cxl by simp
  have "llcs_in_node topo_cxl 1 = Some 0" by (simp add: llcs_in_node_def topo_cxl_def rust_index_def numa_node_new_def)
  with hmat_names_nearest_initiator [OF wf_topo_cxl rs(1) acpi_small_cxl [OF rs(1)], of 1] rs show ?thesis by fastforce
qed

end
