(* ===== verification/Mp_Table.thy ===== *)
theory Mp_Table
  imports Acpi_Discovery
begin

text \<open>
  The MP table of \<^verbatim>\<open>src/vmm/x86_64/mptable.rs\<close>: the floating pointer structure, the entries written one
  after the other, and the header written last, with a checksum over the entries read back from guest
  memory. The lemmas show that a reader who follows the pointer and verifies both checksums gets
  every CPU, and that the table survives the writing of the ACPI tables.
\<close>

definition MPTABLE_START :: u64 where "MPTABLE_START = 0x9fc00"
definition SMP_MAGIC :: bytes where "SMP_MAGIC = ascii ''_MP_''"
definition MPC_MAGIC :: bytes where "MPC_MAGIC = ascii ''PCMP''"
definition MP_PROCESSOR :: u8 where "MP_PROCESSOR = 0"
definition MP_BUS :: u8 where "MP_BUS = 1"
definition MP_IOAPIC :: u8 where "MP_IOAPIC = 2"
definition MP_INTSRC :: u8 where "MP_INTSRC = 3"
definition MP_LINTSRC :: u8 where "MP_LINTSRC = 4"
definition CPU_ENABLED :: u8 where "CPU_ENABLED = 1"
definition CPU_BSP :: u8 where "CPU_BSP = 2"
definition APIC_VERSION :: u8 where "APIC_VERSION = 0x14"
definition IO_APIC_ID :: u8 where "IO_APIC_ID = 0xfe"
definition IO_APIC_ADDR :: u32 where "IO_APIC_ADDR = 0xfec00000"
definition NUM_IRQS :: u32 where "NUM_IRQS = 24"

definition mpf_structure :: bytes where
  "mpf_structure =
     (let mpc_start = MPTABLE_START + 16;
          mpf = SMP_MAGIC @ to_le_bytes 4 (ucast mpc_start :: u32) @ [1, 4, 0, 0, 0x80, 0, 0, 0];
          cksum = foldl (+) 0 mpf
      in mpf[10 := NOT cksum + 1])"

definition mp_cpu_entry :: "topology \<Rightarrow> u32 \<Rightarrow> bytes option" where
  "mp_cpu_entry topo cpu_id =
     map_option (\<lambda>id. [MP_PROCESSOR, ucast id, APIC_VERSION, CPU_ENABLED OR (if cpu_id = 0 then CPU_BSP else 0)]
       @ to_le_bytes 4 (0x0600 :: u32) @ to_le_bytes 4 (0x0201 :: u32) @ replicate 8 0) (apic_id topo cpu_id)"

definition mp_bus_entry :: bytes where
  "mp_bus_entry = [MP_BUS, 0] @ ascii ''ISA   ''"

definition mp_ioapic_entry :: bytes where
  "mp_ioapic_entry = [MP_IOAPIC, IO_APIC_ID, APIC_VERSION, 1] @ to_le_bytes 4 IO_APIC_ADDR"

definition mp_intsrc_entry :: "u8 \<Rightarrow> bytes" where
  "mp_intsrc_entry irq = [MP_INTSRC, 0, 0, 0, 0, irq, IO_APIC_ID, irq]"

definition mp_lintsrc_entry :: "u8 \<Rightarrow> bytes" where
  "mp_lintsrc_entry lint = [MP_LINTSRC, if lint = 0 then 3 else 1, 0, 0, 0, 0, 0xff, lint]"

text \<open>One write followed by the advance of the address, and a loop of fallible steps.\<close>

definition write_entry ::
  "('m \<Rightarrow> bytes \<Rightarrow> u64 \<Rightarrow> 'm option) \<Rightarrow> string \<Rightarrow> bytes \<Rightarrow> 'm \<times> u64 \<Rightarrow> acpi_error + 'm \<times> u64" where
  "write_entry write_slice what e = (\<lambda>(m, addr).
     case write_slice m e addr of
       None \<Rightarrow> Inl (WriteFailed what)
     | Some m' \<Rightarrow> Inr (m', addr + of_nat (length e)))"

fun fold_res :: "('a \<Rightarrow> 's \<Rightarrow> 'e + 's) \<Rightarrow> 'a list \<Rightarrow> 's \<Rightarrow> 'e + 's" where
  "fold_res f [] s = Inr s"
| "fold_res f (x # xs) s = and_then (f x s) (fold_res f xs)"

definition mpc_header :: "u32 \<Rightarrow> u16 \<Rightarrow> bytes" where
  "mpc_header num_cpus table_len =
     (let total_len = 44 + table_len;
          entry_count = num_cpus + 1 + 1 + NUM_IRQS + 2
      in MPC_MAGIC @ to_le_bytes 2 total_len @ [4, 0] @ ascii ''KTSTR   '' @ ascii ''000000000000''
         @ replicate 6 0 @ to_le_bytes 2 (ucast entry_count :: u16) @ to_le_bytes 4 (0xfee00000 :: u32)
         @ replicate 4 0)"

text \<open>The last part: the checksum over header and entries, and the header itself.\<close>

definition mp_finish ::
  "('m \<Rightarrow> bytes \<Rightarrow> u64 \<Rightarrow> 'm option) \<Rightarrow> ('m \<Rightarrow> u64 \<Rightarrow> nat \<Rightarrow> bytes option) \<Rightarrow> u32 \<Rightarrow> u64
     \<Rightarrow> 'm \<times> u64 \<Rightarrow> acpi_error + 'm" where
  "mp_finish write_slice read_slice num_cpus header_addr = (\<lambda>(m, table_end).
     let header = mpc_header num_cpus (ucast (table_end - header_addr - 44));
         entries_start = header_addr + 44
     in case read_slice m entries_start (unat (table_end - entries_start)) of
          None \<Rightarrow> Inl (WriteFailed ''read entries for checksum'')
        | Some entry_bytes \<Rightarrow>
            let cksum = foldl (+) (foldl (+) 0 header) entry_bytes
            in case write_slice m (header[7 := NOT cksum + 1]) header_addr of
                 None \<Rightarrow> Inl (WriteFailed ''write mpc_table header'')
               | Some m' \<Rightarrow> Inr m')"

definition setup_mptable ::
  "('m \<Rightarrow> bytes \<Rightarrow> u64 \<Rightarrow> 'm option) \<Rightarrow> ('m \<Rightarrow> u64 \<Rightarrow> nat \<Rightarrow> bytes option) \<Rightarrow> 'm \<Rightarrow> topology \<Rightarrow> acpi_error + 'm" where
  "setup_mptable write_slice read_slice m topo =
     and_then (write_entry write_slice ''write mpf'' mpf_structure (m, MPTABLE_START)) (\<lambda>(m, header_addr).
     and_then (fold_res (\<lambda>cpu_id s. case mp_cpu_entry topo cpu_id of
                   None \<Rightarrow> Inl Panicked
                 | Some e \<Rightarrow> write_entry write_slice ''write mpc_cpu'' e s)
                 (u32_range (total_cpus topo)) (m, header_addr + 44)) (\<lambda>s.
     and_then (write_entry write_slice ''write mpc_bus'' mp_bus_entry s) (\<lambda>s.
     and_then (write_entry write_slice ''write mpc_ioapic'' mp_ioapic_entry s) (\<lambda>s.
     and_then (fold_res (\<lambda>irq. write_entry write_slice ''write mpc_intsrc'' (mp_intsrc_entry irq))
                 (map of_nat [0..<unat NUM_IRQS]) s) (\<lambda>s.
     and_then (fold_res (\<lambda>lint. write_entry write_slice ''write mpc_lintsrc'' (mp_lintsrc_entry lint)) [0, 1] s)
       (mp_finish write_slice read_slice (total_cpus topo) header_addr))))))"

section \<open>Specification functions and sample values\<close>

text \<open>In addition to \<open>ram_law\<close>: a read returns the bytes stored, or fails when it runs past the end.\<close>

definition ram_rw_law :: "('m \<Rightarrow> bytes \<Rightarrow> u64 \<Rightarrow> 'm option) \<Rightarrow> ('m \<Rightarrow> u64 \<Rightarrow> nat \<Rightarrow> bytes option) \<Rightarrow> ('m \<Rightarrow> bytes) \<Rightarrow> bool" where
  "ram_rw_law write_slice read_slice contents \<longleftrightarrow> ram_law write_slice contents
     \<and> (\<forall>m a n. read_slice m a n = (if unat a + n \<le> length (contents m)
          then Some (byte_slice (contents m) (unat a) (unat a + n)) else None))"

text \<open>After the bytes \<open>ws\<close> have been written from \<open>base\<close> on, the next address follows them.\<close>

definition written :: "('m \<Rightarrow> bytes) \<Rightarrow> nat \<Rightarrow> bytes \<Rightarrow> bytes \<Rightarrow> 'm \<times> u64 \<Rightarrow> bool" where
  "written contents base mem bs = (\<lambda>(m, a). contents m = overwrite base bs mem \<and> unat a = base + length bs)"

definition mp_cpu_bytes :: "topology \<Rightarrow> u32 \<Rightarrow> bytes" where
  "mp_cpu_bytes t cpu = the (mp_cpu_entry t cpu)"

definition mp_entry_list :: "topology \<Rightarrow> bytes list" where
  "mp_entry_list t = map (mp_cpu_bytes t) (u32_range (total_cpus t)) @ [mp_bus_entry, mp_ioapic_entry]
     @ map (\<lambda>irq. mp_intsrc_entry (of_nat irq)) [0..<24] @ map mp_lintsrc_entry [0, 1]"

definition mp_header :: "topology \<Rightarrow> bytes" where
  "mp_header t = (let h = mpc_header (total_cpus t) (of_nat (length (concat (mp_entry_list t)))) in
     h[7 := - (sum_list h + sum_list (concat (mp_entry_list t)))])"

text \<open>
  How the table is read: the floating pointer leads to the table, both checksums are verified, and the
  entries are split by their type, 20 bytes for a processor and 8 for the others, as many as the
  header announces.
\<close>

fun mp_split :: "nat \<Rightarrow> bytes \<Rightarrow> bytes list option" where
  "mp_split 0 bs = (if bs = [] then Some [] else None)"
| "mp_split (Suc n) bs =
     (let k = (if bs \<noteq> [] \<and> hd bs = 0 then 20 else 8) in
      if length bs < k then None else map_option ((#) (take k bs)) (mp_split n (drop k bs)))"

definition mp_read :: "bytes \<Rightarrow> bytes list option" where
  "mp_read mem =
     (let mpf = byte_slice mem 0x9fc00 0x9fc10;
          a = unat (from_le_bytes (byte_slice mpf 4 8) :: u32);
          tbl = byte_slice mem a (a + unat (from_le_bytes (byte_slice mem (a + 4) (a + 6)) :: u16))
      in if take 4 mpf = ascii ''_MP_'' \<and> sum_list mpf = 0 \<and> take 4 tbl = ascii ''PCMP'' \<and> sum_list tbl = 0
         then mp_split (unat (from_le_bytes (byte_slice tbl 34 36) :: u16)) (drop 44 tbl) else None)"

text \<open>A processor entry: APIC id, enabled, boot processor.\<close>

definition mp_cpu :: "bytes \<Rightarrow> (u8 \<times> bool \<times> bool) option" where
  "mp_cpu e = (if e ! 0 = 0 then Some (e ! 1, bit (e ! 3) 0, bit (e ! 3) 1) else None)"

definition list_read :: "bytes \<Rightarrow> u64 \<Rightarrow> nat \<Rightarrow> bytes option" where
  "list_read m a n = (if unat a + n \<le> length m then Some (byte_slice m (unat a) (unat a + n)) else None)"

section \<open>Writing the entries\<close>

lemma map_filter_Some: "(\<And>x. x \<in> set xs \<Longrightarrow> f (g x) = Some (h x)) \<Longrightarrow> List.map_filter f (map g xs) = map h xs"
  by (induction xs) (simp_all add: List.map_filter_simps)

lemma write_entry_written:
  assumes law: "ram_law ws contents" and s: "written contents base mem bs s"
    and fit: "base + length bs + length e \<le> length mem" "length mem < 2 ^ 64"
  shows "\<exists>s'. write_entry ws what e s = Inr s' \<and> written contents base mem (bs @ e) s'"
proof -
  obtain m a where ma: "s = (m, a)" by (cases s)
  with s have c: "contents m = overwrite base bs mem" and a: "unat a = base + length bs" by (simp_all add: written_def)
  have "length (contents m) = length mem" using c fit by simp
  with a fit obtain m' where m': "ws m e a = Some m'" "contents m' = overwrite (unat a) e (contents m)"
    by (auto intro: ram_law_write [OF law, of a e m])
  with overwrite_append [of base bs e mem] a c fit have "contents m' = overwrite base (bs @ e) mem" by simp
  moreover have "unat (a + of_nat (length e)) = base + length (bs @ e)"
  proof -
    have "unat (of_nat (length e) :: u64) = length e" using fit by (intro unat_of_nat_no_overflow) simp
    with a fit show ?thesis by (subst unat_add_no_overflow) simp_all
  qed
  ultimately show ?thesis using m'(1) ma by (simp add: write_entry_def written_def)
qed

lemma write_entries_written:
  assumes law: "ram_law ws contents" and s: "written contents base mem bs s"
    and f: "\<And>x s. x \<in> set xs \<Longrightarrow> f x s = write_entry ws what (g x) s"
    and fit: "base + length bs + length (concat (map g xs)) \<le> length mem" "length mem < 2 ^ 64"
  shows "\<exists>s'. fold_res f xs s = Inr s' \<and> written contents base mem (bs @ concat (map g xs)) s'"
  using s f fit(1)
proof (induction xs arbitrary: s bs)
  case (Cons x xs)
  obtain s1 where s1: "f x s = Inr s1" "written contents base mem (bs @ g x) s1"
    using write_entry_written [OF law Cons.prems(1), of "g x" what] Cons.prems(2,3) fit(2) by auto
  from Cons.IH [OF s1(2)] Cons.prems(2,3) s1(1) show ?case by auto
qed simp

section \<open>The table\<close>

lemma mp_cpu_entry_Some:
  assumes "validate t = Inr ()" and "unat (total_cpus t) \<le> 4096" and "cpu \<in> set (u32_range (total_cpus t))"
  shows "mp_cpu_entry t cpu = Some (mp_cpu_bytes t cpu)" and "length (mp_cpu_bytes t cpu) = 20"
    and "\<exists>a. apic_id t cpu = Some a \<and> mp_cpu_bytes t cpu ! 1 = ucast a"
    and "mp_cpu_bytes t cpu ! 0 = 0" and "mp_cpu_bytes t cpu ! 3 = (if cpu = 0 then 3 else 1)"
proof -
  obtain c where c: "c < unat (total_cpus t)" "cpu = of_nat c" using assms(3) by (auto simp: u32_range_def)
  from apic_ids(2) [OF assms(1,2) c(1)] obtain a where a: "apic_id t cpu = Some a" by (simp add: c(2))
  then show "mp_cpu_entry t cpu = Some (mp_cpu_bytes t cpu)" "length (mp_cpu_bytes t cpu) = 20"
    "\<exists>a. apic_id t cpu = Some a \<and> mp_cpu_bytes t cpu ! 1 = ucast a" "mp_cpu_bytes t cpu ! 0 = 0"
    "mp_cpu_bytes t cpu ! 3 = (if cpu = 0 then 3 else 1)"
    by (simp_all add: mp_cpu_bytes_def mp_cpu_entry_def MP_PROCESSOR_def CPU_ENABLED_def CPU_BSP_def)
qed

lemma length_mp_entries:
  assumes "validate t = Inr ()" and "unat (total_cpus t) \<le> 4096"
  shows "length (concat (mp_entry_list t)) = 20 * unat (total_cpus t) + 224"
proof -
  have "length (concat (map (mp_cpu_bytes t) (u32_range (total_cpus t)))) = 20 * unat (total_cpus t)"
    using length_concat_const [of "map (mp_cpu_bytes t) (u32_range (total_cpus t))" 20] mp_cpu_entry_Some(2) [OF assms] by simp
  moreover have "length (concat (map (\<lambda>irq. mp_intsrc_entry (of_nat irq)) [0..<24])) = 192"
    by (subst length_concat_const [of _ 8]) (auto simp: mp_intsrc_entry_def)
  ultimately show ?thesis
    by (simp add: mp_entry_list_def mp_bus_entry_def mp_ioapic_entry_def mp_lintsrc_entry_def)
qed

lemma length_mp_header [simp]: "length (mp_header t) = 44"
  by (simp add: mp_header_def Let_def mpc_header_def MPC_MAGIC_def)

lemma mp_table_sum: "sum_list (mp_header t @ concat (mp_entry_list t)) = 0"
proof -
  let ?h = "mpc_header (total_cpus t) (of_nat (length (concat (mp_entry_list t))))"
  have "?h ! 7 = 0" "7 < length ?h" by (simp_all add: mpc_header_def Let_def MPC_MAGIC_def nth_append)
  then show ?thesis by (simp add: mp_header_def Let_def sum_list_update_word)
qed

lemma mpf_length [simp]: "length mpf_structure = 16"
  by (simp add: mpf_structure_def Let_def SMP_MAGIC_def)

lemma mpf_sum: "sum_list mpf_structure = 0"
  by (simp add: mpf_structure_def Let_def SMP_MAGIC_def sum_list_update_word foldl_sum_list minus_eq_not_plus_1 [symmetric] nth_append)

lemma mp_finish_written:
  assumes law: "ram_rw_law ws rd contents" and w: "written contents (0x9fc00 + 60) mem (concat (mp_entry_list t)) s"
    and fit: "0x9fc00 + 60 + length (concat (mp_entry_list t)) \<le> length mem" "length mem < 2 ^ 64"
  shows "\<exists>m'. mp_finish ws rd (total_cpus t) 0x9fc10 s = Inr m'
    \<and> contents m' = overwrite 0x9fc10 (mp_header t @ concat (mp_entry_list t)) mem"
proof -
  let ?es = "concat (mp_entry_list t)"
  obtain m a where s: "s = (m, a)" by (cases s)
  with w have c: "contents m = overwrite (0x9fc00 + 60) ?es mem" and a: "unat a = 0x9fc00 + 60 + length ?es"
    by (simp_all add: written_def)
  have "a = of_nat (unat a)" by simp
  also have "\<dots> = 0x9fc3c + of_nat (length ?es)" unfolding a by simp
  finally have a': "a = 0x9fc3c + of_nat (length ?es)" .
  have len: "length (contents m) = length mem" using c fit by simp
  have es: "unat (of_nat (length ?es) :: u64) = length ?es" using fit by (intro unat_of_nat_no_overflow) simp
  have h: "mpc_header (total_cpus t) (ucast (a - 0x9fc10 - 44)) = mpc_header (total_cpus t) (of_nat (length ?es))"
  proof -
    have "(ucast (of_nat (length ?es) :: u64) :: u16) = of_nat (unat (of_nat (length ?es) :: u64))" by (simp only: of_nat_unat)
    then show ?thesis by (simp add: a' es)
  qed
  have "rd m 0x9fc3c (unat (a - 0x9fc3c)) = Some (byte_slice (contents m) 0x9fc3c (0x9fc3c + length ?es))"
    using law len fit es by (simp add: ram_rw_law_def a')
  also have "byte_slice (contents m) 0x9fc3c (0x9fc3c + length ?es) = ?es"
    using take_drop_overwrite_same [of "0x9fc3c" ?es mem] fit c by (simp add: byte_slice_def)
  finally have r: "rd m 0x9fc3c (unat (a - 0x9fc3c)) = Some ?es" .
  have hdr: "(mpc_header (total_cpus t) (of_nat (length ?es)))[7 := NOT (foldl (+) (foldl (+) 0 (mpc_header (total_cpus t) (of_nat (length ?es)))) ?es) + 1]
      = mp_header t"
    by (simp add: mp_header_def Let_def foldl_sum_list minus_eq_not_plus_1)
  obtain m' where m': "ws m (mp_header t) 0x9fc10 = Some m'" "contents m' = overwrite 0x9fc10 (mp_header t) (contents m)"
  proof -
    have "ram_law ws contents" "unat (0x9fc10 :: u64) + length (mp_header t) \<le> length (contents m)"
      using law len fit by (simp_all add: ram_rw_law_def)
    from ram_law_write [OF this] that show thesis by auto
  qed
  have "contents m' = overwrite 0x9fc10 (mp_header t @ ?es) mem"
    using overwrite_before [of "0x9fc10" "mp_header t" ?es mem] fit by (simp add: m' c)
  moreover have "mp_finish ws rd (total_cpus t) 0x9fc10 s = Inr m'"
    unfolding s mp_finish_def prod.case Let_def h by (simp add: r hdr m'(1))
  ultimately show ?thesis by blast
qed

lemma mptable_image:
  assumes law: "ram_rw_law ws rd contents" and v: "validate t = Inr ()" "unat (total_cpus t) \<le> 4096"
    and fit: "0x9fc3c + length (concat (mp_entry_list t)) \<le> length (contents m)" "length (contents m) < 2 ^ 64"
  shows "\<exists>m'. setup_mptable ws rd m t = Inr m'
    \<and> contents m' = overwrite 0x9fc00 (mpf_structure @ mp_header t @ concat (mp_entry_list t)) (contents m)"
proof -
  from law have wl: "ram_law ws contents" by (simp add: ram_rw_law_def)
  let ?c = "contents m" and ?mem = "overwrite 0x9fc00 mpf_structure (contents m)"
  let ?cpus = "map (mp_cpu_bytes t) (u32_range (total_cpus t))"
  let ?irqs = "map (\<lambda>irq. mp_intsrc_entry (of_nat irq)) [0..<24]"
  have mem: "length ?mem = length ?c" using fit by simp
  have "written contents 0x9fc00 ?c [] (m, MPTABLE_START)" by (simp add: written_def MPTABLE_START_def)
  from write_entry_written [OF wl this, of mpf_structure "''write mpf''"] fit
  obtain m1 a1 where s1: "write_entry ws ''write mpf'' mpf_structure (m, MPTABLE_START) = Inr (m1, a1)" "contents m1 = ?mem" "unat a1 = 0x9fc10"
    by (auto simp: written_def)
  have a1: "a1 = 0x9fc10" by (rule unsigned_word_eqI [where 'a = nat]) (simp add: s1(3))
  have "written contents (0x9fc00 + 60) ?mem [] (m1, a1 + 44)" by (simp add: written_def s1(2) a1)
  note step = write_entries_written [OF wl] write_entry_written [OF wl]
  have tot: "concat (mp_entry_list t) = concat ?cpus @ mp_bus_entry @ mp_ioapic_entry @ concat ?irqs @ concat (map mp_lintsrc_entry [0, 1])"
    by (simp add: mp_entry_list_def)
  have cpus: "(case mp_cpu_entry t x of None \<Rightarrow> Inl Panicked
      | Some e \<Rightarrow> write_entry ws ''write mpc_cpu'' e s) = write_entry ws ''write mpc_cpu'' (mp_cpu_bytes t x) s"
    if "x \<in> set (u32_range (total_cpus t))" for x s
    using mp_cpu_entry_Some(1) [OF v that] by simp
  obtain s2 where s2: "fold_res (\<lambda>cpu_id s. case mp_cpu_entry t cpu_id of None \<Rightarrow> Inl Panicked
      | Some e \<Rightarrow> write_entry ws ''write mpc_cpu'' e s) (u32_range (total_cpus t)) (m1, a1 + 44) = Inr s2"
    "written contents (0x9fc00 + 60) ?mem (concat ?cpus) s2"
    using step(1) [OF \<open>written contents (0x9fc00 + 60) ?mem [] (m1, a1 + 44)\<close>, of "u32_range (total_cpus t)"
        "\<lambda>cpu_id s. case mp_cpu_entry t cpu_id of None \<Rightarrow> Inl Panicked | Some e \<Rightarrow> write_entry ws ''write mpc_cpu'' e s"
        "''write mpc_cpu''" "mp_cpu_bytes t"] cpus fit mem tot by auto
  obtain s3 where s3: "write_entry ws ''write mpc_bus'' mp_bus_entry s2 = Inr s3"
    "written contents (0x9fc00 + 60) ?mem (concat ?cpus @ mp_bus_entry) s3"
    using step(2) [OF s2(2), of mp_bus_entry "''write mpc_bus''"] fit mem tot by auto
  obtain s4 where s4: "write_entry ws ''write mpc_ioapic'' mp_ioapic_entry s3 = Inr s4"
    "written contents (0x9fc00 + 60) ?mem (concat ?cpus @ mp_bus_entry @ mp_ioapic_entry) s4"
    using step(2) [OF s3(2), of mp_ioapic_entry "''write mpc_ioapic''"] fit mem tot by auto
  have irqs: "map mp_intsrc_entry (map of_nat [0..<unat NUM_IRQS]) = ?irqs" by (simp add: NUM_IRQS_def)
  obtain s5 where s5: "fold_res (\<lambda>irq. write_entry ws ''write mpc_intsrc'' (mp_intsrc_entry irq)) (map of_nat [0..<unat NUM_IRQS]) s4 = Inr s5"
    "written contents (0x9fc00 + 60) ?mem (concat ?cpus @ mp_bus_entry @ mp_ioapic_entry @ concat ?irqs) s5"
    using step(1) [OF s4(2), of "map of_nat [0..<unat NUM_IRQS]" "\<lambda>irq. write_entry ws ''write mpc_intsrc'' (mp_intsrc_entry irq)" "''write mpc_intsrc''" mp_intsrc_entry]
      fit mem tot unfolding irqs by auto
  obtain s6 where s6: "fold_res (\<lambda>lint. write_entry ws ''write mpc_lintsrc'' (mp_lintsrc_entry lint)) [0, 1] s5 = Inr s6"
    "written contents (0x9fc00 + 60) ?mem (concat (mp_entry_list t)) s6"
    using step(1) [OF s5(2), of "[0, 1]" "\<lambda>lint. write_entry ws ''write mpc_lintsrc'' (mp_lintsrc_entry lint)" "''write mpc_lintsrc''" mp_lintsrc_entry]
      fit mem tot by auto
  obtain m' where m': "mp_finish ws rd (total_cpus t) 0x9fc10 s6 = Inr m'"
    "contents m' = overwrite 0x9fc10 (mp_header t @ concat (mp_entry_list t)) ?mem"
    using mp_finish_written [OF law s6(2)] fit mem by auto
  have "contents m' = overwrite 0x9fc00 (mpf_structure @ mp_header t @ concat (mp_entry_list t)) ?c"
    using overwrite_append [of "0x9fc00" mpf_structure "mp_header t @ concat (mp_entry_list t)" ?c] fit by (simp add: m'(2))
  moreover have "setup_mptable ws rd m t = Inr m'"
    unfolding setup_mptable_def s1(1) and_then_simps prod.case s2(1) s3(1) s4(1) s5(1) s6(1) unfolding a1 m'(1) ..
  ultimately show ?thesis by blast
qed

section \<open>Reading the table\<close>

lemma mp_split_concat:
  "\<forall>e \<in> set es. e \<noteq> [] \<and> length e = (if hd e = 0 then 20 else 8) \<Longrightarrow> mp_split (length es) (concat es) = Some es"
proof (induction es)
  case (Cons e es)
  then have "e \<noteq> []" "length e = (if hd e = 0 then 20 else 8)" by simp_all
  with Cons show ?case by (auto simp: Let_def)
qed simp

lemma mp_entries_ok:
  assumes "validate t = Inr ()" and "unat (total_cpus t) \<le> 4096"
  shows "\<forall>e \<in> set (mp_entry_list t). e \<noteq> [] \<and> length e = (if hd e = 0 then 20 else 8)"
proof -
  have "e \<noteq> [] \<and> length e = (if hd e = 0 then 20 else 8)" if "e = mp_cpu_bytes t cpu" "cpu \<in> set (u32_range (total_cpus t))" for e cpu
    using mp_cpu_entry_Some(2,4) [OF assms that(2)] that(1) by (cases "mp_cpu_bytes t cpu") auto
  moreover have "mp_bus_entry \<noteq> []" "length mp_bus_entry = 8" "hd mp_bus_entry \<noteq> 0"
    "mp_ioapic_entry \<noteq> []" "length mp_ioapic_entry = 8" "hd mp_ioapic_entry \<noteq> 0"
    by (simp_all add: mp_bus_entry_def mp_ioapic_entry_def MP_BUS_def MP_IOAPIC_def)
  moreover have "mp_intsrc_entry i \<noteq> []" "length (mp_intsrc_entry i) = 8" "hd (mp_intsrc_entry i) \<noteq> 0"
    "mp_lintsrc_entry i \<noteq> []" "length (mp_lintsrc_entry i) = 8" "hd (mp_lintsrc_entry i) \<noteq> 0" for i
    by (simp_all add: mp_intsrc_entry_def mp_lintsrc_entry_def MP_INTSRC_def MP_LINTSRC_def)
  ultimately show ?thesis unfolding mp_entry_list_def by auto
qed

lemma mp_entries_cpus:
  assumes "validate t = Inr ()" and "unat (total_cpus t) \<le> 4096"
  shows "List.map_filter mp_cpu (mp_entry_list t)
    = map (\<lambda>cpu. (ucast (the (apic_id t cpu)), True, cpu = 0)) (u32_range (total_cpus t))"
proof -
  have cpu: "mp_cpu (mp_cpu_bytes t cpu) = Some (ucast (the (apic_id t cpu)), True, cpu = 0)" if "cpu \<in> set (u32_range (total_cpus t))" for cpu
    using mp_cpu_entry_Some(3-5) [OF assms that] by (auto simp: mp_cpu_def bit_1_iff bit_numeral_rec)
  have "List.map_filter mp_cpu (map (mp_cpu_bytes t) (u32_range (total_cpus t)))
      = map (\<lambda>cpu. (ucast (the (apic_id t cpu)), True, cpu = 0)) (u32_range (total_cpus t))"
    using cpu by (intro map_filter_Some) simp
  moreover have "mp_cpu mp_bus_entry = None" "mp_cpu mp_ioapic_entry = None" "mp_cpu (mp_intsrc_entry i) = None" "mp_cpu (mp_lintsrc_entry i) = None" for i
    by (simp_all add: mp_cpu_def mp_bus_entry_def mp_ioapic_entry_def mp_intsrc_entry_def mp_lintsrc_entry_def
        MP_BUS_def MP_IOAPIC_def MP_INTSRC_def MP_LINTSRC_def)
  ultimately show ?thesis by (simp add: mp_entry_list_def List.map_filter_def comp_def)
qed

lemma mp_read_image:
  assumes v: "validate t = Inr ()" and b: "unat (total_cpus t) \<le> 3263" and P: "length P = 0x9fc00"
  shows "mp_read (P @ mpf_structure @ mp_header t @ concat (mp_entry_list t) @ Q) = Some (mp_entry_list t)"
proof -
  let ?es = "concat (mp_entry_list t)" and ?tbl = "mp_header t @ concat (mp_entry_list t)"
  let ?mem = "P @ mpf_structure @ ?tbl @ Q"
  have b': "unat (total_cpus t) \<le> 4096" using b by simp
  note len = length_mp_entries [OF v b']
  have mpf: "byte_slice ?mem 0x9fc00 0x9fc10 = mpf_structure" using P by (simp add: byte_slice_def)
  have ptr: "unat (from_le_bytes (byte_slice mpf_structure 4 8) :: u32) = 0x9fc10" "take 4 mpf_structure = ascii ''_MP_''"
    by (simp_all add: mpf_structure_def Let_def SMP_MAGIC_def MPTABLE_START_def byte_slice_def take_drop)
  have e16: "from_le_bytes (to_le_bytes 2 w) = (w :: u16)" for w by (rule from_le_to_le) simp
  have hd: "take 4 (mp_header t) = ascii ''PCMP''" "byte_slice (mp_header t) 4 6 = to_le_bytes 2 (44 + of_nat (length ?es) :: u16)"
    "byte_slice (mp_header t) 34 36 = to_le_bytes 2 (ucast (total_cpus t + 1 + 1 + NUM_IRQS + 2) :: u16)"
    by (simp_all add: mp_header_def Let_def mpc_header_def MPC_MAGIC_def byte_slice_def take_drop)
  have u: "unat (44 + of_nat (length ?es) :: u16) = 44 + length ?es"
    using unat_of_nat_no_overflow [of "44 + length ?es", where 'a = 16] b len by simp
  have tl: "byte_slice ?mem (0x9fc10 + 4) (0x9fc10 + 6) = byte_slice (mp_header t) 4 6" using P by (simp add: byte_slice_def)
  have tbl: "byte_slice ?mem 0x9fc10 (0x9fc10 + (44 + length ?es)) = ?tbl" using P by (simp add: byte_slice_def)
  have cnt: "unat (ucast (total_cpus t + 1 + 1 + NUM_IRQS + 2) :: u16) = length (mp_entry_list t)"
  proof -
    have "unat (total_cpus t + 1 + 1 + NUM_IRQS + 2) = unat (total_cpus t) + 28"
      using b by (subst unat_add_no_overflow, simp add: NUM_IRQS_def unat_add_no_overflow)+ (simp add: NUM_IRQS_def)
    then show ?thesis using b by (simp add: unsigned_ucast_eq take_bit_nat_eq_self mp_entry_list_def)
  qed
  have "byte_slice ?tbl 34 36 = byte_slice (mp_header t) 34 36" by (simp add: byte_slice_def)
  then have "unat (from_le_bytes (byte_slice ?tbl 34 36) :: u16) = length (mp_entry_list t)" by (simp only: hd(3) e16 cnt)
  moreover have flat: "P @ mpf_structure @ mp_header t @ ?es @ Q = ?mem" by simp
  ultimately show ?thesis
    unfolding flat mp_read_def Let_def mpf ptr(1) tl hd(2) e16 u tbl
    using ptr(2) mpf_sum mp_table_sum [of t] hd(1) mp_split_concat [OF mp_entries_ok [OF v b']] by simp
qed

text \<open>
  Setting up the table succeeds when it fits, changes nothing else, and reading it gives every CPU in order,
  enabled, with the low byte of its APIC id and only the first one as boot processor.
\<close>

lemma mptable_lists_cpus:
  assumes "ram_rw_law write_slice read_slice contents" and "validate t = Inr ()" and "unat (total_cpus t) \<le> 3263"
    and "0x9fd1c + 20 * unat (total_cpus t) \<le> length (contents m)" and "length (contents m) < 2 ^ 64"
  shows "\<exists>m' img. setup_mptable write_slice read_slice m t = Inr m'
    \<and> length img = 284 + 20 * unat (total_cpus t) \<and> contents m' = overwrite 0x9fc00 img (contents m)
    \<and> (\<forall>P Q. length P = 0x9fc00 \<longrightarrow> mp_read (P @ img @ Q) = Some (mp_entry_list t))"
proof -
  have b: "unat (total_cpus t) \<le> 4096" using assms(3) by simp
  note len = length_mp_entries [OF assms(2) b]
  let ?img = "mpf_structure @ mp_header t @ concat (mp_entry_list t)"
  obtain m' where m': "setup_mptable write_slice read_slice m t = Inr m'" "contents m' = overwrite 0x9fc00 ?img (contents m)"
    using mptable_image [OF assms(1,2) b] assms(4,5) len by auto
  with len mp_read_image [OF assms(2,3)] show ?thesis by (intro exI [of _ m'] exI [of _ ?img] conjI) simp_all
qed

lemma overwrite_skip: "length A \<le> pos \<Longrightarrow> overwrite pos ys (A @ B) = A @ overwrite (pos - length A) ys B"
  by (simp add: overwrite_def)

section \<open>Properties\<close>

text \<open>
  both descriptions of the machine are readable side by side. For a well-formed topology of up to
  3263 CPUs, setting up the MP table and then the ACPI tables succeeds; afterwards the MP table, read through its
  floating pointer with both checksums and the number of entries verified, gives every CPU in order,
  enabled, with the low byte of its APIC id and only the first one as boot processor, and the ACPI
  search still finds the MADT that was built, which lists the same CPUs.
\<close>

theorem firmware_tables_coexist:
  assumes law: "ram_rw_law write_slice read_slice contents" and wf: "wf_topology t" and c: "compute t mb base = Inr rs"
    and small: "acpi_small t rs" "unat (total_cpus t) \<le> 3263" and l: "acpi_layout_of t rs = Some l"
    and fit: "unat (xsdt_addr l) + unat (xsdt_size l) \<le> length (contents m)" "length (contents m) < 2 ^ 64"
  shows "\<exists>m1 m2 es a fs. setup_mptable write_slice read_slice m t = Inr m1 \<and> setup_acpi write_slice m1 t rs = Inr (l, m2)
    \<and> mp_read (contents m2) = Some es
    \<and> List.map_filter mp_cpu es = map (\<lambda>cpu. (ucast (the (apic_id t cpu)), True, cpu = 0)) (u32_range (total_cpus t))
    \<and> acpi_find (contents m2) ''APIC'' = Some a \<and> split_entries (drop 44 a) = Some fs
    \<and> List.map_filter madt_cpu fs = map (\<lambda>cpu. (the (apic_id t cpu), cpu)) (u32_range (total_cpus t))"
proof -
  from wf have v: "validate t = Inr ()" by (simp add: wf_topology_def)
  have b: "unat (total_cpus t) \<le> 4096" using small(2) by simp
  have wl: "ram_law write_slice contents" using law by (simp add: ram_rw_law_def)
  note tgt = compute_node_ids [OF v c]
  obtain len where "compute_madt_size t = Some len" using madt_table_read [OF v b] by blast
  from acpi_layout_addresses [OF wf small(1) tgt this] l fit(1) have mem: "0xE0000 \<le> length (contents m)" by auto
  obtain m1 img where m1: "setup_mptable write_slice read_slice m t = Inr m1" "length img = 284 + 20 * unat (total_cpus t)"
    "contents m1 = overwrite 0x9fc00 img (contents m)" "\<And>P Q. length P = 0x9fc00 \<Longrightarrow> mp_read (P @ img @ Q) = Some (mp_entry_list t)"
    using mptable_lists_cpus [OF law v small(2), of m] small(2) mem fit(2) by auto
  have len: "length (contents m1) = length (contents m)" using m1(2,3) small(2) mem by simp
  obtain m2 a img2 where m2: "setup_acpi write_slice m1 t rs = Inr (l, m2)" "contents m2 = overwrite 0xE0000 img2 (contents m1)"
    "madt_table t = Some a" "acpi_find (contents m2) ''APIC'' = Some a"
    using acpi_setup [OF wl wf small(1) tgt l, of m1] fit(1) len by auto
  let ?A = "take 0x9fc00 (contents m)" and ?B = "drop (0x9fc00 + length img) (contents m)"
  have "contents m2 = ?A @ img @ overwrite (0xE0000 - length (?A @ img)) img2 ?B"
    using overwrite_skip [of "?A @ img" "0xE0000" img2 ?B] m1(2) small(2) by (simp add: m2(2) m1(3) overwrite_def [of "0x9fc00"])
  then have "mp_read (contents m2) = Some (mp_entry_list t)" using m1(4) [of ?A] mem by simp
  moreover obtain fs where "split_entries (drop 44 a) = Some fs"
    "List.map_filter madt_cpu fs = map (\<lambda>cpu. (the (apic_id t cpu), cpu)) (u32_range (total_cpus t))"
    using madt_table_read [OF v b] m2(3) madt_entries_cpus [OF v b] by auto
  ultimately show ?thesis using m1(1) m2(1,4) mp_entries_cpus [OF v b] by blast
qed

section \<open>Witness\<close>

lemma list_rw_law: "ram_rw_law list_write list_read (\<lambda>m. m)"
  by (simp add: ram_rw_law_def list_write_law list_read_def)

theorem firmware_tables_coexist_witness:
  "\<exists>rs m1 l m2 es. compute topo_cxl 1280 0 = Inr rs \<and> setup_mptable list_write list_read (replicate 0x200000 0) topo_cxl = Inr m1
     \<and> setup_acpi list_write m1 topo_cxl rs = Inr (l, m2) \<and> mp_read m2 = Some es \<and> length (List.map_filter mp_cpu es) = 6
     \<and> acpi_find m2 ''APIC'' \<noteq> None"
proof -
  obtain rs l where rs: "compute topo_cxl 1280 0 = Inr rs" "acpi_layout_of topo_cxl rs = Some l"
    "unat (xsdt_addr l) + unat (xsdt_size l) \<le> 0x200000" using layout_cxl by blast
  have n: "unat (total_cpus topo_cxl) = 6" by (simp add: total_cpus_def topo_cxl_def)
  have b: "(6::nat) \<le> 3263" "(0x200000::nat) < 2 ^ 64" by simp_all
  from firmware_tables_coexist [OF list_rw_law wf_topo_cxl rs(1) acpi_small_cxl [OF rs(1)] _ rs(2), of "replicate 0x200000 0"] rs(3) n b
  obtain m1 m2 es a where "setup_mptable list_write list_read (replicate 0x200000 0) topo_cxl = Inr m1"
    "setup_acpi list_write m1 topo_cxl rs = Inr (l, m2)" "mp_read m2 = Some es"
    "List.map_filter mp_cpu es = map (\<lambda>cpu. (ucast (the (apic_id topo_cxl cpu)), True, cpu = 0)) (u32_range (total_cpus topo_cxl))"
    "acpi_find m2 ''APIC'' = Some a" by (auto simp only: length_replicate)
  with rs(1) n show ?thesis by (intro exI [of _ rs] exI [of _ m1] exI [of _ l] exI [of _ m2] exI [of _ es]) simp
qed

end
