(* ===== verification/Guest_Memory.thy ===== *)
theory Guest_Memory
  imports Numa_Memory
begin

text \<open>
  Host-side access to guest memory: \<^verbatim>\<open>GuestMem\<close> of \<^verbatim>\<open>src/monitor/reader.rs\<close> with its bounds
  checks, the page-table walkers and the one-entry translation cache, and the xarray
  lookup of \<^verbatim>\<open>src/monitor/idr.rs\<close>. A region is its offset, its size and its bytes; a
  host pointer is a region index with a position in it. Volatile accesses of one, four and
  eight bytes read and write the bytes in little-endian order, as on the supported hosts.
\<close>

section \<open>Regions\<close>

record mem_region =
  mr_offset :: u64
  mr_size :: u64
  mr_bytes :: bytes

record tlb_entry =
  te_cr3_pa :: u64
  te_l5 :: bool
  te_tcr_el1 :: u64
  te_kva_page :: u64
  te_pa_page :: u64

record guest_mem =
  gm_size :: u64
  gm_regions :: "mem_region list"
  gm_tlb :: "tlb_entry option"

text \<open>
  Construction over one mapping, and over the regions of a memory layout. \<open>host\<close> gives the mapped
  bytes from a guest address on; a guest address without mapping panics, as does an empty layout.
\<close>

definition gm_new :: "bytes \<Rightarrow> u64 \<Rightarrow> guest_mem" where
  "gm_new base sz = \<lparr>gm_size = sz, gm_regions = [\<lparr>mr_offset = 0, mr_size = sz, mr_bytes = base\<rparr>], gm_tlb = None\<rparr>"

definition from_layout :: "numa_layout \<Rightarrow> (u64 \<Rightarrow> bytes option) \<Rightarrow> guest_mem option" where
  "from_layout layout host =
     do {
       base \<leftarrow> dram_base layout;
       regions \<leftarrow> those (map (\<lambda>nr. map_option
           (\<lambda>bytes. \<lparr>mr_offset = gpa_start nr - base, mr_size = region_size nr, mr_bytes = bytes\<rparr>)
           (host (gpa_start nr))) layout);
       Some \<lparr>gm_size = total_bytes layout, gm_regions = regions, gm_tlb = None\<rparr>
     }"

text \<open>The number of leading elements that satisfy the predicate, as on a partitioned slice.\<close>

definition partition_point :: "('a \<Rightarrow> bool) \<Rightarrow> 'a list \<Rightarrow> nat" where
  "partition_point p xs = length (takeWhile p xs)"

text \<open>The region of an offset, the position in it and the bytes left from there.\<close>

definition resolve_ptr :: "guest_mem \<Rightarrow> u64 \<Rightarrow> (nat \<times> nat \<times> u64) option" where
  "resolve_ptr g off =
     (case partition_point (\<lambda>r. mr_offset r \<le> off) (gm_regions g) of
        0 \<Rightarrow> None
      | Suc idx \<Rightarrow>
          let r = gm_regions g ! idx; local = off - mr_offset r in
          if local < mr_size r then Some (idx, unat local, mr_size r - local) else None)"

definition region_avail :: "guest_mem \<Rightarrow> u64 \<Rightarrow> u64" where
  "region_avail g pa = (case resolve_ptr g pa of Some (_, _, avail) \<Rightarrow> avail | None \<Rightarrow> 0)"

definition host_ptr_for_pa :: "guest_mem \<Rightarrow> u64 \<Rightarrow> u64 \<Rightarrow> (nat \<times> nat) option" where
  "host_ptr_for_pa g pa field_size =
     do {
       end_pa \<leftarrow> checked_add pa field_size;
       if gm_size g < end_pa then None
       else do {
         (idx, pos, avail) \<leftarrow> resolve_ptr g pa;
         if avail < field_size then None else Some (idx, pos)
       }
     }"

section \<open>Scalar and bulk accesses\<close>

definition read_scalar :: "nat \<Rightarrow> guest_mem \<Rightarrow> u64 \<Rightarrow> u64 \<Rightarrow> bytes" where
  "read_scalar n g pa offset =
     (case checked_add pa offset of
        None \<Rightarrow> replicate n 0
      | Some addr \<Rightarrow>
          (case checked_add addr (of_nat n) of
             None \<Rightarrow> replicate n 0
           | Some end_pa \<Rightarrow>
               if gm_size g < end_pa then replicate n 0
               else (case resolve_ptr g addr of
                       Some (idx, pos, avail) \<Rightarrow>
                         if avail < of_nat n then replicate n 0
                         else take n (drop pos (mr_bytes (gm_regions g ! idx)))
                     | None \<Rightarrow> replicate n 0)))"

text \<open>Storing bytes in one region of the memory.\<close>

definition store_bytes :: "nat \<Rightarrow> nat \<Rightarrow> bytes \<Rightarrow> guest_mem \<Rightarrow> guest_mem" where
  "store_bytes idx pos bs g =
     g\<lparr>gm_regions := (gm_regions g)[idx := (gm_regions g ! idx)\<lparr>mr_bytes := overwrite pos bs (mr_bytes (gm_regions g ! idx))\<rparr>]\<rparr>"

definition write_scalar :: "guest_mem \<Rightarrow> u64 \<Rightarrow> u64 \<Rightarrow> bytes \<Rightarrow> guest_mem" where
  "write_scalar g pa offset bs =
     (case checked_add pa offset of
        None \<Rightarrow> g
      | Some addr \<Rightarrow>
          (case checked_add addr (of_nat (length bs)) of
             None \<Rightarrow> g
           | Some end_pa \<Rightarrow>
               if gm_size g < end_pa then g
               else (case resolve_ptr g addr of
                       Some (idx, pos, avail) \<Rightarrow>
                         if avail < of_nat (length bs) then g else store_bytes idx pos bs g
                     | None \<Rightarrow> g)))"

definition read_u8 :: "guest_mem \<Rightarrow> u64 \<Rightarrow> u64 \<Rightarrow> u8" where
  "read_u8 g pa offset = from_le_bytes (read_scalar 1 g pa offset)"

definition read_u32 :: "guest_mem \<Rightarrow> u64 \<Rightarrow> u64 \<Rightarrow> u32" where
  "read_u32 g pa offset = from_le_bytes (read_scalar 4 g pa offset)"

definition read_u64 :: "guest_mem \<Rightarrow> u64 \<Rightarrow> u64 \<Rightarrow> u64" where
  "read_u64 g pa offset = from_le_bytes (read_scalar 8 g pa offset)"

definition write_u8 :: "guest_mem \<Rightarrow> u64 \<Rightarrow> u64 \<Rightarrow> u8 \<Rightarrow> guest_mem" where
  "write_u8 g pa offset v = write_scalar g pa offset (to_le_bytes 1 v)"

definition write_u32 :: "guest_mem \<Rightarrow> u64 \<Rightarrow> u64 \<Rightarrow> u32 \<Rightarrow> guest_mem" where
  "write_u32 g pa offset v = write_scalar g pa offset (to_le_bytes 4 v)"

definition write_u64 :: "guest_mem \<Rightarrow> u64 \<Rightarrow> u64 \<Rightarrow> u64 \<Rightarrow> guest_mem" where
  "write_u64 g pa offset v = write_scalar g pa offset (to_le_bytes 8 v)"

definition write_bytes :: "guest_mem \<Rightarrow> u64 \<Rightarrow> bytes \<Rightarrow> nat \<times> guest_mem" where
  "write_bytes g pa data =
     (if gm_size g \<le> pa then (0, g)
      else let avail = min (unat (gm_size g - pa)) (length data) in
        case resolve_ptr g pa of
          Some (idx, pos, left) \<Rightarrow>
            let copy_len = min avail (unat left)
            in (copy_len, store_bytes idx pos (take copy_len data) g)
        | None \<Rightarrow> (0, g))"

definition write_bytes_at :: "guest_mem \<Rightarrow> u64 \<Rightarrow> u64 \<Rightarrow> bytes \<Rightarrow> nat \<times> guest_mem" where
  "write_bytes_at g pa offset data =
     (case checked_add pa offset of None \<Rightarrow> (0, g) | Some addr \<Rightarrow> write_bytes g addr data)"

text \<open>The bytes read into the front of a buffer of the given length.\<close>

definition read_bytes :: "guest_mem \<Rightarrow> u64 \<Rightarrow> nat \<Rightarrow> bytes" where
  "read_bytes g pa len =
     (if gm_size g \<le> pa then []
      else let avail = min (unat (gm_size g - pa)) len in
        case resolve_ptr g pa of
          Some (idx, pos, left) \<Rightarrow>
            take (min avail (unat left)) (drop pos (mr_bytes (gm_regions g ! idx)))
        | None \<Rightarrow> [])"

section \<open>Walks of the page tables\<close>

definition PRESENT :: u64 where "PRESENT = 1"
definition PS :: u64 where "PS = 0x80"
definition ADDR_MASK :: u64 where "ADDR_MASK = 0x000FFFFFFFFFF000"

definition walk_4level :: "guest_mem \<Rightarrow> u64 \<Rightarrow> u64 \<Rightarrow> u64 option" where
  "walk_4level g cr3_pa kva =
     (let pgd_idx = drop_bit 39 kva AND 0x1FF;
          pud_idx = drop_bit 30 kva AND 0x1FF;
          pmd_idx = drop_bit 21 kva AND 0x1FF;
          pte_idx = drop_bit 12 kva AND 0x1FF;
          page_off = kva AND 0xFFF;
          pgde = read_u64 g ((cr3_pa AND ADDR_MASK) + pgd_idx * 8) 0
      in if pgde AND PRESENT = 0 then None
         else let pude = read_u64 g ((pgde AND ADDR_MASK) + pud_idx * 8) 0 in
           if pude AND PRESENT = 0 then None
           else if pude AND PS \<noteq> 0 then Some ((pude AND 0x000FFFFFC0000000) OR (kva AND 0x3FFFFFFF))
           else let pmde = read_u64 g ((pude AND ADDR_MASK) + pmd_idx * 8) 0 in
             if pmde AND PRESENT = 0 then None
             else if pmde AND PS \<noteq> 0 then Some ((pmde AND 0x000FFFFFFFE00000) OR (kva AND 0x1FFFFF))
             else let ptee = read_u64 g ((pmde AND ADDR_MASK) + pte_idx * 8) 0 in
               if ptee AND PRESENT = 0 then None
               else Some ((ptee AND ADDR_MASK) OR page_off))"

definition walk_5level :: "guest_mem \<Rightarrow> u64 \<Rightarrow> u64 \<Rightarrow> u64 option" where
  "walk_5level g cr3_pa kva =
     (let pml5_idx = drop_bit 48 kva AND 0x1FF;
          pml5e = read_u64 g ((cr3_pa AND ADDR_MASK) + pml5_idx * 8) 0
      in if pml5e AND PRESENT = 0 then None
         else if pml5e AND PS \<noteq> 0 then Some ((pml5e AND 0x000F000000000000) OR (kva AND 0x0000FFFFFFFFFFFF))
         else walk_4level g (pml5e AND ADDR_MASK) kva)"

text \<open>The x86-64 translation with its cache; the updated memory holds the new cache entry.\<close>

definition translate_kva :: "guest_mem \<Rightarrow> u64 \<Rightarrow> u64 \<Rightarrow> bool \<Rightarrow> u64 \<Rightarrow> u64 option \<times> guest_mem" where
  "translate_kva g cr3_pa kva l5 tcr_el1 =
     (let kva_page = kva AND NOT (4096 - 1);
          hit = (case gm_tlb g of
                   Some e \<Rightarrow> if te_cr3_pa e = cr3_pa \<and> te_l5 e = l5 \<and> te_tcr_el1 e = tcr_el1
                               \<and> te_kva_page e = kva_page
                             then Some (te_pa_page e OR (kva AND (4096 - 1))) else None
                 | None \<Rightarrow> None)
      in case hit of
           Some pa \<Rightarrow> (Some pa, g)
         | None \<Rightarrow>
             let walk_result = (if l5 then walk_5level g cr3_pa kva else walk_4level g cr3_pa kva) in
             (walk_result,
              case walk_result of
                Some pa \<Rightarrow> g\<lparr>gm_tlb := Some \<lparr>te_cr3_pa = cr3_pa, te_l5 = l5, te_tcr_el1 = tcr_el1,
                                              te_kva_page = kva_page, te_pa_page = pa AND NOT (4096 - 1)\<rparr>\<rparr>
              | None \<Rightarrow> g))"

definition kva_to_pa :: "u64 \<Rightarrow> u64 \<Rightarrow> u64" where
  "kva_to_pa kva page_offset = kva - page_offset"

definition translate_any_kva ::
  "guest_mem \<Rightarrow> u64 \<Rightarrow> u64 \<Rightarrow> u64 \<Rightarrow> bool \<Rightarrow> u64 \<Rightarrow> u64 option \<times> guest_mem" where
  "translate_any_kva g cr3_pa page_offset kva l5 tcr_el1 =
     (let direct_pa = kva_to_pa kva page_offset in
      if direct_pa < gm_size g then (Some direct_pa, g)
      else translate_kva g cr3_pa kva l5 tcr_el1)"

section \<open>The xarray\<close>

definition XA_CHUNK_SIZE :: u64 where "XA_CHUNK_SIZE = 64"

definition xa_node_shift :: "guest_mem \<Rightarrow> u64 \<Rightarrow> u64 \<Rightarrow> u64 \<Rightarrow> nat" where
  "xa_node_shift g page_offset node_kva shift_off = unat (read_u8 g (kva_to_pa node_kva page_offset) shift_off)"

fun xa_descend :: "guest_mem \<Rightarrow> u64 \<Rightarrow> u64 \<Rightarrow> u64 \<Rightarrow> u64 \<Rightarrow> nat \<Rightarrow> u64" where
  "xa_descend g page_offset index slots_off node_kva shift =
     (if 64 \<le> shift then 0
      else let slot_idx = drop_bit shift index AND (XA_CHUNK_SIZE - 1);
               entry = read_u64 g (kva_to_pa (node_kva + slots_off + slot_idx * 8) page_offset) 0
        in if entry = 0 then 0
           else if entry AND 2 = 0 then entry
           else if shift < 6 then 0
           else xa_descend g page_offset index slots_off (entry AND NOT 3) (shift - 6))"

definition xa_load :: "guest_mem \<Rightarrow> u64 \<Rightarrow> u64 \<Rightarrow> u64 \<Rightarrow> u64 \<Rightarrow> u64 \<Rightarrow> u64 option" where
  "xa_load g page_offset xa_head index slots_off shift_off =
     (if xa_head = 0 then Some 0
      else if xa_head AND 2 = 0 then (if index = 0 then Some xa_head else Some 0)
      else let node_kva = xa_head AND NOT 3 in
        Some (xa_descend g page_offset index slots_off node_kva
                (xa_node_shift g page_offset node_kva shift_off)))"

declare xa_descend.simps [simp del]

section \<open>Specification functions and sample values\<close>

text \<open>
  The specification of a guest memory: one flat byte string. The regions hold it piecewise,
  one after the other from offset 0.
\<close>

fun contiguous :: "nat \<Rightarrow> mem_region list \<Rightarrow> bool" where
  "contiguous base [] = True"
| "contiguous base (r # rs) \<longleftrightarrow> unat (mr_offset r) = base \<and> length (mr_bytes r) = unat (mr_size r)
     \<and> contiguous (base + unat (mr_size r)) rs"

definition flat :: "guest_mem \<Rightarrow> bytes" where
  "flat g = concat (map mr_bytes (gm_regions g))"

definition valid_mem :: "guest_mem \<Rightarrow> bool" where
  "valid_mem g \<longleftrightarrow> contiguous 0 (gm_regions g) \<and> unat (gm_size g) = length (flat g)"

text \<open>An access of \<open>n\<close> bytes that lies within one region.\<close>

definition in_region :: "guest_mem \<Rightarrow> nat \<Rightarrow> nat \<Rightarrow> bool" where
  "in_region g a n \<longleftrightarrow> (\<exists>r \<in> set (gm_regions g). unat (mr_offset r) \<le> a
     \<and> a < unat (mr_offset r) + unat (mr_size r) \<and> a + n \<le> unat (mr_offset r) + unat (mr_size r))"

text \<open>The bounds of an access, as the code checks them and over the flat memory.\<close>

definition accessible :: "guest_mem \<Rightarrow> u64 \<Rightarrow> u64 \<Rightarrow> nat \<Rightarrow> bool" where
  "accessible g pa off n \<longleftrightarrow> unat pa + unat off + n \<le> length (flat g) \<and> in_region g (unat pa + unat off) n"

definition same_page :: "u64 \<Rightarrow> u64 \<Rightarrow> bool" where
  "same_page v v' \<longleftrightarrow> v AND NOT 0xFFF = v' AND NOT 0xFFF"

text \<open>The result of a walk moved to another address of the page.\<close>

definition at_page_offset :: "u64 \<Rightarrow> u64 \<Rightarrow> u64" where
  "at_page_offset pa v = (pa AND NOT 0xFFF) OR (v AND 0xFFF)"

definition walk :: "bool \<Rightarrow> guest_mem \<Rightarrow> u64 \<Rightarrow> u64 \<Rightarrow> u64 option" where
  "walk l5 g cr3_pa kva = (if l5 then walk_5level g cr3_pa kva else walk_4level g cr3_pa kva)"

text \<open>The cache entry agrees with a walk of the present page tables.\<close>

definition tlb_coherent :: "guest_mem \<Rightarrow> bool" where
  "tlb_coherent g \<longleftrightarrow> (\<forall>e v. gm_tlb g = Some e \<and> v AND NOT 0xFFF = te_kva_page e \<longrightarrow>
     walk (te_l5 e) g (te_cr3_pa e) v = Some (te_pa_page e OR (v AND 0xFFF)))"

text \<open>
  The specification of an xarray: a tree whose nodes have 64 children each. A tree of height
  \<open>h\<close> covers the indices below \<open>64\<^sup>h\<close>; an entry stored above the lowest level covers the whole
  range below it.
\<close>

datatype xa_tree = XEmpty | XEntry u64 | XNode "xa_tree list"

fun xa_lookup :: "nat \<Rightarrow> xa_tree \<Rightarrow> nat \<Rightarrow> u64" where
  "xa_lookup h XEmpty i = 0"
| "xa_lookup h (XEntry v) i = v"
| "xa_lookup 0 (XNode ts) i = 0"
| "xa_lookup (Suc h) (XNode ts) i = xa_lookup h (ts ! (i div 64 ^ h mod 64)) i"

definition xa_get :: "nat \<Rightarrow> xa_tree \<Rightarrow> nat \<Rightarrow> u64" where
  "xa_get h t i = (if i < 64 ^ h then xa_lookup h t i else 0)"

text \<open>How guest memory holds a tree: what the entry word of a tree of a given height is.\<close>

definition slot_addr :: "u64 \<Rightarrow> u64 \<Rightarrow> u64 \<Rightarrow> nat \<Rightarrow> u64" where
  "slot_addr page_offset slots_off entry i = kva_to_pa ((entry AND NOT 3) + slots_off + of_nat i * 8) page_offset"

fun xa_repr :: "guest_mem \<Rightarrow> u64 \<Rightarrow> u64 \<Rightarrow> nat \<Rightarrow> u64 \<Rightarrow> xa_tree \<Rightarrow> bool" where
  "xa_repr g po so h e XEmpty \<longleftrightarrow> e = 0"
| "xa_repr g po so h e (XEntry v) \<longleftrightarrow> e = v \<and> v \<noteq> 0 \<and> v AND 2 = 0"
| "xa_repr g po so 0 e (XNode ts) \<longleftrightarrow> False"
| "xa_repr g po so (Suc h) e (XNode ts) \<longleftrightarrow> e AND 2 \<noteq> 0 \<and> length ts = 64
     \<and> (\<forall>i < 64. xa_repr g po so h (read_u64 g (slot_addr po so e i) 0) (ts ! i))"

definition sample_regions :: guest_mem where
  "sample_regions = \<lparr>gm_size = 40,
     gm_regions = [\<lparr>mr_offset = 0, mr_size = 16, mr_bytes = map of_nat [0..<16]\<rparr>,
                   \<lparr>mr_offset = 16, mr_size = 24, mr_bytes = map of_nat [16..<40]\<rparr>],
     gm_tlb = None\<rparr>"

text \<open>One xarray node at address 0, its shift 0, with the entry 0x40 in slot 5.\<close>

definition sample_xa :: guest_mem where
  "sample_xa = \<lparr>gm_size = 56, gm_regions = [\<lparr>mr_offset = 0, mr_size = 56,
     mr_bytes = replicate 48 0 @ [0x40] @ replicate 7 0\<rparr>], gm_tlb = None\<rparr>"

definition sample_tree :: xa_tree where
  "sample_tree = XNode ((replicate 64 XEmpty)[5 := XEntry 0x40])"

text \<open>The bytes mapped at a region's guest address are as many as the region has.\<close>

definition host_maps :: "(u64 \<Rightarrow> bytes option) \<Rightarrow> numa_layout \<Rightarrow> bool" where
  "host_maps host layout \<longleftrightarrow> (\<forall>r \<in> set layout. \<exists>bs. host (gpa_start r) = Some bs \<and> length bs = unat (region_size r))"

section \<open>Resolving an offset\<close>

lemma contiguous_offset_ge:
  "contiguous base rs \<Longrightarrow> r \<in> set rs \<Longrightarrow> base \<le> unat (mr_offset r)"
  by (induction base rs rule: contiguous.induct) auto

lemma region_contiguous_nth:
  "contiguous base rs \<Longrightarrow> i < length rs \<Longrightarrow> unat (mr_offset (rs ! i)) = base + length (concat (map mr_bytes (take i rs)))
    \<and> length (mr_bytes (rs ! i)) = unat (mr_size (rs ! i))"
proof (induction base rs arbitrary: i rule: contiguous.induct)
  case (2 base r rs)
  then show ?case by (cases i) auto
qed simp

lemma contiguous_locate:
  assumes "contiguous base rs" and "base \<le> unat off" and "unat off < base + length (concat (map mr_bytes rs))"
  shows "\<exists>i < length rs. partition_point (\<lambda>r. mr_offset r \<le> off) rs = Suc i
    \<and> unat (mr_offset (rs ! i)) \<le> unat off \<and> unat off < unat (mr_offset (rs ! i)) + unat (mr_size (rs ! i))"
  using assms
proof (induction base rs rule: contiguous.induct)
  case (2 base r rs)
  have r: "mr_offset r \<le> off" using 2 by (simp add: word_le_nat_alt)
  show ?case
  proof (cases "unat off < base + unat (mr_size r)")
    case True
    have "takeWhile (\<lambda>r. mr_offset r \<le> off) rs = []"
    proof (cases rs)
      case (Cons r' rs')
      with 2 have "unat (mr_offset r') = base + unat (mr_size r)" by simp
      with True have "\<not> mr_offset r' \<le> off" by (simp add: word_le_nat_alt)
      with Cons show ?thesis by simp
    qed simp
    with r True 2 show ?thesis by (intro exI [of _ 0]) (simp add: partition_point_def)
  next
    case False
    with 2 obtain i where "i < length rs" "partition_point (\<lambda>r. mr_offset r \<le> off) rs = Suc i"
      "unat (mr_offset (rs ! i)) \<le> unat off" "unat off < unat (mr_offset (rs ! i)) + unat (mr_size (rs ! i))"
      by auto
    with r show ?thesis by (intro exI [of _ "Suc i"]) (simp add: partition_point_def)
  qed
qed simp

lemma contiguous_disjoint:
  assumes "contiguous base rs" and "i < length rs" and "j < length rs" and "i < j"
  shows "unat (mr_offset (rs ! i)) + unat (mr_size (rs ! i)) \<le> unat (mr_offset (rs ! j))"
  using assms
proof (induction base rs arbitrary: i j rule: contiguous.induct)
  case (2 base r rs)
  then obtain j' where j: "j = Suc j'" by (cases j) auto
  show ?case
  proof (cases i)
    case 0
    with 2 j contiguous_offset_ge [of "base + unat (mr_size r)" rs "rs ! j'"] show ?thesis by simp
  next
    case (Suc i')
    with 2 j show ?thesis by simp
  qed
qed simp

lemma resolve_ptr_valid:
  assumes "valid_mem g" and "unat off < length (flat g)"
  obtains i where "i < length (gm_regions g)"
    and "resolve_ptr g off = Some (i, unat off - unat (mr_offset (gm_regions g ! i)),
      mr_offset (gm_regions g ! i) + mr_size (gm_regions g ! i) - off)"
    and "unat (mr_offset (gm_regions g ! i)) \<le> unat off"
    and "unat off < unat (mr_offset (gm_regions g ! i)) + unat (mr_size (gm_regions g ! i))"
proof -
  let ?rs = "gm_regions g"
  obtain i where i: "i < length ?rs" "partition_point (\<lambda>r. mr_offset r \<le> off) ?rs = Suc i"
    "unat (mr_offset (?rs ! i)) \<le> unat off" "unat off < unat (mr_offset (?rs ! i)) + unat (mr_size (?rs ! i))"
    using contiguous_locate [of 0 ?rs off] assms by (auto simp: valid_mem_def flat_def)
  have le: "mr_offset (?rs ! i) \<le> off" using i(3) by (simp add: word_le_nat_alt)
  have "off - mr_offset (?rs ! i) < mr_size (?rs ! i)"
    using i(3,4) le by (simp add: word_less_nat_alt unat_sub)
  with i le have "resolve_ptr g off = Some (i, unat off - unat (mr_offset (?rs ! i)),
      mr_offset (?rs ! i) + mr_size (?rs ! i) - off)"
    by (simp add: resolve_ptr_def Let_def unat_sub algebra_simps)
  with i that show thesis by blast
qed

lemma flat_split:
  assumes "i < length (gm_regions g)"
  shows "flat g = concat (map mr_bytes (take i (gm_regions g))) @ mr_bytes (gm_regions g ! i)
    @ concat (map mr_bytes (drop (Suc i) (gm_regions g)))"
proof -
  have "gm_regions g = take i (gm_regions g) @ gm_regions g ! i # drop (Suc i) (gm_regions g)"
    using assms by (rule id_take_nth_drop)
  then have "flat g = concat (map mr_bytes (take i (gm_regions g) @ gm_regions g ! i # drop (Suc i) (gm_regions g)))"
    unfolding flat_def by (rule arg_cong)
  then show ?thesis by simp
qed

lemma region_in_flat:
  assumes "valid_mem g" and "i < length (gm_regions g)"
  shows "unat (mr_offset (gm_regions g ! i)) = length (concat (map mr_bytes (take i (gm_regions g))))"
    and "length (mr_bytes (gm_regions g ! i)) = unat (mr_size (gm_regions g ! i))"
    and "unat (mr_offset (gm_regions g ! i)) + unat (mr_size (gm_regions g ! i)) \<le> length (flat g)"
  using region_contiguous_nth [of 0 "gm_regions g" i] flat_split [OF assms(2)] assms by (auto simp: valid_mem_def)

text \<open>Where an in-bounds offset resolves to, over the flat memory.\<close>

lemma resolve_ptr_flat:
  assumes "valid_mem g" and "unat off < length (flat g)"
  obtains i pos avail where "resolve_ptr g off = Some (i, pos, avail)" and "i < length (gm_regions g)"
    and "unat off = length (concat (map mr_bytes (take i (gm_regions g)))) + pos"
    and "pos + unat avail = length (mr_bytes (gm_regions g ! i))"
    and "\<And>n. in_region g (unat off) n \<longleftrightarrow> n \<le> unat avail"
proof -
  let ?rs = "gm_regions g"
  obtain i where i: "i < length ?rs" "resolve_ptr g off = Some (i, unat off - unat (mr_offset (?rs ! i)),
      mr_offset (?rs ! i) + mr_size (?rs ! i) - off)"
    "unat (mr_offset (?rs ! i)) \<le> unat off" "unat off < unat (mr_offset (?rs ! i)) + unat (mr_size (?rs ! i))"
    by (rule resolve_ptr_valid [OF assms])
  note r = region_in_flat [OF assms(1) i(1)]
  have "length (flat g) < 2 ^ 64" using assms(1) unat_u64_less [of "gm_size g"] by (simp add: valid_mem_def)
  with r(3) have e: "unat (mr_offset (?rs ! i) + mr_size (?rs ! i)) = unat (mr_offset (?rs ! i)) + unat (mr_size (?rs ! i))"
    by (intro unat_add_no_overflow) simp
  then have av: "unat (mr_offset (?rs ! i) + mr_size (?rs ! i) - off)
      = unat (mr_offset (?rs ! i)) + unat (mr_size (?rs ! i)) - unat off"
    using i(4) by (subst unat_sub) (simp_all add: word_le_nat_alt)
  have "in_region g (unat off) n \<longleftrightarrow> n \<le> unat (mr_offset (?rs ! i)) + unat (mr_size (?rs ! i)) - unat off" for n
  proof
    assume "in_region g (unat off) n"
    then obtain j where j: "j < length ?rs" "unat (mr_offset (?rs ! j)) \<le> unat off"
      "unat off < unat (mr_offset (?rs ! j)) + unat (mr_size (?rs ! j))"
      "unat off + n \<le> unat (mr_offset (?rs ! j)) + unat (mr_size (?rs ! j))"
      by (auto simp: in_region_def in_set_conv_nth)
    have "contiguous 0 ?rs" using assms(1) by (simp add: valid_mem_def)
    from contiguous_disjoint [OF this i(1) j(1)] contiguous_disjoint [OF this j(1) i(1)] i(3,4) j(2,3)
    have "i = j" by (cases i j rule: linorder_cases) simp_all
    with j(4) show "n \<le> unat (mr_offset (?rs ! i)) + unat (mr_size (?rs ! i)) - unat off" by simp
  next
    assume "n \<le> unat (mr_offset (?rs ! i)) + unat (mr_size (?rs ! i)) - unat off"
    with i show "in_region g (unat off) n"
      by (auto simp: in_region_def intro!: bexI [of _ "?rs ! i"])
  qed
  with that [OF i(2,1)] r i(3,4) av show thesis by simp
qed

lemma flat_slice:
  assumes "i < length (gm_regions g)" and "pos + n \<le> length (mr_bytes (gm_regions g ! i))"
  shows "take n (drop (length (concat (map mr_bytes (take i (gm_regions g)))) + pos) (flat g))
    = take n (drop pos (mr_bytes (gm_regions g ! i)))"
  using assms(2) by (subst flat_split [OF assms(1)]) simp

lemma flat_store:
  assumes "i < length (gm_regions g)" and "pos + length bs \<le> length (mr_bytes (gm_regions g ! i))"
  shows "flat (store_bytes i pos bs g)
    = overwrite (length (concat (map mr_bytes (take i (gm_regions g)))) + pos) bs (flat g)"
proof -
  let ?r = "gm_regions g ! i" and ?p = "concat (map mr_bytes (take i (gm_regions g)))"
  have "flat (store_bytes i pos bs g) = ?p @ overwrite pos bs (mr_bytes ?r) @ concat (map mr_bytes (drop (Suc i) (gm_regions g)))"
    using assms(1) by (subst flat_split [of i]) (simp_all add: store_bytes_def)
  also have "\<dots> = overwrite (length ?p + pos) bs (flat g)"
    using assms(2) by (subst flat_split [OF assms(1)]) (simp add: overwrite_def)
  finally show ?thesis .
qed

lemma flat_length_less: "valid_mem g \<Longrightarrow> length (flat g) < 2 ^ 64"
  using unat_u64_less [of "gm_size g"] by (simp add: valid_mem_def)

text \<open>Both checked additions succeed exactly when the end of the access stays in range.\<close>

lemma checked_access:
  assumes "valid_mem g" and "0 < n" and "n < 2 ^ 64"
  obtains (out) "\<not> unat pa + unat off + n \<le> length (flat g)"
      and "checked_add pa off = None
        \<or> (\<exists>addr. checked_add pa off = Some addr \<and> checked_add addr (of_nat n) = None)
        \<or> (\<exists>addr e. checked_add pa off = Some addr \<and> checked_add addr (of_nat n) = Some e \<and> gm_size g < e)"
  | (ok) addr e where "checked_add pa off = Some addr" and "checked_add addr (of_nat n) = Some e"
      and "\<not> gm_size g < e" and "unat addr = unat pa + unat off" and "unat addr + n \<le> length (flat g)"
proof -
  have un: "unat (of_nat n :: u64) = n" by (rule unat_of_nat_no_overflow) (use assms(3) in simp)
  note lt = flat_length_less [OF assms(1)]
  show thesis
  proof (cases "checked_add pa off")
    case None
    then have "2 ^ 64 \<le> unat pa + unat off" by (simp add: checked_add_eq_None)
    with lt None out show thesis by simp
  next
    case (Some addr)
    note a = checked_add_Some [OF Some]
    show thesis
    proof (cases "checked_add addr (of_nat n)")
      case None
      then have "2 ^ 64 \<le> unat addr + n" by (simp add: checked_add_eq_None un)
      with lt a Some None out show thesis by simp
    next
      case (Some e)
      note e = checked_add_Some [OF Some, unfolded un]
      have "gm_size g < e \<longleftrightarrow> length (flat g) < unat addr + n"
        using assms(1) e by (simp add: word_less_nat_alt valid_mem_def)
      with a \<open>checked_add pa off = Some addr\<close> Some ok out show thesis by fastforce
    qed
  qed
qed

lemma read_scalar_flat:
  assumes "valid_mem g" and "0 < n" and "n < 2 ^ 64"
  shows "read_scalar n g pa off =
    (if accessible g pa off n then take n (drop (unat pa + unat off) (flat g)) else replicate n 0)"
  using assms
proof (cases rule: checked_access [of g n pa off])
  case out
  then show ?thesis by (auto simp: read_scalar_def accessible_def)
next
  case (ok addr e)
  have un: "unat (of_nat n :: u64) = n" by (rule unat_of_nat_no_overflow) (use assms(3) in simp)
  have "unat addr < length (flat g)" using ok(5) assms(2) by simp
  from assms(1) this obtain i pos avail where r: "resolve_ptr g addr = Some (i, pos, avail)"
    "i < length (gm_regions g)" "unat addr = length (concat (map mr_bytes (take i (gm_regions g)))) + pos"
    "pos + unat avail = length (mr_bytes (gm_regions g ! i))"
    and inr: "\<And>n. in_region g (unat addr) n \<longleftrightarrow> n \<le> unat avail"
    by (rule resolve_ptr_flat) blast
  have "avail < of_nat n \<longleftrightarrow> \<not> n \<le> unat avail" by (simp add: word_less_nat_alt un not_le)
  with ok r inr [of n] flat_slice [OF r(2), of pos n] show ?thesis
    by (auto simp: read_scalar_def accessible_def)
qed

lemma contiguous_same_shape:
  assumes "contiguous base rs" and "length (mr_bytes r) = length (mr_bytes (rs ! i))" and "i < length rs"
    and "mr_offset r = mr_offset (rs ! i)" and "mr_size r = mr_size (rs ! i)"
  shows "contiguous base (rs[i := r])"
  using assms by (induction base rs arbitrary: i rule: contiguous.induct) (auto split: nat.split)

lemma in_region_map:
  "in_region g a n \<longleftrightarrow> (\<exists>x \<in> set (map (\<lambda>r. (mr_offset r, mr_size r)) (gm_regions g)).
     unat (fst x) \<le> a \<and> a < unat (fst x) + unat (snd x) \<and> a + n \<le> unat (fst x) + unat (snd x))"
  by (auto simp: in_region_def)

lemma in_region_cong:
  assumes "map (\<lambda>r. (mr_offset r, mr_size r)) (gm_regions g) = map (\<lambda>r. (mr_offset r, mr_size r)) (gm_regions h)"
  shows "in_region g = in_region h"
  by (intro ext) (simp only: in_region_map assms)

lemma store_bytes_valid:
  assumes "valid_mem g" and "i < length (gm_regions g)" and "pos + length bs \<le> length (mr_bytes (gm_regions g ! i))"
  shows "valid_mem (store_bytes i pos bs g)" and "in_region (store_bytes i pos bs g) = in_region g"
proof -
  let ?r = "(gm_regions g ! i)\<lparr>mr_bytes := overwrite pos bs (mr_bytes (gm_regions g ! i))\<rparr>"
  have len: "length (overwrite pos bs (mr_bytes (gm_regions g ! i))) = length (mr_bytes (gm_regions g ! i))"
    using assms(3) by (simp add: overwrite_def)
  have "contiguous 0 ((gm_regions g)[i := ?r])"
    using assms(1,2) len by (intro contiguous_same_shape) (simp_all add: valid_mem_def)
  moreover have "length (flat (store_bytes i pos bs g)) = length (flat g)"
    using region_in_flat [OF assms(1,2)] assms(3)
    by (subst flat_store [OF assms(2,3)]) (simp add: overwrite_def)
  ultimately show "valid_mem (store_bytes i pos bs g)"
    using assms(1) by (simp add: valid_mem_def store_bytes_def)
  have "map (\<lambda>r. (mr_offset r, mr_size r)) (gm_regions (store_bytes i pos bs g))
      = map (\<lambda>r. (mr_offset r, mr_size r)) (gm_regions g)"
    using assms(2) by (simp add: store_bytes_def map_update list_update_same_conv)
  then show "in_region (store_bytes i pos bs g) = in_region g" by (rule in_region_cong)
qed

lemma write_scalar_flat:
  assumes "valid_mem g" and "bs \<noteq> []" and "length bs < 2 ^ 64"
  shows "flat (write_scalar g pa off bs) =
      (if accessible g pa off (length bs) then overwrite (unat pa + unat off) bs (flat g) else flat g)"
    and "valid_mem (write_scalar g pa off bs)" and "in_region (write_scalar g pa off bs) = in_region g"
proof -
  let ?n = "length bs"
  have "flat (write_scalar g pa off bs) =
      (if accessible g pa off ?n then overwrite (unat pa + unat off) bs (flat g) else flat g)
    \<and> valid_mem (write_scalar g pa off bs) \<and> in_region (write_scalar g pa off bs) = in_region g"
  proof (rule checked_access [of g ?n pa off])
    fix addr e
    assume ok: "checked_add pa off = Some addr" "checked_add addr (of_nat ?n) = Some e" "\<not> gm_size g < e"
      "unat addr = unat pa + unat off" "unat addr + ?n \<le> length (flat g)"
    have un: "unat (of_nat ?n :: u64) = ?n" by (rule unat_of_nat_no_overflow) (use assms(3) in simp)
    have "unat addr < length (flat g)" using ok(5) assms(2) by (cases bs) simp_all
    from assms(1) this obtain i pos avail where r: "resolve_ptr g addr = Some (i, pos, avail)"
      "i < length (gm_regions g)" "unat addr = length (concat (map mr_bytes (take i (gm_regions g)))) + pos"
      "pos + unat avail = length (mr_bytes (gm_regions g ! i))"
      and inr: "\<And>n. in_region g (unat addr) n \<longleftrightarrow> n \<le> unat avail"
      by (rule resolve_ptr_flat) blast
    have "avail < of_nat ?n \<longleftrightarrow> \<not> ?n \<le> unat avail" by (simp add: word_less_nat_alt un not_le)
    with ok r inr [of ?n] flat_store [OF r(2), of pos bs] store_bytes_valid [OF assms(1) r(2), of pos bs] assms(1)
    show ?thesis by (auto simp: write_scalar_def accessible_def)
  qed (use assms in \<open>auto simp: write_scalar_def accessible_def\<close>)
  then show "flat (write_scalar g pa off bs) =
      (if accessible g pa off ?n then overwrite (unat pa + unat off) bs (flat g) else flat g)"
    "valid_mem (write_scalar g pa off bs)" "in_region (write_scalar g pa off bs) = in_region g" by simp_all
qed

section \<open>Cells\<close>

text \<open>
  The contract of a scalar access: a write is seen by a read of the same cell, leaves disjoint
  cells alone, keeps the memory valid and changes what is accessible for nobody.
\<close>

locale memory_cell =
  fixes rd :: "'s \<Rightarrow> u64 \<Rightarrow> u64 \<Rightarrow> 'v" and wr :: "'s \<Rightarrow> u64 \<Rightarrow> u64 \<Rightarrow> 'v \<Rightarrow> 's"
    and valid :: "'s \<Rightarrow> bool" and ok :: "'s \<Rightarrow> u64 \<Rightarrow> u64 \<Rightarrow> bool" and width :: nat
  assumes write_valid: "valid s \<Longrightarrow> valid (wr s pa off v)"
    and write_ok: "valid s \<Longrightarrow> ok (wr s pa off v) = ok s"
    and read_write: "valid s \<Longrightarrow> ok s pa off \<Longrightarrow> rd (wr s pa off v) pa off = v"
    and read_other: "valid s \<Longrightarrow> unat pa + unat off + width \<le> unat pa' + unat off'
        \<or> unat pa' + unat off' + width \<le> unat pa + unat off \<Longrightarrow> rd (wr s pa off v) pa' off' = rd s pa' off'"
begin

lemma writes_keep: "valid s \<Longrightarrow> valid (fold (\<lambda>(pa, v) s. wr s pa 0 v) ws s)"
  by (induction ws arbitrary: s) (auto simp: write_valid split: prod.splits)

lemma read_after_disjoint_writes:
  assumes "valid s" and "\<forall>(b, _) \<in> set ws. unat a + width \<le> unat b"
  shows "rd (fold (\<lambda>(pa, v) s. wr s pa 0 v) ws s) a 0 = rd s a 0"
  using assms by (induction ws arbitrary: s) (auto simp: write_valid read_other)

text \<open>After writing a list of disjoint cells in ascending order, each holds its value.\<close>

lemma read_after_writes:
  assumes "valid s" and "(pa, v) \<in> set ws" and "\<forall>(b, _) \<in> set ws. ok s b 0"
    and "sorted_wrt (\<lambda>(a, _) (b, _). unat a + width \<le> unat b) ws"
  shows "rd (fold (\<lambda>(pa, v) s. wr s pa 0 v) ws s) pa 0 = v"
  using assms
proof (induction ws arbitrary: s)
  case (Cons w ws)
  obtain a x where w: "w = (a, x)" by fastforce
  show ?case
  proof (cases "(pa, v) \<in> set ws")
    case True
    with Cons.prems w show ?thesis
      by (simp add: Cons.IH write_valid write_ok)
  next
    case False
    with Cons.prems w have "pa = a" "v = x" by auto
    with Cons.prems w show ?thesis
      by (simp add: read_after_disjoint_writes write_valid read_write)
  qed
qed simp

end

lemma scalar_cell:
  assumes "valid_mem g" and "0 < n" and "n < 2 ^ 64" and "length bs = n"
  shows "accessible (write_scalar g pa off bs) pa' off' n = accessible g pa' off' n"
    and "accessible g pa off n \<Longrightarrow> read_scalar n (write_scalar g pa off bs) pa off = bs"
    and "unat pa + unat off + n \<le> unat pa' + unat off' \<or> unat pa' + unat off' + n \<le> unat pa + unat off
      \<Longrightarrow> read_scalar n (write_scalar g pa off bs) pa' off' = read_scalar n g pa' off'"
    and "valid_mem (write_scalar g pa off bs)"
proof -
  have bs: "bs \<noteq> []" "length bs < 2 ^ 64" using assms by auto
  note w = write_scalar_flat [OF assms(1) bs, of pa off, unfolded assms(4)]
  have len: "length (flat (write_scalar g pa off bs)) = length (flat g)"
    using w(1) assms(4) by (auto simp: accessible_def overwrite_def)
  show "valid_mem (write_scalar g pa off bs)" by (rule w(2))
  show acc: "accessible (write_scalar g pa off bs) pa' off' n = accessible g pa' off' n" for pa' off'
    by (simp add: accessible_def w(3) len)
  show "read_scalar n (write_scalar g pa off bs) pa off = bs" if a: "accessible g pa off n"
    using a w(1,3) len assms(4) take_drop_overwrite_same [of "unat pa + unat off" bs "flat g"]
    by (simp add: read_scalar_flat [OF w(2) assms(2,3)] accessible_def)
  show "read_scalar n (write_scalar g pa off bs) pa' off' = read_scalar n g pa' off'"
    if d: "unat pa + unat off + n \<le> unat pa' + unat off' \<or> unat pa' + unat off' + n \<le> unat pa + unat off"
    using d w(1,3) len assms(4)
      take_drop_overwrite_other [of "unat pa + unat off" bs "flat g" "unat pa' + unat off'" n]
    by (auto simp: read_scalar_flat [OF w(2) assms(2,3)] read_scalar_flat [OF assms(1-3)] accessible_def)
qed

interpretation cell8: memory_cell read_u8 write_u8 valid_mem "\<lambda>g pa off. accessible g pa off 1" 1
  by unfold_locales
    (simp_all add: read_u8_def write_u8_def scalar_cell [where n = 1] from_le_to_le del: One_nat_def)

interpretation cell32: memory_cell read_u32 write_u32 valid_mem "\<lambda>g pa off. accessible g pa off 4" 4
  by unfold_locales
    (simp_all add: read_u32_def write_u32_def scalar_cell [where n = 4] from_le_to_le)

interpretation cell64: memory_cell read_u64 write_u64 valid_mem "\<lambda>g pa off. accessible g pa off 8" 8
  by unfold_locales
    (simp_all add: read_u64_def write_u64_def scalar_cell [where n = 8] from_le_to_le)

section \<open>Page-table walks\<close>

text \<open>
  Two addresses of the same 4 KiB page select the same entries at every level, and differ in
  the result only by the offset in the page, also under a huge page.
\<close>

lemma same_page_drop_bit:
  fixes v v' :: u64
  assumes "v AND NOT 0xFFF = v' AND NOT 0xFFF" and "12 \<le> n"
  shows "drop_bit n v = drop_bit n v'"
proof (rule bit_word_eqI)
  fix i
  assume "i < LENGTH(64)"
  have "bit v (n + i) = bit v' (n + i)"
  proof (cases "n + i < 64")
    case True
    have "\<not> bit (0xFFF :: u64) (n + i)"
    proof -
      have "(0xFFF :: u64) = mask 12" by (simp add: mask_eq_exp_minus_1)
      with assms(2) show ?thesis by (simp only: bit_mask_iff) simp
    qed
    moreover have "bit (v AND NOT 0xFFF) (n + i) = bit (v' AND NOT 0xFFF) (n + i)" using assms(1) by simp
    ultimately show ?thesis using True by (simp only: bit_and_iff bit_not_iff) simp
  next
    case False
    then show ?thesis using bit_imp_le_length by fastforce
  qed
  then show "bit (drop_bit n v) i = bit (drop_bit n v') i" by (simp add: bit_drop_bit_eq)
qed

lemma page_merge:
  fixes v v' base m :: u64
  assumes "v AND NOT 0xFFF = v' AND NOT 0xFFF" and "base AND 0xFFF = 0" and "m AND 0xFFF = 0xFFF"
  shows "((base OR (v AND m)) AND NOT 0xFFF) OR (v' AND 0xFFF) = base OR (v' AND m)"
proof (rule bit_word_eqI)
  fix i
  assume "i < LENGTH(64)"
  have "bit (v AND NOT 0xFFF) i = bit (v' AND NOT 0xFFF) i" "bit (base AND 0xFFF) i = bit (0 :: u64) i"
    "bit (m AND 0xFFF) i = bit (0xFFF :: u64) i"
    using assms by simp_all
  then show "bit (((base OR (v AND m)) AND NOT 0xFFF) OR (v' AND 0xFFF)) i = bit (base OR (v' AND m)) i"
    using \<open>i < LENGTH(64)\<close> by (simp only: bit_and_iff bit_or_iff bit_not_iff) auto
qed

lemma huge_base_low_bits:
  "((e :: u64) AND 0x000FFFFFC0000000) AND 0xFFF = 0" "(e AND 0x000FFFFFFFE00000) AND 0xFFF = 0"
  "(e AND 0x000F000000000000) AND 0xFFF = 0" "(e AND ADDR_MASK) AND 0xFFF = 0"
  by (simp_all add: and.assoc ADDR_MASK_def)

lemma walk_4level_same_page:
  assumes "same_page v v'"
  shows "walk_4level g cr3_pa v' = map_option (\<lambda>pa. at_page_offset pa v') (walk_4level g cr3_pa v)"
proof -
  note sp = assms [unfolded same_page_def]
  have idx: "drop_bit 39 v' = drop_bit 39 v" "drop_bit 30 v' = drop_bit 30 v" "drop_bit 21 v' = drop_bit 21 v"
    "drop_bit 12 v' = drop_bit 12 v"
    by (rule same_page_drop_bit [OF sp, symmetric], simp)+
  have m: "at_page_offset ((e AND 0x000FFFFFC0000000) OR (v AND 0x3FFFFFFF)) v' = (e AND 0x000FFFFFC0000000) OR (v' AND 0x3FFFFFFF)"
    "at_page_offset ((e AND 0x000FFFFFFFE00000) OR (v AND 0x1FFFFF)) v' = (e AND 0x000FFFFFFFE00000) OR (v' AND 0x1FFFFF)"
    "at_page_offset ((e AND ADDR_MASK) OR (v AND 0xFFF)) v' = (e AND ADDR_MASK) OR (v' AND 0xFFF)" for e
    unfolding at_page_offset_def by (rule page_merge [OF sp]; simp add: huge_base_low_bits)+
  show ?thesis
    unfolding walk_4level_def Let_def idx by (simp add: m)
qed

lemma walk_same_page:
  assumes "same_page v v'"
  shows "walk l5 g cr3_pa v' = map_option (\<lambda>pa. at_page_offset pa v') (walk l5 g cr3_pa v)"
proof -
  note sp = assms [unfolded same_page_def]
  have idx: "drop_bit 48 v' = drop_bit 48 v" by (rule same_page_drop_bit [OF sp, symmetric]) simp
  have m: "at_page_offset ((e AND 0x000F000000000000) OR (v AND 0x0000FFFFFFFFFFFF)) v'
      = (e AND 0x000F000000000000) OR (v' AND 0x0000FFFFFFFFFFFF)" for e
    unfolding at_page_offset_def by (rule page_merge [OF sp]; simp add: huge_base_low_bits)
  have "walk_5level g cr3_pa v' = map_option (\<lambda>pa. at_page_offset pa v') (walk_5level g cr3_pa v)"
    unfolding walk_5level_def Let_def idx by (simp add: m walk_4level_same_page [OF assms])
  with walk_4level_same_page [OF assms] show ?thesis by (simp add: walk_def)
qed

lemma walk_tlb_indep: "walk l5 (g\<lparr>gm_tlb := t\<rparr>) cr3_pa v = walk l5 g cr3_pa v"
proof -
  have "resolve_ptr (g\<lparr>gm_tlb := t\<rparr>) = resolve_ptr g" by (intro ext) (simp add: resolve_ptr_def split: nat.split)
  then have "read_u64 (g\<lparr>gm_tlb := t\<rparr>) = read_u64 g" by (intro ext) (simp add: read_u64_def read_scalar_def split: option.split prod.split)
  then show ?thesis by (simp only: walk_def walk_5level_def walk_4level_def)
qed

lemma translate_kva_walks:
  assumes "tlb_coherent g"
  shows "fst (translate_kva g cr3_pa kva l5 tcr) = walk l5 g cr3_pa kva"
    and "tlb_coherent (snd (translate_kva g cr3_pa kva l5 tcr))"
proof -
  let ?page = "kva AND NOT 0xFFF"
  let ?hit = "\<lambda>e. te_cr3_pa e = cr3_pa \<and> te_l5 e = l5 \<and> te_tcr_el1 e = tcr \<and> te_kva_page e = ?page"
  have "fst (translate_kva g cr3_pa kva l5 tcr) = walk l5 g cr3_pa kva
    \<and> tlb_coherent (snd (translate_kva g cr3_pa kva l5 tcr))"
  proof (cases "\<exists>e. gm_tlb g = Some e \<and> ?hit e")
    case True
    then obtain e where e: "gm_tlb g = Some e" "?hit e" by blast
    with assms have "walk l5 g cr3_pa kva = Some (te_pa_page e OR (kva AND 0xFFF))"
      by (auto simp: tlb_coherent_def)
    with e assms show ?thesis by (simp add: translate_kva_def Let_def)
  next
    case False
    then have miss: "translate_kva g cr3_pa kva l5 tcr = (walk l5 g cr3_pa kva,
        case walk l5 g cr3_pa kva of Some pa \<Rightarrow> g\<lparr>gm_tlb := Some \<lparr>te_cr3_pa = cr3_pa, te_l5 = l5, te_tcr_el1 = tcr,
          te_kva_page = ?page, te_pa_page = pa AND NOT 0xFFF\<rparr>\<rparr> | None \<Rightarrow> g)"
      by (auto simp: translate_kva_def walk_def Let_def split: option.split)
    have "walk l5 g cr3_pa v = Some ((pa AND NOT 0xFFF) OR (v AND 0xFFF))"
      if "walk l5 g cr3_pa kva = Some pa" "v AND NOT 0xFFF = ?page" for pa v
      using walk_same_page [of kva v l5 g cr3_pa] that by (simp add: same_page_def at_page_offset_def)
    with miss assms show ?thesis
      by (auto simp: tlb_coherent_def walk_tlb_indep split: option.split)
  qed
  then show "fst (translate_kva g cr3_pa kva l5 tcr) = walk l5 g cr3_pa kva"
    "tlb_coherent (snd (translate_kva g cr3_pa kva l5 tcr))" by simp_all
qed

section \<open>The xarray\<close>

lemma word_unat_of_nat_self: "of_nat (unat w) = (w :: u64)"
  by simp

lemma slot_index:
  assumes "s < 64"
  shows "drop_bit s (i :: u64) AND (XA_CHUNK_SIZE - 1) = of_nat (unat i div 2 ^ s mod 64)"
proof -
  have "drop_bit s i AND (XA_CHUNK_SIZE - 1) = take_bit 6 (drop_bit s i)"
    by (simp add: XA_CHUNK_SIZE_def take_bit_eq_mask mask_eq_exp_minus_1)
  then have "unat (drop_bit s i AND (XA_CHUNK_SIZE - 1)) = take_bit 6 (drop_bit s (unat i))"
    by (simp only: unsigned_take_bit_eq unsigned_drop_bit_eq) (simp add: take_bit_nat_eq_self [OF unat_u64_less])
  also have "\<dots> = unat i div 2 ^ s mod 64" by (simp add: drop_bit_eq_div take_bit_eq_mod)
  finally have "of_nat (unat (drop_bit s i AND (XA_CHUNK_SIZE - 1))) = (of_nat (unat i div 2 ^ s mod 64) :: u64)"
    by (rule arg_cong)
  then show ?thesis by (simp only: word_unat_of_nat_self)
qed

lemma xa_descend_step:
  assumes "s < 64"
  shows "xa_descend g po i so (e AND NOT 3) s =
    (let entry = read_u64 g (slot_addr po so e (unat i div 2 ^ s mod 64)) 0 in
     if entry = 0 then 0 else if entry AND 2 = 0 then entry else if s < 6 then 0
     else xa_descend g po i so (entry AND NOT 3) (s - 6))"
proof -
  have "\<not> 64 \<le> s" using assms by simp
  then show ?thesis by (subst xa_descend.simps) (simp only: slot_index [OF assms] slot_addr_def Let_def if_False)
qed

lemma xa_descend_lookup:
  assumes "xa_repr g po so (Suc h) e (XNode ts)" and "6 * h < 64"
  shows "xa_descend g po i so (e AND NOT 3) (6 * h) = xa_lookup (Suc h) (XNode ts) (unat i)"
  using assms
proof (induction h arbitrary: e ts)
  case 0
  let ?k = "unat i mod 64"
  from 0 have k: "xa_repr g po so 0 (read_u64 g (slot_addr po so e ?k) 0) (ts ! ?k)" by simp
  have "xa_descend g po i so (e AND NOT 3) 0 = (let entry = read_u64 g (slot_addr po so e ?k) 0 in
     if entry = 0 then 0 else if entry AND 2 = 0 then entry else 0)"
    using xa_descend_step [of 0 g po i so e] by (simp add: Let_def)
  with k show ?case by (cases "ts ! ?k") (simp_all add: Let_def)
next
  case (Suc h)
  let ?k = "unat i div 64 ^ Suc h mod 64" and ?s = "6 * Suc h"
  let ?e = "read_u64 g (slot_addr po so e ?k) 0"
  from Suc.prems have k: "xa_repr g po so (Suc h) ?e (ts ! ?k)" by simp
  have p: "(2 :: nat) ^ ?s = 64 ^ Suc h" by (simp only: power_mult) simp
  have step: "xa_descend g po i so (e AND NOT 3) ?s = (let entry = ?e in
     if entry = 0 then 0 else if entry AND 2 = 0 then entry
     else xa_descend g po i so (entry AND NOT 3) (6 * h))"
    using xa_descend_step [OF Suc.prems(2), of g po i so e, unfolded p] by (simp add: Let_def del: power_Suc)
  have IH: "xa_descend g po i so (?e AND NOT 3) (6 * h) = xa_lookup (Suc h) (XNode us) (unat i)"
    if "ts ! ?k = XNode us" for us
    using Suc.IH [of ?e us] k that Suc.prems(2) by (simp del: xa_lookup.simps)
  have lk: "xa_lookup (Suc (Suc h)) (XNode ts) (unat i) = xa_lookup (Suc h) (ts ! ?k) (unat i)" by simp
  show ?case
  proof (cases "ts ! ?k")
    case (XNode us)
    with k have "?e \<noteq> 0" "?e AND 2 \<noteq> 0" by auto
    with step IH [OF XNode] lk XNode show ?thesis by (simp only: Let_def if_False)
  qed (use k step lk in \<open>simp_all add: Let_def del: power_Suc xa_lookup.simps(4)\<close>)
qed

section \<open>Memory over a layout\<close>

lemma contiguous_layout:
  assumes "contiguous_from (base + d) n rs" and "unat base + unat d + region_bytes rs < 2 ^ 64"
    and "\<forall>r \<in> set rs. length (f r) = unat (region_size r)"
  shows "contiguous (unat d) (map (\<lambda>r. \<lparr>mr_offset = gpa_start r - base, mr_size = region_size r, mr_bytes = f r\<rparr>) rs)"
  using assms
proof (induction rs arbitrary: d n)
  case (Cons r rs)
  have d: "unat (d + region_size r) = unat d + unat (region_size r)"
    using Cons.prems(2) by (intro unat_add_no_overflow) (simp add: region_bytes_def)
  from Cons.prems have "contiguous_from (base + (d + region_size r)) (Suc n) rs"
    "unat base + unat (d + region_size r) + region_bytes rs < 2 ^ 64"
    by (simp_all add: d region_bytes_def add.assoc)
  from Cons.IH [OF this] Cons.prems d show ?case by simp
qed simp

lemma from_layout_valid:
  assumes c: "compute t mb base = Inr rs" and fits: "unat base + region_bytes rs < 2 ^ 64"
    and host: "host_maps host rs"
  shows "\<exists>g. from_layout rs host = Some g \<and> valid_mem g \<and> gm_tlb g = None
    \<and> gm_regions g = map (\<lambda>r. \<lparr>mr_offset = gpa_start r - base, mr_size = region_size r, mr_bytes = the (host (gpa_start r))\<rparr>) rs"
proof -
  let ?f = "\<lambda>r. \<lparr>mr_offset = gpa_start r - base, mr_size = region_size r, mr_bytes = the (host (gpa_start r))\<rparr>"
  have len: "\<forall>r \<in> set rs. length (the (host (gpa_start r))) = unat (region_size r)"
    using host by (force simp: host_maps_def)
  have "those (map (\<lambda>nr. map_option
      (\<lambda>bytes. \<lparr>mr_offset = gpa_start nr - base, mr_size = region_size nr, mr_bytes = bytes\<rparr>)
      (host (gpa_start nr))) rs) = Some (map ?f rs)"
    using host by (intro those_map_Some) (force simp: host_maps_def)
  then have g: "from_layout rs host = Some \<lparr>gm_size = total_bytes rs, gm_regions = map ?f rs, gm_tlb = None\<rparr>"
    by (simp add: from_layout_def dram_base_compute [OF c])
  have "contiguous 0 (map ?f rs)"
    using contiguous_layout [of base 0 0 rs] compute_contiguous(1) [OF c] fits len by simp
  moreover have "unat (total_bytes rs) = region_bytes rs" using fits by (intro unat_total_bytes) simp
  moreover have "length (concat (map mr_bytes (map ?f rs))) = region_bytes rs"
    using len by (simp add: length_concat region_bytes_def comp_def cong: map_cong)
  ultimately show ?thesis using g by (simp add: valid_mem_def flat_def)
qed

text \<open>A read within a region, addressed by the region's offset.\<close>

lemma read_scalar_region:
  assumes v: "valid_mem g" and i: "i < length (gm_regions g)" and n: "0 < n"
    and fit: "unat off + n \<le> unat (mr_size (gm_regions g ! i))"
  shows "read_scalar n g (mr_offset (gm_regions g ! i)) off = take n (drop (unat off) (mr_bytes (gm_regions g ! i)))"
proof -
  let ?r = "gm_regions g ! i"
  note reg = region_in_flat [OF v i]
  have "n < 2 ^ 64" using fit unat_u64_less [of "mr_size ?r"] by simp
  moreover have "accessible g (mr_offset ?r) off n"
    using i n fit reg(3) by (auto simp: accessible_def in_region_def intro!: bexI [of _ ?r])
  ultimately show ?thesis
    using fit n flat_slice [OF i, of "unat off" n] reg(1,2) by (simp add: read_scalar_flat [OF v n])
qed

section \<open>Properties\<close>

text \<open>
  C21: guest memory behaves as one flat byte string. On regions that follow each other, a scalar
  read returns the bytes at the sum of address and offset when the access stays inside the memory
  and inside one region, and zeros otherwise; a scalar write replaces exactly those bytes
  under the same condition and otherwise changes nothing; neither ever reads or writes outside a
  region, and a write keeps the memory well formed.
\<close>

theorem guest_mem_refines_flat:
  assumes "valid_mem g" and "0 < n" and "n < 2 ^ 64" and "length bs = n"
  shows "read_scalar n g pa off =
      (if accessible g pa off n then take n (drop (unat pa + unat off) (flat g)) else replicate n 0)
    \<and> flat (write_scalar g pa off bs) =
      (if accessible g pa off n then overwrite (unat pa + unat off) bs (flat g) else flat g)
    \<and> valid_mem (write_scalar g pa off bs)"
  using assms read_scalar_flat [OF assms(1-3)] write_scalar_flat [OF assms(1), of bs pa off] by auto

text \<open>
  what is written is read back. After 64-bit values are written to disjoint accessible cells,
  in ascending order of address, each cell reads as its value.
\<close>

theorem write_u64_read_u64:
  assumes "valid_mem g" and "(pa, v) \<in> set ws" and "\<forall>(a, _) \<in> set ws. accessible g a 0 8"
    and "sorted_wrt (\<lambda>(a, _) (b, _). unat a + 8 \<le> unat b) ws"
  shows "read_u64 (fold (\<lambda>(a, x) g. write_u64 g a 0 x) ws g) pa 0 = v"
  by (rule cell64.read_after_writes [OF assms])

text \<open>
  C34: the translation cache is transparent. As long as the cached entry agrees with the page
  tables, which holds initially and after every translation, a translation returns what a
  walk of the page tables returns, for 4-level and 5-level paging and for pages of every size.
\<close>

theorem translate_kva_transparent:
  assumes "gm_tlb g = None"
  shows "let g' = fold (\<lambda>(cr3, v, l5, tcr) g. snd (translate_kva g cr3 v l5 tcr)) history g
    in fst (translate_kva g' cr3_pa kva l5 tcr) = (if l5 then walk_5level g cr3_pa kva else walk_4level g cr3_pa kva)"
proof -
  have "tlb_coherent g" using assms by (simp add: tlb_coherent_def)
  then have "tlb_coherent (fold (\<lambda>(cr3, v, l5, tcr) g. snd (translate_kva g cr3 v l5 tcr)) history g)
    \<and> (\<forall>b c v. walk b (fold (\<lambda>(cr3, v, l5, tcr) g. snd (translate_kva g cr3 v l5 tcr)) history g) c v = walk b g c v)"
  proof (induction history arbitrary: g)
    case (Cons h hs)
    obtain cr3 v l5 tcr where h: "h = (cr3, v, l5, tcr)" by (metis prod_cases4)
    let ?g = "snd (translate_kva g cr3 v l5 tcr)"
    have "walk b ?g c u = walk b g c u" for b c u
      by (simp add: translate_kva_def Let_def walk_tlb_indep split: option.split)
    with Cons.IH [of ?g] translate_kva_walks(2) [OF Cons.prems] h show ?case by simp
  qed simp
  then show ?thesis by (simp add: Let_def translate_kva_walks(1) walk_def)
qed

text \<open>
  C35: the xarray lookup implements a 64-way tree. If guest memory holds a tree of height \<open>h\<close> at
  the head word and the head node's shift says so, a lookup at an index the tree covers
  returns the entry stored for it, or 0 when there is none.
\<close>

theorem xa_load_refines:
  assumes "xa_repr g po so (Suc h) head (XNode ts)" and "6 * h < 64"
    and "xa_node_shift g po (head AND NOT 3) shift_off = 6 * h" and "unat i < 64 ^ Suc h"
  shows "xa_load g po head i so shift_off = Some (xa_get (Suc h) (XNode ts) (unat i))"
proof -
  have "head \<noteq> 0" "head AND 2 \<noteq> 0" using assms(1) by auto
  then have "xa_load g po head i so shift_off = Some (xa_descend g po i so (head AND NOT 3) (6 * h))"
    using assms(3) by (simp add: xa_load_def Let_def)
  with xa_descend_lookup [OF assms(1,2), of i] assms(4) show ?thesis
    by (simp add: xa_get_def del: xa_lookup.simps)
qed

lemma xa_lookup_cong: "i mod 64 ^ h = j mod 64 ^ h \<Longrightarrow> xa_lookup h t i = xa_lookup h t j"
proof (induction h t i rule: xa_lookup.induct)
  case (4 h ts i)
  have digit: "k mod 64 ^ Suc h div 64 ^ h = k div 64 ^ h mod 64" for k :: nat
    using mod_mult2_eq [of k "64 ^ h" 64] by (simp add: mult.commute)
  have low: "k mod 64 ^ Suc h mod 64 ^ h = k mod 64 ^ h" for k :: nat by (rule mod_mod_cancel) simp
  from 4 digit [of i] digit [of j] have "i div 64 ^ h mod 64 = j div 64 ^ h mod 64" by simp
  moreover from 4 low [of i] low [of j] have "i mod 64 ^ h = j mod 64 ^ h" by simp
  ultimately show ?case using 4 by simp
qed simp_all

lemma xa_load_tree:
  assumes "xa_repr g po so (Suc h) head (XNode ts)" and "6 * h < 64"
    and "xa_node_shift g po (head AND NOT 3) shift_off = 6 * h"
  shows "xa_load g po head i so shift_off = Some (xa_lookup (Suc h) (XNode ts) (unat i))"
proof -
  have "head \<noteq> 0" "head AND 2 \<noteq> 0" using assms(1) by auto
  then have "xa_load g po head i so shift_off = Some (xa_descend g po i so (head AND NOT 3) (6 * h))"
    using assms(3) by (simp add: xa_load_def Let_def)
  with xa_descend_lookup [OF assms(1,2), of i] show ?thesis by (simp only:)
qed

text \<open>
  An index beyond the tree is not refused. The lookup has no check of the index
  against the range the root node covers: it reduces the index modulo that range and returns the
  entry of the smaller index, so a scan over more indices than the tree covers reports entries
  more than once.
\<close>

theorem xa_load_wraps_index:
  assumes "xa_repr g po so (Suc h) head (XNode ts)" and "6 * h < 64"
    and "xa_node_shift g po (head AND NOT 3) shift_off = 6 * h"
    and "unat i mod 64 ^ Suc h = unat j mod 64 ^ Suc h"
  shows "xa_load g po head i so shift_off = xa_load g po head j so shift_off"
  by (simp only: xa_load_tree [OF assms(1-3)] xa_lookup_cong [OF assms(4)])

section \<open>Witnesses\<close>

lemma sample_regions_valid: "valid_mem sample_regions"
  by (simp add: valid_mem_def sample_regions_def flat_def)

lemma sample_xa_valid: "valid_mem sample_xa"
  by (simp add: valid_mem_def sample_xa_def flat_def)

lemma sample_regions_accessible: "accessible sample_regions 16 0 8" "accessible sample_regions 24 0 8"
  "accessible sample_regions 16 4 8" "\<not> accessible sample_regions 8 4 8"
  by (simp_all add: accessible_def in_region_def sample_regions_def flat_def)

lemma le_value_zeros: "le_value (replicate n 0) = 0"
  by (induction n) simp_all

lemma from_le_bytes_zeros: "from_le_bytes (replicate n 0) = 0"
  by (simp add: from_le_bytes_def le_value_zeros)

lemma sample_xa_slot:
  assumes "i < 64"
  shows "read_u64 sample_xa (slot_addr 0x1000 8 0x1002 i) 0 = (if i = 5 then 0x40 else 0)"
proof -
  define a where "a = slot_addr 0x1000 8 0x1002 i"
  have "a = of_nat (8 + 8 * i)" by (simp add: a_def slot_addr_def kva_to_pa_def)
  with assms have a: "unat a = 8 + 8 * i" by (simp add: unat_of_nat take_bit_nat_eq_self del: of_nat_add of_nat_mult)
  have "accessible sample_xa a 0 8 \<longleftrightarrow> i \<le> 5"
    by (auto simp: accessible_def in_region_def sample_xa_def flat_def a)
  moreover have "take 8 (drop (8 + 8 * i) (flat sample_xa)) = (if i = 5 then 0x40 # replicate 7 0 else replicate 8 0)" if "i \<le> 5"
    using that by (auto simp: flat_def sample_xa_def)
  moreover have "from_le_bytes (0x40 # replicate 7 0) = (0x40 :: u64)" by (simp add: from_le_bytes_def le_value_zeros)
  ultimately show ?thesis unfolding a_def [symmetric]
    by (auto simp: read_u64_def read_scalar_flat [OF sample_xa_valid] from_le_bytes_zeros a)
qed

lemma sample_xa_repr: "xa_repr sample_xa 0x1000 8 (Suc 0) 0x1002 sample_tree"
proof -
  have "\<forall>i < 64. xa_repr sample_xa 0x1000 8 0 (read_u64 sample_xa (slot_addr 0x1000 8 0x1002 i) 0)
      (((replicate 64 XEmpty)[5 := XEntry 0x40]) ! i)"
    by (simp add: sample_xa_slot nth_list_update)
  then show ?thesis by (simp add: sample_tree_def)
qed

lemma sample_xa_shift: "xa_node_shift sample_xa 0x1000 (0x1002 AND NOT 3) 0 = 0"
proof -
  have "accessible sample_xa 0 0 1" by (simp add: accessible_def in_region_def sample_xa_def flat_def)
  then have "read_scalar 1 sample_xa 0 0 = [0]"
    using read_scalar_flat [OF sample_xa_valid, of 1 0 0] by (simp add: flat_def sample_xa_def)
  then show ?thesis by (simp add: xa_node_shift_def kva_to_pa_def read_u8_def from_le_bytes_def)
qed

theorem guest_mem_refines_flat_witness:
  "read_scalar 8 sample_regions 16 4 = map of_nat [20..<28]
   \<and> flat (write_scalar sample_regions 8 4 (replicate 8 0)) = flat sample_regions"
  using guest_mem_refines_flat [of sample_regions 8 "replicate 8 0" 16 4, OF sample_regions_valid]
    guest_mem_refines_flat [of sample_regions 8 "replicate 8 0" 8 4, OF sample_regions_valid]
    sample_regions_accessible
  by (simp add: flat_def sample_regions_def upt_rec)

theorem write_u64_read_u64_witness:
  "read_u64 (write_u64 (write_u64 sample_regions 16 0 7) 24 0 9) 16 0 = 7"
  using write_u64_read_u64 [of sample_regions 16 7 "[(16, 7), (24, 9)]", OF sample_regions_valid]
    sample_regions_accessible by simp

theorem translate_kva_transparent_witness:
  "gm_tlb sample_xa = None \<and>
   fst (translate_kva (snd (translate_kva sample_xa 0 5 False 0)) 0 6 False 0) = walk_4level sample_xa 0 6"
  using translate_kva_transparent [of sample_xa "[(0, 5, False, 0)]" 0 6 False 0]
  by (simp add: sample_xa_def)

theorem xa_load_refines_witness: "xa_load sample_xa 0x1000 0x1002 5 8 0 = Some 0x40"
  using xa_load_refines [of sample_xa "0x1000" 8 0 "0x1002" "(replicate 64 XEmpty)[5 := XEntry 0x40]" 0 5]
    sample_xa_repr sample_xa_shift
  by (simp add: sample_tree_def xa_get_def)

theorem xa_load_wraps_index_witness:
  "xa_load sample_xa 0x1000 0x1002 69 8 0 = Some 0x40 \<and> xa_get 1 sample_tree 69 = 0"
proof -
  have "xa_load sample_xa 0x1000 0x1002 69 8 0 = xa_load sample_xa 0x1000 0x1002 5 8 0"
    using xa_load_wraps_index [of sample_xa "0x1000" 8 0 "0x1002" "(replicate 64 XEmpty)[5 := XEntry 0x40]" 0 69 5]
      sample_xa_repr sample_xa_shift by (simp add: sample_tree_def)
  moreover have "xa_load sample_xa 0x1000 0x1002 5 8 0 = Some 0x40"
    using xa_load_tree [of sample_xa "0x1000" 8 0 "0x1002" "(replicate 64 XEmpty)[5 := XEntry 0x40]" 0 5]
      sample_xa_repr sample_xa_shift by (simp add: sample_tree_def)
  ultimately show ?thesis by (simp add: xa_get_def)
qed

end
