(* ===== verification/Boot.thy ===== *)
theory Boot
  imports Mp_Table Guest_Memory
begin

text \<open>
  The x86-64 boot protocol of \<^verbatim>\<open>src/vmm/x86_64/boot.rs\<close>, with the two routines of \<^verbatim>\<open>src/vmm/setup.rs\<close>
  that put it together: command line and boot parameters with the e820 memory map, page tables,
  segment descriptors, control and general registers, model-specific registers and the local
  interrupt controller.

  Guest memory is the parameter \<open>write_slice\<close> as in the firmware tables. A vCPU is a state with the
  operations of \<^verbatim>\<open>kvm_ioctls\<close> in the record \<open>vcpu_api\<close>; each may fail. The bindgen structures
  of \<^verbatim>\<open>linux_loader\<close> and \<^verbatim>\<open>kvm_bindings\<close> are records with the fields the code touches and one field
  for the rest; how \<open>boot_params\<close> is laid out in memory is the parameter \<open>params_bytes\<close>.
\<close>

section \<open>Constants\<close>

definition KERNEL_LOAD_ADDR :: u64 where "KERNEL_LOAD_ADDR = 0x100000"

definition BOOT_PARAMS_ADDR :: u64 where "BOOT_PARAMS_ADDR = 0x7000"

definition CMDLINE_ADDR :: u64 where "CMDLINE_ADDR = 0x20000"

definition CMDLINE_MAX :: nat where "CMDLINE_MAX = 4096"

definition EBDA_START :: u64 where "EBDA_START = 0x9FC00"

definition HIMEM_START :: u64 where "HIMEM_START = 0x100000"

definition MMIO_GAP_START :: u64 where "MMIO_GAP_START = 0xC0000000"

definition MMIO_GAP_END :: u64 where "MMIO_GAP_END = 0x100000000"

definition E820_RAM :: u32 where "E820_RAM = 1"

definition STARTUP64_OFFSET :: u64 where "STARTUP64_OFFSET = 0x200"

definition PML4_START :: u64 where "PML4_START = 0x9000"

definition PDPTE_START :: u64 where "PDPTE_START = 0xa000"

definition PDE_START :: u64 where "PDE_START = 0xb000"

definition GDT_OFFSET :: u64 where "GDT_OFFSET = 0x500"

definition IDT_OFFSET :: u64 where "IDT_OFFSET = 0x520"

definition BOOT_STACK :: u64 where "BOOT_STACK = 0x8ff0"

definition CR0_PE :: u64 where "CR0_PE = 0x1"

definition CR0_PG :: u64 where "CR0_PG = 0x80000000"

definition CR4_PAE :: u64 where "CR4_PAE = 0x20"

definition EFER_LME :: u64 where "EFER_LME = 0x100"

definition EFER_LMA :: u64 where "EFER_LMA = 0x400"

definition X2APIC_ENABLE_BIT :: u64 where "X2APIC_ENABLE_BIT = rust_shl 1 10"

definition XAPIC_GLOBAL_ENABLE_BIT :: u64 where "XAPIC_GLOBAL_ENABLE_BIT = rust_shl 1 11"

definition MSR_IA32_SYSENTER_CS :: u32 where "MSR_IA32_SYSENTER_CS = 0x174"

definition MSR_IA32_SYSENTER_ESP :: u32 where "MSR_IA32_SYSENTER_ESP = 0x175"

definition MSR_IA32_SYSENTER_EIP :: u32 where "MSR_IA32_SYSENTER_EIP = 0x176"

definition MSR_STAR :: u32 where "MSR_STAR = 0xc0000081"

definition MSR_LSTAR :: u32 where "MSR_LSTAR = 0xc0000082"

definition MSR_CSTAR :: u32 where "MSR_CSTAR = 0xc0000083"

definition MSR_SYSCALL_MASK :: u32 where "MSR_SYSCALL_MASK = 0xc0000084"

definition MSR_KERNEL_GS_BASE :: u32 where "MSR_KERNEL_GS_BASE = 0xc0000102"

definition MSR_IA32_TSC :: u32 where "MSR_IA32_TSC = 0x10"

definition MSR_IA32_MISC_ENABLE :: u32 where "MSR_IA32_MISC_ENABLE = 0x1a0"

definition MSR_IA32_MISC_ENABLE_FAST_STRING :: u64 where "MSR_IA32_MISC_ENABLE_FAST_STRING = 1"

definition MSR_MTRR_DEF_TYPE :: u32 where "MSR_MTRR_DEF_TYPE = 0x2ff"

definition MTRR_ENABLE :: u64 where "MTRR_ENABLE = rust_shl 1 11"

definition MTRR_MEM_TYPE_WB :: u64 where "MTRR_MEM_TYPE_WB = 6"

definition APIC_LVT0 :: nat where "APIC_LVT0 = 0x350"

definition APIC_LVT1 :: nat where "APIC_LVT1 = 0x360"

definition APIC_MODE_NMI :: u32 where "APIC_MODE_NMI = 4"

definition APIC_MODE_EXTINT :: u32 where "APIC_MODE_EXTINT = 7"

definition APIC_LVT_MASKED :: u32 where "APIC_LVT_MASKED = rust_shl 1 16"

section \<open>Memory\<close>

datatype boot_error =
    Context string
  | CmdlineTooLong nat nat
  | ShortMsrs nat nat
  | Firmware acpi_error
  | IndexPanic

text \<open>\<^verbatim>\<open>write_slice(...).context(...)\<close> and \<^verbatim>\<open>write_obj(...).context(...)\<close>.\<close>

definition put_mem ::
  "('m \<Rightarrow> bytes \<Rightarrow> u64 \<Rightarrow> 'm option) \<Rightarrow> string \<Rightarrow> bytes \<Rightarrow> u64 \<Rightarrow> 'm \<Rightarrow> boot_error + 'm" where
  "put_mem write_slice what bs addr m =
     (case write_slice m bs addr of None \<Rightarrow> Inl (Context what) | Some m' \<Rightarrow> Inr m')"

definition write_cmdline ::
  "('m \<Rightarrow> bytes \<Rightarrow> u64 \<Rightarrow> 'm option) \<Rightarrow> bytes \<Rightarrow> 'm \<Rightarrow> boot_error + 'm" where
  "write_cmdline write_slice cmdline m =
     (if \<not> length cmdline < CMDLINE_MAX then Inl (CmdlineTooLong (length cmdline) CMDLINE_MAX)
      else put_mem write_slice ''write cmdline to guest memory'' (cmdline @ [0]) CMDLINE_ADDR m)"

record boot_e820_entry =
  e820_addr :: u64
  e820_size :: u64
  e820_type :: u32

record 'h setup_header =
  type_of_loader :: u8
  boot_flag :: u16
  hdr_header :: u32
  cmd_line_ptr :: u32
  cmdline_size :: u32
  kernel_alignment :: u32
  ramdisk_image :: u32
  ramdisk_size :: u32
  hdr_other :: 'h

record 'h boot_params =
  hdr :: "'h setup_header"
  ext_ramdisk_image :: u32
  ext_ramdisk_size :: u32
  acpi_rsdp_addr :: u64
  e820_table :: "boot_e820_entry list"
  e820_entries :: u8

text \<open>\<^verbatim>\<open>boot_params::default()\<close>: all zero; the e820 table has 128 slots.\<close>

definition e820_zero :: boot_e820_entry where
  "e820_zero = \<lparr>e820_addr = 0, e820_size = 0, e820_type = 0\<rparr>"

definition boot_params_default :: "'h \<Rightarrow> 'h boot_params" where
  "boot_params_default h0 =
     \<lparr>hdr = \<lparr>type_of_loader = 0, boot_flag = 0, hdr_header = 0, cmd_line_ptr = 0, cmdline_size = 0,
        kernel_alignment = 0, ramdisk_image = 0, ramdisk_size = 0, hdr_other = h0\<rparr>,
      ext_ramdisk_image = 0, ext_ramdisk_size = 0, acpi_rsdp_addr = 0,
      e820_table = replicate 128 e820_zero, e820_entries = 0\<rparr>"

text \<open>The e820 part of \<open>write_boot_params\<close>: the table and the number of entries.\<close>

definition e820_fill :: "u32 \<Rightarrow> boot_e820_entry list \<Rightarrow> boot_e820_entry list \<times> nat" where
  "e820_fill mem_mb tbl =
     (let mem_size = rust_shl (ucast mem_mb :: u64) 20;
          usable_size = mem_size;
          tbl = tbl[0 := \<lparr>e820_addr = 0, e820_size = EBDA_START, e820_type = E820_RAM\<rparr>]
      in if usable_size \<le> MMIO_GAP_START then
           (tbl[1 := \<lparr>e820_addr = HIMEM_START, e820_size = usable_size - HIMEM_START, e820_type = E820_RAM\<rparr>], 2)
         else
           let tbl = tbl[1 := \<lparr>e820_addr = HIMEM_START, e820_size = MMIO_GAP_START - HIMEM_START,
                 e820_type = E820_RAM\<rparr>]
           in if usable_size > MMIO_GAP_END then
                (tbl[2 := \<lparr>e820_addr = MMIO_GAP_END, e820_size = usable_size - MMIO_GAP_END,
                   e820_type = E820_RAM\<rparr>], 3)
              else (tbl, 2))"

text \<open>The parameters as \<open>write_boot_params\<close> fills them.\<close>

definition boot_params_of ::
  "'h \<Rightarrow> bytes \<Rightarrow> u32 \<Rightarrow> u64 option \<Rightarrow> u32 option \<Rightarrow> 'h setup_header option \<Rightarrow> 'h boot_params" where
  "boot_params_of h0 cmdline mem_mb initrd_addr initrd_size h =
     (let params = boot_params_default h0;
          params = (case h of Some h \<Rightarrow> params\<lparr>hdr := h\<rparr> | None \<Rightarrow> params);
          params = params\<lparr>hdr := (hdr params)\<lparr>type_of_loader := 0xff, boot_flag := 0xaa55,
            hdr_header := 0x53726448, cmd_line_ptr := ucast CMDLINE_ADDR,
            cmdline_size := of_nat (length cmdline), kernel_alignment := 0x1000000\<rparr>\<rparr>;
          params = (case (initrd_addr, initrd_size) of
              (Some addr, Some sz) \<Rightarrow>
                params\<lparr>hdr := (hdr params)\<lparr>ramdisk_image := ucast (addr AND 0xffffffff), ramdisk_size := sz\<rparr>,
                  ext_ramdisk_image := ucast (rust_shr addr 32), ext_ramdisk_size := 0\<rparr>
            | _ \<Rightarrow> params);
          params = params\<lparr>acpi_rsdp_addr := 0x000E0000\<rparr>;
          (tbl, e820_idx) = e820_fill mem_mb (e820_table params)
      in params\<lparr>e820_table := tbl, e820_entries := of_nat e820_idx\<rparr>)"

definition write_boot_params ::
  "('m \<Rightarrow> bytes \<Rightarrow> u64 \<Rightarrow> 'm option) \<Rightarrow> ('h boot_params \<Rightarrow> bytes) \<Rightarrow> 'h \<Rightarrow> bytes \<Rightarrow> u32 \<Rightarrow> u64 option
     \<Rightarrow> u32 option \<Rightarrow> 'h setup_header option \<Rightarrow> 'm \<Rightarrow> boot_error + 'm" where
  "write_boot_params write_slice params_bytes h0 cmdline mem_mb initrd_addr initrd_size h m =
     put_mem write_slice ''write boot_params''
       (params_bytes (boot_params_of h0 cmdline mem_mb initrd_addr initrd_size h)) BOOT_PARAMS_ADDR m"

text \<open>\<^verbatim>\<open>BzImage::load\<close> is the parameter: the address the kernel was loaded at and its setup header.\<close>

definition load_kernel ::
  "('m \<Rightarrow> u64 \<Rightarrow> (u64 \<times> 'h setup_header option \<times> 'm) option) \<Rightarrow> bool \<Rightarrow> 'm
     \<Rightarrow> boot_error + (u64 \<times> 'h setup_header option) \<times> 'm" where
  "load_kernel bz_load can_open m =
     (if \<not> can_open then Inl (Context ''open kernel'')
      else case bz_load m KERNEL_LOAD_ADDR of
        None \<Rightarrow> Inl (Context ''load bzImage'')
      | Some (_, None, _) \<Rightarrow> Inl (Context ''bzImage missing setup_header'')
      | Some (kernel_load, Some setup_header, m') \<Rightarrow>
          Inr ((kernel_load + STARTUP64_OFFSET, Some setup_header), m'))"

definition setup_page_tables :: "('m \<Rightarrow> bytes \<Rightarrow> u64 \<Rightarrow> 'm option) \<Rightarrow> 'm \<Rightarrow> boot_error + 'm" where
  "setup_page_tables write_slice m =
     and_then (put_mem write_slice ''write PML4'' (to_le_bytes 8 (PDPTE_START OR 0x03)) PML4_START m) (\<lambda>m.
     and_then (put_mem write_slice ''write PDPTE'' (to_le_bytes 8 (PDE_START OR 0x03)) PDPTE_START m) (\<lambda>m.
     fold_res (\<lambda>i. put_mem write_slice ''write PDE'' (to_le_bytes 8 (rust_shl i 21 OR 0x83)) (PDE_START + i * 8))
       (map of_nat [0..<512]) m))"

section \<open>Segments and registers\<close>

definition gdt_entry :: "u16 \<Rightarrow> u32 \<Rightarrow> u32 \<Rightarrow> u64" where
  "gdt_entry fl base limit =
     rust_shl (ucast base AND 0xff000000) (56 - 24)
     OR rust_shl (ucast fl AND 0x0000f0ff) 40
     OR rust_shl (ucast limit AND 0x000f0000) (48 - 16)
     OR rust_shl (ucast base AND 0x00ffffff) 16
     OR (ucast limit AND 0x0000ffff)"

record kvm_segment =
  seg_base :: u64
  seg_limit :: u32
  selector :: u16
  seg_type :: u8
  present :: u8
  dpl :: u8
  seg_db :: u8
  seg_s :: u8
  seg_l :: u8
  seg_g :: u8
  avl :: u8
  unusable :: u8

definition kvm_segment_from_gdt :: "u64 \<Rightarrow> u8 \<Rightarrow> kvm_segment" where
  "kvm_segment_from_gdt entry table_index =
     (let g = ucast (rust_shr entry 55 AND 0x1);
          pres = ucast (rust_shr entry 47 AND 0x1);
          raw_limit = ucast ((entry AND 0xffff) OR rust_shl (rust_shr entry 48 AND 0xf) 16);
          limit = (if g = 0 then raw_limit else rust_shl raw_limit 12 OR 0xFFF)
      in \<lparr>seg_base = (rust_shr entry 16 AND 0xffffff) OR rust_shl (rust_shr entry 56 AND 0xff) 24,
          seg_limit = limit,
          selector = rust_shl (ucast table_index) 3,
          seg_type = ucast (rust_shr entry 40 AND 0xf),
          present = pres,
          dpl = ucast (rust_shr entry 45 AND 0x3),
          seg_db = ucast (rust_shr entry 54 AND 0x1),
          seg_s = ucast (rust_shr entry 44 AND 0x1),
          seg_l = ucast (rust_shr entry 53 AND 0x1),
          seg_g = g,
          avl = ucast (rust_shr entry 52 AND 0x1),
          unusable = (if pres = 0 then 1 else 0)\<rparr>)"

record kvm_dtable =
  dt_base :: u64
  dt_limit :: u16

record 'o kvm_sregs =
  seg_cs :: kvm_segment
  seg_ds :: kvm_segment
  seg_es :: kvm_segment
  seg_fs :: kvm_segment
  seg_gs :: kvm_segment
  seg_ss :: kvm_segment
  seg_tr :: kvm_segment
  gdt :: kvm_dtable
  idt :: kvm_dtable
  cr0 :: u64
  cr3 :: u64
  cr4 :: u64
  efer :: u64
  apic_base :: u64
  sregs_other :: 'o

record kvm_regs =
  rflags :: u64
  rip :: u64
  rsp :: u64
  rbp :: u64
  rsi :: u64

record kvm_fpu =
  fcw :: u16
  mxcsr :: u32

record kvm_msr_entry =
  msr_index :: u32
  msr_data :: u64

datatype mp_state = MpRunnable | MpUninitialized

text \<open>
  The vCPU file descriptor; the array of the local interrupt controller has 1024 bytes. The boot code never
  calls \<open>get_regs\<close>, which is there to state what the guest starts with.
\<close>

record ('v, 'o) vcpu_api =
  get_sregs :: "'v \<Rightarrow> 'o kvm_sregs option"
  set_sregs :: "'v \<Rightarrow> 'o kvm_sregs \<Rightarrow> 'v option"
  set_regs :: "'v \<Rightarrow> kvm_regs \<Rightarrow> 'v option"
  set_fpu :: "'v \<Rightarrow> kvm_fpu \<Rightarrow> 'v option"
  set_msrs :: "'v \<Rightarrow> kvm_msr_entry list \<Rightarrow> (nat \<times> 'v) option"
  get_lapic :: "'v \<Rightarrow> bytes option"
  set_lapic :: "'v \<Rightarrow> bytes \<Rightarrow> 'v option"
  set_mp_state :: "'v \<Rightarrow> mp_state \<Rightarrow> 'v option"
  get_regs :: "'v \<Rightarrow> kvm_regs option"

definition or_context :: "string \<Rightarrow> 'a option \<Rightarrow> boot_error + 'a" where
  "or_context what r = (case r of None \<Rightarrow> Inl (Context what) | Some x \<Rightarrow> Inr x)"

definition gdt_table :: "u64 list" where
  "gdt_table = [gdt_entry 0 0 0, gdt_entry 0xa09b 0 0xfffff, gdt_entry 0xc093 0 0xfffff,
     gdt_entry 0x808b 0 0xfffff]"

text \<open>The special registers as \<open>setup_sregs\<close> changes them.\<close>

definition boot_sregs :: "bool \<Rightarrow> 'o kvm_sregs \<Rightarrow> 'o kvm_sregs" where
  "boot_sregs x2apic sregs =
     (let code_seg = kvm_segment_from_gdt (gdt_table ! 1) 1;
          data_seg = kvm_segment_from_gdt (gdt_table ! 2) 2;
          tss_seg = kvm_segment_from_gdt (gdt_table ! 3) 3;
          sregs = sregs\<lparr>gdt := \<lparr>dt_base = GDT_OFFSET, dt_limit = of_nat (8 * length gdt_table) - 1\<rparr>,
            idt := \<lparr>dt_base = IDT_OFFSET, dt_limit = 8 - 1\<rparr>,
            seg_cs := code_seg, seg_ds := data_seg, seg_es := data_seg, seg_fs := data_seg,
            seg_gs := data_seg, seg_ss := data_seg, seg_tr := tss_seg,
            cr0 := CR0_PE OR CR0_PG, cr4 := CR4_PAE, efer := EFER_LME OR EFER_LMA, cr3 := PML4_START\<rparr>
      in if x2apic
         then sregs\<lparr>apic_base := apic_base sregs OR (X2APIC_ENABLE_BIT OR XAPIC_GLOBAL_ENABLE_BIT)\<rparr>
         else sregs)"

definition setup_sregs ::
  "('m \<Rightarrow> bytes \<Rightarrow> u64 \<Rightarrow> 'm option) \<Rightarrow> ('v, 'o) vcpu_api \<Rightarrow> bool \<Rightarrow> 'm \<Rightarrow> 'v \<Rightarrow> boot_error + 'm \<times> 'v" where
  "setup_sregs write_slice api x2apic m vcpu =
     and_then (fold_res (\<lambda>(i, entry). put_mem write_slice ''write GDT entry'' (to_le_bytes 8 entry)
                 (GDT_OFFSET + of_nat i * 8)) (enumerate 0 gdt_table) m) (\<lambda>m.
     and_then (put_mem write_slice ''write IDT'' (to_le_bytes 8 (0 :: u64)) IDT_OFFSET m) (\<lambda>m.
     and_then (setup_page_tables write_slice m) (\<lambda>m.
     and_then (or_context ''get sregs'' (get_sregs api vcpu)) (\<lambda>sregs.
     and_then (or_context ''set sregs'' (set_sregs api vcpu (boot_sregs x2apic sregs))) (\<lambda>vcpu.
     Inr (m, vcpu))))))"

definition setup_regs :: "('v, 'o) vcpu_api \<Rightarrow> 'v \<Rightarrow> u64 \<Rightarrow> boot_error + 'v" where
  "setup_regs api vcpu boot_ip =
     or_context ''set regs'' (set_regs api vcpu
       \<lparr>rflags = 0x2, rip = boot_ip, rsp = BOOT_STACK, rbp = BOOT_STACK, rsi = BOOT_PARAMS_ADDR\<rparr>)"

definition setup_fpu :: "('v, 'o) vcpu_api \<Rightarrow> 'v \<Rightarrow> boot_error + 'v" where
  "setup_fpu api vcpu = or_context ''set fpu'' (set_fpu api vcpu \<lparr>fcw = 0x37f, mxcsr = 0x1f80\<rparr>)"

definition default_msr_entries :: "kvm_msr_entry list" where
  "default_msr_entries =
     [\<lparr>msr_index = MSR_IA32_SYSENTER_CS, msr_data = 0\<rparr>,
      \<lparr>msr_index = MSR_IA32_SYSENTER_ESP, msr_data = 0\<rparr>,
      \<lparr>msr_index = MSR_IA32_SYSENTER_EIP, msr_data = 0\<rparr>,
      \<lparr>msr_index = MSR_STAR, msr_data = 0\<rparr>,
      \<lparr>msr_index = MSR_CSTAR, msr_data = 0\<rparr>,
      \<lparr>msr_index = MSR_KERNEL_GS_BASE, msr_data = 0\<rparr>,
      \<lparr>msr_index = MSR_SYSCALL_MASK, msr_data = 0\<rparr>,
      \<lparr>msr_index = MSR_LSTAR, msr_data = 0\<rparr>,
      \<lparr>msr_index = MSR_IA32_TSC, msr_data = 0\<rparr>,
      \<lparr>msr_index = MSR_IA32_MISC_ENABLE, msr_data = MSR_IA32_MISC_ENABLE_FAST_STRING\<rparr>,
      \<lparr>msr_index = MSR_MTRR_DEF_TYPE, msr_data = MTRR_ENABLE OR MTRR_MEM_TYPE_WB\<rparr>]"

text \<open>One turn of the merge loop: the first entry with the index is overwritten, or a new one added.\<close>

fun merge_msr :: "kvm_msr_entry \<Rightarrow> kvm_msr_entry list \<Rightarrow> kvm_msr_entry list" where
  "merge_msr x [] = [x]"
| "merge_msr x (e # es) =
     (if msr_index e = msr_index x then e\<lparr>msr_data := msr_data x\<rparr> # es else e # merge_msr x es)"

definition boot_msrs :: "kvm_msr_entry list option \<Rightarrow> kvm_msr_entry list" where
  "boot_msrs extra =
     (case extra of Some extras \<Rightarrow> fold merge_msr extras default_msr_entries | None \<Rightarrow> default_msr_entries)"

text \<open>\<^verbatim>\<open>Msrs::from_entries\<close> refuses more entries than \<^verbatim>\<open>KVM_MAX_MSR_ENTRIES\<close>, the parameter \<open>max_entries\<close>.\<close>

definition setup_msrs ::
  "('v, 'o) vcpu_api \<Rightarrow> nat \<Rightarrow> 'v \<Rightarrow> kvm_msr_entry list option \<Rightarrow> boot_error + 'v" where
  "setup_msrs api max_entries vcpu extra =
     (let entries = boot_msrs extra in
      if length entries > max_entries then Inl (Context ''create MSR entries'')
      else and_then (or_context ''set boot MSRs'' (set_msrs api vcpu entries)) (\<lambda>(written, vcpu).
        if written \<noteq> length entries then Inl (ShortMsrs written (length entries)) else Inr vcpu))"

definition get_klapic_reg :: "bytes \<Rightarrow> nat \<Rightarrow> u32" where
  "get_klapic_reg lapic reg_offset =
     from_le_bytes [lapic ! reg_offset, lapic ! (reg_offset + 1), lapic ! (reg_offset + 2), lapic ! (reg_offset + 3)]"

definition set_klapic_reg :: "bytes \<Rightarrow> nat \<Rightarrow> u32 \<Rightarrow> bytes" where
  "set_klapic_reg lapic reg_offset value =
     (let bs = to_le_bytes 4 value in
      lapic[reg_offset := bs ! 0, reg_offset + 1 := bs ! 1, reg_offset + 2 := bs ! 2, reg_offset + 3 := bs ! 3])"

definition set_apic_delivery_mode :: "u32 \<Rightarrow> u32 \<Rightarrow> u32" where
  "set_apic_delivery_mode reg mode = (reg AND NOT 0x700) OR rust_shl mode 8"

text \<open>The register array as \<open>setup_lapic\<close> changes it.\<close>

definition boot_lapic :: "bool \<Rightarrow> bytes \<Rightarrow> bytes" where
  "boot_lapic is_bsp lapic =
     (let lvt0 = get_klapic_reg lapic APIC_LVT0;
          lvt1 = get_klapic_reg lapic APIC_LVT1
      in if is_bsp
         then set_klapic_reg (set_klapic_reg lapic APIC_LVT0 (set_apic_delivery_mode lvt0 APIC_MODE_EXTINT))
                APIC_LVT1 (set_apic_delivery_mode lvt1 APIC_MODE_NMI)
         else set_klapic_reg (set_klapic_reg lapic APIC_LVT0 (lvt0 OR APIC_LVT_MASKED))
                APIC_LVT1 (lvt1 OR APIC_LVT_MASKED))"

definition setup_lapic :: "('v, 'o) vcpu_api \<Rightarrow> 'v \<Rightarrow> bool \<Rightarrow> boot_error + 'v" where
  "setup_lapic api vcpu is_bsp =
     and_then (or_context ''get lapic'' (get_lapic api vcpu)) (\<lambda>lapic.
     or_context ''set lapic'' (set_lapic api vcpu (boot_lapic is_bsp lapic)))"

section \<open>Putting it together\<close>

text \<open>The end of \<^verbatim>\<open>setup_memory\<close>: from the assembled command line to the firmware tables.\<close>

definition firmware :: "acpi_error + 'a \<Rightarrow> boot_error + 'a" where
  "firmware r = (case r of Inl e \<Rightarrow> Inl (Firmware e) | Inr x \<Rightarrow> Inr x)"

definition setup_memory_tail ::
  "('m \<Rightarrow> bytes \<Rightarrow> u64 \<Rightarrow> 'm option) \<Rightarrow> ('m \<Rightarrow> u64 \<Rightarrow> nat \<Rightarrow> bytes option) \<Rightarrow> ('h boot_params \<Rightarrow> bytes) \<Rightarrow> 'h
     \<Rightarrow> bytes \<Rightarrow> u32 \<Rightarrow> u64 option \<Rightarrow> u32 option \<Rightarrow> 'h setup_header option \<Rightarrow> topology \<Rightarrow> numa_layout
     \<Rightarrow> 'm \<Rightarrow> boot_error + acpi_layout \<times> 'm" where
  "setup_memory_tail write_slice read_slice params_bytes h0 cmdline mem_mb initrd_addr initrd_size h topo layout m =
     and_then (write_cmdline write_slice cmdline m) (\<lambda>m.
     and_then (write_boot_params write_slice params_bytes h0 cmdline mem_mb initrd_addr initrd_size h m) (\<lambda>m.
     and_then (firmware (setup_mptable write_slice read_slice m topo)) (\<lambda>m.
     firmware (setup_acpi write_slice m topo layout))))"

definition setup_ap :: "('v, 'o) vcpu_api \<Rightarrow> 'v \<Rightarrow> boot_error + 'v" where
  "setup_ap api vcpu =
     and_then (setup_fpu api vcpu) (\<lambda>vcpu.
     and_then (setup_lapic api vcpu False) (\<lambda>vcpu.
     or_context ''set AP mp_state'' (set_mp_state api vcpu MpUninitialized)))"

definition setup_vcpus ::
  "('m \<Rightarrow> bytes \<Rightarrow> u64 \<Rightarrow> 'm option) \<Rightarrow> ('v, 'o) vcpu_api \<Rightarrow> nat \<Rightarrow> bool \<Rightarrow> u64 \<Rightarrow> 'm \<Rightarrow> 'v list
     \<Rightarrow> boot_error + 'm \<times> 'v list" where
  "setup_vcpus write_slice api max_entries split_irqchip kernel_entry m vcpus =
     (case vcpus of
        [] \<Rightarrow> Inl IndexPanic
      | bsp # aps \<Rightarrow>
          and_then (setup_sregs write_slice api split_irqchip m bsp) (\<lambda>(m, bsp).
          and_then (setup_regs api bsp kernel_entry) (\<lambda>bsp.
          and_then (setup_fpu api bsp) (\<lambda>bsp.
          and_then (setup_msrs api max_entries bsp None) (\<lambda>bsp.
          and_then (setup_lapic api bsp True) (\<lambda>bsp.
          and_then (or_context ''set BSP mp_state'' (set_mp_state api bsp MpRunnable)) (\<lambda>bsp.
          and_then (fold_res (\<lambda>ap done. and_then (setup_ap api ap) (\<lambda>ap. Inr (done @ [ap]))) aps []) (\<lambda>aps.
          Inr (m, bsp # aps)))))))))"

section \<open>Specification functions\<close>

text \<open>Several writes, one after the other, on a byte string; and writes that keep clear of each other.\<close>

definition apply_writes :: "(nat \<times> bytes) list \<Rightarrow> bytes \<Rightarrow> bytes" where
  "apply_writes ws mem = fold (\<lambda>(a, bs). overwrite a bs) ws mem"

definition fits :: "nat \<Rightarrow> (nat \<times> bytes) list \<Rightarrow> bool" where
  "fits n ws \<longleftrightarrow> (\<forall>(a, bs) \<in> set ws. a + length bs \<le> n)"

definition apart :: "nat \<times> bytes \<Rightarrow> nat \<times> bytes \<Rightarrow> bool" where
  "apart v w \<longleftrightarrow> fst v + length (snd v) \<le> fst w \<or> fst w + length (snd w) \<le> fst v"

definition pde :: "nat \<Rightarrow> bytes" where
  "pde i = to_le_bytes 8 (rust_shl (of_nat i :: u64) 21 OR 0x83)"

definition pt_writes :: "(nat \<times> bytes) list" where
  "pt_writes = [(0x9000, to_le_bytes 8 (0xa003 :: u64)), (0xa000, to_le_bytes 8 (0xb003 :: u64))]
     @ map (\<lambda>i. (0xb000 + 8 * i, pde i)) [0..<512]"

definition sregs_writes :: "(nat \<times> bytes) list" where
  "sregs_writes = [(0x500, to_le_bytes 8 (gdt_table ! 0)), (0x508, to_le_bytes 8 (gdt_table ! 1)),
     (0x510, to_le_bytes 8 (gdt_table ! 2)), (0x518, to_le_bytes 8 (gdt_table ! 3)),
     (0x520, to_le_bytes 8 (0 :: u64))] @ pt_writes"

text \<open>
  What KVM promises of a vCPU, as far as its interface is documented. \<open>KVM_SET_SREGS\<close> takes over a state that
  passes its checks of the mode bits and the segments, when the registers outside of the model and the address of the
  local interrupt controller stay what they were, and the state is then read back. \<open>KVM_SET_MSRS\<close> writes
  registers that exist with values they may have; those of \<open>plain_msr\<close> are not part of the special
  registers, which \<open>IA32_EFER\<close>, \<open>FS_BASE\<close>, \<open>GS_BASE\<close> and \<open>IA32_APIC_BASE\<close> are. \<open>KVM_SET_LAPIC\<close>
  takes over new values of the two local vector entries. No other register is affected by any of these.
\<close>

definition segment_valid :: "kvm_segment \<Rightarrow> bool" where
  "segment_valid seg \<longleftrightarrow> present seg = 1 \<and> unusable seg = 0 \<and> \<not> (seg_l seg = 1 \<and> seg_db seg = 1)
     \<and> (if seg_g seg = 1 then seg_limit seg AND 0xfff = 0xfff else seg_g seg = 0 \<and> seg_limit seg < 0x100000)"

definition sregs_valid :: "'o kvm_sregs \<Rightarrow> bool" where
  "sregs_valid s \<longleftrightarrow>
     (\<forall>seg \<in> {seg_cs s, seg_ds s, seg_es s, seg_fs s, seg_gs s, seg_ss s}.
        segment_valid seg \<and> seg_s seg = 1 \<and> bit (seg_type seg) 0) \<and>
     segment_valid (seg_tr s) \<and> seg_s (seg_tr s) = 0 \<and> seg_type (seg_tr s) = 11 \<and>
     drop_bit 32 (cr0 s) = 0 \<and> (bit (cr0 s) 31 \<longrightarrow> bit (cr0 s) 0) \<and> (bit (cr0 s) 29 \<longrightarrow> bit (cr0 s) 30) \<and>
     cr4 s AND NOT 0x7ff = 0 \<and> efer s AND NOT 0xd01 = 0 \<and> cr3 s AND NOT 0xfffff000 = 0 \<and>
     (if bit (efer s) 8 \<and> bit (cr0 s) 31 then bit (cr4 s) 5 \<and> bit (efer s) 10
      else \<not> bit (efer s) 10 \<and> seg_l (seg_cs s) = 0) \<and>
     (bit (apic_base s) 10 \<longrightarrow> bit (apic_base s) 11)"

definition plain_msr :: "kvm_msr_entry \<Rightarrow> bool" where
  "plain_msr e \<longleftrightarrow>
     msr_index e \<in> {0x10, 0x174, 0xc0000081, 0xc0000084} \<or>
     msr_index e \<in> {0x175, 0x176, 0xc0000082, 0xc0000083, 0xc0000102} \<and> msr_data e < 2 ^ 47 \<or>
     msr_index e = 0x1a0 \<and> msr_data e AND NOT 1 = 0 \<or>
     msr_index e = 0x2ff \<and> msr_data e AND NOT 0xcff = 0 \<and> take_bit 8 (msr_data e) \<in> {0, 1, 4, 5, 6}"

definition lvt_update :: "bytes \<Rightarrow> bytes \<Rightarrow> bool" where
  "lvt_update l0 l \<longleftrightarrow> length l = length l0 \<and>
     (\<forall>i < length l. i \<notin> {0x350..<0x354} \<union> {0x360..<0x364} \<longrightarrow> l ! i = l0 ! i)"

text \<open>The local vector entries of a register array, and what only the special and general registers of a vCPU show.\<close>

definition lvts_of :: "bytes \<Rightarrow> u32 \<times> u32" where
  "lvts_of l = (get_klapic_reg l 0x350, get_klapic_reg l 0x360)"

definition regs_kept :: "('v, 'o) vcpu_api \<Rightarrow> 'v \<Rightarrow> 'v \<Rightarrow> bool" where
  "regs_kept api v v' \<longleftrightarrow> get_sregs api v' = get_sregs api v \<and> get_regs api v' = get_regs api v"

definition vcpu_law :: "('v, 'o) vcpu_api \<Rightarrow> bool" where
  "vcpu_law api \<longleftrightarrow>
     (\<forall>v. (\<exists>s. get_sregs api v = Some s \<and> (bit (apic_base s) 10 \<longrightarrow> bit (apic_base s) 11))
        \<and> (\<exists>l. get_lapic api v = Some l \<and> length l = 1024)) \<and>
     (\<forall>v s0 s. get_sregs api v = Some s0 \<and> sregs_valid s \<and> sregs_other s = sregs_other s0
        \<and> apic_base s AND NOT 0xc00 = apic_base s0 AND NOT 0xc00 \<longrightarrow>
        (\<exists>v'. set_sregs api v s = Some v' \<and> get_sregs api v' = Some s)) \<and>
     (\<forall>v r. bit (rflags r) 1 \<longrightarrow>
        (\<exists>v'. set_regs api v r = Some v' \<and> get_sregs api v' = get_sregs api v \<and> get_regs api v' = Some r)) \<and>
     (\<forall>v f. \<exists>v'. set_fpu api v f = Some v' \<and> regs_kept api v v') \<and>
     (\<forall>v es. list_all plain_msr es \<longrightarrow> (\<exists>v'. set_msrs api v es = Some (length es, v') \<and> regs_kept api v v')) \<and>
     (\<forall>v l0 l. get_lapic api v = Some l0 \<and> lvt_update l0 l \<longrightarrow>
        (\<exists>v' l'. set_lapic api v l = Some v' \<and> regs_kept api v v' \<and> get_lapic api v' = Some l' \<and> lvts_of l' = lvts_of l)) \<and>
     (\<forall>v p. \<exists>v'. set_mp_state api v p = Some v' \<and> regs_kept api v v' \<and> get_lapic api v' = get_lapic api v)"

text \<open>The local vector entries of a vCPU.\<close>

definition lvts :: "('v, 'o) vcpu_api \<Rightarrow> 'v \<Rightarrow> u32 \<times> u32" where
  "lvts api v = lvts_of (the (get_lapic api v))"

section \<open>Specification functions and sample values\<close>

definition msr_lookup :: "kvm_msr_entry list \<Rightarrow> u32 \<Rightarrow> u64 option" where
  "msr_lookup es i = map_option msr_data (find (\<lambda>e. msr_index e = i) es)"

section \<open>Writes to memory\<close>

lemma apply_writes_simps [simp]:
  "apply_writes [] mem = mem"
  "apply_writes ((a, bs) # ws) mem = apply_writes ws (overwrite a bs mem)"
  "apply_writes (ws @ ws') mem = apply_writes ws' (apply_writes ws mem)"
  by (simp_all add: apply_writes_def)

lemma fits_simps [simp]:
  "fits n []"
  "fits n (w # ws) \<longleftrightarrow> fst w + length (snd w) \<le> n \<and> fits n ws"
  "fits n (ws @ ws') \<longleftrightarrow> fits n ws \<and> fits n ws'"
  by (auto simp: fits_def)

lemma length_apply_writes [simp]: "fits (length mem) ws \<Longrightarrow> length (apply_writes ws mem) = length mem"
  by (induction ws arbitrary: mem) auto

lemma apply_writes_other:
  "fits (length mem) ws \<Longrightarrow> \<forall>w \<in> set ws. fst w + length (snd w) \<le> p \<or> p + n \<le> fst w \<Longrightarrow>
   take n (drop p (apply_writes ws mem)) = take n (drop p mem)"
proof (induction ws arbitrary: mem)
  case (Cons w ws)
  obtain a bs where w: "w = (a, bs)" by (cases w)
  have "take n (drop p (overwrite a bs mem)) = take n (drop p mem)"
    using Cons.prems w by (intro take_drop_overwrite_other) auto
  with Cons show ?case by (simp add: w)
qed simp

lemma apply_writes_same:
  assumes "fits (length mem) ws" and "sorted_wrt apart ws" and "(a, bs) \<in> set ws"
  shows "take (length bs) (drop a (apply_writes ws mem)) = bs"
  using assms
proof (induction ws arbitrary: mem)
  case (Cons w ws)
  obtain b cs where w: "w = (b, cs)" by (cases w)
  show ?case
  proof (cases "(a, bs) = w")
    case True
    then have "\<forall>v \<in> set ws. fst v + length (snd v) \<le> a \<or> a + length bs \<le> fst v"
      using Cons.prems by (auto simp: apart_def)
    moreover have "take (length bs) (drop a (overwrite a bs mem)) = bs"
      using Cons.prems True by (intro take_drop_overwrite_same) auto
    ultimately show ?thesis
      using apply_writes_other [of "overwrite a bs mem" ws a "length bs"] Cons.prems True w by auto
  next
    case False
    with Cons.prems have "(a, bs) \<in> set ws" by simp
    with Cons.IH [of "overwrite b cs mem"] Cons.prems w show ?thesis by simp
  qed
qed simp

lemma put_mem_writes:
  assumes "ram_law ws contents" and "unat a + length bs \<le> length (contents m)"
  shows "\<exists>m'. put_mem ws what bs a m = Inr m' \<and> contents m' = apply_writes [(unat a, bs)] (contents m)"
proof -
  obtain m' where "ws m bs a = Some m'" "contents m' = overwrite (unat a) bs (contents m)"
    by (rule ram_law_write [OF assms])
  then show ?thesis by (simp add: put_mem_def)
qed

lemma fold_put_mem_writes:
  assumes "ram_law ws contents" and "fits (length (contents m)) (map (\<lambda>x. (unat (g x), f x)) xs)"
  shows "\<exists>m'. fold_res (\<lambda>x. put_mem ws what (f x) (g x)) xs m = Inr m'
    \<and> contents m' = apply_writes (map (\<lambda>x. (unat (g x), f x)) xs) (contents m)"
  using assms(2)
proof (induction xs arbitrary: m)
  case (Cons x xs)
  then obtain m1 where m1: "put_mem ws what (f x) (g x) m = Inr m1"
    "contents m1 = overwrite (unat (g x)) (f x) (contents m)"
    using put_mem_writes [OF assms(1), of "g x" "f x" m what] by auto
  moreover have "length (contents m1) = length (contents m)" using Cons.prems m1(2) by simp
  ultimately show ?case using Cons.IH [of m1] Cons.prems by auto
qed simp

section \<open>Page tables\<close>

lemma length_pde [simp]: "length (pde i) = 8"
  by (simp add: pde_def)

lemma pt_writes_fit: "0xc000 \<le> n \<Longrightarrow> fits n pt_writes"
  by (auto simp: pt_writes_def fits_def)

lemma pt_writes_range: "w \<in> set pt_writes \<Longrightarrow> 0x9000 \<le> fst w \<and> fst w + length (snd w) \<le> 0xc000"
  by (auto simp: pt_writes_def)

lemma pt_writes_apart: "sorted_wrt apart pt_writes"
proof -
  have "sorted_wrt apart (map (\<lambda>i. (0xb000 + 8 * i, pde i)) [0..<512])"
    unfolding sorted_wrt_map by (rule sorted_wrt_mono_rel [OF _ sorted_wrt_upt]) (simp add: apart_def)
  then show ?thesis by (auto simp: pt_writes_def apart_def)
qed

lemma setup_page_tables_writes:
  assumes law: "ram_law ws contents" and fit: "0xc000 \<le> length (contents m)"
  shows "\<exists>m'. setup_page_tables ws m = Inr m' \<and> contents m' = apply_writes pt_writes (contents m)"
proof -
  obtain m1 where m1: "put_mem ws ''write PML4'' (to_le_bytes 8 (PDPTE_START OR 0x03)) PML4_START m = Inr m1"
    "contents m1 = overwrite 0x9000 (to_le_bytes 8 (0xa003 :: u64)) (contents m)"
    using put_mem_writes [OF law, of PML4_START "to_le_bytes 8 (PDPTE_START OR 0x03)" m "''write PML4''"] fit
    by (auto simp: PML4_START_def PDPTE_START_def)
  have l1: "length (contents m1) = length (contents m)" using m1(2) fit by simp
  obtain m2 where m2: "put_mem ws ''write PDPTE'' (to_le_bytes 8 (PDE_START OR 0x03)) PDPTE_START m1 = Inr m2"
    "contents m2 = overwrite 0xa000 (to_le_bytes 8 (0xb003 :: u64)) (contents m1)"
    using put_mem_writes [OF law, of PDPTE_START "to_le_bytes 8 (PDE_START OR 0x03)" m1 "''write PDPTE''"] fit l1
    by (auto simp: PDE_START_def PDPTE_START_def)
  have l2: "length (contents m2) = length (contents m)" using m2(2) fit l1 by simp
  have addr: "unat (PDE_START + of_nat i * 8) = 0xb000 + 8 * i" if "i < 512" for i
  proof -
    have "PDE_START + of_nat i * 8 = of_nat (0xb000 + 8 * i)" by (simp add: PDE_START_def)
    also have "unat \<dots> = 0xb000 + 8 * i" using that by (intro unat_of_nat_no_overflow) simp
    finally show ?thesis .
  qed
  have eq: "map (\<lambda>i. (unat (PDE_START + i * 8), to_le_bytes 8 (rust_shl i 21 OR 0x83))) (map of_nat [0..<512])
      = map (\<lambda>i. (0xb000 + 8 * i, pde i)) [0..<512]"
    using addr by (simp add: pde_def comp_def)
  have "fits (length (contents m2)) (map (\<lambda>i. (0xb000 + 8 * i, pde i)) [0..<512])"
    using pt_writes_fit [OF fit] unfolding pt_writes_def l2 by simp
  then obtain m3 where "fold_res (\<lambda>i. put_mem ws ''write PDE'' (to_le_bytes 8 (rust_shl i 21 OR 0x83)) (PDE_START + i * 8))
      (map of_nat [0..<512]) m2 = Inr m3"
    "contents m3 = apply_writes (map (\<lambda>i. (0xb000 + 8 * i, pde i)) [0..<512]) (contents m2)"
    using fold_put_mem_writes [OF law, of m2 "\<lambda>i. PDE_START + i * 8" "\<lambda>i. to_le_bytes 8 (rust_shl i 21 OR 0x83)" "map of_nat [0..<512]" "''write PDE''"]
    unfolding eq by blast
  with m1 m2 show ?thesis by (simp add: setup_page_tables_def pt_writes_def)
qed

text \<open>A view of the memory whose first region holds the boot structures.\<close>

lemma read_u64_low:
  assumes "valid_mem g" and "gm_regions g = r # rs" and "0xc000 \<le> unat (mr_size r)" and "unat pa + 8 \<le> 0xc000"
  shows "read_u64 g pa 0 = from_le_bytes (take 8 (drop (unat pa) (flat g)))"
proof -
  from assms(1,2) have o: "unat (mr_offset r) = 0" "length (mr_bytes r) = unat (mr_size r)"
    by (simp_all add: valid_mem_def)
  with assms(2) have "unat (mr_size r) \<le> length (flat g)" by (simp add: flat_def)
  with assms o have "accessible g pa 0 8" by (auto simp: accessible_def in_region_def)
  then show ?thesis using read_scalar_flat [OF assms(1), of 8 pa 0] by (simp add: read_u64_def)
qed

lemma index_field:
  fixes kva :: u64
  assumes "k + 9 \<le> 48"
  shows "unat (drop_bit k kva AND 0x1FF) = unat (take_bit 48 kva) div 2 ^ k mod 512"
proof -
  have m: "(0x1FF :: u64) = mask 9" by (simp add: mask_eq_exp_minus_1)
  have "drop_bit k kva AND 0x1FF = take_bit 9 (drop_bit k (take_bit 48 kva))"
    using assms unfolding m
    by (auto simp: bit_eq_iff bit_and_iff bit_drop_bit_eq bit_take_bit_iff bit_mask_iff)
  moreover have "unat (take_bit 9 (drop_bit k w)) = unat w div 2 ^ k mod 512" for w :: u64
  proof -
    have "unat (take_bit 9 (drop_bit k w)) = take_bit 9 (unat (drop_bit k w))" by (rule unsigned_take_bit_eq)
    also have "unat (drop_bit k w) = unat w div 2 ^ k" unfolding unat_drop_bit_eq by (rule drop_bit_eq_div)
    finally show ?thesis by (simp add: take_bit_eq_mod)
  qed
  ultimately show ?thesis by simp
qed

lemma low_48_less: "unat (take_bit 48 (kva :: u64)) < 2 ^ 48"
  using take_bit_nat_less_exp [of 48 "unat kva"] by (simp add: unsigned_take_bit_eq)

lemma big_page_address:
  fixes kva :: u64
  shows "((rust_shl (drop_bit 21 kva AND 0x1FF) 21 OR 0x83) AND 0x000FFFFFFFE00000) OR (kva AND 0x1FFFFF) = take_bit 30 kva"
proof -
  let ?x = "rust_shl (drop_bit 21 kva AND 0x1FF) 21"
  have x: "(?x OR 0x83) AND 0x000FFFFFFFE00000 = ?x AND 0x000FFFFFFFE00000"
    by (simp add: bit.conj_disj_distrib2)
  have m: "(0x000FFFFFFFE00000 :: u64) = push_bit 21 (mask 31)" "(0x1FF :: u64) = mask 9" "(0x1FFFFF :: u64) = mask 21"
    by (simp_all add: mask_eq_exp_minus_1)
  show ?thesis
    unfolding x unfolding m rust_shl_def
    by (auto simp: bit_eq_iff bit_or_iff bit_and_iff bit_push_bit_iff bit_drop_bit_eq bit_take_bit_iff bit_mask_iff)
qed

lemma walk_boot_tables:
  assumes pgd: "\<And>j. j < 512 \<Longrightarrow> read_u64 g (of_nat (0x9000 + 8 * j)) 0 = (if j = 0 then 0xa003 else 0)"
    and pud: "\<And>j. j < 512 \<Longrightarrow> read_u64 g (of_nat (0xa000 + 8 * j)) 0 = (if j = 0 then 0xb003 else 0)"
    and pmd: "\<And>j. j < 512 \<Longrightarrow> read_u64 g (of_nat (0xb000 + 8 * j)) 0 = rust_shl (of_nat j) 21 OR 0x83"
  shows "walk_4level g PML4_START kva = (if take_bit 48 kva < 2 ^ 30 then Some (take_bit 48 kva) else None)"
proof -
  define v where "v = unat (take_bit 48 kva)"
  have v: "v < 2 ^ 48" unfolding v_def by (rule low_48_less)
  define i1 i2 i3 where i: "i1 = drop_bit 39 kva AND 0x1FF" "i2 = drop_bit 30 kva AND 0x1FF" "i3 = drop_bit 21 kva AND 0x1FF"
  have u: "unat i1 = v div 2 ^ 39 mod 512" "unat i2 = v div 2 ^ 30 mod 512" "unat i3 = v div 2 ^ 21 mod 512"
    unfolding i v_def by (rule index_field, simp)+
  have lt: "unat i1 < 512" "unat i2 < 512" "unat i3 < 512" by (simp_all add: u)
  have a: "b + w * 8 = of_nat (unat b + 8 * unat w)" for b w :: u64 by simp
  have r1: "read_u64 g ((PML4_START AND ADDR_MASK) + i1 * 8) 0 = (if unat i1 = 0 then 0xa003 else 0)"
    using pgd [OF lt(1)] by (simp add: a PML4_START_def ADDR_MASK_def)
  have r2: "read_u64 g ((0xa003 AND ADDR_MASK) + i2 * 8) 0 = (if unat i2 = 0 then 0xb003 else 0)"
    using pud [OF lt(2)] by (simp add: a ADDR_MASK_def)
  have r3: "read_u64 g ((0xb003 AND ADDR_MASK) + i3 * 8) 0 = rust_shl i3 21 OR 0x83"
    using pmd [OF lt(3)] by (simp add: a ADDR_MASK_def)
  have flags: "(w OR 0x83) AND PRESENT \<noteq> 0" "(w OR 0x83) AND PS \<noteq> 0" for w :: u64
    by (auto simp: PRESENT_def PS_def bit.conj_disj_distrib2)
  have zero: "unat i1 = 0 \<and> unat i2 = 0 \<longleftrightarrow> take_bit 48 kva < 2 ^ 30"
  proof -
    have i1: "unat i1 = v div 2 ^ 39" unfolding u using v by (intro mod_less less_mult_imp_div_less) simp
    have "unat i1 = 0 \<and> unat i2 = 0 \<longleftrightarrow> v < 2 ^ 30"
    proof (cases "v < 2 ^ 39")
      case True
      then have "unat i2 = v div 2 ^ 30" unfolding u by (intro mod_less less_mult_imp_div_less) simp
      with i1 True show ?thesis by (simp add: div_eq_0_iff)
    next
      case False
      then have "v div 2 ^ 39 \<noteq> 0" by (simp add: div_eq_0_iff)
      with i1 False show ?thesis by simp
    qed
    then show ?thesis by (simp add: v_def word_less_nat_alt)
  qed
  have "take_bit 30 kva = take_bit 48 kva" if "take_bit 48 kva < 2 ^ 30"
  proof -
    have "take_bit 30 kva = take_bit 30 (take_bit 48 kva)" by (simp add: take_bit_take_bit)
    also have "\<dots> = take_bit 48 kva"
    proof (rule unsigned_word_eqI [where 'a = nat])
      have "unat (take_bit 48 kva) < 2 ^ 30" using that by (simp add: word_less_nat_alt)
      then show "unat (take_bit 30 (take_bit 48 kva)) = unat (take_bit 48 kva)"
        unfolding unsigned_take_bit_eq [of 30 "take_bit 48 kva"] by (rule take_bit_nat_eq_self)
    qed
    finally show ?thesis .
  qed
  with r1 r2 r3 flags zero big_page_address [of kva] show ?thesis
    unfolding walk_4level_def Let_def i [symmetric]
    by (cases "unat i1 = 0"; cases "unat i2 = 0") (simp_all add: PRESENT_def PS_def)
qed

lemma zero_slice:
  assumes "take n (drop p xs) = replicate n 0" and "a + k \<le> n"
  shows "take k (drop (p + a) xs) = replicate k (0 :: u8)"
proof -
  have "take k (drop (p + a) xs) = take k (drop a (take n (drop p xs)))"
    using assms(2) by (simp add: drop_take add.commute min_def)
  also have "\<dots> = replicate k 0" unfolding assms(1) using assms(2) by (simp add: min_def)
  finally show ?thesis .
qed

text \<open>
  The tables in memory translate as intended, whatever else was written elsewhere; the parts of the
  two upper tables that the code does not write are taken to be zero.
\<close>

lemma boot_walk:
  assumes g: "valid_mem g" "gm_regions g = r # rs" "0xc000 \<le> unat (mr_size r)"
    and flat: "flat g = apply_writes pt_writes mem" and fit: "0xc000 \<le> length mem"
    and zero: "take 0x2000 (drop 0x9000 mem) = replicate 0x2000 0"
  shows "walk_4level g PML4_START kva = (if take_bit 48 kva < 2 ^ 30 then Some (take_bit 48 kva) else None)"
proof (rule walk_boot_tables)
  note fits = pt_writes_fit [OF fit]
  have rd: "read_u64 g (of_nat a) 0 = from_le_bytes (take 8 (drop a (flat g)))" if "a + 8 \<le> 0xc000" for a
  proof -
    have "unat (of_nat a :: u64) = a" using that by (intro unat_of_nat_no_overflow) simp
    with read_u64_low [OF g, of "of_nat a"] that show ?thesis by simp
  qed
  have hit: "take 8 (drop a (flat g)) = bs" if "(a, bs) \<in> set pt_writes" "length bs = 8" for a bs
    using apply_writes_same [OF fits pt_writes_apart that(1)] that(2) by (simp add: flat)
  have miss: "take 8 (drop (0x9000 + a) (flat g)) = replicate 8 0"
    if "a + 8 \<le> 0x2000" "a \<ge> 8" "a + 8 \<le> 0x1000 \<or> a \<ge> 0x1008" for a
  proof -
    have "take 8 (drop (0x9000 + a) (flat g)) = take 8 (drop (0x9000 + a) mem)"
      unfolding flat using that by (intro apply_writes_other [OF fits]) (auto simp: pt_writes_def)
    also have "\<dots> = replicate 8 0" by (rule zero_slice [OF zero that(1)])
    finally show ?thesis .
  qed
  fix j :: nat
  assume j: "j < 512"
  have le: "from_le_bytes (to_le_bytes 8 (w :: u64)) = w" for w by (rule from_le_to_le) simp
  show "read_u64 g (of_nat (0x9000 + 8 * j)) 0 = (if j = 0 then 0xa003 else 0)"
    using j rd [of "0x9000 + 8 * j"] hit [of "0x9000" "to_le_bytes 8 (0xa003 :: u64)"] miss [of "8 * j"]
    by (cases "j = 0") (simp_all add: pt_writes_def le from_le_bytes_zeros)
  show "read_u64 g (of_nat (0xa000 + 8 * j)) 0 = (if j = 0 then 0xb003 else 0)"
    using j rd [of "0xa000 + 8 * j"] hit [of "0xa000" "to_le_bytes 8 (0xb003 :: u64)"] miss [of "0x1000 + 8 * j"]
    by (cases "j = 0") (simp_all add: pt_writes_def le from_le_bytes_zeros)
  show "read_u64 g (of_nat (0xb000 + 8 * j)) 0 = rust_shl (of_nat j) 21 OR 0x83"
    using j rd [of "0xb000 + 8 * j"] hit [of "0xb000 + 8 * j" "pde j"]
    by (simp add: pt_writes_def pde_def le)
qed

section \<open>Registers\<close>

lemma boot_sregs_segments:
  "seg_cs (boot_sregs b s) = kvm_segment_from_gdt (gdt_entry 0xa09b 0 0xfffff) 1"
  "seg_ds (boot_sregs b s) = kvm_segment_from_gdt (gdt_entry 0xc093 0 0xfffff) 2"
  "seg_es (boot_sregs b s) = kvm_segment_from_gdt (gdt_entry 0xc093 0 0xfffff) 2"
  "seg_fs (boot_sregs b s) = kvm_segment_from_gdt (gdt_entry 0xc093 0 0xfffff) 2"
  "seg_gs (boot_sregs b s) = kvm_segment_from_gdt (gdt_entry 0xc093 0 0xfffff) 2"
  "seg_ss (boot_sregs b s) = kvm_segment_from_gdt (gdt_entry 0xc093 0 0xfffff) 2"
  "seg_tr (boot_sregs b s) = kvm_segment_from_gdt (gdt_entry 0x808b 0 0xfffff) 3"
  by (simp_all add: boot_sregs_def gdt_table_def Let_def)

lemma boot_sregs_control:
  "cr0 (boot_sregs b s) = 0x80000001" "cr4 (boot_sregs b s) = 0x20" "efer (boot_sregs b s) = 0x500"
  "cr3 (boot_sregs b s) = PML4_START" "sregs_other (boot_sregs b s) = sregs_other s"
  by (simp_all add: boot_sregs_def Let_def CR0_PE_def CR0_PG_def CR4_PAE_def EFER_LME_def EFER_LMA_def)

lemma boot_sregs_apic:
  "apic_base (boot_sregs b s) = (if b then apic_base s OR 0xc00 else apic_base s)"
  by (simp add: boot_sregs_def Let_def X2APIC_ENABLE_BIT_def XAPIC_GLOBAL_ENABLE_BIT_def rust_shl_def)

lemma x2apic_bits: "bit (w OR 0xc00 :: u64) 10" "bit (w OR 0xc00 :: u64) 11" "(w OR 0xc00) AND NOT 0xc00 = w AND NOT 0xc00"
  by (simp_all add: bit_or_iff bit.conj_disj_distrib2)

text \<open>KVM's checks accept what \<open>setup_sregs\<close>, \<open>setup_msrs\<close> and \<open>setup_lapic\<close> hand it.\<close>

lemma boot_segments_valid:
  "segment_valid (kvm_segment_from_gdt (gdt_entry 0xa09b 0 0xfffff) 1)"
  "segment_valid (kvm_segment_from_gdt (gdt_entry 0xc093 0 0xfffff) 2)"
  "segment_valid (kvm_segment_from_gdt (gdt_entry 0x808b 0 0xfffff) 3)"
  by (simp_all add: segment_valid_def kvm_segment_from_gdt_def gdt_entry_def rust_shl_def rust_shr_def Let_def)

lemma boot_segments_types:
  "seg_s (kvm_segment_from_gdt (gdt_entry 0xa09b 0 0xfffff) 1) = 1" "seg_type (kvm_segment_from_gdt (gdt_entry 0xa09b 0 0xfffff) 1) = 11"
  "seg_s (kvm_segment_from_gdt (gdt_entry 0xc093 0 0xfffff) 2) = 1" "seg_type (kvm_segment_from_gdt (gdt_entry 0xc093 0 0xfffff) 2) = 3"
  "seg_s (kvm_segment_from_gdt (gdt_entry 0x808b 0 0xfffff) 3) = 0" "seg_type (kvm_segment_from_gdt (gdt_entry 0x808b 0 0xfffff) 3) = 11"
  by (simp_all add: kvm_segment_from_gdt_def gdt_entry_def rust_shl_def rust_shr_def Let_def)

lemma boot_sregs_valid:
  assumes "bit (apic_base s) 10 \<longrightarrow> bit (apic_base s) 11"
  shows "sregs_valid (boot_sregs b s)"
proof -
  have "bit (apic_base (boot_sregs b s)) 10 \<longrightarrow> bit (apic_base (boot_sregs b s)) 11"
    using assms by (simp add: boot_sregs_apic x2apic_bits)
  then show ?thesis
    unfolding sregs_valid_def boot_sregs_segments boot_sregs_control
    by (simp add: boot_segments_valid boot_segments_types PML4_START_def)
qed

lemma default_msrs_plain: "list_all plain_msr default_msr_entries"
  by (simp add: default_msr_entries_def plain_msr_def MSR_IA32_SYSENTER_CS_def MSR_IA32_SYSENTER_ESP_def MSR_IA32_SYSENTER_EIP_def
      MSR_STAR_def MSR_CSTAR_def MSR_KERNEL_GS_BASE_def MSR_SYSCALL_MASK_def MSR_LSTAR_def MSR_IA32_TSC_def MSR_IA32_MISC_ENABLE_def
      MSR_IA32_MISC_ENABLE_FAST_STRING_def MSR_MTRR_DEF_TYPE_def MTRR_ENABLE_def MTRR_MEM_TYPE_WB_def rust_shl_def)

lemma boot_lapic_update: "lvt_update l (boot_lapic is_bsp l)"
  by (auto simp: lvt_update_def boot_lapic_def set_klapic_reg_def APIC_LVT0_def APIC_LVT1_def Let_def nth_list_update)

lemma setup_sregs_writes:
  assumes law: "ram_law ws contents" and api: "vcpu_law api" and fit: "0xc000 \<le> length (contents m)"
  shows "\<exists>m' v' s. setup_sregs ws api x2apic m v = Inr (m', v')
    \<and> contents m' = apply_writes sregs_writes (contents m) \<and> get_sregs api v' = Some (boot_sregs x2apic s)"
proof -
  define f where "f = (\<lambda>p :: nat \<times> u64. to_le_bytes 8 (snd p))"
  define h where "h = (\<lambda>p :: nat \<times> u64. GDT_OFFSET + of_nat (fst p) * 8)"
  define es where "es = enumerate 0 gdt_table"
  have ws: "map (\<lambda>p. (unat (h p), f p)) es = take 4 sregs_writes"
    by (simp add: es_def gdt_table_def f_def h_def GDT_OFFSET_def sregs_writes_def)
  have "fits (length (contents m)) (take 4 sregs_writes)" using fit by (simp add: sregs_writes_def)
  then obtain m1 where m1: "fold_res (\<lambda>p. put_mem ws ''write GDT entry'' (f p) (h p)) es m = Inr m1"
    "contents m1 = apply_writes (take 4 sregs_writes) (contents m)"
    using fold_put_mem_writes [OF law, of m h f es "''write GDT entry''"] unfolding ws by blast
  have l1: "length (contents m1) = length (contents m)" using m1(2) fit by (simp add: sregs_writes_def)
  obtain m2 where m2: "put_mem ws ''write IDT'' (to_le_bytes 8 (0 :: u64)) IDT_OFFSET m1 = Inr m2"
    "contents m2 = overwrite 0x520 (to_le_bytes 8 (0 :: u64)) (contents m1)"
    using put_mem_writes [OF law, of IDT_OFFSET "to_le_bytes 8 (0 :: u64)" m1 "''write IDT''"] fit l1
    by (auto simp: IDT_OFFSET_def)
  obtain m3 where m3: "setup_page_tables ws m2 = Inr m3" "contents m3 = apply_writes pt_writes (contents m2)"
    using setup_page_tables_writes [OF law, of m2] m2(2) fit l1 by auto
  obtain s where s: "get_sregs api v = Some s" "bit (apic_base s) 10 \<longrightarrow> bit (apic_base s) 11"
    using api unfolding vcpu_law_def by blast
  have "apic_base (boot_sregs x2apic s) AND NOT 0xc00 = apic_base s AND NOT 0xc00"
    unfolding boot_sregs_apic by (simp only: x2apic_bits split: if_split) simp
  with s boot_sregs_valid [OF s(2), of x2apic] have pre: "get_sregs api v = Some s \<and> sregs_valid (boot_sregs x2apic s)
      \<and> sregs_other (boot_sregs x2apic s) = sregs_other s \<and> apic_base (boot_sregs x2apic s) AND NOT 0xc00 = apic_base s AND NOT 0xc00"
    by (simp add: boot_sregs_control)
  obtain v' where v': "set_sregs api v (boot_sregs x2apic s) = Some v'" "get_sregs api v' = Some (boot_sregs x2apic s)"
    using api [unfolded vcpu_law_def, THEN conjunct2, THEN conjunct1, rule_format, OF pre] by blast
  have "contents m3 = apply_writes sregs_writes (contents m)"
    unfolding m3(2) m2(2) m1(2) by (simp add: sregs_writes_def)
  moreover have "setup_sregs ws api x2apic m v = Inr (m3, v')"
    unfolding setup_sregs_def case_prod_unfold
    by (simp add: m1(1) [unfolded f_def h_def es_def] m2(1) m3(1) s(1) v'(1) or_context_def)
  ultimately show ?thesis using v'(2) by blast
qed

lemma list_of_4: "length xs = 4 \<Longrightarrow> [xs ! 0, xs ! 1, xs ! 2, xs ! 3] = xs"
  by (auto simp: numeral_eq_Suc length_Suc_conv)

lemma klapic_reg_same: "off + 4 \<le> length l \<Longrightarrow> get_klapic_reg (set_klapic_reg l off w) off = w"
proof -
  assume "off + 4 \<le> length l"
  then have "get_klapic_reg (set_klapic_reg l off w) off
      = from_le_bytes [to_le_bytes 4 w ! 0, to_le_bytes 4 w ! 1, to_le_bytes 4 w ! 2, to_le_bytes 4 w ! 3]"
    by (simp add: get_klapic_reg_def set_klapic_reg_def Let_def)
  also have "\<dots> = from_le_bytes (to_le_bytes 4 w)" by (subst list_of_4) simp_all
  also have "\<dots> = w" by (rule from_le_to_le) simp
  finally show ?thesis .
qed

lemma klapic_reg_other:
  "off + 4 \<le> off' \<or> off' + 4 \<le> off \<Longrightarrow> get_klapic_reg (set_klapic_reg l off w) off' = get_klapic_reg l off'"
  by (auto simp: get_klapic_reg_def set_klapic_reg_def Let_def)

lemma length_set_klapic_reg [simp]: "length (set_klapic_reg l off w) = length l"
  by (simp add: set_klapic_reg_def Let_def)

lemma length_boot_lapic [simp]: "length (boot_lapic is_bsp l) = length l"
  by (simp add: boot_lapic_def Let_def)

lemma boot_lapic_lvts:
  assumes "length l = 1024"
  shows "get_klapic_reg (boot_lapic is_bsp l) 0x350 =
      (if is_bsp then set_apic_delivery_mode (get_klapic_reg l 0x350) APIC_MODE_EXTINT else get_klapic_reg l 0x350 OR APIC_LVT_MASKED)"
    and "get_klapic_reg (boot_lapic is_bsp l) 0x360 =
      (if is_bsp then set_apic_delivery_mode (get_klapic_reg l 0x360) APIC_MODE_NMI else get_klapic_reg l 0x360 OR APIC_LVT_MASKED)"
  using assms by (simp_all add: boot_lapic_def Let_def APIC_LVT0_def APIC_LVT1_def klapic_reg_same klapic_reg_other)

lemma delivery_mode:
  "set_apic_delivery_mode reg APIC_MODE_EXTINT AND 0x700 = 0x700" "set_apic_delivery_mode reg APIC_MODE_NMI AND 0x700 = 0x400"
proof -
  have "(reg AND NOT 0x700 OR w) AND 0x700 = w AND 0x700" for w :: u32
    by (simp add: bit.conj_disj_distrib2 and.assoc)
  then show "set_apic_delivery_mode reg APIC_MODE_EXTINT AND 0x700 = 0x700"
    "set_apic_delivery_mode reg APIC_MODE_NMI AND 0x700 = 0x400"
    by (simp_all add: set_apic_delivery_mode_def rust_shl_def APIC_MODE_EXTINT_def APIC_MODE_NMI_def)
qed

lemma setup_lapic_ok:
  assumes "vcpu_law api"
  shows "\<exists>v' l. setup_lapic api v is_bsp = Inr v' \<and> regs_kept api v v'
    \<and> length l = 1024 \<and> lvts api v' = lvts_of (boot_lapic is_bsp l)"
proof -
  obtain l where l: "get_lapic api v = Some l" "length l = 1024" using assms unfolding vcpu_law_def by blast
  obtain v' l' where "set_lapic api v (boot_lapic is_bsp l) = Some v'" "regs_kept api v v'"
    "get_lapic api v' = Some l'" "lvts_of l' = lvts_of (boot_lapic is_bsp l)"
    using assms l(1) boot_lapic_update [of l is_bsp] unfolding vcpu_law_def by blast
  with l show ?thesis by (auto simp: setup_lapic_def or_context_def lvts_def)
qed

lemma setup_ap_ok:
  assumes "vcpu_law api"
  shows "\<exists>v'. setup_ap api v = Inr v' \<and> bit (fst (lvts api v')) 16 \<and> bit (snd (lvts api v')) 16"
proof -
  obtain v1 where v1: "setup_fpu api v = Inr v1"
    using assms unfolding vcpu_law_def setup_fpu_def or_context_def by (metis option.simps(5))
  obtain v2 l where v2: "setup_lapic api v1 False = Inr v2" "length l = 1024" "lvts api v2 = lvts_of (boot_lapic False l)"
    using setup_lapic_ok [OF assms] by blast
  obtain v3 where v3: "set_mp_state api v2 MpUninitialized = Some v3" "get_lapic api v3 = get_lapic api v2"
    using assms unfolding vcpu_law_def by blast
  have "bit (w OR APIC_LVT_MASKED) 16" for w :: u32
    by (simp add: APIC_LVT_MASKED_def rust_shl_def bit_or_iff bit_push_bit_iff)
  moreover have "lvts api v3 = lvts api v2" by (simp add: lvts_def v3(2))
  ultimately show ?thesis using v1 v2 v3 by (simp add: setup_ap_def or_context_def lvts_of_def boot_lapic_lvts)
qed

lemma setup_aps_ok:
  assumes "vcpu_law api"
  shows "\<exists>vs. fold_res (\<lambda>ap done. and_then (setup_ap api ap) (\<lambda>ap. Inr (done @ [ap]))) aps acc = Inr (acc @ vs)
    \<and> length vs = length aps \<and> (\<forall>v \<in> set vs. bit (fst (lvts api v)) 16 \<and> bit (snd (lvts api v)) 16)"
proof (induction aps arbitrary: acc)
  case (Cons ap aps)
  obtain v where v: "setup_ap api ap = Inr v" "bit (fst (lvts api v)) 16" "bit (snd (lvts api v)) 16"
    using setup_ap_ok [OF assms] by blast
  obtain vs where "fold_res (\<lambda>ap done. and_then (setup_ap api ap) (\<lambda>ap. Inr (done @ [ap]))) aps (acc @ [v]) = Inr ((acc @ [v]) @ vs)"
    "length vs = length aps" "\<forall>v \<in> set vs. bit (fst (lvts api v)) 16 \<and> bit (snd (lvts api v)) 16"
    using Cons.IH by blast
  with v show ?case by (intro exI [of _ "v # vs"]) simp
qed simp

lemma setup_vcpus_ok:
  assumes law: "ram_law ws contents" and api: "vcpu_law api" and fit: "0xc000 \<le> length (contents m)" and max: "11 \<le> max_entries"
  shows "\<exists>m' bsp' aps' s l. setup_vcpus ws api max_entries split_irqchip entry m (bsp # aps) = Inr (m', bsp' # aps')
    \<and> contents m' = apply_writes sregs_writes (contents m) \<and> get_sregs api bsp' = Some (boot_sregs split_irqchip s)
    \<and> get_regs api bsp' = Some \<lparr>rflags = 0x2, rip = entry, rsp = BOOT_STACK, rbp = BOOT_STACK, rsi = BOOT_PARAMS_ADDR\<rparr>
    \<and> length l = 1024 \<and> lvts api bsp' = lvts_of (boot_lapic True l)
    \<and> length aps' = length aps \<and> (\<forall>v \<in> set aps'. bit (fst (lvts api v)) 16 \<and> bit (snd (lvts api v)) 16)"
proof -
  let ?r = "\<lparr>rflags = 0x2, rip = entry, rsp = BOOT_STACK, rbp = BOOT_STACK, rsi = BOOT_PARAMS_ADDR\<rparr>"
  obtain m' v1 s where v1: "setup_sregs ws api split_irqchip m bsp = Inr (m', v1)"
    "contents m' = apply_writes sregs_writes (contents m)" "get_sregs api v1 = Some (boot_sregs split_irqchip s)"
    using setup_sregs_writes [OF law api fit] by blast
  have "bit (rflags ?r) 1" by simp
  then obtain v2 where v2: "set_regs api v1 ?r = Some v2" "get_sregs api v2 = get_sregs api v1" "get_regs api v2 = Some ?r"
    using api unfolding vcpu_law_def by blast
  obtain v3 where v3: "setup_fpu api v2 = Inr v3" "regs_kept api v2 v3"
    using api unfolding vcpu_law_def setup_fpu_def or_context_def by (metis option.simps(5))
  obtain v4 where v4: "set_msrs api v3 default_msr_entries = Some (length default_msr_entries, v4)" "regs_kept api v3 v4"
    using api default_msrs_plain unfolding vcpu_law_def by blast
  have msrs: "setup_msrs api max_entries v3 None = Inr v4"
    using v4(1) max by (simp add: setup_msrs_def boot_msrs_def or_context_def default_msr_entries_def)
  obtain v5 l where v5: "setup_lapic api v4 True = Inr v5" "regs_kept api v4 v5"
    "length l = 1024" "lvts api v5 = lvts_of (boot_lapic True l)"
    using setup_lapic_ok [OF api] by blast
  obtain v6 where v6: "set_mp_state api v5 MpRunnable = Some v6" "regs_kept api v5 v6" "get_lapic api v6 = get_lapic api v5"
    using api unfolding vcpu_law_def by blast
  obtain aps' where aps': "fold_res (\<lambda>ap done. and_then (setup_ap api ap) (\<lambda>ap. Inr (done @ [ap]))) aps [] = Inr aps'"
    "length aps' = length aps" "\<forall>v \<in> set aps'. bit (fst (lvts api v)) 16 \<and> bit (snd (lvts api v)) 16"
    using setup_aps_ok [OF api, of aps "[]"] by auto
  have "setup_vcpus ws api max_entries split_irqchip entry m (bsp # aps) = Inr (m', v6 # aps')"
    by (simp add: setup_vcpus_def v1(1) setup_regs_def v2(1) v3(1) msrs v5(1) v6(1) aps'(1) or_context_def)
  moreover have "get_sregs api v6 = Some (boot_sregs split_irqchip s)" "get_regs api v6 = Some ?r"
    using v1(3) v2(2,3) v3(2) v4(2) v5(2) v6(2) by (simp_all add: regs_kept_def)
  moreover have "lvts api v6 = lvts_of (boot_lapic True l)" using v5(4) v6(3) by (simp add: lvts_def)
  ultimately show ?thesis using v1(2) v5(3) aps'(2,3) by blast
qed

section \<open>Model-specific registers\<close>

lemma merge_msr_lookup: "msr_lookup (merge_msr x es) i = (if msr_index x = i then Some (msr_data x) else msr_lookup es i)"
  by (induction es) (auto simp: msr_lookup_def)

lemma find_rev_Cons:
  "find P (rev (x # xs)) = (case find P (rev xs) of None \<Rightarrow> if P x then Some x else None | Some y \<Rightarrow> Some y)"
proof -
  have "find P (ys @ [x]) = (case find P ys of None \<Rightarrow> if P x then Some x else None | Some y \<Rightarrow> Some y)" for ys
    by (induction ys) auto
  then show ?thesis by simp
qed

lemma fold_merge_msr_lookup:
  "msr_lookup (fold merge_msr xs es) i =
     (case find (\<lambda>e. msr_index e = i) (rev xs) of Some e \<Rightarrow> Some (msr_data e) | None \<Rightarrow> msr_lookup es i)"
  by (induction xs arbitrary: es) (simp_all add: merge_msr_lookup find_rev_Cons del: rev.simps(2) split: option.split)

lemma merge_msr_indices:
  "set (map msr_index (merge_msr x es)) = insert (msr_index x) (set (map msr_index es))"
  "distinct (map msr_index es) \<Longrightarrow> distinct (map msr_index (merge_msr x es))"
proof -
  show 1: "set (map msr_index (merge_msr x es)) = insert (msr_index x) (set (map msr_index es))" for es
    by (induction es) auto
  show "distinct (map msr_index es) \<Longrightarrow> distinct (map msr_index (merge_msr x es))"
    by (induction es) (use 1 in \<open>auto simp del: set_map simp: 1 simp flip: set_map\<close>)
qed

text \<open>
  The list handed to KVM names no register twice; a register has the value of the last extra entry
  for it, and its default without one.
\<close>

lemma boot_msrs_spec:
  "distinct (map msr_index (boot_msrs extra)) \<and>
   msr_lookup (boot_msrs extra) i =
     (case find (\<lambda>e. msr_index e = i) (rev (case extra of Some xs \<Rightarrow> xs | None \<Rightarrow> [])) of
        Some e \<Rightarrow> Some (msr_data e) | None \<Rightarrow> msr_lookup default_msr_entries i)"
proof -
  have d: "distinct (map msr_index default_msr_entries)"
    by (simp add: default_msr_entries_def MSR_IA32_SYSENTER_CS_def MSR_IA32_SYSENTER_ESP_def MSR_IA32_SYSENTER_EIP_def
        MSR_STAR_def MSR_LSTAR_def MSR_CSTAR_def MSR_SYSCALL_MASK_def MSR_KERNEL_GS_BASE_def MSR_IA32_TSC_def
        MSR_IA32_MISC_ENABLE_def MSR_MTRR_DEF_TYPE_def)
  have "distinct (map msr_index es) \<Longrightarrow> distinct (map msr_index (fold merge_msr xs es))" for xs es
    by (induction xs arbitrary: es) (simp_all add: merge_msr_indices(2))
  with d show ?thesis by (cases extra) (simp_all add: boot_msrs_def fold_merge_msr_lookup)
qed

end
