(* ===== verification/Boot_Image.thy ===== *)
theory Boot_Image
  imports Boot
begin

text \<open>
  What the guest finds when it starts: the segments behind the descriptors, the e820 map, the end of the firmware
  tables and the danger of their length, and the memory and the vCPUs after the whole boot sequence of \<^verbatim>\<open>boot.rs\<close>
  and \<^verbatim>\<open>setup.rs\<close>.
\<close>

section \<open>Specification functions and sample values\<close>

definition e820_ram :: "'h boot_params \<Rightarrow> nat \<Rightarrow> bool" where
  "e820_ram p a \<longleftrightarrow> (\<exists>e \<in> set (take (unat (e820_entries p)) (e820_table p)).
     e820_type e = E820_RAM \<and> unat (e820_addr e) \<le> a \<and> a < unat (e820_addr e) + unat (e820_size e))"

definition acpi_end :: "acpi_layout \<Rightarrow> nat" where
  "acpi_end l = unat (xsdt_addr l) + unat (xsdt_size l)"

definition boot_writes :: "bytes \<Rightarrow> bytes \<Rightarrow> bytes \<Rightarrow> bytes \<Rightarrow> (nat \<times> bytes) list" where
  "boot_writes cmd params mp acpi = [(0x20000, cmd), (0x7000, params), (0x9fc00, mp), (0xE0000, acpi)]"

text \<open>All tables are found in memory, the HMAT exactly when there are several nodes.\<close>

definition acpi_complete :: "topology \<Rightarrow> numa_layout \<Rightarrow> acpi_layout \<Rightarrow> bytes \<Rightarrow> bool" where
  "acpi_complete t rs l mem \<longleftrightarrow>
     (\<exists>f a s d. fadt_table l = Some f \<and> madt_table t = Some a \<and> srat_table t rs = Some s \<and> slit_table t = Some d
        \<and> acpi_find mem ''FACP'' = Some f \<and> acpi_find mem ''APIC'' = Some a
        \<and> acpi_find mem ''SRAT'' = Some s \<and> acpi_find mem ''SLIT'' = Some d) \<and>
     (if 1 < numa_nodes t then \<exists>h. hmat_table t rs = Some h \<and> acpi_find mem ''HMAT'' = Some h
      else acpi_find mem ''HMAT'' = None)"

text \<open>The bytes a descriptor table register points to.\<close>

definition dtable_bytes :: "kvm_dtable \<Rightarrow> bytes \<Rightarrow> bytes" where
  "dtable_bytes d mem = take (unat (dt_limit d) + 1) (drop (unat (dt_base d)) mem)"

definition sample_sregs :: "unit kvm_sregs" where
  "sample_sregs = (let z = kvm_segment_from_gdt 0 0; d = \<lparr>dt_base = 0, dt_limit = 0\<rparr> in
     \<lparr>seg_cs = z, seg_ds = z, seg_es = z, seg_fs = z, seg_gs = z, seg_ss = z, seg_tr = z, gdt = d, idt = d,
      cr0 = 0, cr3 = 0, cr4 = 0, efer = 0, apic_base = 0xfee00900, sregs_other = ()\<rparr>)"

text \<open>
  A vCPU that keeps its special registers, its local interrupt controller and its registers, refuses what KVM's
  checks refuse, and stops at the first model-specific register it does not know.
\<close>

definition sample_vcpu :: "(unit kvm_sregs \<times> bytes \<times> kvm_regs, unit) vcpu_api" where
  "sample_vcpu =
     \<lparr>get_sregs = \<lambda>(s, _). Some (if bit (apic_base s) 10 \<and> \<not> bit (apic_base s) 11 then sample_sregs else s),
      set_sregs = \<lambda>(_, v) s. if sregs_valid s then Some (s, v) else None,
      set_regs = \<lambda>(s, l, _) r. Some (s, l, r), set_fpu = \<lambda>v f. Some v,
      set_msrs = \<lambda>v es. Some (length (takeWhile plain_msr es), v),
      get_lapic = \<lambda>(_, l, _). Some (if length l = 1024 then l else replicate 1024 0),
      set_lapic = \<lambda>(s, _, r) l. Some (s, l, r), set_mp_state = \<lambda>v p. Some v, get_regs = \<lambda>(_, _, r). Some r\<rparr>"

definition sample_cpu :: "unit kvm_sregs \<times> bytes \<times> kvm_regs" where
  "sample_cpu = (sample_sregs, [], \<lparr>rflags = 2, rip = 0xfff0, rsp = 0, rbp = 0, rsi = 0\<rparr>)"

definition topo_many :: topology where
  "topo_many = \<lparr>llcs = 400, cores_per_llc = 1, threads_per_core = 1, numa_nodes = 400, nodes = None, distances = None\<rparr>"

section \<open>Segment descriptors\<close>

lemma gdt_entry_bit:
  "bit (gdt_entry fl base lim) n \<longleftrightarrow>
     n < 16 \<and> bit lim n \<or> 16 \<le> n \<and> n < 40 \<and> bit base (n - 16) \<or> 40 \<le> n \<and> n < 48 \<and> bit fl (n - 40)
     \<or> 48 \<le> n \<and> n < 52 \<and> bit lim (n - 32) \<or> 52 \<le> n \<and> n < 56 \<and> bit fl (n - 40) \<or> 56 \<le> n \<and> n < 64 \<and> bit base (n - 32)"
proof -
  have m: "(0xff000000 :: u64) = push_bit 24 (mask 8)" "(0x00ffffff :: u64) = mask 24"
    "(0x0000f0ff :: u64) = mask 8 OR push_bit 12 (mask 4)" "(0x000f0000 :: u64) = push_bit 16 (mask 4)" "(0x0000ffff :: u64) = mask 16"
    by (simp_all add: mask_eq_exp_minus_1)
  have k: "(56 - 24 :: nat) = 32" "(48 - 16 :: nat) = 32" by simp_all
  consider "n < 16" | "16 \<le> n" "n < 40" | "40 \<le> n" "n < 48" | "48 \<le> n" "n < 52" | "52 \<le> n" "n < 56"
    | "56 \<le> n" "n < 64" | "64 \<le> n" by linarith
  then show ?thesis
    unfolding gdt_entry_def rust_shl_def m k
    by cases (simp_all add: bit_or_iff bit_and_iff bit_push_bit_iff bit_mask_iff bit_unsigned_iff less_diff_conv2)
qed

lemma bit_field_1: "ucast (rust_shr (e :: u64) n AND 1) = (of_bool (bit e n) :: u8)" if "n < 64"
  using that by (simp add: rust_shr_def and_one_eq bit_iff_odd_drop_bit odd_iff_mod_2_eq_one)

lemma gdt_roundtrip_fields:
  fixes fl :: u16 and base lim :: u32
  defines "e \<equiv> gdt_entry fl base lim"
  shows "(rust_shr e 16 AND 0xffffff) OR rust_shl (rust_shr e 56 AND 0xff) 24 = ucast base"
    and "ucast ((e AND 0xffff) OR rust_shl (rust_shr e 48 AND 0xf) 16) = take_bit 20 lim"
    and "ucast (rust_shr e 40 AND 0xf) = (ucast (take_bit 4 fl) :: u8)"
    and "ucast (rust_shr e 45 AND 0x3) = (ucast (take_bit 2 (drop_bit 5 fl)) :: u8)"
proof -
  have m: "(0xffffff :: u64) = mask 24" "(0xff :: u64) = mask 8" "(0xffff :: u64) = mask 16" "(0xf :: u64) = mask 4" "(0x3 :: u64) = mask 2"
    by (simp_all add: mask_eq_exp_minus_1)
  note bits = bit_or_iff bit_and_iff bit_push_bit_iff bit_drop_bit_eq bit_take_bit_iff bit_mask_iff bit_unsigned_iff
    gdt_entry_bit rust_shl_def rust_shr_def less_diff_conv2
  show "(rust_shr e 16 AND 0xffffff) OR rust_shl (rust_shr e 56 AND 0xff) 24 = ucast base"
  proof (rule bit_eqI)
    fix n :: nat
    consider "n < 24" | "24 \<le> n" "n < 32" | "32 \<le> n" by linarith
    then show "bit ((rust_shr e 16 AND 0xffffff) OR rust_shl (rust_shr e 56 AND 0xff) 24) n = bit (ucast base :: u64) n"
      unfolding m e_def by cases (auto simp: bits dest: bit_imp_le_length)
  qed
  show "ucast ((e AND 0xffff) OR rust_shl (rust_shr e 48 AND 0xf) 16) = take_bit 20 lim"
  proof (rule bit_eqI)
    fix n :: nat
    consider "n < 16" | "16 \<le> n" "n < 20" | "20 \<le> n" by linarith
    then show "bit (ucast ((e AND 0xffff) OR rust_shl (rust_shr e 48 AND 0xf) 16) :: u32) n = bit (take_bit 20 lim) n"
      unfolding m e_def by cases (auto simp: bits dest: bit_imp_le_length)
  qed
  show "ucast (rust_shr e 40 AND 0xf) = (ucast (take_bit 4 fl) :: u8)"
  proof (rule bit_eqI)
    fix n :: nat
    show "bit (ucast (rust_shr e 40 AND 0xf) :: u8) n = bit (ucast (take_bit 4 fl) :: u8) n"
      unfolding m e_def by (cases "n < 4") (simp_all add: bits)
  qed
  show "ucast (rust_shr e 45 AND 0x3) = (ucast (take_bit 2 (drop_bit 5 fl)) :: u8)"
  proof (rule bit_eqI)
    fix n :: nat
    show "bit (ucast (rust_shr e 45 AND 0x3) :: u8) n = bit (ucast (take_bit 2 (drop_bit 5 fl)) :: u8) n"
      unfolding m e_def by (cases "n < 2") (simp_all add: bits)
  qed
qed

lemma gdt_segment_flags:
  assumes "40 \<le> n" and "n < 48 \<or> 52 \<le> n \<and> n < 56"
  shows "ucast (rust_shr (gdt_entry fl base lim) n AND 1) = (of_bool (bit fl (n - 40)) :: u8)"
proof -
  have "n < 64" using assms by linarith
  moreover have "bit (gdt_entry fl base lim) n = bit fl (n - 40)" using assms by (auto simp: gdt_entry_bit)
  ultimately show ?thesis by (simp add: bit_field_1)
qed

text \<open>
  a segment descriptor is decoded to what it was made from. For all flags, base addresses and limits
  the KVM segment made from a packed descriptor has the base, the limit of 20 bits, scaled to pages when
  the granularity flag is set, and every flag of the descriptor, and is unusable exactly when not present.
\<close>

theorem gdt_roundtrip:
  "(let seg = kvm_segment_from_gdt (gdt_entry fl base lim) idx in
     seg_base seg = ucast base
     \<and> seg_limit seg = (if bit fl 15 then push_bit 12 (take_bit 20 lim) OR 0xFFF else take_bit 20 lim)
     \<and> unat (selector seg) = 8 * unat idx
     \<and> seg_type seg = ucast (take_bit 4 fl) \<and> seg_s seg = of_bool (bit fl 4)
     \<and> dpl seg = ucast (take_bit 2 (drop_bit 5 fl)) \<and> present seg = of_bool (bit fl 7)
     \<and> avl seg = of_bool (bit fl 12) \<and> seg_l seg = of_bool (bit fl 13)
     \<and> seg_db seg = of_bool (bit fl 14) \<and> seg_g seg = of_bool (bit fl 15)
     \<and> unusable seg = of_bool (\<not> bit fl 7))"
proof -
  have f: "ucast (rust_shr (gdt_entry fl base lim) 44 AND 1) = (of_bool (bit fl 4) :: u8)"
    "ucast (rust_shr (gdt_entry fl base lim) 47 AND 1) = (of_bool (bit fl 7) :: u8)"
    "ucast (rust_shr (gdt_entry fl base lim) 52 AND 1) = (of_bool (bit fl 12) :: u8)"
    "ucast (rust_shr (gdt_entry fl base lim) 53 AND 1) = (of_bool (bit fl 13) :: u8)"
    "ucast (rust_shr (gdt_entry fl base lim) 54 AND 1) = (of_bool (bit fl 14) :: u8)"
    "ucast (rust_shr (gdt_entry fl base lim) 55 AND 1) = (of_bool (bit fl 15) :: u8)"
    by (simp_all add: gdt_segment_flags)
  have "unat (push_bit 3 (ucast idx :: u16)) = unat idx * 2 ^ 3"
    using unat_push_bit_no_overflow [of "ucast idx :: u16" 3] unat_byte_less [of idx] by (simp add: unat_ucast_up)
  then show ?thesis
    unfolding kvm_segment_from_gdt_def Let_def f gdt_roundtrip_fields by (simp add: rust_shl_def)
qed

section \<open>The memory map\<close>

lemma e820_of_params:
  "e820_table (boot_params_of h0 cmdline mb ia isz h) = fst (e820_fill mb (replicate 128 e820_zero))"
  "e820_entries (boot_params_of h0 cmdline mb ia isz h) = of_nat (snd (e820_fill mb (replicate 128 e820_zero)))"
  by (simp_all add: boot_params_of_def boot_params_default_def Let_def split: option.split prod.split)

lemma mem_bytes_unat: "unat (rust_shl (ucast (mb :: u32) :: u64) 20) = unat mb * 2 ^ 20"
proof -
  have "unat mb * 2 ^ 20 < 2 ^ 64" using unat_u32_less [of mb] by simp
  then show ?thesis
    using unat_push_bit_no_overflow [of "ucast mb :: u64" 20] by (simp add: rust_shl_def unat_ucast_up)
qed

lemma take_updates:
  "3 \<le> length xs \<Longrightarrow> take 2 (xs[0 := a, Suc 0 := b]) = [a, b]"
  "3 \<le> length xs \<Longrightarrow> take 3 (xs[0 := a, Suc 0 := b, 2 := c]) = [a, b, c]"
  by (auto simp: numeral_eq_Suc Suc_le_length_iff)

text \<open>
  C13: the memory map names exactly the usable memory. With at least 1 MiB of memory, an address is RAM in the
  e820 map if and only if it is below the memory size, outside the area from the extended BIOS data to 1 MiB, which holds the
  firmware tables, and outside the MMIO gap, which holds the devices.
\<close>

theorem e820_exact:
  assumes "1 \<le> unat mb"
  shows "e820_ram (boot_params_of h0 cmdline mb ia isz h) a \<longleftrightarrow>
    a < unat mb * 2 ^ 20 \<and> \<not> (0x9FC00 \<le> a \<and> a < 0x100000) \<and> \<not> (0xC0000000 \<le> a \<and> a < 0x100000000)"
proof -
  define u where "u = rust_shl (ucast mb :: u64) 20"
  have u: "unat u = unat mb * 2 ^ 20" unfolding u_def by (rule mem_bytes_unat)
  with assms have u1: "0x100000 \<le> unat u" by simp
  have sub: "unat (u - w) = unat u - unat w" if "unat w \<le> unat u" for w
    using that by (simp add: unat_sub word_le_nat_alt)
  consider "u \<le> MMIO_GAP_START" | "MMIO_GAP_START < u" "u \<le> MMIO_GAP_END" | "MMIO_GAP_END < u" "MMIO_GAP_START < u"
    by (force simp: MMIO_GAP_START_def MMIO_GAP_END_def)
  then show ?thesis
  proof cases
    case 1
    then show ?thesis
      using u1 unfolding e820_ram_def e820_of_params e820_fill_def Let_def u_def [symmetric] u [symmetric]
      by (auto simp: take_updates sub EBDA_START_def HIMEM_START_def MMIO_GAP_START_def word_le_nat_alt)
  next
    case 2
    then show ?thesis
      using u1 unfolding e820_ram_def e820_of_params e820_fill_def Let_def u_def [symmetric] u [symmetric]
      by (auto simp: take_updates EBDA_START_def HIMEM_START_def MMIO_GAP_START_def MMIO_GAP_END_def word_le_nat_alt word_less_nat_alt)
  next
    case 3
    then show ?thesis
      using u1 unfolding e820_ram_def e820_of_params e820_fill_def Let_def u_def [symmetric] u [symmetric]
      by (auto simp: take_updates sub EBDA_START_def HIMEM_START_def MMIO_GAP_START_def MMIO_GAP_END_def word_le_nat_alt word_less_nat_alt)
  qed
qed

section \<open>Where the firmware tables end\<close>

lemma acpi_small_bounds:
  assumes "wf_topology t" and "compute t mb base = Inr rs" and "unat (total_cpus t) \<le> 4096" and "unat (numa_nodes t) \<le> 4096"
  shows "acpi_small t rs" and "\<forall>r \<in> set rs. node_id r < numa_nodes t" and "length rs \<le> unat (numa_nodes t)"
proof -
  from assms(1) have v: "validate t = Inr ()" by (simp add: wf_topology_def)
  show "\<forall>r \<in> set rs. node_id r < numa_nodes t" by (rule compute_node_ids [OF v assms(2)])
  show l: "length rs \<le> unat (numa_nodes t)" by (rule compute_length [OF v assms(2)])
  with assms(3,4) show "acpi_small t rs" by (simp add: acpi_small_def)
qed

lemma acpi_end_eq:
  assumes "wf_topology t" and "compute t mb base = Inr rs" and "unat (total_cpus t) \<le> 4096" and "unat (numa_nodes t) \<le> 4096"
  shows "\<exists>l M. acpi_layout_of t rs = Some l \<and> M \<le> 84 + 16 * unat (total_cpus t)
    \<and> acpi_end l = 0xE0048 + M + 276 + (48 + 24 * unat (total_cpus t) + 40 * length rs)
        + (44 + unat (numa_nodes t) * unat (numa_nodes t))
        + (if 1 < numa_nodes t then unat (compute_hmat_size t rs) + 132 else 120)"
proof -
  note b = acpi_small_bounds [OF assms]
  from assms(1) have v: "validate t = Inr ()" by (simp add: wf_topology_def)
  obtain len where len: "compute_madt_size t = Some len" "unat len = 44 + length (concat (madt_entries t))"
    using madt_size_eq(1) [OF v assms(3)] by blast
  have "(\<Sum>id\<leftarrow>apic_ids t. if use_x2apic_entry id then 16 else (8 :: nat)) \<le> (\<Sum>id\<leftarrow>apic_ids t. 16)"
    by (rule sum_list_mono) simp
  also have "\<dots> = 16 * unat (total_cpus t)" by (simp add: sum_list_triv)
  finally have M: "unat len \<le> 84 + 16 * unat (total_cpus t)" using len(2) by (simp add: madt_entries_length)
  have S: "unat (srat_len t rs) = 48 + 24 * unat (total_cpus t) + 40 * length rs"
    using srat_len_eq [OF b(1)] by (simp add: length_srat_entries)
  obtain l where l: "acpi_layout_of t rs = Some l" "acpi_end l = 0xE0048 + unat len + 276 + unat (srat_len t rs) + slit_len t
      + (if 1 < numa_nodes t then unat (compute_hmat_size t rs) + 132 else 120)"
    using acpi_layout_addresses [OF assms(1) b(1,2) len(1)] by (auto simp: acpi_end_def)
  with M S show ?thesis by (auto simp: slit_len_def)
qed

lemma acpi_below_himem:
  assumes "wf_topology t" and "compute t mb base = Inr rs" and "unat (total_cpus t) \<le> 1024" and "unat (numa_nodes t) \<le> 64"
  shows "\<exists>l. acpi_layout_of t rs = Some l \<and> acpi_end l \<le> 0x100000"
proof -
  have c: "unat (total_cpus t) \<le> 4096" "unat (numa_nodes t) \<le> 4096" using assms(3,4) by simp_all
  note b = acpi_small_bounds [OF assms(1,2) c]
  obtain ni k where h: "ni \<le> unat (numa_nodes t)" "k \<le> unat (numa_nodes t)"
    "length (concat (hmat_chunks t (map node_id rs))) = 40 * length rs + 2 * (32 + 4 * ni + 4 * length rs + 2 * ni * length rs) + 32 * k"
    using hmat_size_eq(3) [OF assms(1) b(1,2)] by blast
  have "ni * length rs \<le> 64 * 64" using h(1) b(3) assms(4) by (intro mult_le_mono) simp_all
  with h b(3) assms(4) have H: "unat (compute_hmat_size t rs) \<le> 22152"
    unfolding hmat_size_eq(1) [OF assms(1) b(1,2)] by (simp add: h(3))
  have "unat (numa_nodes t) * unat (numa_nodes t) \<le> 64 * 64" using assms(4) by (intro mult_le_mono)
  with acpi_end_eq [OF assms(1,2) c] H b(3) assms(3,4) show ?thesis by (auto split: if_splits)
qed

text \<open>
  C27: nothing keeps the tables below the kernel. From 363 NUMA nodes on the tables, which start at
  \<open>0xE0000\<close>, run past \<open>HIMEM_START\<close>, where the kernel image was loaded before; \<open>setup_acpi\<close> succeeds
  and overwrites it.
\<close>

theorem acpi_overruns_kernel:
  assumes law: "ram_law write_slice contents" and wf: "wf_topology t" and c: "compute t mb base = Inr rs"
    and cpus: "unat (total_cpus t) \<le> 4096" and nodes: "363 \<le> unat (numa_nodes t)" "unat (numa_nodes t) \<le> 4096"
    and mem: "2 ^ 28 \<le> length (contents m)"
  shows "\<exists>l m' img. setup_acpi write_slice m t rs = Inr (l, m')
    \<and> unat KERNEL_LOAD_ADDR < 0xE0000 + length img \<and> contents m' = overwrite 0xE0000 img (contents m)"
proof -
  note b = acpi_small_bounds [OF wf c cpus nodes(2)]
  obtain l M where l: "acpi_layout_of t rs = Some l" "M \<le> 84 + 16 * unat (total_cpus t)"
    "acpi_end l = 0xE0048 + M + 276 + (48 + 24 * unat (total_cpus t) + 40 * length rs)
        + (44 + unat (numa_nodes t) * unat (numa_nodes t))
        + (if 1 < numa_nodes t then unat (compute_hmat_size t rs) + 132 else 120)"
    using acpi_end_eq [OF wf c cpus nodes(2)] by blast
  have "unat (numa_nodes t) * unat (numa_nodes t) \<le> 4096 * 4096" using nodes(2) by (intro mult_le_mono)
  moreover have "unat (compute_hmat_size t rs) \<le> 40 + 2 ^ 27" using hmat_size_eq(1,2) [OF wf b(1,2)] by simp
  ultimately have "acpi_end l \<le> 2 ^ 28" using l(2,3) cpus b(3) nodes(2) by simp
  then have fit: "unat (xsdt_addr l) + unat (xsdt_size l) \<le> length (contents m)" using mem by (simp add: acpi_end_def)
  have "363 * 363 \<le> unat (numa_nodes t) * unat (numa_nodes t)" using nodes(1) by (intro mult_le_mono)
  then have "0x100000 < acpi_end l" using l(3) by simp
  moreover obtain m' img where "setup_acpi write_slice m t rs = Inr (l, m')" "0xE0000 + length img = acpi_end l"
    "contents m' = overwrite 0xE0000 img (contents m)"
    using acpi_setup [OF law wf b(1,2) l(1) fit] unfolding acpi_end_def by blast
  ultimately show ?thesis by (intro exI [of _ l] exI [of _ m'] exI [of _ img]) (simp add: KERNEL_LOAD_ADDR_def)
qed

section \<open>The memory of a booted machine\<close>

lemma slice_split: "take (length xs) (drop p mem) = xs \<Longrightarrow> mem = take p mem @ xs @ drop (p + length xs) mem"
  by (metis append_take_drop_id drop_drop add.commute)

lemma sregs_writes_range:
  assumes "w \<in> set sregs_writes"
  shows "0x500 \<le> fst w" and "fst w + length (snd w) \<le> 0x528 \<or> 0x9000 \<le> fst w \<and> fst w + length (snd w) \<le> 0xc000"
  using assms pt_writes_range [of w] by (auto simp: sregs_writes_def)

lemma sregs_writes_fit: "0xc000 \<le> n \<Longrightarrow> fits n sregs_writes"
  using pt_writes_fit by (simp add: sregs_writes_def)

lemma sregs_writes_apart: "sorted_wrt apart sregs_writes"
proof -
  have "apart (a, bs) w" if "w \<in> set pt_writes" "a + length bs \<le> 0x9000" for a bs w
    using pt_writes_range [OF that(1)] that(2) by (simp add: apart_def)
  then show ?thesis using pt_writes_apart by (auto simp: sregs_writes_def) (simp_all add: apart_def)
qed

lemma boot_writes_apart:
  assumes "length cmd \<le> 4096" and "length params = 4096" and "length mp \<le> 0x40400"
  shows "sorted_wrt apart (boot_writes cmd params mp acpi @ sregs_writes)"
proof -
  have "apart w v" if "w \<in> set (boot_writes cmd params mp acpi)" "v \<in> set sregs_writes" for w v
    using sregs_writes_range [OF that(2)] that(1) assms by (auto simp: boot_writes_def apart_def)
  moreover have "sorted_wrt apart (boot_writes cmd params mp acpi)"
    using assms by (simp add: boot_writes_def apart_def)
  ultimately show ?thesis using sregs_writes_apart by (simp add: sorted_wrt_append)
qed

lemma setup_memory_tail_writes:
  assumes law: "ram_rw_law ws rd contents" and wf: "wf_topology t" and c: "compute t mb base = Inr rs"
    and small: "unat (total_cpus t) \<le> 1024" "unat (numa_nodes t) \<le> 64"
    and cmd: "length cmdline < 4096" and params: "\<forall>p. length (params_bytes p) = 4096"
    and fit: "0x100000 \<le> length (contents m)" "length (contents m) < 2 ^ 64"
  shows "\<exists>l m' mp acpi. setup_memory_tail ws rd params_bytes h0 cmdline mem_mb ia isz h t rs m = Inr (l, m')
    \<and> contents m' = apply_writes (boot_writes (cmdline @ [0])
        (params_bytes (boot_params_of h0 cmdline mem_mb ia isz h)) mp acpi) (contents m)
    \<and> length mp \<le> 0x40400 \<and> 0xE0000 + length acpi \<le> 0x100000
    \<and> (\<forall>P Q. length P = 0x9fc00 \<longrightarrow> mp_read (P @ mp @ Q) = Some (mp_entry_list t))
    \<and> (\<forall>P Q. length P = 0xE0000 \<longrightarrow> acpi_complete t rs l (P @ acpi @ Q))"
proof -
  from wf have v: "validate t = Inr ()" by (simp add: wf_topology_def)
  have wl: "ram_law ws contents" using law by (simp add: ram_rw_law_def)
  have c4: "unat (total_cpus t) \<le> 4096" "unat (numa_nodes t) \<le> 4096" "unat (total_cpus t) \<le> 3263" using small by simp_all
  note b = acpi_small_bounds [OF wf c c4(1,2)]
  let ?p = "params_bytes (boot_params_of h0 cmdline mem_mb ia isz h)"
  obtain m1 where m1: "write_cmdline ws cmdline m = Inr m1" "contents m1 = overwrite 0x20000 (cmdline @ [0]) (contents m)"
    using put_mem_writes [OF wl, of CMDLINE_ADDR "cmdline @ [0]" m "''write cmdline to guest memory''"] cmd fit
    by (auto simp: write_cmdline_def CMDLINE_MAX_def CMDLINE_ADDR_def)
  have l1: "length (contents m1) = length (contents m)" using m1(2) cmd fit by simp
  obtain m2 where m2: "write_boot_params ws params_bytes h0 cmdline mem_mb ia isz h m1 = Inr m2" "contents m2 = overwrite 0x7000 ?p (contents m1)"
    using put_mem_writes [OF wl, of BOOT_PARAMS_ADDR ?p m1 "''write boot_params''"] params fit l1
    by (auto simp: write_boot_params_def BOOT_PARAMS_ADDR_def)
  have l2: "length (contents m2) = length (contents m)" using m2(2) params fit l1 by simp
  obtain m3 mp where m3: "setup_mptable ws rd m2 t = Inr m3" "length mp = 284 + 20 * unat (total_cpus t)"
    "contents m3 = overwrite 0x9fc00 mp (contents m2)" "\<forall>P Q. length P = 0x9fc00 \<longrightarrow> mp_read (P @ mp @ Q) = Some (mp_entry_list t)"
    using mptable_lists_cpus [OF law v c4(3), of m2] small fit l2 by auto
  have l3: "length (contents m3) = length (contents m)" using m3(2,3) small fit l2 by simp
  obtain l where l: "acpi_layout_of t rs = Some l" "acpi_end l \<le> 0x100000" using acpi_below_himem [OF wf c small] by blast
  then have "unat (xsdt_addr l) + unat (xsdt_size l) \<le> length (contents m3)" using fit l3 by (simp add: acpi_end_def)
  from acpi_setup_image [OF wl wf b(1,2) l(1) this]
  obtain m4 acpi where m4: "setup_acpi ws m3 t rs = Inr (l, m4)" "0xE0000 + length acpi = acpi_end l"
    "contents m4 = overwrite 0xE0000 acpi (contents m3)"
    "\<forall>P Q. length P = 0xE0000 \<longrightarrow> acpi_complete t rs l (P @ acpi @ Q)"
    unfolding acpi_end_def acpi_complete_def by (elim exE conjE) blast
  have "setup_memory_tail ws rd params_bytes h0 cmdline mem_mb ia isz h t rs m = Inr (l, m4)"
    by (simp add: setup_memory_tail_def m1(1) m2(1) m3(1) m4(1) firmware_def)
  moreover have "contents m4 = apply_writes (boot_writes (cmdline @ [0]) ?p mp acpi) (contents m)"
    by (simp add: boot_writes_def m4(3) m3(3) m2(2) m1(2))
  moreover have "length mp \<le> 0x40400" "0xE0000 + length acpi \<le> 0x100000" using m3(2) m4(2) l(2) small by simp_all
  ultimately show ?thesis using m3(4) m4(4) by blast
qed

text \<open>What the writes leave, as a fact about byte strings.\<close>

lemma take_words:
  assumes "\<And>i. i < 4 \<Longrightarrow> take 8 (drop (p + 8 * i) mem) = to_le_bytes 8 (gdt_table ! i)"
  shows "take 32 (drop p mem) = concat (map (to_le_bytes 8) gdt_table)"
proof -
  have "take (8 + n) (drop q mem) = take 8 (drop q mem) @ take n (drop (q + 8) mem)" for n q
    by (subst take_add) (simp add: add.commute)
  from this [of 24 p] this [of 16 "p + 8"] this [of 8 "p + 16"]
  have "take 32 (drop p mem) = take 8 (drop p mem) @ take 8 (drop (p + 8) mem) @ take 8 (drop (p + 16) mem) @ take 8 (drop (p + 24) mem)"
    by (simp add: ac_simps)
  with assms [of 0] assms [of 1] assms [of 2] assms [of 3] show ?thesis by (simp add: gdt_table_def)
qed

lemma boot_image:
  assumes len: "length cmd \<le> 4096" "length params = 4096" "length mp \<le> 0x40400" "0xE0000 + length acpi \<le> 0x100000"
    and fit: "0x100000 \<le> length mem" and zero: "take 0x2000 (drop 0x9000 mem) = replicate 0x2000 0"
    and out: "out = apply_writes (boot_writes cmd params mp acpi @ sregs_writes) mem"
  shows "length out = length mem" and "(x, bs) \<in> set (boot_writes cmd params mp acpi) \<Longrightarrow> take (length bs) (drop x out) = bs"
    and "drop 0x100000 out = drop 0x100000 mem"
    and "take 32 (drop 0x500 out) = concat (map (to_le_bytes 8) gdt_table)" and "take 8 (drop 0x520 out) = to_le_bytes 8 (0 :: u64)"
    and "valid_mem g \<Longrightarrow> gm_regions g = r # rest \<Longrightarrow> 0xc000 \<le> unat (mr_size r) \<Longrightarrow> flat g = out \<Longrightarrow>
      walk_4level g PML4_START kva = (if take_bit 48 kva < 2 ^ 30 then Some (take_bit 48 kva) else None)"
proof -
  define W where "W = boot_writes cmd params mp acpi"
  have fW: "fits (length mem) W" using len fit by (simp add: W_def boot_writes_def)
  have fS: "fits (length mem) sregs_writes" using fit by (intro sregs_writes_fit) simp
  have out: "out = apply_writes (W @ sregs_writes) mem" unfolding out W_def ..
  show l: "length out = length mem" using fW fS by (simp add: out)
  show "take (length bs) (drop x out) = bs" if "(x, bs) \<in> set (boot_writes cmd params mp acpi)"
    unfolding out W_def
    by (rule apply_writes_same [OF _ boot_writes_apart [OF len(1-3)]]) (use that fW fS in \<open>simp_all add: W_def\<close>)
  have "take (length mem) (drop 0x100000 out) = take (length mem) (drop 0x100000 mem)"
    unfolding out
  proof (rule apply_writes_other)
    show "\<forall>w \<in> set (W @ sregs_writes). fst w + length (snd w) \<le> 0x100000 \<or> 0x100000 + length mem \<le> fst w"
      using len sregs_writes_range(2) by (fastforce simp: W_def boot_writes_def)
  qed (use fW fS in simp)
  then show "drop 0x100000 out = drop 0x100000 mem" using l by simp
  have S: "take 8 (drop x out) = bs" if "(x, bs) \<in> set sregs_writes" "length bs = 8" for x bs
    using apply_writes_same [OF _ boot_writes_apart [OF len(1-3)], of mem acpi x bs] that fW fS by (simp add: W_def out)
  show "take 8 (drop 0x520 out) = to_le_bytes 8 (0 :: u64)" by (rule S) (simp_all add: sregs_writes_def)
  have "take 8 (drop (0x500 + 8 * i) out) = to_le_bytes 8 (gdt_table ! i)" if "i < 4" for i
    by (rule S) (use that in \<open>auto simp: sregs_writes_def numeral_eq_Suc less_Suc_eq\<close>)
  then show "take 32 (drop 0x500 out) = concat (map (to_le_bytes 8) gdt_table)" by (rule take_words)
  define V where "V = W @ take 5 sregs_writes"
  have V: "W @ sregs_writes = V @ pt_writes" by (simp add: V_def sregs_writes_def)
  have fV: "fits (length mem) V" using fW fS unfolding V_def by (simp add: sregs_writes_def)
  have "take 0x2000 (drop 0x9000 (apply_writes V mem)) = take 0x2000 (drop 0x9000 mem)"
    by (rule apply_writes_other [OF fV]) (use len in \<open>auto simp: V_def W_def boot_writes_def sregs_writes_def\<close>)
  then have z: "take 0x2000 (drop 0x9000 (apply_writes V mem)) = replicate 0x2000 0" by (simp only: zero)
  show "walk_4level g PML4_START kva = (if take_bit 48 kva < 2 ^ 30 then Some (take_bit 48 kva) else None)"
    if g: "valid_mem g" "gm_regions g = r # rest" "0xc000 \<le> unat (mr_size r)" "flat g = out"
    using boot_walk [OF g(1-3) _ _ z, of kva] g(4) fV fit unfolding out V by simp
qed

lemma boot_dtables:
  assumes "take 32 (drop 0x500 mem) = concat (map (to_le_bytes 8) gdt_table)" and "take 8 (drop 0x520 mem) = to_le_bytes 8 (0 :: u64)"
  shows "dtable_bytes (gdt (boot_sregs b s)) mem = concat (map (to_le_bytes 8) gdt_table)"
    and "dtable_bytes (idt (boot_sregs b s)) mem = replicate 8 0"
proof -
  have d: "gdt (boot_sregs b s) = \<lparr>dt_base = 0x500, dt_limit = 31\<rparr>" "idt (boot_sregs b s) = \<lparr>dt_base = 0x520, dt_limit = 7\<rparr>"
    by (simp_all add: boot_sregs_def gdt_table_def GDT_OFFSET_def IDT_OFFSET_def Let_def)
  show "dtable_bytes (gdt (boot_sregs b s)) mem = concat (map (to_le_bytes 8) gdt_table)" unfolding dtable_bytes_def d assms(1) [symmetric] by simp
  have "to_le_bytes 8 (0 :: u64) = replicate 8 0" by code_simp
  then show "dtable_bytes (idt (boot_sregs b s)) mem = replicate 8 0" unfolding dtable_bytes_def d using assms(2) by simp
qed

lemma boot_segments_flat:
  "seg_base (kvm_segment_from_gdt (gdt_entry 0xa09b 0 0xfffff) 1) = 0" "seg_limit (kvm_segment_from_gdt (gdt_entry 0xa09b 0 0xfffff) 1) = 0xFFFFFFFF"
  "dpl (kvm_segment_from_gdt (gdt_entry 0xa09b 0 0xfffff) 1) = 0" "present (kvm_segment_from_gdt (gdt_entry 0xa09b 0 0xfffff) 1) = 1"
  "seg_l (kvm_segment_from_gdt (gdt_entry 0xa09b 0 0xfffff) 1) = 1" "seg_db (kvm_segment_from_gdt (gdt_entry 0xa09b 0 0xfffff) 1) = 0"
  "seg_base (kvm_segment_from_gdt (gdt_entry 0xc093 0 0xfffff) 2) = 0" "seg_limit (kvm_segment_from_gdt (gdt_entry 0xc093 0 0xfffff) 2) = 0xFFFFFFFF"
  "dpl (kvm_segment_from_gdt (gdt_entry 0xc093 0 0xfffff) 2) = 0" "present (kvm_segment_from_gdt (gdt_entry 0xc093 0 0xfffff) 2) = 1"
  by (simp_all add: kvm_segment_from_gdt_def gdt_entry_def rust_shl_def rust_shr_def Let_def)

text \<open>
  C5: the boot structures share guest memory without damage. On a valid topology of at most 1024 CPUs and 64 nodes, with
  a command line below 4096 bytes, at least 1 MiB of memory and the two upper page tables zero at the start, writing the
  command line, the boot parameters, the MP table and the ACPI tables and setting up the vCPUs succeeds, and afterwards
  each is found as it was written: the command line with its terminator, the parameters, every entry of the MP table, each of
  FADT, MADT, SRAT, SLIT and, with several nodes, HMAT through the ACPI search, and the descriptor tables where the registers
  of the boot vCPU point; the memory from 1 MiB on, where the kernel lies, is untouched; and on a memory view of the
  result the walk of the monitor from the boot vCPU's \<open>CR3\<close> maps the first GiB to itself and nothing else.
\<close>

theorem boot_memory_image:
  assumes law: "ram_rw_law write_slice read_slice contents" and api: "vcpu_law api" and wf: "wf_topology t"
    and c: "compute t mb base = Inr rs" and small: "unat (total_cpus t) \<le> 1024" "unat (numa_nodes t) \<le> 64"
    and cmd: "length cmdline < 4096" and params: "\<forall>p. length (params_bytes p) = 4096" and max: "11 \<le> max_entries"
    and fit: "0x100000 \<le> length (contents m)" "length (contents m) < 2 ^ 64"
    and zero: "take 0x2000 (drop 0x9000 (contents m)) = replicate 0x2000 0"
  shows "\<exists>l m1 m2 bsp' aps' s. setup_memory_tail write_slice read_slice params_bytes h0 cmdline mem_mb ia isz h t rs m = Inr (l, m1)
    \<and> setup_vcpus write_slice api max_entries split_irqchip entry m1 (bsp # aps) = Inr (m2, bsp' # aps')
    \<and> take (length cmdline + 1) (drop 0x20000 (contents m2)) = cmdline @ [0]
    \<and> take 4096 (drop 0x7000 (contents m2)) = params_bytes (boot_params_of h0 cmdline mem_mb ia isz h)
    \<and> mp_read (contents m2) = Some (mp_entry_list t)
    \<and> acpi_complete t rs l (contents m2)
    \<and> drop 0x100000 (contents m2) = drop 0x100000 (contents m)
    \<and> get_sregs api bsp' = Some s
    \<and> dtable_bytes (gdt s) (contents m2) = concat (map (to_le_bytes 8) gdt_table)
    \<and> dtable_bytes (idt s) (contents m2) = replicate 8 0
    \<and> (\<forall>g r rest kva. valid_mem g \<and> gm_regions g = r # rest \<and> 0xc000 \<le> unat (mr_size r) \<and> flat g = contents m2 \<longrightarrow>
         walk_4level g (cr3 s) kva = (if take_bit 48 kva < 2 ^ 30 then Some (take_bit 48 kva) else None))"
proof -
  have wl: "ram_law write_slice contents" using law by (simp add: ram_rw_law_def)
  let ?p = "params_bytes (boot_params_of h0 cmdline mem_mb ia isz h)"
  obtain l m1 mp acpi where m1: "setup_memory_tail write_slice read_slice params_bytes h0 cmdline mem_mb ia isz h t rs m = Inr (l, m1)"
    "contents m1 = apply_writes (boot_writes (cmdline @ [0]) ?p mp acpi) (contents m)"
    "length mp \<le> 0x40400" "0xE0000 + length acpi \<le> 0x100000"
    and mp: "\<And>P Q. length P = 0x9fc00 \<Longrightarrow> mp_read (P @ mp @ Q) = Some (mp_entry_list t)"
    and acpi: "\<And>P Q. length P = 0xE0000 \<Longrightarrow> acpi_complete t rs l (P @ acpi @ Q)"
    using setup_memory_tail_writes [OF law wf c small cmd params fit, where ?h0.0 = h0 and mem_mb = mem_mb and ia = ia
        and isz = isz and h = h] by (elim exE conjE) blast
  have l1: "length (contents m1) = length (contents m)"
    unfolding m1(2) using m1(3,4) fit cmd params by (intro length_apply_writes) (simp add: boot_writes_def)
  then have "0xc000 \<le> length (contents m1)" using fit(1) by simp
  from setup_vcpus_ok [OF wl api this max, of split_irqchip entry bsp aps]
  obtain m2 bsp' aps' s where m2: "setup_vcpus write_slice api max_entries split_irqchip entry m1 (bsp # aps) = Inr (m2, bsp' # aps')"
    "contents m2 = apply_writes sregs_writes (contents m1)" "get_sregs api bsp' = Some (boot_sregs split_irqchip s)"
    by (elim exE conjE) blast
  have c2: "contents m2 = apply_writes (boot_writes (cmdline @ [0]) ?p mp acpi @ sregs_writes) (contents m)"
    by (simp add: m2(2) m1(2))
  have len: "length (cmdline @ [0]) \<le> 4096" "length ?p = 4096" using cmd params by simp_all
  note img = boot_image [OF len m1(3,4) fit(1) zero c2]
  have pos: "length (take x (contents m2)) = x" if "x \<le> 0x100000" for x using img(1) fit(1) that by simp
  have sp: "contents m2 = take 0x9fc00 (contents m2) @ mp @ drop (0x9fc00 + length mp) (contents m2)"
    "contents m2 = take 0xE0000 (contents m2) @ acpi @ drop (0xE0000 + length acpi) (contents m2)"
    by (rule slice_split, rule img(2), simp add: boot_writes_def)+
  have "mp_read (contents m2) = Some (mp_entry_list t)" by (subst sp(1), rule mp, rule pos) simp
  moreover have "acpi_complete t rs l (contents m2)" by (subst sp(2), rule acpi, rule pos) simp
  moreover have "cr3 (boot_sregs split_irqchip s) = PML4_START" by (simp add: boot_sregs_control)
  moreover note boot_dtables [OF img(4,5), of split_irqchip s]
  ultimately show ?thesis
    using m1(1) m2(1,3) img(2) [of "0x20000" "cmdline @ [0]"] img(2) [of "0x7000" ?p] img(3,6) params
    by (intro exI [of _ l] exI [of _ m1] exI [of _ m2] exI [of _ bsp'] exI [of _ aps'] exI [of _ "boot_sregs split_irqchip s"])
      (simp add: boot_writes_def)
qed

text \<open>
  C26: the vCPUs are ready for the 64-bit boot protocol. When KVM accepts what its checks allow and reads it back, the
  boot vCPU is in long mode with paging on; its code segment is a 64-bit segment and its five data segments are
  writable, all six flat, present and of privilege level 0; it starts at the entry point with the boot parameters in its
  argument register; its first local interrupt input passes on external interrupts and its second is the non-maskable
  one; x2APIC is enabled in both bits when asked for; and every other vCPU has both inputs masked.
\<close>

theorem vcpus_boot_state:
  assumes "ram_law write_slice contents" and "vcpu_law api" and "0xc000 \<le> length (contents m)" and "11 \<le> max_entries"
  shows "\<exists>m' bsp' aps' s r. setup_vcpus write_slice api max_entries split_irqchip entry m (bsp # aps) = Inr (m', bsp' # aps')
    \<and> get_sregs api bsp' = Some s
    \<and> cr0 s = 0x80000001 \<and> bit (cr4 s) 5 \<and> bit (efer s) 8 \<and> bit (efer s) 10 \<and> cr3 s = PML4_START
    \<and> seg_l (seg_cs s) = 1 \<and> seg_db (seg_cs s) = 0 \<and> seg_type (seg_cs s) = 11
    \<and> (\<forall>seg \<in> {seg_ds s, seg_es s, seg_fs s, seg_gs s, seg_ss s}. seg_type seg = 3)
    \<and> (\<forall>seg \<in> {seg_cs s, seg_ds s, seg_es s, seg_fs s, seg_gs s, seg_ss s}.
         seg_base seg = 0 \<and> seg_limit seg = 0xFFFFFFFF \<and> seg_s seg = 1 \<and> dpl seg = 0 \<and> present seg = 1)
    \<and> get_regs api bsp' = Some r \<and> rip r = entry \<and> rsi r = BOOT_PARAMS_ADDR \<and> rsp r = BOOT_STACK \<and> rflags r = 2
    \<and> (split_irqchip \<longrightarrow> bit (apic_base s) 10 \<and> bit (apic_base s) 11)
    \<and> fst (lvts api bsp') AND 0x700 = 0x700 \<and> snd (lvts api bsp') AND 0x700 = 0x400
    \<and> length aps' = length aps \<and> (\<forall>v \<in> set aps'. bit (fst (lvts api v)) 16 \<and> bit (snd (lvts api v)) 16)"
proof -
  obtain m' bsp' aps' s l where v: "setup_vcpus write_slice api max_entries split_irqchip entry m (bsp # aps) = Inr (m', bsp' # aps')"
    "get_sregs api bsp' = Some (boot_sregs split_irqchip s)" "length l = 1024" "lvts api bsp' = lvts_of (boot_lapic True l)"
    "get_regs api bsp' = Some \<lparr>rflags = 0x2, rip = entry, rsp = BOOT_STACK, rbp = BOOT_STACK, rsi = BOOT_PARAMS_ADDR\<rparr>"
    "length aps' = length aps" "\<forall>v \<in> set aps'. bit (fst (lvts api v)) 16 \<and> bit (snd (lvts api v)) 16"
    using setup_vcpus_ok [OF assms, of split_irqchip entry bsp aps] by (elim exE conjE) blast
  have l: "fst (lvts api bsp') AND 0x700 = 0x700" "snd (lvts api bsp') AND 0x700 = 0x400"
    using v(3,4) by (simp_all add: lvts_of_def boot_lapic_lvts delivery_mode)
  show ?thesis
    by (rule exI [of _ m'], rule exI [of _ bsp'], rule exI [of _ aps'], rule exI [of _ "boot_sregs split_irqchip s"], 
        rule exI [of _ "\<lparr>rflags = 0x2, rip = entry, rsp = BOOT_STACK, rbp = BOOT_STACK, rsi = BOOT_PARAMS_ADDR\<rparr>"])
      (simp add: v(1,2,5-7) l boot_sregs_control boot_sregs_segments boot_segments_types boot_segments_flat boot_sregs_apic x2apic_bits)
qed

lemma sample_vcpu_law: "vcpu_law sample_vcpu"
proof -
  have "bit (apic_base s) 10 \<longrightarrow> bit (apic_base s) 11" if "sregs_valid s" for s :: "unit kvm_sregs"
    using that by (simp add: sregs_valid_def)
  moreover have "bit (apic_base sample_sregs) 10 \<longrightarrow> bit (apic_base sample_sregs) 11" by (simp add: sample_sregs_def Let_def)
  moreover have "length (takeWhile plain_msr es) = length es" if "list_all plain_msr es" for es
    using that by (induction es) auto
  ultimately show ?thesis
    unfolding vcpu_law_def by (auto simp: sample_vcpu_def regs_kept_def lvt_update_def)
qed

theorem e820_exact_witness:
  "e820_ram (boot_params_of () [] 5120 None None None) 0x100000000 \<and>
   \<not> e820_ram (boot_params_of () [] 5120 None None None) 0xC0000000 \<and>
   \<not> e820_ram (boot_params_of () [] 5120 None None None) 0x140000000"
  using e820_exact [of 5120 "()" "[]" None None None] by simp

theorem acpi_overruns_kernel_witness:
  "\<exists>rs l m' img. compute topo_many 400 0 = Inr rs \<and> setup_acpi list_write (replicate (2 ^ 28) 0) topo_many rs = Inr (l, m')
     \<and> 0x20000 < length img \<and> m' = overwrite 0xE0000 img (replicate (2 ^ 28) 0)"
proof -
  obtain rs where rs: "compute topo_many 400 0 = Inr rs" 
  proof -
    have "nodes topo_many = None" by (simp add: topo_many_def)
    then show ?thesis using that by (cases "numa_nodes topo_many \<le> 1") (simp_all add: compute_def Let_def)
  qed
  have n: "unat (total_cpus topo_many) = 400" "unat (numa_nodes topo_many) = 400" by (simp_all add: total_cpus_def topo_many_def)
  have wf: "wf_topology topo_many"
    by (simp add: wf_topology_def topo_many_def validate_iff validate_nodes_def validate_distances_def node_llcs_def is_multiple_of_def
        sum_list_replicate)
  from acpi_overruns_kernel [OF list_write_law wf rs, of "replicate (2 ^ 28) 0"] n rs show ?thesis
    by (auto simp: KERNEL_LOAD_ADDR_def)
qed

theorem vcpus_boot_state_witness:
  "\<exists>m' bsp' ap' s r. setup_vcpus list_write sample_vcpu 256 True 0x100200 (replicate 0x10000 0) [sample_cpu, sample_cpu] = Inr (m', [bsp', ap'])
     \<and> get_sregs sample_vcpu bsp' = Some s \<and> cr0 s = 0x80000001 \<and> bit (apic_base s) 10
     \<and> seg_base (seg_gs s) = 0 \<and> get_regs sample_vcpu bsp' = Some r \<and> rip r = 0x100200 \<and> bit (fst (lvts sample_vcpu ap')) 16"
proof -
  have f: "0xc000 \<le> length (replicate 0x10000 (0 :: u8))" "11 \<le> (256 :: nat)" by simp_all
  obtain m' bsp' aps' s r where b: "setup_vcpus list_write sample_vcpu 256 True 0x100200 (replicate 0x10000 0) [sample_cpu, sample_cpu] = Inr (m', bsp' # aps')"
    "get_sregs sample_vcpu bsp' = Some s" "cr0 s = 0x80000001" "True \<longrightarrow> bit (apic_base s) 10 \<and> bit (apic_base s) 11"
    "\<forall>seg \<in> {seg_cs s, seg_ds s, seg_es s, seg_fs s, seg_gs s, seg_ss s}.
       seg_base seg = 0 \<and> seg_limit seg = 0xFFFFFFFF \<and> seg_s seg = 1 \<and> dpl seg = 0 \<and> present seg = 1"
    "get_regs sample_vcpu bsp' = Some r" "rip r = 0x100200"
    "length aps' = length [sample_cpu]" "\<forall>v \<in> set aps'. bit (fst (lvts sample_vcpu v)) 16 \<and> bit (snd (lvts sample_vcpu v)) 16"
    using vcpus_boot_state [OF list_write_law sample_vcpu_law f, of True "0x100200" sample_cpu "[sample_cpu]"]
    by (elim exE conjE) (rule that)
  from b(8) obtain ap' where "aps' = [ap']" by (auto simp: length_Suc_conv)
  with b(1,2,3,6,7) b(4,5,9) show ?thesis
    by (intro exI [of _ m'] exI [of _ bsp'] exI [of _ ap'] exI [of _ s] exI [of _ r]) simp
qed

theorem boot_memory_image_witness:
  "\<exists>rs l m1 m2 bsp' s. compute topo_cxl 1280 0 = Inr rs
     \<and> setup_memory_tail list_write list_read (\<lambda>p. replicate 4096 7) () [114, 119] 1280 None None None topo_cxl rs (replicate 0x200000 0) = Inr (l, m1)
     \<and> setup_vcpus list_write sample_vcpu 256 False 0x100200 m1 [sample_cpu] = Inr (m2, [bsp'])
     \<and> take 3 (drop 0x20000 m2) = [114, 119, 0] \<and> take 4096 (drop 0x7000 m2) = replicate 4096 7
     \<and> mp_read m2 = Some (mp_entry_list topo_cxl) \<and> acpi_complete topo_cxl rs l m2 \<and> get_sregs sample_vcpu bsp' = Some s
     \<and> walk_4level (gm_new m2 0x200000) (cr3 s) 0x100200 = Some 0x100200 \<and> walk_4level (gm_new m2 0x200000) (cr3 s) 0x40000000 = None"
proof -
  obtain rs where rs: "compute topo_cxl 1280 0 = Inr rs" using compute_topo_cxl by simp
  have n: "unat (total_cpus topo_cxl) \<le> 1024" "unat (numa_nodes topo_cxl) \<le> 64" by (simp_all add: total_cpus_def topo_cxl_def)
  have p: "\<forall>p :: unit boot_params. length (replicate 4096 7 :: bytes) = 4096" by simp
  have z: "take 0x2000 (drop 0x9000 (replicate 0x200000 (0 :: u8))) = replicate 0x2000 0" by (simp add: min_def)
  have x: "11 \<le> (256 :: nat)" by simp
  have c: "length [114, 119 :: u8] < 4096" by simp
  have f: "0x100000 \<le> length (replicate 0x200000 (0 :: u8))" "length (replicate 0x200000 (0 :: u8)) < 2 ^ 64" by simp_all
  obtain l m1 m2 bsp' aps' s where b: "setup_memory_tail list_write list_read (\<lambda>p. replicate 4096 7) () [114, 119] 1280 None None None topo_cxl rs (replicate 0x200000 0) = Inr (l, m1)"
    "setup_vcpus list_write sample_vcpu 256 False 0x100200 m1 [sample_cpu] = Inr (m2, bsp' # aps')"
    "take (length [114, 119 :: u8] + 1) (drop 0x20000 m2) = [114, 119] @ [0]" "take 4096 (drop 0x7000 m2) = replicate 4096 7"
    "mp_read m2 = Some (mp_entry_list topo_cxl)" "acpi_complete topo_cxl rs l m2" "drop 0x100000 m2 = drop 0x100000 (replicate 0x200000 0)" "get_sregs sample_vcpu bsp' = Some s"
    "\<forall>g r rest kva. valid_mem g \<and> gm_regions g = r # rest \<and> 0xc000 \<le> unat (mr_size r) \<and> flat g = m2 \<longrightarrow>
         walk_4level g (cr3 s) kva = (if take_bit 48 kva < 2 ^ 30 then Some (take_bit 48 kva) else None)"
    using boot_memory_image [OF list_rw_law sample_vcpu_law wf_topo_cxl rs n c p x f z, where split_irqchip = False and entry = "0x100200" and bsp = sample_cpu and aps = "[]" and ?h0.0 = "()" and mem_mb = 1280
        and ia = None and isz = None and h = None]
    by (elim exE conjE) (rule that)
  from arg_cong [OF b(7), of length] have len: "length m2 = 0x200000" by simp
  then have g: "valid_mem (gm_new m2 0x200000)" "flat (gm_new m2 0x200000) = m2" by (simp_all add: valid_mem_def gm_new_def flat_def)
  have "gm_regions (gm_new m2 0x200000) = \<lparr>mr_offset = 0, mr_size = 0x200000, mr_bytes = m2\<rparr> # []" by (simp add: gm_new_def)
  note walk = b(9) [rule_format, OF conjI, OF g(1) conjI, OF this conjI, OF _ g(2)]
  have "aps' = []" using b(2) by (auto simp: setup_vcpus_def and_then_def split: sum.splits prod.splits)
  moreover have "take 3 (drop 0x20000 m2) = [114, 119, 0]" using b(3) by (simp add: numeral_3_eq_3)
  ultimately show ?thesis
    using b(1,2,4,5,6,8) rs walk [of "0x100200"] walk [of "0x40000000"]
    by (intro exI [of _ rs] exI [of _ l] exI [of _ m1] exI [of _ m2] exI [of _ bsp'] exI [of _ s])
      simp
qed

end
