(* ===== verification/Virtio_Status.thy ===== *)
theory Virtio_Status
  imports Rust_Prelude
begin

text \<open>
  What the virtio devices share: the numeric constants of the virtio 1.2 transport that
  \<^verbatim>\<open>virtio_bindings\<close> exports, the ladder of device status values, and the contract of a
  status register as a locale that each device interprets on its own \<^verbatim>\<open>set_status\<close>.
\<close>

section \<open>Constants\<close>

definition VIRTIO_CONFIG_S_ACKNOWLEDGE :: u32 where "VIRTIO_CONFIG_S_ACKNOWLEDGE = 1"
definition VIRTIO_CONFIG_S_DRIVER :: u32 where "VIRTIO_CONFIG_S_DRIVER = 2"
definition VIRTIO_CONFIG_S_DRIVER_OK :: u32 where "VIRTIO_CONFIG_S_DRIVER_OK = 4"
definition VIRTIO_CONFIG_S_FEATURES_OK :: u32 where "VIRTIO_CONFIG_S_FEATURES_OK = 8"
definition VIRTIO_CONFIG_S_NEEDS_RESET :: u32 where "VIRTIO_CONFIG_S_NEEDS_RESET = 0x40"
definition VIRTIO_CONFIG_S_FAILED :: u32 where "VIRTIO_CONFIG_S_FAILED = 0x80"

definition S_ACK :: u32 where "S_ACK = VIRTIO_CONFIG_S_ACKNOWLEDGE"
definition S_DRV :: u32 where "S_DRV = S_ACK OR VIRTIO_CONFIG_S_DRIVER"
definition S_FEAT :: u32 where "S_FEAT = S_DRV OR VIRTIO_CONFIG_S_FEATURES_OK"

definition VIRTIO_F_VERSION_1 :: nat where "VIRTIO_F_VERSION_1 = 32"
definition VIRTIO_RING_F_EVENT_IDX :: nat where "VIRTIO_RING_F_EVENT_IDX = 29"

definition feature_bit :: "nat \<Rightarrow> u64" where
  "feature_bit n = rust_shl 1 n"

text \<open>The two gates on register writes, as functions of the status register.\<close>

definition queue_config_allowed :: "u32 \<Rightarrow> bool" where
  "queue_config_allowed status \<longleftrightarrow>
     status AND S_FEAT = S_FEAT \<and> status AND VIRTIO_CONFIG_S_DRIVER_OK = 0"

definition features_write_allowed :: "u32 \<Rightarrow> bool" where
  "features_write_allowed status \<longleftrightarrow>
     status AND S_DRV = S_DRV \<and> status AND VIRTIO_CONFIG_S_FEATURES_OK = 0"

definition VIRTIO_MMIO_INT_VRING :: u32 where "VIRTIO_MMIO_INT_VRING = 1"
definition VIRTIO_MMIO_INT_CONFIG :: u32 where "VIRTIO_MMIO_INT_CONFIG = 2"

section \<open>Registers of the memory-mapped transport\<close>

datatype mmio_reg =
    MagicValue | Version | DeviceId | VendorId | DeviceFeatures | DeviceFeaturesSel
  | DriverFeatures | DriverFeaturesSel | QueueSel | QueueNumMax | QueueNum | QueueReady
  | QueueNotify | InterruptStatus | InterruptAck | Status | QueueDescLow | QueueDescHigh
  | QueueAvailLow | QueueAvailHigh | QueueUsedLow | QueueUsedHigh | ConfigGeneration

definition mmio_reg_of :: "u64 \<Rightarrow> mmio_reg option" where
  "mmio_reg_of off =
     map_of
       [(0x000, MagicValue), (0x004, Version), (0x008, DeviceId), (0x00c, VendorId),
        (0x010, DeviceFeatures), (0x014, DeviceFeaturesSel),
        (0x020, DriverFeatures), (0x024, DriverFeaturesSel),
        (0x030, QueueSel), (0x034, QueueNumMax), (0x038, QueueNum), (0x044, QueueReady),
        (0x050, QueueNotify), (0x060, InterruptStatus), (0x064, InterruptAck), (0x070, Status),
        (0x080, QueueDescLow), (0x084, QueueDescHigh), (0x090, QueueAvailLow),
        (0x094, QueueAvailHigh), (0x0a0, QueueUsedLow), (0x0a4, QueueUsedHigh),
        (0x0fc, ConfigGeneration)] off"

section \<open>Queues\<close>

text \<open>The configuration calls of a \<^verbatim>\<open>virtio_queue::Queue\<close>.\<close>

record 'q queue_api =
  q_max_size :: "'q \<Rightarrow> u16"
  q_ready :: "'q \<Rightarrow> bool"
  q_set_size :: "u16 \<Rightarrow> 'q \<Rightarrow> 'q"
  q_set_ready :: "bool \<Rightarrow> 'q \<Rightarrow> 'q"
  q_set_desc :: "u32 option \<Rightarrow> u32 option \<Rightarrow> 'q \<Rightarrow> 'q"
  q_set_avail :: "u32 option \<Rightarrow> u32 option \<Rightarrow> 'q \<Rightarrow> 'q"
  q_set_used :: "u32 option \<Rightarrow> u32 option \<Rightarrow> 'q \<Rightarrow> 'q"
  q_set_event_idx :: "bool \<Rightarrow> 'q \<Rightarrow> 'q"
  q_reset :: "'q \<Rightarrow> 'q"

text \<open>A descriptor as the iterator over a chain yields it, and the result of asking a queue for its next chain.\<close>

record chain_descriptor =
  d_addr :: u64
  d_len :: u32
  d_write_only :: bool

datatype vq_next = Chain u16 "chain_descriptor list" | NoChain | InvalidAvailRingIndex | IterFailed

text \<open>The outcome of a handler that may panic and whose loops take fuel.\<close>

datatype 'a run = Returns 'a | Panics | OutOfFuel

definition run_bind :: "'a run \<Rightarrow> ('a \<Rightarrow> 'b run) \<Rightarrow> 'b run" where
  "run_bind r f = (case r of Returns x \<Rightarrow> f x | Panics \<Rightarrow> Panics | OutOfFuel \<Rightarrow> OutOfFuel)"

text \<open>A run that does not panic and whose result, if it returns, satisfies a predicate.\<close>

definition safe :: "('a \<Rightarrow> bool) \<Rightarrow> 'a run \<Rightarrow> bool" where
  "safe P r = (case r of Returns x \<Rightarrow> P x | Panics \<Rightarrow> False | OutOfFuel \<Rightarrow> True)"

section \<open>The status ladder\<close>

definition ladder_values :: "u32 set" where
  "ladder_values = {0, 1, 3, 0xb, 0xf}"

text \<open>NEEDS_RESET and FAILED may be set at any rung; no other bit may.\<close>

definition on_ladder :: "u32 \<Rightarrow> bool" where
  "on_ladder s \<longleftrightarrow> s AND NOT 0xc0 \<in> ladder_values"

lemmas status_defs = VIRTIO_CONFIG_S_ACKNOWLEDGE_def VIRTIO_CONFIG_S_DRIVER_def
  VIRTIO_CONFIG_S_DRIVER_OK_def VIRTIO_CONFIG_S_FEATURES_OK_def
  VIRTIO_CONFIG_S_NEEDS_RESET_def VIRTIO_CONFIG_S_FAILED_def S_ACK_def S_DRV_def S_FEAT_def

lemma run_bind_simps [simp]:
  "run_bind (Returns x) f = f x" "run_bind Panics f = Panics" "run_bind OutOfFuel f = OutOfFuel"
  by (simp_all add: run_bind_def)

lemma safe_bind: "safe Q r \<Longrightarrow> (\<And>x. Q x \<Longrightarrow> safe P (f x)) \<Longrightarrow> safe P (run_bind r f)"
  by (cases r) (simp_all add: safe_def)

lemma safe_mono: "safe Q r \<Longrightarrow> (\<And>x. Q x \<Longrightarrow> P x) \<Longrightarrow> safe P r"
  by (cases r) (simp_all add: safe_def)

lemma safe_if: "(c \<Longrightarrow> safe P r) \<Longrightarrow> (\<not> c \<Longrightarrow> safe P r') \<Longrightarrow> safe P (if c then r else r')"
  by simp

lemma safe_Returns [simp]: "safe P (Returns x) = P x" "safe P OutOfFuel" "\<not> safe P Panics"
  by (simp_all add: safe_def)

lemma superset_eq_or:
  fixes v c :: "'a::len word"
  assumes "v AND c = c"
  shows "v = c OR (v AND NOT c)"
proof (rule bit_word_eqI)
  fix n
  assume "n < LENGTH('a)"
  from assms have "bit (v AND c) n = bit c n" by simp
  with \<open>n < LENGTH('a)\<close> show "bit v n = bit (c OR (v AND NOT c)) n"
    by (auto simp: bit_simps)
qed

lemma or_and_distrib: "((a :: 'a::len word) OR b) AND m = (a AND m) OR (b AND m)"
  by (rule bit_word_eqI) (auto simp: bit_simps)

lemma and_or_absorb: "(a :: 'a::len word) AND (a OR b) = a"
  by (rule bit_word_eqI) (auto simp: bit_simps)

lemma superset_trans: "a AND b = a \<Longrightarrow> b AND c = b \<Longrightarrow> a AND c = (a :: 'a::len word)"
  by (metis and.assoc)

lemma superset_bit: "a AND b = a \<Longrightarrow> a AND m \<noteq> 0 \<Longrightarrow> b AND m \<noteq> (0 :: 'a::len word)"
  by (metis and.assoc and.commute and_zero_eq)

lemma or_flag_bit: "(a OR VIRTIO_CONFIG_S_NEEDS_RESET) AND VIRTIO_CONFIG_S_NEEDS_RESET \<noteq> 0"
proof -
  have "bit ((a OR 0x40) AND (0x40 :: u32)) 6" by (simp add: bit_simps)
  then show ?thesis unfolding status_defs by (metis bit_0_eq bot_apply bot_bool_def)
qed

lemma on_ladder_or:
  assumes "on_ladder s" and "b AND NOT 0xc0 = 0"
  shows "on_ladder (s OR b)"
proof -
  have "(s OR b) AND NOT 0xc0 = (s AND NOT 0xc0) OR (b AND NOT 0xc0)"
    by (rule or_and_distrib)
  with assms show ?thesis by (simp add: on_ladder_def)
qed

lemma on_ladder_rungs: "on_ladder 0" "on_ladder 1" "on_ladder 3" "on_ladder 0xb" "on_ladder 0xf"
  by (simp_all add: on_ladder_def ladder_values_def)

lemma on_ladder_flags: "on_ladder s \<Longrightarrow> on_ladder (s OR 0x40)" "on_ladder s \<Longrightarrow> on_ladder (s OR 0x80)"
  by (simp_all add: on_ladder_or)

text \<open>A driver that is live went through every earlier rung.\<close>

lemma on_ladder_driver_ok:
  assumes "on_ladder s" and "s AND 4 \<noteq> 0"
  shows "s AND 0xf = 0xf"
proof -
  let ?m = "s AND NOT 0xc0"
  have "s AND 4 = ?m AND 4" "s AND 0xf = ?m AND 0xf"
    by (simp_all add: and.assoc)
  with assms show ?thesis by (auto simp: on_ladder_def ladder_values_def)
qed

lemma on_ladder_features_ok:
  assumes "on_ladder s" and "s AND 8 \<noteq> 0"
  shows "s AND 0xb = 0xb"
proof -
  let ?m = "s AND NOT 0xc0"
  have "s AND 8 = ?m AND 8" "s AND 0xb = ?m AND 0xb"
    by (simp_all add: and.assoc)
  with assms show ?thesis by (auto simp: on_ladder_def ladder_values_def)
qed

section \<open>The contract of a status register\<close>

locale status_register =
  fixes status :: "'s \<Rightarrow> u32"
    and write_status :: "u32 \<Rightarrow> 's \<Rightarrow> 's"
  assumes write_keeps_bits: "status s AND status (write_status v s) = status s"
    and write_on_ladder: "on_ladder (status s) \<Longrightarrow> on_ladder (status (write_status v s))"
begin

lemma writes_on_ladder: "on_ladder (status s) \<Longrightarrow> on_ladder (status (fold write_status vs s))"
  by (induction vs arbitrary: s) (simp_all add: write_on_ladder)

lemma writes_keep_bits: "status s AND status (fold write_status vs s) = status s"
proof (induction vs arbitrary: s)
  case (Cons v vs)
  have "status s AND status (fold write_status vs (write_status v s))
      = (status s AND status (write_status v s)) AND status (fold write_status vs (write_status v s))"
    by (simp add: write_keeps_bits)
  also have "\<dots> = status s AND (status (write_status v s)
      AND status (fold write_status vs (write_status v s)))" by (rule and.assoc)
  also have "\<dots> = status s" by (simp only: Cons.IH write_keeps_bits)
  finally show ?case by simp
qed simp

lemma live_after_writes:
  assumes "on_ladder (status s)" and "status (fold write_status vs s) AND 4 \<noteq> 0"
  shows "status (fold write_status vs s) AND 0xf = 0xf"
  using on_ladder_driver_ok writes_on_ladder assms by blast

end

end
