(* ===== verification/Wire_Format.thy ===== *)
theory Wire_Format
  imports Rust_Prelude
begin

text \<open>
  The guest-host wire vocabulary (\<^verbatim>\<open>src/vmm/wire.rs\<close>): message types, lifecycle phases and
  console control events with their numeric values, and the fixed-size records that cross
  the virtio-console ports. A \<^verbatim>\<open>repr(C)\<close> record of unpadded integer fields is the
  concatenation of the little-endian fields; both supported targets are little-endian, so
  the native-endian reads of the source are little-endian too.
\<close>

section \<open>Message types\<close>

datatype msg_type =
    Stimulus | ScenarioStart | ScenarioEnd | ScenarioPause | ScenarioResume | Exit | TestResult
  | SchedExit | Crash | PayloadMetrics | RawPayloadOutput | Profraw | Stdout | Stderr | SchedLog
  | Lifecycle | ExecExit | Dmesg | ProbeOutput | SnapshotRequest | SnapshotReply | SysRdy

fun msg_type_wire :: "msg_type \<Rightarrow> u32" where
  "msg_type_wire Stimulus = 0x5354494D"
| "msg_type_wire ScenarioStart = 0x53435354"
| "msg_type_wire ScenarioEnd = 0x5343454E"
| "msg_type_wire ScenarioPause = 0x53435050"
| "msg_type_wire ScenarioResume = 0x53435252"
| "msg_type_wire Exit = 0x45584954"
| "msg_type_wire TestResult = 0x54455354"
| "msg_type_wire SchedExit = 0x53434458"
| "msg_type_wire Crash = 0x43525348"
| "msg_type_wire PayloadMetrics = 0x504d4554"
| "msg_type_wire RawPayloadOutput = 0x5241574f"
| "msg_type_wire Profraw = 0x50524157"
| "msg_type_wire SnapshotRequest = 0x534e5251"
| "msg_type_wire SnapshotReply = 0x534e5250"
| "msg_type_wire SysRdy = 0x53524459"
| "msg_type_wire Stdout = 0x534f5554"
| "msg_type_wire Stderr = 0x53455252"
| "msg_type_wire SchedLog = 0x53434c47"
| "msg_type_wire Lifecycle = 0x4c494645"
| "msg_type_wire ExecExit = 0x45584358"
| "msg_type_wire Dmesg = 0x444d5347"
| "msg_type_wire ProbeOutput = 0x50524f42"

definition msg_type_from_wire :: "u32 \<Rightarrow> msg_type option" where
  "msg_type_from_wire v =
     (if v = 0x5354494D then Some Stimulus
      else if v = 0x53435354 then Some ScenarioStart
      else if v = 0x5343454E then Some ScenarioEnd
      else if v = 0x53435050 then Some ScenarioPause
      else if v = 0x53435252 then Some ScenarioResume
      else if v = 0x45584954 then Some Exit
      else if v = 0x54455354 then Some TestResult
      else if v = 0x53434458 then Some SchedExit
      else if v = 0x43525348 then Some Crash
      else if v = 0x504d4554 then Some PayloadMetrics
      else if v = 0x5241574f then Some RawPayloadOutput
      else if v = 0x50524157 then Some Profraw
      else if v = 0x534e5251 then Some SnapshotRequest
      else if v = 0x534e5250 then Some SnapshotReply
      else if v = 0x53524459 then Some SysRdy
      else if v = 0x534f5554 then Some Stdout
      else if v = 0x53455252 then Some Stderr
      else if v = 0x53434c47 then Some SchedLog
      else if v = 0x4c494645 then Some Lifecycle
      else if v = 0x45584358 then Some ExecExit
      else if v = 0x444d5347 then Some Dmesg
      else if v = 0x50524f42 then Some ProbeOutput
      else None)"

definition is_coordinator_internal :: "msg_type \<Rightarrow> bool" where
  "is_coordinator_internal t \<longleftrightarrow> t = SnapshotRequest \<or> t = SnapshotReply \<or> t = SysRdy"

datatype lifecycle_phase = InitStarted | PayloadStarting | SchedulerDied | SchedulerNotAttached

fun lifecycle_wire :: "lifecycle_phase \<Rightarrow> u8" where
  "lifecycle_wire InitStarted = 1"
| "lifecycle_wire PayloadStarting = 2"
| "lifecycle_wire SchedulerDied = 3"
| "lifecycle_wire SchedulerNotAttached = 4"

definition lifecycle_from_wire :: "u8 \<Rightarrow> lifecycle_phase option" where
  "lifecycle_from_wire v =
     (if v = 1 then Some InitStarted
      else if v = 2 then Some PayloadStarting
      else if v = 3 then Some SchedulerDied
      else if v = 4 then Some SchedulerNotAttached
      else None)"

datatype control_event =
    DeviceReady | PortAdd | PortRemove | PortReady | ConsolePort | Resize | PortOpen | PortName

fun control_event_wire :: "control_event \<Rightarrow> u16" where
  "control_event_wire DeviceReady = 0"
| "control_event_wire PortAdd = 1"
| "control_event_wire PortRemove = 2"
| "control_event_wire PortReady = 3"
| "control_event_wire ConsolePort = 4"
| "control_event_wire Resize = 5"
| "control_event_wire PortOpen = 6"
| "control_event_wire PortName = 7"

definition control_event_from_wire :: "u16 \<Rightarrow> control_event option" where
  "control_event_from_wire v =
     (if v = 0 then Some DeviceReady
      else if v = 1 then Some PortAdd
      else if v = 2 then Some PortRemove
      else if v = 3 then Some PortReady
      else if v = 4 then Some ConsolePort
      else if v = 5 then Some Resize
      else if v = 6 then Some PortOpen
      else if v = 7 then Some PortName
      else None)"

section \<open>Fixed-size records\<close>

record shm_message =
  sm_type :: u32
  sm_length :: u32
  sm_crc32 :: u32
  sm_pad :: u32

definition FRAME_HEADER_SIZE :: nat where "FRAME_HEADER_SIZE = 16"

definition shm_message_bytes :: "shm_message \<Rightarrow> bytes" where
  "shm_message_bytes m =
     to_le_bytes 4 (sm_type m) @ to_le_bytes 4 (sm_length m)
     @ to_le_bytes 4 (sm_crc32 m) @ to_le_bytes 4 (sm_pad m)"

definition shm_message_read :: "bytes \<Rightarrow> shm_message option" where
  "shm_message_read bs =
     (if length bs = FRAME_HEADER_SIZE then
        Some \<lparr>sm_type = from_le_bytes (byte_slice bs 0 4),
              sm_length = from_le_bytes (byte_slice bs 4 8),
              sm_crc32 = from_le_bytes (byte_slice bs 8 12),
              sm_pad = from_le_bytes (byte_slice bs 12 16)\<rparr>
      else None)"

record stimulus_event =
  elapsed_ms :: u32
  step_index :: u16
  op_count :: u16
  op_kinds :: u32
  cgroup_count :: u16
  worker_count :: u16
  total_iterations :: u64

definition stimulus_bytes :: "stimulus_event \<Rightarrow> bytes" where
  "stimulus_bytes s =
     to_le_bytes 4 (elapsed_ms s) @ to_le_bytes 2 (step_index s) @ to_le_bytes 2 (op_count s)
     @ to_le_bytes 4 (op_kinds s) @ to_le_bytes 2 (cgroup_count s)
     @ to_le_bytes 2 (worker_count s) @ to_le_bytes 8 (total_iterations s)"

definition stimulus_from_payload :: "bytes \<Rightarrow> stimulus_event option" where
  "stimulus_from_payload bs =
     (if length bs < 24 then None
      else Some \<lparr>elapsed_ms = from_le_bytes (byte_slice bs 0 4),
                 step_index = from_le_bytes (byte_slice bs 4 6),
                 op_count = from_le_bytes (byte_slice bs 6 8),
                 op_kinds = from_le_bytes (byte_slice bs 8 12),
                 cgroup_count = from_le_bytes (byte_slice bs 12 14),
                 worker_count = from_le_bytes (byte_slice bs 14 16),
                 total_iterations = from_le_bytes (byte_slice bs 16 24)\<rparr>)"

definition SNAPSHOT_TAG_MAX :: nat where "SNAPSHOT_TAG_MAX = 64"
definition SNAPSHOT_REASON_MAX :: nat where "SNAPSHOT_REASON_MAX = 64"
definition SNAPSHOT_STATUS_OK :: u32 where "SNAPSHOT_STATUS_OK = 1"
definition SNAPSHOT_STATUS_ERR :: u32 where "SNAPSHOT_STATUS_ERR = 2"

record snapshot_request =
  rq_request_id :: u32
  rq_kind :: u32
  rq_tag :: bytes

definition snapshot_request_bytes :: "snapshot_request \<Rightarrow> bytes" where
  "snapshot_request_bytes r =
     to_le_bytes 4 (rq_request_id r) @ to_le_bytes 4 (rq_kind r) @ rq_tag r"

definition snapshot_request_read :: "bytes \<Rightarrow> snapshot_request option" where
  "snapshot_request_read bs =
     (if length bs = 8 + SNAPSHOT_TAG_MAX then
        Some \<lparr>rq_request_id = from_le_bytes (byte_slice bs 0 4),
              rq_kind = from_le_bytes (byte_slice bs 4 8), rq_tag = byte_slice bs 8 72\<rparr>
      else None)"

record snapshot_reply =
  rp_request_id :: u32
  rp_status :: u32
  rp_reason :: bytes

definition snapshot_reply_bytes :: "snapshot_reply \<Rightarrow> bytes" where
  "snapshot_reply_bytes r =
     to_le_bytes 4 (rp_request_id r) @ to_le_bytes 4 (rp_status r) @ rp_reason r"

definition snapshot_reply_read :: "bytes \<Rightarrow> snapshot_reply option" where
  "snapshot_reply_read bs =
     (if length bs = 8 + SNAPSHOT_REASON_MAX then
        Some \<lparr>rp_request_id = from_le_bytes (byte_slice bs 0 4),
              rp_status = from_le_bytes (byte_slice bs 4 8), rp_reason = byte_slice bs 8 72\<rparr>
      else None)"

record console_control =
  cc_id :: u32
  cc_event :: u16
  cc_value :: u16

definition console_control_bytes :: "console_control \<Rightarrow> bytes" where
  "console_control_bytes c =
     to_le_bytes 4 (cc_id c) @ to_le_bytes 2 (cc_event c) @ to_le_bytes 2 (cc_value c)"

definition console_control_read :: "bytes \<Rightarrow> console_control option" where
  "console_control_read bs =
     (if length bs = 8 then
        Some \<lparr>cc_id = from_le_bytes (byte_slice bs 0 4),
              cc_event = from_le_bytes (byte_slice bs 4 6),
              cc_value = from_le_bytes (byte_slice bs 6 8)\<rparr>
      else None)"

section \<open>Enumerations on the wire\<close>

text \<open>
  The contract shared by the three enumerations: the numeric value identifies the variant,
  and decoding accepts exactly the values some variant has.
\<close>

locale wire_enum =
  fixes wire :: "'a \<Rightarrow> 'w"
    and from_wire :: "'w \<Rightarrow> 'a option"
  assumes from_wire_wire: "from_wire (wire x) = Some x"
    and wire_from_wire: "from_wire v = Some x \<Longrightarrow> wire x = v"
begin

lemma wire_eq_iff: "wire x = wire y \<longleftrightarrow> x = y"
  using from_wire_wire by (metis option.inject)

lemma from_wire_Some_iff: "from_wire v = Some x \<longleftrightarrow> v = wire x"
  using from_wire_wire wire_from_wire by blast

lemma from_wire_None_iff: "from_wire v = None \<longleftrightarrow> v \<notin> range wire"
  using from_wire_Some_iff by (metis option.exhaust option.distinct(1) rangeE rangeI)

end

interpretation msg: wire_enum msg_type_wire msg_type_from_wire
proof
  show "msg_type_from_wire (msg_type_wire t) = Some t" for t
    by (cases t) (simp_all add: msg_type_from_wire_def)
  show "msg_type_from_wire v = Some t \<Longrightarrow> msg_type_wire t = v" for v t
    by (auto simp: msg_type_from_wire_def split: if_splits)
qed

interpretation phase: wire_enum lifecycle_wire lifecycle_from_wire
proof
  show "lifecycle_from_wire (lifecycle_wire p) = Some p" for p
    by (cases p) (simp_all add: lifecycle_from_wire_def)
  show "lifecycle_from_wire v = Some p \<Longrightarrow> lifecycle_wire p = v" for v p
    by (auto simp: lifecycle_from_wire_def split: if_splits)
qed

interpretation ctrl: wire_enum control_event_wire control_event_from_wire
proof
  show "control_event_from_wire (control_event_wire e) = Some e" for e
    by (cases e) (simp_all add: control_event_from_wire_def)
  show "control_event_from_wire v = Some e \<Longrightarrow> control_event_wire e = v" for v e
    by (auto simp: control_event_from_wire_def split: if_splits)
qed

section \<open>Records on the wire\<close>

text \<open>
  The contract of a fixed-size record: its image has a known length, reading inverts
  writing, and every image of the right length is read.
\<close>

locale fixed_codec =
  fixes enc :: "'a \<Rightarrow> bytes"
    and dec :: "bytes \<Rightarrow> 'a option"
    and sz :: nat
    and ok :: "'a \<Rightarrow> bool"
  assumes length_enc: "ok x \<Longrightarrow> length (enc x) = sz"
    and dec_enc: "ok x \<Longrightarrow> dec (enc x) = Some x"
    and dec_Some: "dec bs = Some x \<Longrightarrow> ok x \<and> enc x = bs"
    and dec_total: "length bs = sz \<Longrightarrow> dec bs \<noteq> None"
begin

lemma enc_eq_iff: "ok x \<Longrightarrow> ok y \<Longrightarrow> enc x = enc y \<longleftrightarrow> x = y"
  using dec_enc by (metis option.inject)

lemma dec_Some_iff: "dec bs = Some x \<longleftrightarrow> ok x \<and> bs = enc x"
  using dec_enc dec_Some by blast

lemma dec_None_iff: "dec bs = None \<longleftrightarrow> length bs \<noteq> sz"
  using dec_total dec_Some length_enc by (metis option.exhaust)

lemma dec_prefix: "ok x \<Longrightarrow> dec (take sz (enc x @ rest)) = Some x"
  by (simp add: length_enc dec_enc)

end

lemmas codec_slices = byte_slice_def le_simps

interpretation hdr: fixed_codec shm_message_bytes shm_message_read FRAME_HEADER_SIZE "\<lambda>_. True"
proof
  fix x :: shm_message and bs
  show "length (shm_message_bytes x) = FRAME_HEADER_SIZE"
    by (simp add: shm_message_bytes_def FRAME_HEADER_SIZE_def)
  show "shm_message_read (shm_message_bytes x) = Some x"
    by (simp add: shm_message_bytes_def shm_message_read_def FRAME_HEADER_SIZE_def codec_slices)
  show "shm_message_read bs = Some x \<Longrightarrow> True \<and> shm_message_bytes x = bs"
    by (auto simp: shm_message_bytes_def shm_message_read_def FRAME_HEADER_SIZE_def
        to_le_from_slice byte_slice_append split: if_splits)
  show "length bs = FRAME_HEADER_SIZE \<Longrightarrow> shm_message_read bs \<noteq> None"
    by (simp add: shm_message_read_def)
qed

interpretation rq: fixed_codec snapshot_request_bytes snapshot_request_read "8 + SNAPSHOT_TAG_MAX"
  "\<lambda>r. length (rq_tag r) = SNAPSHOT_TAG_MAX"
proof
  fix x :: snapshot_request and bs
  show "length (rq_tag x) = SNAPSHOT_TAG_MAX
      \<Longrightarrow> length (snapshot_request_bytes x) = 8 + SNAPSHOT_TAG_MAX"
    by (simp add: snapshot_request_bytes_def)
  show "length (rq_tag x) = SNAPSHOT_TAG_MAX
      \<Longrightarrow> snapshot_request_read (snapshot_request_bytes x) = Some x"
    by (simp add: snapshot_request_bytes_def snapshot_request_read_def SNAPSHOT_TAG_MAX_def codec_slices)
  show "snapshot_request_read bs = Some x
      \<Longrightarrow> length (rq_tag x) = SNAPSHOT_TAG_MAX \<and> snapshot_request_bytes x = bs"
    by (auto simp: snapshot_request_bytes_def snapshot_request_read_def SNAPSHOT_TAG_MAX_def
        to_le_from_slice byte_slice_append split: if_splits)
  show "length bs = 8 + SNAPSHOT_TAG_MAX \<Longrightarrow> snapshot_request_read bs \<noteq> None"
    by (simp add: snapshot_request_read_def)
qed

interpretation rp: fixed_codec snapshot_reply_bytes snapshot_reply_read "8 + SNAPSHOT_REASON_MAX"
  "\<lambda>r. length (rp_reason r) = SNAPSHOT_REASON_MAX"
proof
  fix x :: snapshot_reply and bs
  show "length (rp_reason x) = SNAPSHOT_REASON_MAX
      \<Longrightarrow> length (snapshot_reply_bytes x) = 8 + SNAPSHOT_REASON_MAX"
    by (simp add: snapshot_reply_bytes_def)
  show "length (rp_reason x) = SNAPSHOT_REASON_MAX
      \<Longrightarrow> snapshot_reply_read (snapshot_reply_bytes x) = Some x"
    by (simp add: snapshot_reply_bytes_def snapshot_reply_read_def SNAPSHOT_REASON_MAX_def codec_slices)
  show "snapshot_reply_read bs = Some x
      \<Longrightarrow> length (rp_reason x) = SNAPSHOT_REASON_MAX \<and> snapshot_reply_bytes x = bs"
    by (auto simp: snapshot_reply_bytes_def snapshot_reply_read_def SNAPSHOT_REASON_MAX_def
        to_le_from_slice byte_slice_append split: if_splits)
  show "length bs = 8 + SNAPSHOT_REASON_MAX \<Longrightarrow> snapshot_reply_read bs \<noteq> None"
    by (simp add: snapshot_reply_read_def)
qed

interpretation cc: fixed_codec console_control_bytes console_control_read 8 "\<lambda>_. True"
proof
  fix x :: console_control and bs
  show "length (console_control_bytes x) = 8" by (simp add: console_control_bytes_def)
  show "console_control_read (console_control_bytes x) = Some x"
    by (simp add: console_control_bytes_def console_control_read_def codec_slices)
  show "console_control_read bs = Some x \<Longrightarrow> True \<and> console_control_bytes x = bs"
    by (auto simp: console_control_bytes_def console_control_read_def
        to_le_from_slice byte_slice_append split: if_splits)
  show "length bs = 8 \<Longrightarrow> console_control_read bs \<noteq> None" by (simp add: console_control_read_def)
qed

section \<open>Properties\<close>

text \<open>
  decoding is the exact inverse of the numeric value for message types, lifecycle phases
  and console control events: a value decodes to a variant precisely when it is the value of
  that variant, so no two variants share a value.
\<close>

theorem wire_enums_exact:
  "(msg_type_from_wire v = Some t \<longleftrightarrow> v = msg_type_wire t)
   \<and> (lifecycle_from_wire b = Some p \<longleftrightarrow> b = lifecycle_wire p)
   \<and> (control_event_from_wire w = Some e \<longleftrightarrow> w = control_event_wire e)"
  by (simp add: msg.from_wire_Some_iff phase.from_wire_Some_iff ctrl.from_wire_Some_iff)

text \<open>
  frame headers, snapshot requests and replies and console control records are read back
  exactly as written: a byte string is read as a record precisely when it is the image of that
  record, and is refused precisely when its length is wrong.
\<close>

theorem wire_records_exact:
  "(shm_message_read bs = Some m \<longleftrightarrow> bs = shm_message_bytes m)
   \<and> (shm_message_read bs = None \<longleftrightarrow> length bs \<noteq> FRAME_HEADER_SIZE)
   \<and> (snapshot_request_read bs = Some q \<longleftrightarrow>
        length (rq_tag q) = SNAPSHOT_TAG_MAX \<and> bs = snapshot_request_bytes q)
   \<and> (snapshot_reply_read bs = Some r \<longleftrightarrow>
        length (rp_reason r) = SNAPSHOT_REASON_MAX \<and> bs = snapshot_reply_bytes r)
   \<and> (console_control_read bs = Some c \<longleftrightarrow> bs = console_control_bytes c)"
  by (simp add: hdr.dec_Some_iff hdr.dec_None_iff rq.dec_Some_iff rp.dec_Some_iff cc.dec_Some_iff)

text \<open>
  A stimulus payload is read back from any buffer that starts with its image, and a buffer
  is refused exactly when it is shorter than the 24 bytes of the payload.
\<close>

theorem stimulus_roundtrip:
  "stimulus_from_payload (stimulus_bytes s @ rest) = Some s
   \<and> (stimulus_from_payload bs = None \<longleftrightarrow> length bs < 24)"
  by (simp add: stimulus_from_payload_def stimulus_bytes_def codec_slices)

end
