(* ===== verification/Virtio_Console.thy ===== *)
theory Virtio_Console
  imports Virtio_Status Wire_Format "HOL-Library.Sublist"
begin

text \<open>
  The three-port console device of \<^verbatim>\<open>src/vmm/virtio_console.rs\<close>: guest-to-host bytes of the ports, host-to-guest
  bytes waiting for buffers, the control protocol that announces the ports, and the register interface.

  Guest memory (\<^verbatim>\<open>vm_memory\<close>), the virtqueues (\<^verbatim>\<open>virtio_queue\<close>) and the split of a \<open>VecDeque\<close> into its two slices
  enter as a record of operations; a write that fails may still have changed memory. The arrays of queues
  and ports are lists of length eight and three. Writes to the event descriptors are counted, the two
  scratch buffers, which are cleared before each use, and log messages are left out. The loops over the transmit
  queues and over the control queue to the guest have no bound of their own and take fuel; the other two stop
  after a fixed number of chains.
\<close>

section \<open>Environment and constants\<close>

record ('m, 'q) vc_api = "'q queue_api" +
  vc_read_slice :: "'m \<Rightarrow> u64 \<Rightarrow> nat \<Rightarrow> bytes option"
  vc_write_slice :: "'m \<Rightarrow> bytes \<Rightarrow> u64 \<Rightarrow> bool \<times> 'm"
  vc_pop :: "'m \<Rightarrow> 'q \<Rightarrow> (u16 \<times> chain_descriptor list) option \<times> 'q"
  vc_add_used :: "'m \<Rightarrow> 'q \<Rightarrow> u16 \<Rightarrow> u32 \<Rightarrow> bool \<times> 'm \<times> 'q"
  deque_slices :: "bytes \<Rightarrow> bytes \<times> bytes"

definition VC_MMIO_MAGIC :: u32 where "VC_MMIO_MAGIC = 0x74726976"
definition VC_MMIO_VERSION :: u32 where "VC_MMIO_VERSION = 2"
definition VC_VENDOR_ID :: u32 where "VC_VENDOR_ID = 0"
definition VIRTIO_ID_CONSOLE :: u32 where "VIRTIO_ID_CONSOLE = 3"
definition VIRTIO_CONSOLE_F_MULTIPORT :: nat where "VIRTIO_CONSOLE_F_MULTIPORT = 1"
definition NUM_PORTS :: u32 where "NUM_PORTS = 3"
definition VC_NUM_QUEUES :: nat where "VC_NUM_QUEUES = 2 + 2 * unat NUM_PORTS"
definition PORT0_RXQ :: nat where "PORT0_RXQ = 0"
definition PORT0_TXQ :: nat where "PORT0_TXQ = 1"
definition C_IVQ :: nat where "C_IVQ = 2"
definition C_OVQ :: nat where "C_OVQ = 3"
definition PORT1_RXQ :: nat where "PORT1_RXQ = 4"
definition PORT1_TXQ :: nat where "PORT1_TXQ = 5"
definition PORT2_RXQ :: nat where "PORT2_RXQ = 6"
definition PORT2_TXQ :: nat where "PORT2_TXQ = 7"
definition VC_TX_DESC_MAX :: nat where "VC_TX_DESC_MAX = 32 * 1024"
definition TX_PER_CALL_MAX :: nat where "TX_PER_CALL_MAX = 256 * 1024"
definition CONTROL_CHAINS_PER_CALL_MAX :: nat where "CONTROL_CHAINS_PER_CALL_MAX = 32"
definition RX_CHAINS_PER_CALL_MAX :: nat where "RX_CHAINS_PER_CALL_MAX = 64"
definition VC_CONTROL_SIZE :: nat where "VC_CONTROL_SIZE = 8"

definition ascii_bytes :: "string \<Rightarrow> bytes" where
  "ascii_bytes s = map (\<lambda>c. of_nat (of_char c)) s"

definition PORT0_NAME :: bytes where "PORT0_NAME = ascii_bytes ''ktstr-console''"
definition PORT1_NAME :: bytes where "PORT1_NAME = ascii_bytes ''ktstr-bulk''"
definition PORT2_NAME :: bytes where "PORT2_NAME = ascii_bytes ''ktstr-stats''"

section \<open>Control messages to the guest\<close>

datatype control_out = Cmd console_control | NameOf u32 bytes

definition control_out_len :: "control_out \<Rightarrow> nat" where
  "control_out_len msg = (case msg of Cmd _ \<Rightarrow> VC_CONTROL_SIZE | NameOf _ name \<Rightarrow> VC_CONTROL_SIZE + length name + 1)"

definition control_out_write :: "control_out \<Rightarrow> bytes" where
  "control_out_write msg =
     (case msg of
        Cmd c \<Rightarrow> console_control_bytes c
      | NameOf port name \<Rightarrow>
          console_control_bytes \<lparr>cc_id = port, cc_event = control_event_wire PortName, cc_value = 1\<rparr> @ name @ [0])"

definition ctl_cmd :: "u32 \<Rightarrow> control_event \<Rightarrow> control_out" where
  "ctl_cmd port event = Cmd \<lparr>cc_id = port, cc_event = control_event_wire event, cc_value = 1\<rparr>"

section \<open>The device\<close>

record vc_port =
  tx_buf :: bytes
  pending_rx :: bytes
  opened :: bool
  readied :: bool
  port_name :: bytes

definition port_new :: "bytes \<Rightarrow> vc_port" where
  "port_new name = \<lparr>tx_buf = [], pending_rx = [], opened = False, readied = False, port_name = name\<rparr>"

definition queue_to_port :: "nat \<Rightarrow> (nat \<times> bool) option" where
  "queue_to_port queue_idx =
     (if queue_idx = PORT0_RXQ then Some (0, False)
      else if queue_idx = PORT0_TXQ then Some (0, True)
      else if queue_idx = PORT1_RXQ then Some (1, False)
      else if queue_idx = PORT1_TXQ then Some (1, True)
      else if queue_idx = PORT2_RXQ then Some (2, False)
      else if queue_idx = PORT2_TXQ then Some (2, True)
      else None)"

text \<open>The queues of a port, receive queue first; a port that does not exist panics.\<close>

definition port_queues :: "nat \<Rightarrow> (nat \<times> nat) option" where
  "port_queues port_id =
     (if port_id = 0 then Some (PORT0_RXQ, PORT0_TXQ)
      else if port_id = 1 then Some (PORT1_RXQ, PORT1_TXQ)
      else if port_id = 2 then Some (PORT2_RXQ, PORT2_TXQ)
      else None)"

record ('m, 'q) vc_device =
  vc_queues :: "'q list"
  vc_queue_select :: u32
  vc_device_features_sel :: u32
  vc_driver_features_sel :: u32
  vc_driver_features :: u64
  vc_status :: u32
  vc_interrupt_status :: u32
  vc_config_generation :: u32
  vc_irqs :: nat
  tx_evts :: nat
  stats_tx_evts :: nat
  vc_mem :: "'m option"
  vc_ports :: "vc_port list"
  control_queue :: "control_out list"
  device_ready :: bool

definition vc_new :: "'q \<Rightarrow> ('m, 'q) vc_device" where
  "vc_new q =
     \<lparr>vc_queues = replicate 8 q, vc_queue_select = 0, vc_device_features_sel = 0, vc_driver_features_sel = 0,
      vc_driver_features = 0, vc_status = 0, vc_interrupt_status = 0, vc_config_generation = 0, vc_irqs = 0,
      tx_evts = 0, stats_tx_evts = 0, vc_mem = None,
      vc_ports = [port_new PORT0_NAME, port_new PORT1_NAME, port_new PORT2_NAME],
      control_queue = [], device_ready = False\<rparr>"

definition vc_set_mem :: "'m \<Rightarrow> ('m, 'q) vc_device \<Rightarrow> ('m, 'q) vc_device" where
  "vc_set_mem m d = d\<lparr>vc_mem := Some m\<rparr>"

definition vc_port_of :: "nat \<Rightarrow> ('m, 'q) vc_device \<Rightarrow> vc_port" where
  "vc_port_of i d = vc_ports d ! i"

definition vc_upd_port :: "nat \<Rightarrow> (vc_port \<Rightarrow> vc_port) \<Rightarrow> ('m, 'q) vc_device \<Rightarrow> ('m, 'q) vc_device" where
  "vc_upd_port i f d = d\<lparr>vc_ports := (vc_ports d)[i := f (vc_ports d ! i)]\<rparr>"

text \<open>The queue and the memory after a loop over the queue.\<close>

definition vc_put_queue :: "nat \<Rightarrow> 'm \<Rightarrow> 'q \<Rightarrow> ('m, 'q) vc_device \<Rightarrow> ('m, 'q) vc_device" where
  "vc_put_queue i m q d = d\<lparr>vc_queues := (vc_queues d)[i := q], vc_mem := Some m\<rparr>"

definition vc_device_features :: u64 where
  "vc_device_features = feature_bit VIRTIO_F_VERSION_1 OR feature_bit VIRTIO_CONSOLE_F_MULTIPORT"

definition vc_selected_queue :: "('m, 'q) vc_device \<Rightarrow> nat option" where
  "vc_selected_queue d = (let idx = unat (vc_queue_select d) in if idx < VC_NUM_QUEUES then Some idx else None)"

definition vc_signal_used :: "('m, 'q) vc_device \<Rightarrow> ('m, 'q) vc_device" where
  "vc_signal_used d =
     d\<lparr>vc_interrupt_status := vc_interrupt_status d OR VIRTIO_MMIO_INT_VRING, vc_irqs := vc_irqs d + 1\<rparr>"

definition multiport_negotiated :: "('m, 'q) vc_device \<Rightarrow> bool" where
  "multiport_negotiated d \<longleftrightarrow> vc_driver_features d AND feature_bit VIRTIO_CONSOLE_F_MULTIPORT \<noteq> 0"

definition vc_live :: "('m, 'q) vc_device \<Rightarrow> bool" where
  "vc_live d \<longleftrightarrow> vc_status d AND VIRTIO_CONFIG_S_DRIVER_OK \<noteq> 0"

section \<open>Guest to host\<close>

text \<open>The descriptors of one transmit chain: the buffer, \<^verbatim>\<open>had_data\<close> and \<^verbatim>\<open>cumulative_bytes\<close>.\<close>

primrec tx_gather ::
  "('m, 'q) vc_api \<Rightarrow> 'm \<Rightarrow> chain_descriptor list \<Rightarrow> bytes \<times> bool \<times> nat \<Rightarrow> bytes \<times> bool \<times> nat" where
  "tx_gather api m [] s = s"
| "tx_gather api m (desc # descs) s =
     tx_gather api m descs
       (if \<not> d_write_only desc then
          let dlen = min (unat (d_len desc)) VC_TX_DESC_MAX in
          (case (vc_read_slice api m (d_addr desc) dlen, s) of
             (Some bs, buf, had_data, cumulative_bytes) \<Rightarrow>
               (buf @ bs, had_data \<or> 0 < dlen, if 0 < dlen then cumulative_bytes + dlen else cumulative_bytes)
           | (None, s) \<Rightarrow> s)
        else s)"

primrec tx_drain_loop ::
  "nat \<Rightarrow> ('m, 'q) vc_api \<Rightarrow> 'm \<Rightarrow> 'q \<Rightarrow> bytes \<times> bool \<times> nat \<Rightarrow> ('m \<times> 'q \<times> bytes \<times> bool) run" where
  "tx_drain_loop 0 api m q s = OutOfFuel"
| "tx_drain_loop (Suc fuel) api m q s =
     (case vc_pop api m q of
        (None, q) \<Rightarrow> Returns (m, q, fst s, fst (snd s))
      | (Some (head, descs), q) \<Rightarrow>
          let s = tx_gather api m descs s;
              (_, m, q) = vc_add_used api m q head 0 in
          if TX_PER_CALL_MAX \<le> snd (snd s) then Returns (m, q, fst s, fst (snd s))
          else tx_drain_loop fuel api m q s)"

definition process_tx ::
  "nat \<Rightarrow> ('m, 'q) vc_api \<Rightarrow> nat \<Rightarrow> ('m, 'q) vc_device \<Rightarrow> (bool \<times> ('m, 'q) vc_device) run" where
  "process_tx fuel api port_id d =
     (case port_queues port_id of
        None \<Rightarrow> Panics
      | Some (_, queue_idx) \<Rightarrow>
          if \<not> vc_live d then Returns (False, d)
          else if port_id \<noteq> 0 \<and> \<not> multiport_negotiated d then Returns (False, d)
          else (case vc_mem d of
            None \<Rightarrow> Returns (False, d)
          | Some m \<Rightarrow>
              run_bind (tx_drain_loop fuel api m (vc_queues d ! queue_idx) (tx_buf (vc_port_of port_id d), False, 0))
                (\<lambda>(m, q, buf, had_data).
                   let d = vc_put_queue queue_idx m q (vc_upd_port port_id (\<lambda>p. p\<lparr>tx_buf := buf\<rparr>) d) in
                   Returns (had_data,
                     if had_data then
                       let d = vc_signal_used d in
                       if port_id = 2 then d\<lparr>stats_tx_evts := stats_tx_evts d + 1\<rparr> else d\<lparr>tx_evts := tx_evts d + 1\<rparr>
                     else d))))"

text \<open>The same walk on the reset path, without interrupt and wake-up.\<close>

definition drain_tx_into_capture_buf ::
  "nat \<Rightarrow> ('m, 'q) vc_api \<Rightarrow> nat \<Rightarrow> ('m, 'q) vc_device \<Rightarrow> (('m, 'q) vc_device) run" where
  "drain_tx_into_capture_buf fuel api port_id d =
     (case port_queues port_id of
        None \<Rightarrow> Panics
      | Some (_, queue_idx) \<Rightarrow>
          if \<not> vc_live d then Returns d
          else if port_id \<noteq> 0 \<and> \<not> multiport_negotiated d then Returns d
          else (case vc_mem d of
            None \<Rightarrow> Returns d
          | Some m \<Rightarrow>
              run_bind (tx_drain_loop fuel api m (vc_queues d ! queue_idx) (tx_buf (vc_port_of port_id d), False, 0))
                (\<lambda>(m, q, buf, _).
                   Returns (vc_put_queue queue_idx m q (vc_upd_port port_id (\<lambda>p. p\<lparr>tx_buf := buf\<rparr>) d)))))"

definition drain_port_tx :: "nat \<Rightarrow> ('m, 'q) vc_device \<Rightarrow> bytes \<times> ('m, 'q) vc_device" where
  "drain_port_tx port_id d = (tx_buf (vc_port_of port_id d), vc_upd_port port_id (\<lambda>p. p\<lparr>tx_buf := []\<rparr>) d)"

definition vc_drain_output :: "('m, 'q) vc_device \<Rightarrow> bytes \<times> ('m, 'q) vc_device" where
  "vc_drain_output d = drain_port_tx 0 d"

definition drain_bulk :: "('m, 'q) vc_device \<Rightarrow> bytes \<times> ('m, 'q) vc_device" where
  "drain_bulk d = drain_port_tx 1 d"

definition final_drain :: "nat \<Rightarrow> ('m, 'q) vc_api \<Rightarrow> ('m, 'q) vc_device \<Rightarrow> (bytes \<times> ('m, 'q) vc_device) run" where
  "final_drain fuel api d = run_bind (process_tx fuel api 1 d) (\<lambda>(_, d). Returns (drain_bulk d))"

definition push_back_bulk :: "bytes \<Rightarrow> ('m, 'q) vc_device \<Rightarrow> ('m, 'q) vc_device" where
  "push_back_bulk bs d =
     (if bs = [] then d
      else vc_upd_port 1 (\<lambda>p. p\<lparr>tx_buf := fold (\<lambda>b buf. b # buf) (rev bs) (tx_buf p)\<rparr>) d)"

definition drain_port2_bulk :: "('m, 'q) vc_device \<Rightarrow> bytes \<times> ('m, 'q) vc_device" where
  "drain_port2_bulk d = drain_port_tx 2 d"

section \<open>Host to guest\<close>

text \<open>Staging \<open>chunk\<close> bytes from \<open>consumed\<close> on out of the two slices of the deque.\<close>

definition stage_rx :: "bytes \<times> bytes \<Rightarrow> nat \<Rightarrow> nat \<Rightarrow> bytes" where
  "stage_rx slices consumed_offset chunk =
     (let head_slice = fst slices;
          tail_slice = snd slices;
          head_skip = min consumed_offset (length head_slice);
          tail_skip = consumed_offset - head_skip;
          head_avail = drop head_skip head_slice;
          tail_avail = (if tail_skip < length tail_slice then drop tail_skip tail_slice else []);
          h = min (length head_avail) chunk
      in take h head_avail @ (if h < chunk then take (min (chunk - h) (length tail_avail)) tail_avail else []))"

text \<open>The descriptors of one receive chain: memory, consumed offset and bytes written; the flag is \<^verbatim>\<open>chain_torn\<close>.\<close>

primrec rx_scatter ::
  "('m, 'q) vc_api \<Rightarrow> bytes \<Rightarrow> chain_descriptor list \<Rightarrow> 'm \<times> nat \<times> u32 \<Rightarrow> bool \<times> 'm \<times> nat \<times> u32" where
  "rx_scatter api pending [] s = (False, s)"
| "rx_scatter api pending (desc # descs) s =
     (case s of (m, consumed_offset, written) \<Rightarrow>
        if d_write_only desc \<and> consumed_offset < length pending then
          let avail = unat (d_len desc);
              remaining = length pending - consumed_offset;
              chunk = min remaining avail;
              scratch = stage_rx (deque_slices api pending) consumed_offset chunk;
              (ok, m) = vc_write_slice api m scratch (d_addr desc)
          in if ok
             then rx_scatter api pending descs
                    (m, consumed_offset + length scratch, written + of_nat (length scratch))
             else (True, m, consumed_offset, written)
        else rx_scatter api pending descs s)"

text \<open>The loop; the first argument is how many chains may still be drained in this call.\<close>

primrec rx_drain_loop ::
  "nat \<Rightarrow> ('m, 'q) vc_api \<Rightarrow> 'm \<Rightarrow> 'q \<Rightarrow> bytes \<Rightarrow> u32 \<Rightarrow> 'm \<times> 'q \<times> bytes \<times> u32" where
  "rx_drain_loop 0 api m q pending total_written = (m, q, pending, total_written)"
| "rx_drain_loop (Suc n) api m q pending total_written =
     (if pending = [] then (m, q, pending, total_written)
      else case vc_pop api m q of
        (None, q) \<Rightarrow> (m, q, pending, total_written)
      | (Some (head, descs), q) \<Rightarrow>
          (case rx_scatter api pending descs (m, 0, 0) of
             (chain_torn, m, consumed_offset, written) \<Rightarrow>
               if chain_torn then
                 let (_, m, q) = vc_add_used api m q head 0 in (m, q, pending, total_written)
               else
                 let (ok, m, q) = vc_add_used api m q head written in
                 if \<not> ok then (m, q, pending, total_written)
                 else rx_drain_loop n api m q (drop consumed_offset pending) (total_written + written)))"

definition drain_pending_rx :: "('m, 'q) vc_api \<Rightarrow> nat \<Rightarrow> ('m, 'q) vc_device \<Rightarrow> (('m, 'q) vc_device) run" where
  "drain_pending_rx api port_id d =
     (case port_queues port_id of
        None \<Rightarrow> Panics
      | Some (queue_idx, _) \<Rightarrow>
          if pending_rx (vc_port_of port_id d) = [] then Returns d
          else if \<not> vc_live d then Returns d
          else if port_id \<noteq> 0 \<and> \<not> multiport_negotiated d then Returns d
          else if port_id \<noteq> 0 \<and> \<not> opened (vc_port_of port_id d) then Returns d
          else (case vc_mem d of
            None \<Rightarrow> Returns d
          | Some m \<Rightarrow>
              if \<not> q_ready api (vc_queues d ! queue_idx) then Returns d
              else (case rx_drain_loop RX_CHAINS_PER_CALL_MAX api m (vc_queues d ! queue_idx)
                           (pending_rx (vc_port_of port_id d)) 0 of
                (m, q, pending, total_written) \<Rightarrow>
                  let d = vc_put_queue queue_idx m q (vc_upd_port port_id (\<lambda>p. p\<lparr>pending_rx := pending\<rparr>) d) in
                  Returns (if 0 < total_written then vc_signal_used d else d))))"

text \<open>\<^verbatim>\<open>queue_input\<close>, \<^verbatim>\<open>queue_input_port1\<close> and \<^verbatim>\<open>queue_input_port2\<close>.\<close>

definition vc_queue_input ::
  "('m, 'q) vc_api \<Rightarrow> nat \<Rightarrow> bytes \<Rightarrow> ('m, 'q) vc_device \<Rightarrow> (('m, 'q) vc_device) run" where
  "vc_queue_input api port_id data d =
     drain_pending_rx api port_id (vc_upd_port port_id (\<lambda>p. p\<lparr>pending_rx := pending_rx p @ data\<rparr>) d)"

definition clear_port2_pending_rx :: "('m, 'q) vc_device \<Rightarrow> nat \<times> ('m, 'q) vc_device" where
  "clear_port2_pending_rx d = (length (pending_rx (vc_port_of 2 d)), vc_upd_port 2 (\<lambda>p. p\<lparr>pending_rx := []\<rparr>) d)"

section \<open>The control protocol\<close>

text \<open>One control chain: the frame buffer, the bytes still needed, the bytes filled and the total.\<close>

primrec ctl_gather ::
  "('m, 'q) vc_api \<Rightarrow> 'm \<Rightarrow> chain_descriptor list \<Rightarrow> bytes \<times> nat \<times> nat \<times> u32 \<Rightarrow> bytes \<times> nat \<times> nat \<times> u32" where
  "ctl_gather api m [] s = s"
| "ctl_gather api m (desc # descs) s =
     (case s of (buf, need, filled, tot) \<Rightarrow>
        if d_write_only desc \<or> need = 0 then ctl_gather api m descs s
        else let tk = min (unat (d_len desc)) need in
          if tk = 0 then ctl_gather api m descs s
          else (case vc_read_slice api m (d_addr desc) tk of
                  None \<Rightarrow> s
                | Some bs \<Rightarrow>
                    ctl_gather api m descs (overwrite filled bs buf, need - tk, filled + tk, tot + of_nat tk)))"

text \<open>The loop; the first argument is how many chains may still be drained in this call.\<close>

primrec ctl_drain_loop ::
  "nat \<Rightarrow> ('m, 'q) vc_api \<Rightarrow> 'm \<Rightarrow> 'q \<Rightarrow> console_control list \<Rightarrow> bool \<Rightarrow> 'm \<times> 'q \<times> console_control list \<times> bool" where
  "ctl_drain_loop 0 api m q events any_published = (m, q, events, any_published)"
| "ctl_drain_loop (Suc n) api m q events any_published =
     (case vc_pop api m q of
        (None, q) \<Rightarrow> (m, q, events, any_published)
      | (Some (head, descs), q) \<Rightarrow>
          (case ctl_gather api m descs (replicate VC_CONTROL_SIZE 0, VC_CONTROL_SIZE, 0, 0) of
             (buf, need, filled, tot) \<Rightarrow>
               let events =
                     (if filled = VC_CONTROL_SIZE then
                        (case console_control_read buf of Some c \<Rightarrow> events @ [c] | None \<Rightarrow> events)
                      else events);
                   (ok, m, q) = vc_add_used api m q head tot
               in ctl_drain_loop n api m q events (any_published \<or> ok)))"

definition handle_control_event ::
  "('m, 'q) vc_api \<Rightarrow> console_control \<Rightarrow> ('m, 'q) vc_device \<Rightarrow> (('m, 'q) vc_device) run" where
  "handle_control_event api c d =
     (let id = cc_id c; event = cc_event c; val = cc_value c in
      if event = control_event_wire DeviceReady then
        if val \<noteq> 1 then Returns d
        else if device_ready d then Returns d
        else Returns (d\<lparr>device_ready := True,
               control_queue := control_queue d @ map (\<lambda>i. ctl_cmd (of_nat i) PortAdd) [0..<unat NUM_PORTS]\<rparr>)
      else if event = control_event_wire PortReady then
        if val \<noteq> 1 then Returns d
        else if NUM_PORTS \<le> id then Returns d
        else if readied (vc_port_of (unat id) d) then Returns d
        else
          let d = vc_upd_port (unat id) (\<lambda>p. p\<lparr>readied := True\<rparr>) d;
              name = port_name (vc_port_of (unat id) d)
          in Returns (d\<lparr>control_queue := control_queue d
               @ (if id = 0 then [ctl_cmd id ConsolePort, NameOf id name, ctl_cmd id PortOpen]
                  else [NameOf id name, ctl_cmd id PortOpen])\<rparr>)
      else if event = control_event_wire PortOpen then
        if NUM_PORTS \<le> id then Returns d
        else
          let now_open = (val = 1);
              was_open = opened (vc_port_of (unat id) d);
              d = vc_upd_port (unat id) (\<lambda>p. p\<lparr>opened := now_open\<rparr>) d
          in if now_open \<and> \<not> was_open \<and> id \<noteq> 0 then drain_pending_rx api (unat id) d else Returns d
      else Returns d)"

primrec handle_control_events ::
  "('m, 'q) vc_api \<Rightarrow> console_control list \<Rightarrow> ('m, 'q) vc_device \<Rightarrow> (('m, 'q) vc_device) run" where
  "handle_control_events api [] d = Returns d"
| "handle_control_events api (c # cs) d = run_bind (handle_control_event api c d) (handle_control_events api cs)"

text \<open>Writing a control message over the writable segments of a chain; the flag is \<^verbatim>\<open>torn\<close>.\<close>

primrec seg_write ::
  "('m, 'q) vc_api \<Rightarrow> bytes \<Rightarrow> (u64 \<times> nat) list \<Rightarrow> 'm \<times> nat \<times> u32 \<Rightarrow> bool \<times> 'm \<times> u32" where
  "seg_write api scratch [] s = (case s of (m, idx, written) \<Rightarrow> (False, m, written))"
| "seg_write api scratch (seg # segs) s =
     (case s of (m, idx, written) \<Rightarrow>
        if length scratch \<le> idx then (False, m, written)
        else let chunk = min (snd seg) (length scratch - idx);
                 (ok, m) = vc_write_slice api m (byte_slice scratch idx (idx + chunk)) (fst seg)
             in if ok then seg_write api scratch segs (m, idx + chunk, written + of_nat chunk)
                else (True, m, written))"

primrec ctl_in_loop ::
  "nat \<Rightarrow> ('m, 'q) vc_api \<Rightarrow> 'm \<Rightarrow> 'q \<Rightarrow> control_out list \<Rightarrow> bool \<Rightarrow> ('m \<times> 'q \<times> control_out list \<times> bool) run" where
  "ctl_in_loop 0 api m q msgs any_published = OutOfFuel"
| "ctl_in_loop (Suc fuel) api m q msgs any_published =
     (case msgs of
        [] \<Rightarrow> Returns (m, q, msgs, any_published)
      | msg # rest \<Rightarrow>
          (case vc_pop api m q of
             (None, q) \<Rightarrow> Returns (m, q, msgs, any_published)
           | (Some (head, descs), q) \<Rightarrow>
               let segs = map (\<lambda>d. (d_addr d, unat (d_len d))) (filter d_write_only descs) in
               if sum_list (map snd segs) < control_out_len msg then
                 let (ok, m, q) = vc_add_used api m q head 0 in ctl_in_loop fuel api m q msgs (any_published \<or> ok)
               else
                 (case seg_write api (control_out_write msg) segs (m, 0, 0) of
                    (torn, m, written) \<Rightarrow>
                      if torn then
                        let (ok, m, q) = vc_add_used api m q head 0 in Returns (m, q, msgs, any_published \<or> ok)
                      else
                        let (ok, m, q) = vc_add_used api m q head written in
                        if \<not> ok then Returns (m, q, msgs, any_published)
                        else ctl_in_loop fuel api m q rest True)))"

definition drain_control_in :: "nat \<Rightarrow> ('m, 'q) vc_api \<Rightarrow> ('m, 'q) vc_device \<Rightarrow> (('m, 'q) vc_device) run" where
  "drain_control_in fuel api d =
     (if control_queue d = [] then Returns d
      else if \<not> vc_live d then Returns d
      else if \<not> multiport_negotiated d then Returns d
      else case vc_mem d of
        None \<Rightarrow> Returns d
      | Some m \<Rightarrow>
          if \<not> q_ready api (vc_queues d ! C_IVQ) then Returns d
          else run_bind (ctl_in_loop fuel api m (vc_queues d ! C_IVQ) (control_queue d) False)
            (\<lambda>(m, q, msgs, any_published).
               let d = (vc_put_queue C_IVQ m q d)\<lparr>control_queue := msgs\<rparr> in
               Returns (if any_published then vc_signal_used d else d)))"

definition process_control_tx :: "nat \<Rightarrow> ('m, 'q) vc_api \<Rightarrow> ('m, 'q) vc_device \<Rightarrow> (('m, 'q) vc_device) run" where
  "process_control_tx fuel api d =
     (if \<not> vc_live d then Returns d
      else if \<not> multiport_negotiated d then Returns d
      else case vc_mem d of
        None \<Rightarrow> Returns d
      | Some m \<Rightarrow>
          (case ctl_drain_loop CONTROL_CHAINS_PER_CALL_MAX api m (vc_queues d ! C_OVQ) [] False of
             (m, q, events, any_published) \<Rightarrow>
               run_bind (handle_control_events api events (vc_put_queue C_OVQ m q d)) (\<lambda>d.
               drain_control_in fuel api (if any_published then vc_signal_used d else d))))"

section \<open>Registers\<close>

definition vc_config_read :: "u64 \<Rightarrow> nat \<Rightarrow> bytes" where
  "vc_config_read offset len =
     (let cfg = overwrite 4 (to_le_bytes 4 NUM_PORTS) (replicate 12 0);
          start = unat offset;
          end' = start + len
      in if length cfg < end' then replicate len 0xff else byte_slice cfg start end')"

definition vc_mmio_read_reg :: "('m, 'q) vc_api \<Rightarrow> ('m, 'q) vc_device \<Rightarrow> mmio_reg option \<Rightarrow> u32" where
  "vc_mmio_read_reg api d reg =
     (case reg of
        Some MagicValue \<Rightarrow> VC_MMIO_MAGIC
      | Some Version \<Rightarrow> VC_MMIO_VERSION
      | Some DeviceId \<Rightarrow> VIRTIO_ID_CONSOLE
      | Some VendorId \<Rightarrow> VC_VENDOR_ID
      | Some DeviceFeatures \<Rightarrow>
          if vc_device_features_sel d = 0 then ucast vc_device_features
          else if vc_device_features_sel d = 1 then ucast (rust_shr vc_device_features 32)
          else 0
      | Some QueueNumMax \<Rightarrow>
          (case vc_selected_queue d of Some i \<Rightarrow> ucast (q_max_size api (vc_queues d ! i)) | None \<Rightarrow> 0)
      | Some QueueReady \<Rightarrow>
          (case vc_selected_queue d of Some i \<Rightarrow> of_bool (q_ready api (vc_queues d ! i)) | None \<Rightarrow> 0)
      | Some InterruptStatus \<Rightarrow> vc_interrupt_status d
      | Some Status \<Rightarrow> vc_status d
      | Some ConfigGeneration \<Rightarrow> vc_config_generation d
      | _ \<Rightarrow> 0)"

definition vc_mmio_read :: "('m, 'q) vc_api \<Rightarrow> ('m, 'q) vc_device \<Rightarrow> u64 \<Rightarrow> nat \<Rightarrow> bytes" where
  "vc_mmio_read api d offset len =
     (if 0x100 \<le> offset \<and> offset < 0x10c then vc_config_read (offset - 0x100) len
      else if len \<noteq> 4 then replicate len 0xff
      else to_le_bytes 4 (vc_mmio_read_reg api d (mmio_reg_of (ucast (ucast offset :: u32)))))"

definition vc_set_status :: "nat \<Rightarrow> ('m, 'q) vc_api \<Rightarrow> u32 \<Rightarrow> ('m, 'q) vc_device \<Rightarrow> (('m, 'q) vc_device) run" where
  "vc_set_status fuel api val d =
     (if val AND vc_status d \<noteq> vc_status d then Returns d
      else
        let new_bits = val AND NOT (vc_status d) in
        if new_bits = VIRTIO_CONFIG_S_FAILED then Returns (d\<lparr>vc_status := val\<rparr>)
        else
          let valid =
                (if new_bits = VIRTIO_CONFIG_S_ACKNOWLEDGE then vc_status d = 0
                 else if new_bits = VIRTIO_CONFIG_S_DRIVER then vc_status d = S_ACK
                 else if new_bits = VIRTIO_CONFIG_S_FEATURES_OK then vc_status d = S_DRV
                 else if new_bits = VIRTIO_CONFIG_S_DRIVER_OK then vc_status d = S_FEAT
                 else False)
          in if valid then
               let d = d\<lparr>vc_status := val\<rparr> in
               if new_bits = VIRTIO_CONFIG_S_DRIVER_OK
               then run_bind (drain_pending_rx api 0 d) (drain_control_in fuel api)
               else Returns d
             else Returns d)"

definition vc_clear :: "('m, 'q) vc_api \<Rightarrow> ('m, 'q) vc_device \<Rightarrow> ('m, 'q) vc_device" where
  "vc_clear api d =
     d\<lparr>vc_status := 0, vc_interrupt_status := 0, vc_queue_select := 0, vc_device_features_sel := 0,
       vc_driver_features_sel := 0, vc_driver_features := 0,
       vc_ports := map (\<lambda>p. p\<lparr>pending_rx := [], opened := False, readied := False\<rparr>) (vc_ports d),
       control_queue := [], device_ready := False,
       vc_queues := map (q_reset api) (vc_queues d)\<rparr>"

definition vc_reset :: "nat \<Rightarrow> ('m, 'q) vc_api \<Rightarrow> ('m, 'q) vc_device \<Rightarrow> (('m, 'q) vc_device) run" where
  "vc_reset fuel api d =
     run_bind (drain_tx_into_capture_buf fuel api 0 d) (\<lambda>d.
     run_bind (drain_tx_into_capture_buf fuel api 1 d) (\<lambda>d.
     run_bind (drain_tx_into_capture_buf fuel api 2 d) (\<lambda>d.
     Returns (vc_clear api d))))"

text \<open>A change of the selected queue, allowed in the configuration phase only.\<close>

definition vc_config_queue :: "('q \<Rightarrow> 'q) \<Rightarrow> ('m, 'q) vc_device \<Rightarrow> ('m, 'q) vc_device" where
  "vc_config_queue f d =
     (if queue_config_allowed (vc_status d)
      then (case vc_selected_queue d of Some i \<Rightarrow> d\<lparr>vc_queues := (vc_queues d)[i := f (vc_queues d ! i)]\<rparr> | None \<Rightarrow> d)
      else d)"

definition vc_notify :: "nat \<Rightarrow> ('m, 'q) vc_api \<Rightarrow> u32 \<Rightarrow> ('m, 'q) vc_device \<Rightarrow> (('m, 'q) vc_device) run" where
  "vc_notify fuel api val d =
     (let idx = unat val in
      if idx = C_IVQ then drain_control_in fuel api d
      else if idx = C_OVQ then process_control_tx fuel api d
      else case queue_to_port idx of
        Some (port_id, is_tx) \<Rightarrow>
          if is_tx then run_bind (process_tx fuel api port_id d) (\<lambda>(_, d). Returns d)
          else drain_pending_rx api port_id d
      | None \<Rightarrow> Returns d)"

definition vc_mmio_write_reg ::
  "nat \<Rightarrow> ('m, 'q) vc_api \<Rightarrow> mmio_reg option \<Rightarrow> u32 \<Rightarrow> ('m, 'q) vc_device \<Rightarrow> (('m, 'q) vc_device) run" where
  "vc_mmio_write_reg fuel api reg val d =
     (case reg of
        Some DeviceFeaturesSel \<Rightarrow> Returns (d\<lparr>vc_device_features_sel := val\<rparr>)
      | Some DriverFeaturesSel \<Rightarrow> Returns (d\<lparr>vc_driver_features_sel := val\<rparr>)
      | Some DriverFeatures \<Rightarrow>
          Returns (if \<not> features_write_allowed (vc_status d) then d
            else if vc_driver_features_sel d = 0
            then d\<lparr>vc_driver_features := (vc_driver_features d AND 0xFFFFFFFF00000000) OR ucast val\<rparr>
            else if vc_driver_features_sel d = 1
            then d\<lparr>vc_driver_features := (vc_driver_features d AND 0x00000000FFFFFFFF) OR rust_shl (ucast val) 32\<rparr>
            else d)
      | Some QueueSel \<Rightarrow> Returns (d\<lparr>vc_queue_select := val\<rparr>)
      | Some QueueNum \<Rightarrow> Returns (vc_config_queue (q_set_size api (ucast val)) d)
      | Some QueueReady \<Rightarrow> Returns (vc_config_queue (q_set_ready api (val = 1)) d)
      | Some QueueNotify \<Rightarrow> vc_notify fuel api val d
      | Some InterruptAck \<Rightarrow> Returns (d\<lparr>vc_interrupt_status := vc_interrupt_status d AND NOT val\<rparr>)
      | Some Status \<Rightarrow> if val = 0 then vc_reset fuel api d else vc_set_status fuel api val d
      | Some QueueDescLow \<Rightarrow> Returns (vc_config_queue (q_set_desc api (Some val) None) d)
      | Some QueueDescHigh \<Rightarrow> Returns (vc_config_queue (q_set_desc api None (Some val)) d)
      | Some QueueAvailLow \<Rightarrow> Returns (vc_config_queue (q_set_avail api (Some val) None) d)
      | Some QueueAvailHigh \<Rightarrow> Returns (vc_config_queue (q_set_avail api None (Some val)) d)
      | Some QueueUsedLow \<Rightarrow> Returns (vc_config_queue (q_set_used api (Some val) None) d)
      | Some QueueUsedHigh \<Rightarrow> Returns (vc_config_queue (q_set_used api None (Some val)) d)
      | _ \<Rightarrow> Returns d)"

definition vc_mmio_write ::
  "nat \<Rightarrow> ('m, 'q) vc_api \<Rightarrow> u64 \<Rightarrow> bytes \<Rightarrow> ('m, 'q) vc_device \<Rightarrow> (('m, 'q) vc_device) run" where
  "vc_mmio_write fuel api offset data d =
     (if 0x100 \<le> offset \<and> offset < 0x10c then Returns d
      else if length data \<noteq> 4 then Returns d
      else vc_mmio_write_reg fuel api (mmio_reg_of (ucast (ucast offset :: u32))) (from_le_bytes data) d)"

section \<open>Specification functions\<close>

text \<open>The part of the device that only status writes, control messages and a reset may change.\<close>

definition vc_ctl where
  "vc_ctl d = (vc_status d, vc_config_generation d, vc_driver_features d, control_queue d, device_ready d,
     map (\<lambda>p. (opened p, readied p, port_name p)) (vc_ports d), length (vc_queues d))"

text \<open>Every message the device can ever queue for the guest.\<close>

definition announcements :: "control_out list" where
  "announcements =
     map (\<lambda>i. ctl_cmd (of_nat i) PortAdd) [0..<3] @
     [ctl_cmd 0 ConsolePort, NameOf 0 PORT0_NAME, ctl_cmd 0 PortOpen, NameOf 1 PORT1_NAME, ctl_cmd 1 PortOpen,
      NameOf 2 PORT2_NAME, ctl_cmd 2 PortOpen]"

definition control_budget :: "('m, 'q) vc_device \<Rightarrow> nat" where
  "control_budget d =
     (if device_ready d then 3 else 0) + (if readied (vc_port_of 0 d) then 3 else 0)
     + (if readied (vc_port_of 1 d) then 2 else 0) + (if readied (vc_port_of 2 d) then 2 else 0)"

definition vc_inv :: "('m, 'q) vc_device \<Rightarrow> bool" where
  "vc_inv d \<longleftrightarrow>
     length (vc_queues d) = VC_NUM_QUEUES \<and> map port_name (vc_ports d) = [PORT0_NAME, PORT1_NAME, PORT2_NAME]
     \<and> on_ladder (vc_status d) \<and> vc_config_generation d = 0
     \<and> length (control_queue d) \<le> control_budget d \<and> set (control_queue d) \<subseteq> set announcements"

text \<open>
  What can happen to the device: the guest stores to its memory or writes a register, and the host
  queues input, takes output or puts output back.
\<close>

datatype 'm vc_event =
    GuestStore "'m \<Rightarrow> 'm" | GuestWrite u64 bytes | QueueInput bytes | QueueInputPort1 bytes | QueueInputPort2 bytes
  | DrainPort nat | PushBackBulk bytes | ClearPort2

definition vc_event_step ::
  "nat \<Rightarrow> ('m, 'q) vc_api \<Rightarrow> 'm vc_event \<Rightarrow> ('m, 'q) vc_device \<Rightarrow> (('m, 'q) vc_device) run" where
  "vc_event_step fuel api ev d =
     (case ev of
        GuestStore f \<Rightarrow> Returns (d\<lparr>vc_mem := map_option f (vc_mem d)\<rparr>)
      | GuestWrite offset data \<Rightarrow> vc_mmio_write fuel api offset data d
      | QueueInput data \<Rightarrow> vc_queue_input api 0 data d
      | QueueInputPort1 data \<Rightarrow> vc_queue_input api 1 data d
      | QueueInputPort2 data \<Rightarrow> vc_queue_input api 2 data d
      | DrainPort p \<Rightarrow> Returns (snd (drain_port_tx p d))
      | PushBackBulk bs \<Rightarrow> Returns (push_back_bulk bs d)
      | ClearPort2 \<Rightarrow> Returns (snd (clear_port2_pending_rx d)))"

primrec vc_events ::
  "nat \<Rightarrow> ('m, 'q) vc_api \<Rightarrow> 'm vc_event list \<Rightarrow> ('m, 'q) vc_device \<Rightarrow> (('m, 'q) vc_device) run" where
  "vc_events fuel api [] d = Returns d"
| "vc_events fuel api (ev # evs) d = run_bind (vc_event_step fuel api ev d) (vc_events fuel api evs)"

section \<open>What the data paths leave alone\<close>

lemma map_update_same:
  "(i < length xs \<Longrightarrow> f x = f (xs ! i)) \<Longrightarrow> map f (xs[i := x]) = map f xs"
  by (metis list_update_beyond list_update_id map_update not_less nth_map length_map)

lemma vc_ctl_simps [simp]:
  "vc_ctl (vc_put_queue i m q d) = vc_ctl d"
  "vc_ctl (vc_signal_used d) = vc_ctl d"
  "vc_ctl (d\<lparr>stats_tx_evts := n\<rparr>) = vc_ctl d" "vc_ctl (d\<lparr>tx_evts := n\<rparr>) = vc_ctl d"
  "vc_ctl (vc_upd_port i (\<lambda>p. p\<lparr>tx_buf := f p\<rparr>) d) = vc_ctl d"
  "vc_ctl (vc_upd_port i (\<lambda>p. p\<lparr>pending_rx := f p\<rparr>) d) = vc_ctl d"
  "vc_ctl (d\<lparr>vc_mem := mo\<rparr>) = vc_ctl d"
  "vc_ctl (d\<lparr>vc_queue_select := w\<rparr>) = vc_ctl d" "vc_ctl (d\<lparr>vc_device_features_sel := w\<rparr>) = vc_ctl d"
  "vc_ctl (d\<lparr>vc_driver_features_sel := w\<rparr>) = vc_ctl d" "vc_ctl (d\<lparr>vc_interrupt_status := w\<rparr>) = vc_ctl d"
  "vc_ctl (vc_config_queue g d) = vc_ctl d"
  by (auto simp: vc_ctl_def vc_put_queue_def vc_signal_used_def vc_upd_port_def vc_config_queue_def
      intro!: map_update_same split: option.split)

lemma port_queues_Some:
  "p < 3 \<Longrightarrow> \<exists>rx tx. port_queues p = Some (rx, tx)"
  by (auto simp: port_queues_def)

lemma queue_to_port_less: "queue_to_port i = Some (p, b) \<Longrightarrow> p < 3"
  by (auto simp: queue_to_port_def split: if_splits)

lemma drain_pending_rx_ctl:
  "p < 3 \<Longrightarrow> safe (\<lambda>d'. vc_ctl d' = vc_ctl d) (drain_pending_rx api p d)"
  using port_queues_Some [of p] by (auto simp: drain_pending_rx_def Let_def split: option.split prod.split)

lemma drain_pending_rx_returns: "p < 3 \<Longrightarrow> drain_pending_rx api p d \<noteq> OutOfFuel"
  using port_queues_Some [of p] by (auto simp: drain_pending_rx_def Let_def split: option.split prod.split)

lemma tx_drain_loop_safe: "safe (\<lambda>_. True) (tx_drain_loop fuel api m q s)"
  by (induction fuel arbitrary: m q s) (simp_all add: Let_def split: prod.split option.split)

lemma process_tx_ctl: "p < 3 \<Longrightarrow> safe (\<lambda>(b, d'). vc_ctl d' = vc_ctl d) (process_tx fuel api p d)"
  using port_queues_Some [of p]
  by (auto simp: process_tx_def Let_def split: option.split prod.split intro!: safe_bind [OF tx_drain_loop_safe])

lemma drain_tx_ctl: "p < 3 \<Longrightarrow> safe (\<lambda>d'. vc_ctl d' = vc_ctl d) (drain_tx_into_capture_buf fuel api p d)"
  using port_queues_Some [of p]
  by (auto simp: drain_tx_into_capture_buf_def Let_def split: option.split prod.split intro!: safe_bind [OF tx_drain_loop_safe])

section \<open>The control queue\<close>

lemma ctl_in_loop_suffix:
  "safe (\<lambda>r. suffix (fst (snd (snd r))) msgs) (ctl_in_loop fuel api m q msgs any)"
proof (induction fuel arbitrary: m q msgs any)
  case (Suc fuel)
  have "safe (\<lambda>r. suffix (fst (snd (snd r))) (x # rest)) (ctl_in_loop fuel api m q rest any)" for m q x rest any
    by (rule safe_mono [OF Suc]) (rule suffix_ConsI)
  then show ?case using Suc by (auto simp: Let_def split: prod.split option.split list.split)
qed simp

lemma inv_ports: "vc_inv d \<Longrightarrow> length (vc_ports d) = 3"
  unfolding vc_inv_def by (metis length_map length_Cons list.size(3) numeral_3_eq_3)

lemma inv_of_ctl:
  assumes "vc_inv d" and "vc_ctl d' = vc_ctl d"
  shows "vc_inv d'"
proof -
  have eq: "map (\<lambda>p. (opened p, readied p, port_name p)) (vc_ports d') = map (\<lambda>p. (opened p, readied p, port_name p)) (vc_ports d)"
    (is "map ?f _ = _")
    using assms(2) by (simp add: vc_ctl_def)
  have len: "length (vc_ports d') = 3" using inv_ports [OF assms(1)] arg_cong [OF eq, of length] by simp
  have "map (\<lambda>t. snd (snd t)) (map ?f (vc_ports d')) = map (\<lambda>t. snd (snd t)) (map ?f (vc_ports d))"
    by (simp only: eq)
  then have names: "map port_name (vc_ports d') = map port_name (vc_ports d)" by (simp add: comp_def)
  have "readied (vc_ports d' ! i) = readied (vc_ports d ! i)" if "i < 3" for i
    using arg_cong [OF eq, of "\<lambda>xs. xs ! i"] that len inv_ports [OF assms(1)] by simp
  then have "control_budget d' = control_budget d"
    using assms(2) by (simp add: control_budget_def vc_port_of_def vc_ctl_def)
  with names assms show ?thesis by (simp add: vc_inv_def vc_ctl_def)
qed

lemma inv_suffix:
  assumes "vc_inv d" and "suffix msgs (control_queue d)"
  shows "vc_inv (d\<lparr>control_queue := msgs\<rparr>)"
  using assms suffix_length_le [OF assms(2)] set_mono_suffix [OF assms(2)]
  by (auto simp: vc_inv_def control_budget_def vc_port_of_def)

lemma drain_control_in_inv:
  fixes d :: "('m, 'q) vc_device"
  shows "vc_inv d \<Longrightarrow> safe vc_inv (drain_control_in fuel api d)"
proof -
  assume inv: "vc_inv d"
  have step: "safe vc_inv (run_bind (ctl_in_loop fuel api m q (control_queue d) False) (\<lambda>(m, q, msgs, b).
      let d = (vc_put_queue C_IVQ m q d)\<lparr>control_queue := msgs\<rparr> in Returns (if b then vc_signal_used d else d)))" for m q
  proof (rule safe_bind [OF ctl_in_loop_suffix], clarify)
    fix m' :: 'm and q' :: 'q and msgs and b :: bool
    assume "suffix (fst (snd (snd (m', q', msgs, b)))) (control_queue d)"
    moreover have "control_queue (vc_put_queue C_IVQ m' q' d) = control_queue d" by (simp add: vc_put_queue_def)
    ultimately have "vc_inv ((vc_put_queue C_IVQ m' q' d)\<lparr>control_queue := msgs\<rparr>)"
      using inv_of_ctl [OF inv, of "vc_put_queue C_IVQ m' q' d"] by (intro inv_suffix) simp_all
    then show "safe vc_inv (let d = (vc_put_queue C_IVQ m' q' d)\<lparr>control_queue := msgs\<rparr> in
        Returns (if b then vc_signal_used d else d))"
      by (auto simp: Let_def intro: inv_of_ctl)
  qed
  show ?thesis using inv step by (auto simp: drain_control_in_def split: option.split)
qed

lemma announcements_mem:
  "ctl_cmd 0 PortAdd \<in> set announcements" "ctl_cmd 1 PortAdd \<in> set announcements" "ctl_cmd 2 PortAdd \<in> set announcements"
  "ctl_cmd 0 ConsolePort \<in> set announcements" "NameOf 0 PORT0_NAME \<in> set announcements" "ctl_cmd 0 PortOpen \<in> set announcements"
  "NameOf 1 PORT1_NAME \<in> set announcements" "ctl_cmd 1 PortOpen \<in> set announcements" "NameOf 2 PORT2_NAME \<in> set announcements"
  "ctl_cmd 2 PortOpen \<in> set announcements"
  by (simp_all add: announcements_def upt_rec)

lemma less_NUM_PORTS: "\<not> NUM_PORTS \<le> w \<Longrightarrow> w = 0 \<or> w = 1 \<or> w = 2"
proof -
  assume "\<not> NUM_PORTS \<le> w"
  then have "unat w < 3" by (simp add: NUM_PORTS_def not_le word_less_nat_alt)
  then have "unat w = unat (0 :: u32) \<or> unat w = unat (1 :: u32) \<or> unat w = unat (2 :: u32)" by auto
  then show ?thesis using unsigned_word_eqI by blast
qed

lemma inv_three:
  assumes "vc_inv d"
  obtains p0 p1 p2 where "vc_ports d = [p0, p1, p2]" "port_name p0 = PORT0_NAME" "port_name p1 = PORT1_NAME"
    "port_name p2 = PORT2_NAME"
  using assms by (auto simp: vc_inv_def map_eq_Cons_conv)

lemma device_ready_inv:
  "vc_inv d \<Longrightarrow> \<not> device_ready d \<Longrightarrow> vc_inv (d\<lparr>device_ready := True,
     control_queue := control_queue d @ map (\<lambda>i. ctl_cmd (of_nat i) PortAdd) [0..<unat NUM_PORTS]\<rparr>)"
  by (auto simp: vc_inv_def control_budget_def vc_port_of_def NUM_PORTS_def announcements_def)

lemma port_ready_inv:
  assumes inv: "vc_inv d" and "w = 0 \<or> w = 1 \<or> w = 2" and "\<not> readied (vc_port_of (unat w) d)"
  shows "vc_inv ((vc_upd_port (unat w) (\<lambda>p. p\<lparr>readied := True\<rparr>) d)\<lparr>control_queue := control_queue d
     @ (if w = 0 then [ctl_cmd w ConsolePort, NameOf w (port_name (vc_port_of (unat w) d)), ctl_cmd w PortOpen]
        else [NameOf w (port_name (vc_port_of (unat w) d)), ctl_cmd w PortOpen])\<rparr>)"
proof -
  obtain p0 p1 p2 where ports: "vc_ports d = [p0, p1, p2]" "port_name p0 = PORT0_NAME" "port_name p1 = PORT1_NAME"
    "port_name p2 = PORT2_NAME" using inv_three [OF inv] by blast
  from assms(2) show ?thesis
    using inv assms(3) ports announcements_mem
    by (elim disjE) (simp_all add: vc_inv_def control_budget_def vc_port_of_def vc_upd_port_def split: if_splits)
qed

lemma port_open_inv: "vc_inv d \<Longrightarrow> vc_inv (vc_upd_port i (\<lambda>p. p\<lparr>opened := b\<rparr>) d)"
proof -
  assume inv: "vc_inv d"
  have "map port_name (vc_ports (vc_upd_port i (\<lambda>p. p\<lparr>opened := b\<rparr>) d)) = map port_name (vc_ports d)"
    by (simp add: vc_upd_port_def map_update_same)
  moreover have "readied (vc_ports (vc_upd_port i (\<lambda>p. p\<lparr>opened := b\<rparr>) d) ! j) = readied (vc_ports d ! j)" if "j < 3" for j
    by (cases "i = j"; cases "i < length (vc_ports d)") (simp_all add: vc_upd_port_def not_less list_update_beyond)
  ultimately show ?thesis using inv by (simp add: vc_inv_def control_budget_def vc_port_of_def vc_upd_port_def)
qed

lemma handle_control_event_inv: "vc_inv d \<Longrightarrow> safe vc_inv (handle_control_event api c d)"
proof -
  assume inv: "vc_inv d"
  have drain: "safe vc_inv (drain_pending_rx api (unat (cc_id c)) (vc_upd_port (unat (cc_id c)) (\<lambda>p. p\<lparr>opened := b\<rparr>) d))"
    if "\<not> NUM_PORTS \<le> cc_id c" for b
    using less_NUM_PORTS [OF that] inv_of_ctl [OF port_open_inv [OF inv]]
    by (intro safe_mono [OF drain_pending_rx_ctl]) auto
  have ready: "vc_inv (let d = vc_upd_port (unat w) (\<lambda>p. p\<lparr>readied := True\<rparr>) d; name = port_name (vc_port_of (unat w) d)
      in d\<lparr>control_queue := control_queue d @ (if w = 0 then [ctl_cmd w ConsolePort, NameOf w name, ctl_cmd w PortOpen]
           else [NameOf w name, ctl_cmd w PortOpen])\<rparr>)"
    if "\<not> NUM_PORTS \<le> w" "\<not> readied (vc_port_of (unat w) d)" for w
  proof -
    have "port_name (vc_port_of (unat w) (vc_upd_port (unat w) (\<lambda>p. p\<lparr>readied := True\<rparr>) d)) = port_name (vc_port_of (unat w) d)"
      by (cases "unat w < length (vc_ports d)") (simp_all add: vc_upd_port_def vc_port_of_def not_less list_update_beyond)
    moreover have "control_queue (vc_upd_port (unat w) (\<lambda>p. p\<lparr>readied := True\<rparr>) d) = control_queue d"
      by (simp add: vc_upd_port_def)
    ultimately show ?thesis using port_ready_inv [OF inv less_NUM_PORTS [OF that(1)] that(2)] by (simp only: Let_def)
  qed
  show ?thesis
    unfolding handle_control_event_def Let_def
    using inv device_ready_inv [OF inv] drain port_open_inv [OF inv] ready [unfolded Let_def]
    by (simp del: upt_conv_Cons)
qed

lemma handle_control_events_inv: "vc_inv d \<Longrightarrow> safe vc_inv (handle_control_events api cs d)"
  by (induction cs arbitrary: d) (auto intro: safe_bind handle_control_event_inv)

lemma process_control_tx_inv: "vc_inv d \<Longrightarrow> safe vc_inv (process_control_tx fuel api d)"
  by (auto simp: process_control_tx_def split: option.split prod.split
      intro!: safe_bind [OF handle_control_events_inv] drain_control_in_inv intro: inv_of_ctl)

section \<open>Registers\<close>

lemma vc_advance_on_ladder:
  assumes "on_ladder s" and "val AND s = s"
    and "val AND NOT s = VIRTIO_CONFIG_S_FAILED
      \<or> (if val AND NOT s = VIRTIO_CONFIG_S_ACKNOWLEDGE then s = 0
          else if val AND NOT s = VIRTIO_CONFIG_S_DRIVER then s = S_ACK
          else if val AND NOT s = VIRTIO_CONFIG_S_FEATURES_OK then s = S_DRV
          else if val AND NOT s = VIRTIO_CONFIG_S_DRIVER_OK then s = S_FEAT else False)"
  shows "on_ladder val"
proof -
  have "val = s OR (val AND NOT s)" by (rule superset_eq_or [OF assms(2)])
  with assms(1,3) on_ladder_flags(2) on_ladder_rungs show ?thesis
    by (auto simp: status_defs split: if_splits)
qed

lemma inv_status: "vc_inv d \<Longrightarrow> on_ladder val \<Longrightarrow> vc_inv (d\<lparr>vc_status := val\<rparr>)"
  by (simp add: vc_inv_def control_budget_def vc_port_of_def)

lemma vc_set_status_inv:
  assumes inv: "vc_inv d"
  shows "safe vc_inv (vc_set_status fuel api val d)"
proof -
  have l: "on_ladder (vc_status d)" using inv by (simp add: vc_inv_def)
  note step = inv_status [OF inv vc_advance_on_ladder [OF l]]
  have "safe vc_inv (run_bind (drain_pending_rx api 0 d') (drain_control_in fuel api))" if "vc_inv d'" for d'
    by (rule safe_bind [OF drain_pending_rx_ctl]) (auto intro: drain_control_in_inv inv_of_ctl that)
  note live = this
  show ?thesis
    unfolding vc_set_status_def Let_def
  proof (intro safe_if)
    assume "\<not> val AND vc_status d \<noteq> vc_status d"
    then have sup: "val AND vc_status d = vc_status d" by blast
    show "safe vc_inv (Returns (d\<lparr>vc_status := val\<rparr>))" if "val AND NOT (vc_status d) = VIRTIO_CONFIG_S_FAILED"
      using step [OF sup disjI1, OF that] by (simp only: safe_Returns)
    assume "if val AND NOT (vc_status d) = VIRTIO_CONFIG_S_ACKNOWLEDGE then vc_status d = 0
      else if val AND NOT (vc_status d) = VIRTIO_CONFIG_S_DRIVER then vc_status d = S_ACK
      else if val AND NOT (vc_status d) = VIRTIO_CONFIG_S_FEATURES_OK then vc_status d = S_DRV
      else if val AND NOT (vc_status d) = VIRTIO_CONFIG_S_DRIVER_OK then vc_status d = S_FEAT else False"
    then have new: "vc_inv (d\<lparr>vc_status := val\<rparr>)" by (rule step [OF sup disjI2])
    show "safe vc_inv (run_bind (drain_pending_rx api 0 (d\<lparr>vc_status := val\<rparr>)) (drain_control_in fuel api))"
      by (rule live [OF new])
    show "safe vc_inv (Returns (d\<lparr>vc_status := val\<rparr>))" using new by (simp only: safe_Returns)
  qed (simp_all only: safe_Returns inv)
qed

lemma vc_reset_inv:
  assumes "vc_inv d"
  shows "safe vc_inv (vc_reset fuel api d)"
proof -
  have "vc_inv (vc_clear api d')"
    if "vc_ctl d' = vc_ctl d" for d'
    using inv_of_ctl [OF assms that] by (simp add: vc_clear_def vc_inv_def on_ladder_rungs comp_def)
  then show ?thesis
    unfolding vc_reset_def
    by (intro safe_bind [OF drain_tx_ctl]) simp_all
qed

lemma vc_notify_inv: "vc_inv d \<Longrightarrow> safe vc_inv (vc_notify fuel api val d)"
  by (auto simp: vc_notify_def Let_def split: option.split
      intro!: drain_control_in_inv process_control_tx_inv safe_bind [OF process_tx_ctl] safe_mono [OF drain_pending_rx_ctl]
      dest: queue_to_port_less intro: inv_of_ctl)

lemma vc_driver_features_inv: "vc_inv d \<Longrightarrow> vc_inv (d\<lparr>vc_driver_features := w\<rparr>)"
  by (simp add: vc_inv_def control_budget_def vc_port_of_def)

lemma vc_mmio_write_inv: "vc_inv d \<Longrightarrow> safe vc_inv (vc_mmio_write fuel api offset data d)"
proof -
  assume inv: "vc_inv d"
  have "safe vc_inv (vc_mmio_write_reg fuel api reg val d)" for reg val
    by (cases reg) (simp_all add: vc_mmio_write_reg_def inv vc_notify_inv [OF inv] vc_set_status_inv [OF inv]
      vc_reset_inv [OF inv] vc_driver_features_inv [OF inv] inv_of_ctl [OF inv] split: mmio_reg.split)
  with inv show ?thesis by (simp add: vc_mmio_write_def)
qed

lemma vc_event_step_inv:
  assumes inv: "vc_inv d"
  shows "safe vc_inv (vc_event_step fuel api ev d)"
proof -
  have input: "safe vc_inv (vc_queue_input api p data d)" if "p < 3" for p data
    unfolding vc_queue_input_def by (rule safe_mono [OF drain_pending_rx_ctl [OF that]]) (simp add: inv_of_ctl [OF inv])
  show ?thesis
    by (cases ev) (simp_all add: vc_event_step_def inv_of_ctl [OF inv] vc_mmio_write_inv [OF inv] input
      drain_port_tx_def push_back_bulk_def clear_port2_pending_rx_def)
qed

lemma vc_events_inv: "vc_inv d \<Longrightarrow> safe vc_inv (vc_events fuel api evs d)"
  by (induction evs arbitrary: d) (auto intro: safe_bind vc_event_step_inv)

lemma vc_new_inv: "vc_inv (vc_new q)"
  by (simp add: vc_inv_def vc_new_def port_new_def VC_NUM_QUEUES_def NUM_PORTS_def on_ladder_rungs)

section \<open>Properties\<close>

text \<open>
  C4: the console device stays well formed under a hostile guest. From a new device, whatever the guest stores
  in its memory, whatever registers it writes and whatever chains the queues hand out, interleaved with any calls from
  the host, no handler panics; the device keeps its eight queues and its three ports with their names, its status stays
  on the ladder of the specification, and the messages waiting for the guest are at most ten, each one of the ten
  announcements of the handshake.
\<close>

theorem console_well_formed:
  "safe (\<lambda>d. length (vc_queues d) = 8 \<and> map port_name (vc_ports d) = [PORT0_NAME, PORT1_NAME, PORT2_NAME]
       \<and> on_ladder (vc_status d) \<and> length (control_queue d) \<le> 10 \<and> set (control_queue d) \<subseteq> set announcements)
     (vc_events fuel api evs (vc_new q))"
proof (rule safe_mono [OF vc_events_inv [OF vc_new_inv]])
  fix d :: "('a, 'b) vc_device"
  assume inv: "vc_inv d"
  have "control_budget d \<le> 10" by (simp add: control_budget_def)
  with inv show "length (vc_queues d) = 8 \<and> map port_name (vc_ports d) = [PORT0_NAME, PORT1_NAME, PORT2_NAME]
       \<and> on_ladder (vc_status d) \<and> length (control_queue d) \<le> 10 \<and> set (control_queue d) \<subseteq> set announcements"
    by (simp add: vc_inv_def VC_NUM_QUEUES_def NUM_PORTS_def)
qed

end
