(* ===== verification/Bulk_Stream.thy ===== *)
theory Bulk_Stream
  imports Wire_Format
begin

text \<open>
  The bulk message stream from guest to host: the framing writer of
  \<^verbatim>\<open>src/vmm/guest_comms.rs\<close>, the streaming assembler of \<^verbatim>\<open>src/vmm/bulk.rs\<close> and the one-shot
  parser of \<^verbatim>\<open>src/vmm/host_comms.rs\<close>. The checksum (\<^verbatim>\<open>crc32fast::hash\<close>) is an argument, and so are the results
  of the \<^verbatim>\<open>writev\<close> calls. Buffer indices are naturals: a buffer is far shorter than the
  address space, so the saturating index additions of the source never saturate.
\<close>

definition MAX_BULK_FRAME_PAYLOAD :: u32 where
  "MAX_BULK_FRAME_PAYLOAD = 16 * 1024 * 1024"

section \<open>The writer\<close>

definition encode_frame :: "(bytes \<Rightarrow> u32) \<Rightarrow> u32 \<Rightarrow> bytes \<Rightarrow> bytes option" where
  "encode_frame crc msg_ty payload =
     (if length payload < 2 ^ 32 then
        Some (shm_message_bytes \<lparr>sm_type = msg_ty, sm_length = of_nat (length payload),
                sm_crc32 = crc payload, sm_pad = 0\<rparr> @ payload)
      else None)"

text \<open>
  The \<^verbatim>\<open>writev\<close> loop: each call returns the number of bytes it took, was interrupted, or
  failed. The loop returns whether everything was written, with the bytes that reached the
  port; \<open>None\<close> when the given results run out before it returns.
\<close>

datatype writev_result = Wrote nat | Interrupted | WriteFailed

fun writev_loop :: "writev_result list \<Rightarrow> bytes \<Rightarrow> bytes \<Rightarrow> (bool \<times> bytes) option" where
  "writev_loop rs [] sent = Some (True, sent)"
| "writev_loop [] (b # bs) sent = None"
| "writev_loop (Interrupted # rs) (b # bs) sent = writev_loop rs (b # bs) sent"
| "writev_loop (WriteFailed # rs) (b # bs) sent = Some (False, sent)"
| "writev_loop (Wrote n # rs) (b # bs) sent =
     (if n = 0 then Some (False, sent)
      else writev_loop rs (drop n (b # bs)) (sent @ take n (b # bs)))"

definition write_to_bulk_port ::
  "(bytes \<Rightarrow> u32) \<Rightarrow> writev_result list \<Rightarrow> u32 \<Rightarrow> bytes \<Rightarrow> (bool \<times> bytes) option" where
  "write_to_bulk_port crc rs msg_ty payload =
     (case encode_frame crc msg_ty payload of
        None \<Rightarrow> Some (False, [])
      | Some bs \<Rightarrow> writev_loop rs bs [])"

section \<open>The streaming assembler\<close>

record bulk_message =
  bm_type :: u32
  bm_payload :: bytes
  bm_crc_ok :: bool

type_synonym host_assembler = bytes

definition bulk_message_of :: "(bytes \<Rightarrow> u32) \<Rightarrow> shm_message \<Rightarrow> bytes \<Rightarrow> bulk_message" where
  "bulk_message_of crc frame payload =
     \<lparr>bm_type = sm_type frame, bm_payload = payload, bm_crc_ok = (crc payload = sm_crc32 frame)\<rparr>"

function feed_loop ::
  "(bytes \<Rightarrow> u32) \<Rightarrow> bytes \<Rightarrow> nat \<Rightarrow> bulk_message list \<Rightarrow> bulk_message list \<times> nat \<times> bool" where
  "feed_loop crc buf consumed out =
     (if consumed + FRAME_HEADER_SIZE \<le> length buf then
        let hdr_end = consumed + FRAME_HEADER_SIZE in
        case shm_message_read (byte_slice buf consumed hdr_end) of
          None \<Rightarrow> (out, consumed, False)
        | Some frame \<Rightarrow>
            let payload_end = hdr_end + unat (sm_length frame) in
            if length buf < payload_end then (out, consumed, False)
            else if MAX_BULK_FRAME_PAYLOAD < sm_length frame then (out, consumed, True)
            else feed_loop crc buf payload_end
                   (out @ [bulk_message_of crc frame (byte_slice buf hdr_end payload_end)])
      else (out, consumed, False))"
  by pat_completeness auto
termination
  by (relation "measure (\<lambda>(crc, buf, consumed, out). length buf - consumed)")
    (auto simp: FRAME_HEADER_SIZE_def)

definition feed ::
  "(bytes \<Rightarrow> u32) \<Rightarrow> host_assembler \<Rightarrow> bytes \<Rightarrow> host_assembler \<times> bulk_message list" where
  "feed crc asm bs =
     (let buf = (if bs \<noteq> [] then asm @ bs else asm);
          (out, consumed, resync) = feed_loop crc buf 0 [];
          buf1 = (if resync then [] else if 0 < consumed then drop consumed buf else buf);
          buf2 = (if 2 * unat MAX_BULK_FRAME_PAYLOAD < length buf1 then [] else buf1)
      in (buf2, out))"

section \<open>The one-shot parser\<close>

function parse_loop ::
  "(bytes \<Rightarrow> u32) \<Rightarrow> bytes \<Rightarrow> nat \<Rightarrow> bulk_message list \<Rightarrow> bulk_message list" where
  "parse_loop crc buf pos entries =
     (if pos + FRAME_HEADER_SIZE \<le> length buf then
        let hdr_end = pos + FRAME_HEADER_SIZE in
        case shm_message_read (byte_slice buf pos hdr_end) of
          None \<Rightarrow> entries
        | Some msg \<Rightarrow>
            if MAX_BULK_FRAME_PAYLOAD < sm_length msg then entries
            else if length buf - hdr_end < unat (sm_length msg) then entries
            else let payload_end = hdr_end + unat (sm_length msg) in
              parse_loop crc buf payload_end
                (entries @ [bulk_message_of crc msg (byte_slice buf hdr_end payload_end)])
      else entries)"
  by pat_completeness auto
termination
  by (relation "measure (\<lambda>(crc, buf, pos, entries). length buf - pos)")
    (auto simp: FRAME_HEADER_SIZE_def)

definition parse_tlv_stream :: "(bytes \<Rightarrow> u32) \<Rightarrow> bytes \<Rightarrow> bulk_message list" where
  "parse_tlv_stream crc buf = parse_loop crc buf 0 []"

declare feed_loop.simps [simp del] parse_loop.simps [simp del]

section \<open>Specification functions and sample values\<close>

text \<open>
  The specification of the stream: what a buffer starts with, and the frames it holds from
  the front with the bytes left over.
\<close>

datatype scan_result = Incomplete | Oversized | Complete bulk_message bytes

definition scan :: "(bytes \<Rightarrow> u32) \<Rightarrow> bytes \<Rightarrow> scan_result" where
  "scan crc buf =
     (case shm_message_read (take FRAME_HEADER_SIZE buf) of
        None \<Rightarrow> Incomplete
      | Some h \<Rightarrow>
          let n = unat (sm_length h); body = drop FRAME_HEADER_SIZE buf in
          if length body < n then Incomplete
          else if MAX_BULK_FRAME_PAYLOAD < sm_length h then Oversized
          else Complete (bulk_message_of crc h (take n body)) (drop n body))"

function scan_all :: "(bytes \<Rightarrow> u32) \<Rightarrow> bytes \<Rightarrow> bulk_message list \<times> bytes \<times> bool" where
  "scan_all crc buf =
     (case scan crc buf of
        Incomplete \<Rightarrow> ([], buf, False)
      | Oversized \<Rightarrow> ([], buf, True)
      | Complete m rest \<Rightarrow> (case scan_all crc rest of (ms, r, z) \<Rightarrow> (m # ms, r, z)))"
  by pat_completeness auto
termination
  by (relation "measure (\<lambda>(crc, buf). length buf)")
    (auto simp: scan_def Let_def FRAME_HEADER_SIZE_def shm_message_read_def split: if_splits)

definition feed_all ::
  "(bytes \<Rightarrow> u32) \<Rightarrow> host_assembler \<Rightarrow> bytes list \<Rightarrow> host_assembler \<times> bulk_message list" where
  "feed_all crc asm chunks =
     foldl (\<lambda>(a, out) bs. case feed crc a bs of (a', ms) \<Rightarrow> (a', out @ ms)) (asm, []) chunks"

definition sent_message :: "u32 \<times> bytes \<Rightarrow> bulk_message" where
  "sent_message = (\<lambda>(t, p). \<lparr>bm_type = t, bm_payload = p, bm_crc_ok = True\<rparr>)"

definition legitimate :: "u32 \<times> bytes \<Rightarrow> bool" where
  "legitimate m \<longleftrightarrow> length (snd m) \<le> unat MAX_BULK_FRAME_PAYLOAD"

definition encode_all :: "(bytes \<Rightarrow> u32) \<Rightarrow> (u32 \<times> bytes) list \<Rightarrow> bytes" where
  "encode_all crc ms = concat (map (\<lambda>(t, p). the (encode_frame crc t p)) ms)"

declare scan_all.simps [simp del]

section \<open>The loops compute the specification\<close>

lemma unat_MAX: "unat MAX_BULK_FRAME_PAYLOAD = 16777216"
  by (simp add: MAX_BULK_FRAME_PAYLOAD_def)

lemma scan_drop:
  "scan crc (drop c buf) =
     (if c + FRAME_HEADER_SIZE \<le> length buf then
        case shm_message_read (byte_slice buf c (c + FRAME_HEADER_SIZE)) of
          None \<Rightarrow> Incomplete
        | Some h \<Rightarrow>
            if length buf < c + FRAME_HEADER_SIZE + unat (sm_length h) then Incomplete
            else if MAX_BULK_FRAME_PAYLOAD < sm_length h then Oversized
            else Complete (bulk_message_of crc h (byte_slice buf (c + FRAME_HEADER_SIZE)
                     (c + FRAME_HEADER_SIZE + unat (sm_length h))))
                   (drop (c + FRAME_HEADER_SIZE + unat (sm_length h)) buf)
      else Incomplete)"
proof (cases "c + FRAME_HEADER_SIZE \<le> length buf")
  case True
  then have "length buf - c - FRAME_HEADER_SIZE < n \<longleftrightarrow> length buf < c + FRAME_HEADER_SIZE + n" for n
    by auto
  with True show ?thesis
    by (auto simp: scan_def byte_slice_def Let_def add.commute split: option.splits)
next
  case False
  then have "shm_message_read (take FRAME_HEADER_SIZE (drop c buf)) = None"
    by (auto simp: shm_message_read_def FRAME_HEADER_SIZE_def)
  with False show ?thesis by (simp add: scan_def)
qed

lemma feed_loop_eq:
  "feed_loop crc buf c out =
     (case scan_all crc (drop c buf) of (ms, r, z) \<Rightarrow> (out @ ms, length buf - length r, z))"
  if "c \<le> length buf"
  using that
proof (induction crc buf c out rule: feed_loop.induct)
  case (1 crc buf c out)
  show ?case
    using 1
    by (subst feed_loop.simps, subst scan_all.simps)
      (auto simp: scan_drop Let_def not_less split: option.splits prod.splits)
qed

lemma parse_loop_eq:
  "parse_loop crc buf c out = out @ fst (scan_all crc (drop c buf))" if "c \<le> length buf"
  using that
proof (induction crc buf c out rule: parse_loop.induct)
  case (1 crc buf c out)
  show ?case
    using 1
    by (subst parse_loop.simps, subst scan_all.simps)
      (auto simp: scan_drop Let_def not_less split: option.splits prod.splits)
qed

lemma scan_all_rest:
  "scan_all crc buf = (ms, r, z) \<Longrightarrow> \<exists>k \<le> length buf. r = drop k buf"
proof (induction crc buf arbitrary: ms rule: scan_all.induct)
  case (1 crc buf)
  show ?case
  proof (cases "scan crc buf")
    case (Complete m rest)
    then obtain n where rest: "rest = drop n buf" and n: "n \<le> length buf"
      using scan_drop [of crc 0 buf] by (auto split: if_splits option.splits)
    obtain ms' where "scan_all crc rest = (ms', r, z)"
      using 1(2) Complete by (subst (asm) scan_all.simps) (auto split: prod.splits)
    from 1(1) [OF Complete this] obtain k where "k \<le> length rest" "r = drop k rest" by blast
    with rest n show ?thesis by (intro exI [of _ "n + k"]) (simp add: add.commute)
  qed (use 1(2) in \<open>auto simp: scan_all.simps [of crc buf]\<close>)
qed

lemma feed_eq:
  "feed crc asm bs =
     (case scan_all crc (asm @ bs) of (ms, r, z) \<Rightarrow>
        (if z \<or> 2 * unat MAX_BULK_FRAME_PAYLOAD < length r then [] else r, ms))"
proof -
  obtain ms r z where s: "scan_all crc (asm @ bs) = (ms, r, z)" by (cases "scan_all crc (asm @ bs)")
  let ?c = "length (asm @ bs) - length r"
  obtain k where k: "k \<le> length (asm @ bs)" "r = drop k (asm @ bs)" using scan_all_rest [OF s] by blast
  then have "?c = k" by (simp only: length_drop diff_diff_cancel)
  with k have r: "drop ?c (asm @ bs) = r" by (simp only:)
  have "feed_loop crc (asm @ bs) 0 [] = (ms, ?c, z)" by (simp add: feed_loop_eq s)
  moreover have "(if bs \<noteq> [] then asm @ bs else asm) = asm @ bs" by simp
  moreover have "(if 0 < ?c then drop ?c (asm @ bs) else asm @ bs) = r" using r by auto
  ultimately show ?thesis unfolding feed_def Let_def by (auto simp: s)
qed

lemma parse_tlv_stream_eq: "parse_tlv_stream crc buf = fst (scan_all crc buf)"
  by (simp add: parse_tlv_stream_def parse_loop_eq)

section \<open>Chunking\<close>

lemma scan_append:
  assumes "scan crc buf = Complete m rest"
  shows "scan crc (buf @ x) = Complete m (rest @ x)"
proof -
  obtain h where h: "shm_message_read (take FRAME_HEADER_SIZE buf) = Some h"
    using assms by (auto simp: scan_def split: option.splits)
  then have "length (take FRAME_HEADER_SIZE buf) = FRAME_HEADER_SIZE"
    by (auto simp: shm_message_read_def split: if_splits)
  then have len: "FRAME_HEADER_SIZE \<le> length buf" by simp
  with h assms show ?thesis
    by (auto simp: scan_def Let_def split: if_splits)
qed

lemma scan_all_append:
  assumes "scan_all crc buf = (ms, r, False)"
  shows "scan_all crc (buf @ x) = (case scan_all crc (r @ x) of (ms', r', z) \<Rightarrow> (ms @ ms', r', z))"
  using assms
proof (induction crc buf arbitrary: ms rule: scan_all.induct)
  case (1 crc buf)
  show ?case
  proof (cases "scan crc buf")
    case (Complete m rest)
    obtain ms' where ms': "scan_all crc rest = (ms', r, False)" and ms: "ms = m # ms'"
      using 1(2) Complete by (subst (asm) scan_all.simps) (auto split: prod.splits)
    from 1(1) [OF Complete ms'] have
      "scan_all crc (rest @ x) = (case scan_all crc (r @ x) of (ms'', r', z) \<Rightarrow> (ms' @ ms'', r', z))" .
    then show ?thesis
      by (subst scan_all.simps) (simp add: scan_append [OF Complete] ms split: prod.splits)
  qed (use 1(2) in \<open>auto simp: scan_all.simps [of crc buf] split: prod.splits\<close>)
qed

section \<open>Frames that were written\<close>

lemma encode_frame_Some:
  "legitimate (t, p) \<Longrightarrow> encode_frame crc t p = Some (shm_message_bytes
     \<lparr>sm_type = t, sm_length = of_nat (length p), sm_crc32 = crc p, sm_pad = 0\<rparr> @ p)"
  by (simp add: encode_frame_def legitimate_def unat_MAX)

lemma unat_frame_length: "legitimate (t, p) \<Longrightarrow> unat (of_nat (length p) :: u32) = length p"
  by (intro unat_of_nat_no_overflow) (simp add: legitimate_def unat_MAX)

lemma scan_encoded:
  assumes "legitimate (t, p)"
  shows "scan crc (the (encode_frame crc t p) @ x) = Complete (sent_message (t, p)) x"
proof -
  let ?h = "\<lparr>sm_type = t, sm_length = of_nat (length p), sm_crc32 = crc p, sm_pad = 0\<rparr>"
  have len: "length (shm_message_bytes ?h) = FRAME_HEADER_SIZE" using hdr.length_enc by blast
  have "\<not> MAX_BULK_FRAME_PAYLOAD < of_nat (length p)"
    using assms unat_frame_length [OF assms] by (simp add: word_less_nat_alt legitimate_def)
  with len show ?thesis
    using hdr.dec_enc [of ?h] unat_frame_length [OF assms]
    by (simp add: scan_def encode_frame_Some [OF assms] bulk_message_of_def sent_message_def Let_def)
qed

lemma scan_strict_prefix:
  assumes "legitimate (t, p)" and "the (encode_frame crc t p) = q @ x" and "x \<noteq> []"
  shows "scan crc q = Incomplete" and "length q < FRAME_HEADER_SIZE + unat MAX_BULK_FRAME_PAYLOAD"
proof -
  let ?h = "\<lparr>sm_type = t, sm_length = of_nat (length p), sm_crc32 = crc p, sm_pad = 0\<rparr>"
  have len: "length (shm_message_bytes ?h) = FRAME_HEADER_SIZE" using hdr.length_enc by blast
  have eq: "shm_message_bytes ?h @ p = q @ x" using assms by (simp add: encode_frame_Some)
  then have total: "FRAME_HEADER_SIZE + length p = length q + length x" using len by (metis length_append)
  then show "length q < FRAME_HEADER_SIZE + unat MAX_BULK_FRAME_PAYLOAD"
    using assms(1,3) by (cases x) (auto simp: legitimate_def)
  show "scan crc q = Incomplete"
  proof (cases "FRAME_HEADER_SIZE \<le> length q")
    case True
    have "take FRAME_HEADER_SIZE q = take FRAME_HEADER_SIZE (q @ x)" using True by simp
    also have "\<dots> = shm_message_bytes ?h" using eq len by (metis append_eq_conv_conj)
    finally have "shm_message_read (take FRAME_HEADER_SIZE q) = Some ?h" using hdr.dec_enc by simp
    moreover have "length q - FRAME_HEADER_SIZE < length p" using total True assms(3) by (cases x) auto
    ultimately show ?thesis using unat_frame_length [OF assms(1)] by (simp add: scan_def Let_def)
  next
    case False
    then show ?thesis by (simp add: scan_def shm_message_read_def)
  qed
qed

lemma stream_prefix:
  assumes "list_all legitimate ms" and "encode_all crc ms = p @ q"
  shows "\<exists>ms1 r. scan_all crc p = (map sent_message ms1, r, False)
    \<and> length r < FRAME_HEADER_SIZE + unat MAX_BULK_FRAME_PAYLOAD
    \<and> (q = [] \<longrightarrow> ms1 = ms \<and> r = [])"
  using assms
proof (induction ms arbitrary: p)
  case Nil
  then have "p = []" "q = []" by (simp_all add: encode_all_def)
  moreover have "scan crc [] = Incomplete"
    by (simp add: scan_def shm_message_read_def FRAME_HEADER_SIZE_def)
  ultimately show ?case by (simp add: scan_all.simps [of crc "[]"] FRAME_HEADER_SIZE_def)
next
  case (Cons m ms)
  obtain t b where m: "m = (t, b)" by (cases m)
  let ?E = "the (encode_frame crc t b)"
  have leg: "legitimate (t, b)" "list_all legitimate ms" using Cons.prems(1) m by simp_all
  have eq: "?E @ encode_all crc ms = p @ q" using Cons.prems(2) by (simp add: encode_all_def m)
  consider (whole) p' where "p = ?E @ p'" "encode_all crc ms = p' @ q"
    | (part) x where "?E = p @ x" "x \<noteq> []" "q = x @ encode_all crc ms"
    using eq by (fastforce simp: append_eq_append_conv2)
  then show ?case
  proof cases
    case whole
    obtain ms1 r where ih: "scan_all crc p' = (map sent_message ms1, r, False)"
      "length r < FRAME_HEADER_SIZE + unat MAX_BULK_FRAME_PAYLOAD" "q = [] \<longrightarrow> ms1 = ms \<and> r = []"
      using Cons.IH [OF leg(2) whole(2)] by blast
    have "scan_all crc p = (map sent_message (m # ms1), r, False)"
      by (subst scan_all.simps) (simp add: whole(1) scan_encoded [OF leg(1)] ih(1) m)
    with ih(2,3) show ?thesis by (intro exI [of _ "m # ms1"]) auto
  next
    case part
    note sp = scan_strict_prefix [OF leg(1) part(1,2)]
    have "scan_all crc p = (map sent_message [], p, False)" by (simp add: scan_all.simps [of crc p] sp(1))
    with sp(2) part(2,3) show ?thesis by (intro exI [of _ "[]"] exI [of _ p]) auto
  qed
qed

lemma feed_all_stream:
  assumes "list_all legitimate ms" and "encode_all crc ms = concat chunks @ q"
  shows "\<exists>out r. scan_all crc (concat chunks) = (out, r, False) \<and> feed_all crc [] chunks = (r, out)"
  using assms(2)
proof (induction chunks arbitrary: q rule: rev_induct)
  case Nil
  then show ?case
    by (simp add: feed_all_def scan_all.simps [of crc "[]"] scan_def shm_message_read_def
        FRAME_HEADER_SIZE_def)
next
  case (snoc c chunks)
  from snoc.prems have eq: "encode_all crc ms = concat chunks @ (c @ q)" by simp
  from snoc.IH [OF this] obtain out r where ih: "scan_all crc (concat chunks) = (out, r, False)"
    "feed_all crc [] chunks = (r, out)" by blast
  obtain ms' r' z where rc: "scan_all crc (r @ c) = (ms', r', z)" by (cases "scan_all crc (r @ c)")
  have all: "scan_all crc (concat chunks @ c) = (out @ ms', r', z)"
    by (simp add: scan_all_append [OF ih(1)] rc)
  have "encode_all crc ms = (concat chunks @ c) @ q" using eq by simp
  from stream_prefix [OF assms(1) this] all
  have z: "\<not> z" and r': "length r' < FRAME_HEADER_SIZE + unat MAX_BULK_FRAME_PAYLOAD" by auto
  then have "feed crc r c = (r', ms')" by (simp add: feed_eq rc FRAME_HEADER_SIZE_def unat_MAX)
  then have "feed_all crc [] (chunks @ [c]) = (r', out @ ms')"
    using ih(2) by (simp add: feed_all_def)
  with all z show ?case by simp
qed

section \<open>The writer\<close>

lemma writev_loop_sent:
  "writev_loop rs bs sent = Some (ok, out) \<Longrightarrow>
   \<exists>k. out = sent @ take k bs \<and> (ok \<longrightarrow> out = sent @ bs)"
proof (induction rs bs sent rule: writev_loop.induct)
  case (5 n rs b bs sent)
  show ?case
  proof (cases "n = 0")
    case False
    with 5 obtain k where "out = (sent @ take n (b # bs)) @ take k (drop n (b # bs))"
      "ok \<longrightarrow> out = (sent @ take n (b # bs)) @ drop n (b # bs)" by auto
    then show ?thesis by (intro exI [of _ "n + k"]) (simp add: take_add)
  qed (use 5 in \<open>auto intro: exI [of _ 0]\<close>)
qed (auto intro: exI [of _ 0])

lemma writev_loop_returns:
  "length bs \<le> length (filter (\<lambda>r. r \<noteq> Interrupted) rs) \<Longrightarrow> writev_loop rs bs sent \<noteq> None"
proof (induction rs bs sent rule: writev_loop.induct)
  case (5 n rs b bs sent)
  then show ?case by (cases "n = 0") auto
qed auto

lemma scan_all_payload_bound:
  "scan_all crc buf = (ms, r, z) \<Longrightarrow> list_all (\<lambda>m. length (bm_payload m) \<le> unat MAX_BULK_FRAME_PAYLOAD) ms"
proof (induction crc buf arbitrary: ms rule: scan_all.induct)
  case (1 crc buf)
  show ?case
  proof (cases "scan crc buf")
    case (Complete m rest)
    then have "length (bm_payload m) \<le> unat MAX_BULK_FRAME_PAYLOAD"
      by (auto simp: scan_def Let_def bulk_message_of_def not_less word_le_nat_alt
          split: option.splits if_splits)
    moreover obtain ms' where "scan_all crc rest = (ms', r, z)" "ms = m # ms'"
      using 1(2) Complete by (subst (asm) scan_all.simps) (auto split: prod.splits)
    ultimately show ?thesis using 1(1) [OF Complete] by simp
  qed (use 1(2) in \<open>auto simp: scan_all.simps [of crc buf]\<close>)
qed

section \<open>Properties\<close>

text \<open>
  C11: the host reassembles exactly what the guest sent, however the byte stream is cut. When
  any sequence of messages with legitimate payloads is framed and the concatenated bytes reach
  the assembler in chunks of any sizes, the assembler emits precisely those messages, in order,
  each with a matching checksum, and ends with an empty buffer.
\<close>

theorem bulk_stream_reassembly:
  assumes "list_all legitimate ms" and "concat chunks = encode_all crc ms"
  shows "feed_all crc [] chunks = ([], map sent_message ms)"
proof -
  from assms(2) have "encode_all crc ms = concat chunks @ []" by simp
  from feed_all_stream [OF assms(1) this] stream_prefix [OF assms(1) this] show ?thesis by auto
qed

theorem bulk_stream_reassembly_witness:
  "feed_all (\<lambda>bs. of_nat (length bs)) []
     [take 3 (encode_all (\<lambda>bs. of_nat (length bs)) [(1, [5, 6]), (2, [])]), [],
      drop 3 (encode_all (\<lambda>bs. of_nat (length bs)) [(1, [5, 6]), (2, [])])]
   = ([], [\<lparr>bm_type = 1, bm_payload = [5, 6], bm_crc_ok = True\<rparr>,
           \<lparr>bm_type = 2, bm_payload = [], bm_crc_ok = True\<rparr>])"
proof -
  have "list_all legitimate [(1, [5, 6]), (2, [])]" by (simp add: legitimate_def unat_MAX)
  from bulk_stream_reassembly [OF this, of
      "[take 3 (encode_all (\<lambda>bs. of_nat (length bs)) [(1, [5, 6]), (2, [])]), [],
        drop 3 (encode_all (\<lambda>bs. of_nat (length bs)) [(1, [5, 6]), (2, [])])]"
      "\<lambda>bs. of_nat (length bs)"]
  show ?thesis by (simp add: sent_message_def)
qed

text \<open>
  C36: whatever bytes a hostile guest sends, the assembler retains at most twice the frame cap
  after every feed and never emits a payload above the cap.
\<close>

theorem assembler_bounded:
  "length (fst (feed crc asm bs)) \<le> 2 * unat MAX_BULK_FRAME_PAYLOAD
   \<and> list_all (\<lambda>m. length (bm_payload m) \<le> unat MAX_BULK_FRAME_PAYLOAD) (snd (feed crc asm bs))"
  using scan_all_payload_bound [of crc "asm @ bs"]
  by (auto simp: feed_eq split: prod.splits)

text \<open>
  the one-shot parser and the streaming assembler agree. On every buffer, well-formed or
  not, the parser returns the messages a fresh assembler emits when it is fed that buffer,
  although the two test the frame cap and the completeness of a frame in opposite orders.
\<close>

theorem parser_agrees_with_assembler:
  "parse_tlv_stream crc buf = snd (feed crc [] buf)"
  by (simp add: parse_tlv_stream_eq feed_eq split: prod.splits)

text \<open>A complete frame above the cap makes the assembler drop its buffer.\<close>

lemma scan_oversized:
  assumes "\<not> legitimate (t, p)" and "encode_frame crc t p = Some frame"
  shows "scan crc frame = Oversized"
proof -
  let ?h = "\<lparr>sm_type = t, sm_length = of_nat (length p), sm_crc32 = crc p, sm_pad = 0\<rparr>"
  have f: "length p < 2 ^ 32" "frame = shm_message_bytes ?h @ p" using assms(2) by (auto simp: encode_frame_def split: if_splits)
  have len: "length (shm_message_bytes ?h) = FRAME_HEADER_SIZE" using hdr.length_enc by blast
  have u: "unat (of_nat (length p) :: u32) = length p" using f(1) by (intro unat_of_nat_no_overflow) simp
  then have "MAX_BULK_FRAME_PAYLOAD < of_nat (length p)" using assms(1) by (simp add: word_less_nat_alt legitimate_def)
  with len u hdr.dec_enc [of ?h] show ?thesis by (simp add: scan_def f(2) Let_def)
qed

text \<open>
  C37: what a successful write delivers. If the write of a payload reports success, over any pattern of partial and
  interrupted system calls, a fresh assembler fed the written bytes is left empty and emits exactly that
  message when the payload is at most 16 MiB, and nothing when it is larger: the writer only checks that the
  length fits 32 bits, so that such a message is lost although its write succeeded.
\<close>

theorem bulk_write_delivers:
  assumes "write_to_bulk_port crc rs t p = Some (True, out)"
  shows "feed crc [] out = ([], if length p \<le> 16 * 1024 * 1024 then [sent_message (t, p)] else [])"
proof -
  obtain E where E: "encode_frame crc t p = Some E" "writev_loop rs E [] = Some (True, out)"
    using assms by (auto simp: write_to_bulk_port_def split: option.splits)
  then have out: "out = E" using writev_loop_sent by fastforce
  have leg: "legitimate (t, p) \<longleftrightarrow> length p \<le> 16 * 1024 * 1024" by (simp add: legitimate_def unat_MAX)
  show ?thesis
  proof (cases "legitimate (t, p)")
    case True
    have "scan crc [] = Incomplete" by (simp add: scan_def shm_message_read_def FRAME_HEADER_SIZE_def)
    then have "scan_all crc out = ([sent_message (t, p)], [], False)"
      using scan_encoded [OF True, of crc "[]"] E(1) out by (simp add: scan_all.simps [of crc E] scan_all.simps [of crc "[]"])
    with True leg show ?thesis by (simp add: feed_eq)
  next
    case False
    then have "scan_all crc out = ([], out, True)" using scan_oversized [OF False E(1)] out by (simp add: scan_all.simps [of crc E])
    with False leg show ?thesis by (simp add: feed_eq)
  qed
qed

theorem bulk_write_delivers_witness:
  "\<exists>out. write_to_bulk_port (\<lambda>_. 9) [Wrote 5, Interrupted, Wrote 40] 3 [1, 2, 3] = Some (True, out)
    \<and> feed (\<lambda>_. 9) [] out = ([], [\<lparr>bm_type = 3, bm_payload = [1, 2, 3], bm_crc_ok = True\<rparr>])"
proof -
  obtain out where out: "write_to_bulk_port (\<lambda>_. 9) [Wrote 5, Interrupted, Wrote 40] 3 [1, 2, 3] = Some (True, out)"
    by (simp add: write_to_bulk_port_def encode_frame_def shm_message_bytes_def to_le_bytes_def
        le_bytes_numeral)
  from bulk_write_delivers [OF this] out show ?thesis by (simp add: sent_message_def)
qed

text \<open>
  the write loop ends: once as many calls as there are bytes have returned without being
  interrupted, it has returned, and what reached the port is a prefix of the frame, the whole
  frame when it reports success.
\<close>

theorem bulk_write_terminates:
  assumes "length bs \<le> length (filter (\<lambda>r. r \<noteq> Interrupted) rs)"
  shows "\<exists>ok k. writev_loop rs bs [] = Some (ok, take k bs) \<and> (ok \<longrightarrow> take k bs = bs)"
  using writev_loop_returns [OF assms, of "[]"] writev_loop_sent [of rs bs "[]"] by fastforce

theorem bulk_write_terminates_witness:
  "writev_loop [Wrote 1, Interrupted, WriteFailed] [4, 5] [] = Some (False, [4])
   \<and> (\<exists>ok k. writev_loop [Wrote 1, Interrupted, WriteFailed] [4, 5] [] = Some (ok, take k [4, 5])
        \<and> (ok \<longrightarrow> take k [4, 5] = [4 :: u8, 5]))"
  using bulk_write_terminates [of "[4, 5]" "[Wrote 1, Interrupted, WriteFailed]"] by simp

end
