(* ===== verification/Bulk_Dispatch.thy ===== *)
theory Bulk_Dispatch
  imports Bulk_Stream
begin

text \<open>
  What the freeze coordinator does with the messages of the bulk stream: the dispatcher of
  \<^verbatim>\<open>src/vmm/freeze_coord/dispatch.rs\<close>, the snapshot request decoder and reply framing of
  \<^verbatim>\<open>src/vmm/freeze_coord/snapshot.rs\<close>, and the filter that \<^verbatim>\<open>collect_results\<close> applies to what is left at the end of a run
  (\<^verbatim>\<open>src/vmm/freeze_coord/mod.rs\<close>).

  The atomics and event descriptors behind \<^verbatim>\<open>BulkDispatchSinks\<close> are a record; writes to an event descriptor are
  counted. The time since the start of the run, in nanoseconds, is an argument; the two \<^verbatim>\<open>run_start\<close> instants of the
  source are the same at its only call. The checksum and the conversion of a tag to a string
  (\<^verbatim>\<open>String::from_utf8_lossy\<close>) are arguments.
\<close>

section \<open>Snapshot requests and replies\<close>

definition SNAPSHOT_KIND_NONE :: u32 where "SNAPSHOT_KIND_NONE = 0"

record 's snapshot_order =
  so_request_id :: u32
  so_kind :: u32
  so_tag :: 's

primrec zero_position :: "bytes \<Rightarrow> nat option" where
  "zero_position [] = None"
| "zero_position (b # bs) = (if b = 0 then Some 0 else map_option Suc (zero_position bs))"

definition decode_snapshot_request :: "(bytes \<Rightarrow> 's) \<Rightarrow> bytes \<Rightarrow> 's snapshot_order option" where
  "decode_snapshot_request lossy payload =
     (if length payload \<noteq> 8 + SNAPSHOT_TAG_MAX then None
      else case snapshot_request_read payload of
        None \<Rightarrow> None
      | Some req \<Rightarrow>
          if rq_request_id req = 0 \<or> rq_kind req = SNAPSHOT_KIND_NONE then None
          else
            let len = (case zero_position (rq_tag req) of Some i \<Rightarrow> i | None \<Rightarrow> SNAPSHOT_TAG_MAX) in
            Some \<lparr>so_request_id = rq_request_id req, so_kind = rq_kind req, so_tag = lossy (take len (rq_tag req))\<rparr>)"

definition frame_snapshot_reply :: "(bytes \<Rightarrow> u32) \<Rightarrow> u32 \<Rightarrow> u32 \<Rightarrow> bytes \<Rightarrow> bytes" where
  "frame_snapshot_reply crc request_id status reason_bytes =
     (let reason_len = min (length reason_bytes) SNAPSHOT_REASON_MAX;
          reason_buf = overwrite 0 (take reason_len reason_bytes) (replicate SNAPSHOT_REASON_MAX 0);
          payload_bytes = snapshot_reply_bytes
            \<lparr>rp_request_id = request_id, rp_status = status, rp_reason = reason_buf\<rparr>
      in shm_message_bytes \<lparr>sm_type = msg_type_wire SnapshotReply, sm_length = of_nat (length payload_bytes),
           sm_crc32 = crc payload_bytes, sm_pad = 0\<rparr> @ payload_bytes)"

section \<open>The dispatcher\<close>

definition MSG_TYPE_KERN_ADDRS :: u32 where "MSG_TYPE_KERN_ADDRS = 0x4b414452"

text \<open>
  \<open>sys_rdy_armed\<close> says whether the descriptor is still there to be taken; \<open>watchdog_reset\<close> is the deadline
  with the workload duration.
\<close>

record 's sinks =
  kill :: bool
  kill_evts :: nat
  sys_rdy_armed :: bool
  sys_rdy_evts :: nat
  snapshot_requests_pending :: "'s snapshot_order list"
  kern_phys_base :: u64
  kern_phys_base_evts :: nat
  watchdog_reset :: "(u64 \<times> nat) option"
  watchdog_pause_ns :: u64
  scenario_start_ns :: u64
  scenario_pause_cumulative_ns :: u64

definition u128_saturating_add :: "nat \<Rightarrow> nat \<Rightarrow> nat" where
  "u128_saturating_add a b = min (a + b) (2 ^ 128 - 1)"

text \<open>\<^verbatim>\<open>u64::try_from(x).unwrap_or(u64::MAX)\<close>.\<close>

definition u64_clamp :: "nat \<Rightarrow> u64" where
  "u64_clamp x = (if x < 2 ^ 64 then of_nat x else - 1)"

text \<open>What an intact message of a kind does to the sinks.\<close>

definition kern_addrs_effect :: "bytes \<Rightarrow> 's sinks \<Rightarrow> 's sinks" where
  "kern_addrs_effect payload s =
     (if 8 \<le> length payload then
        let biased = from_le_bytes (take 8 payload) in
        if biased \<noteq> 0
        then s\<lparr>kern_phys_base := biased, kern_phys_base_evts := kern_phys_base_evts s + 1\<rparr> else s
      else s)"

definition scenario_start_effect :: "nat \<Rightarrow> 's sinks \<Rightarrow> 's sinks" where
  "scenario_start_effect elapsed s =
     (let elapsed_ns = max (u64_clamp elapsed) 1;
          s = (if scenario_start_ns s = 0 then s\<lparr>scenario_start_ns := elapsed_ns\<rparr> else s)
      in case watchdog_reset s of
           Some (reset_ns, duration) \<Rightarrow>
             s\<lparr>watchdog_reset := Some (max (u64_clamp (u128_saturating_add elapsed duration)) 1, duration)\<rparr>
         | None \<Rightarrow> s)"

definition scenario_pause_effect :: "nat \<Rightarrow> 's sinks \<Rightarrow> 's sinks" where
  "scenario_pause_effect elapsed s =
     s\<lparr>watchdog_pause_ns := max (u64_clamp (if watchdog_reset s = None then 0 else elapsed)) 1\<rparr>"

definition scenario_resume_effect :: "nat \<Rightarrow> 's sinks \<Rightarrow> 's sinks" where
  "scenario_resume_effect elapsed s =
     (case watchdog_reset s of
        Some (reset_ns, duration) \<Rightarrow>
          let paused_at = watchdog_pause_ns s;
              s = s\<lparr>watchdog_pause_ns := 0\<rparr>
          in if 0 < paused_at then
               let pause_duration = elapsed - unat paused_at in
               s\<lparr>watchdog_reset :=
                   Some (max (u64_clamp (u128_saturating_add (unat reset_ns) pause_duration)) 1, duration),
                 scenario_pause_cumulative_ns :=
                   u64_clamp (u128_saturating_add (unat (scenario_pause_cumulative_ns s)) pause_duration)\<rparr>
             else s
      | None \<Rightarrow> s)"

definition scenario_end_effect :: "nat \<Rightarrow> 's sinks \<Rightarrow> 's sinks" where
  "scenario_end_effect elapsed s =
     (case watchdog_reset s of
        Some (reset_ns, duration) \<Rightarrow>
          s\<lparr>watchdog_reset := Some (max (u64_clamp (u128_saturating_add elapsed duration)) 1, duration)\<rparr>
      | None \<Rightarrow> s)"

definition dispatch_bulk_message ::
  "(bytes \<Rightarrow> 's) \<Rightarrow> nat \<Rightarrow> bulk_message \<Rightarrow> 's sinks \<Rightarrow> bulk_message option \<times> 's sinks" where
  "dispatch_bulk_message lossy elapsed msg s =
     (let kind = msg_type_from_wire (bm_type msg) in
      if kind = Some SchedExit then
        (if bm_crc_ok msg then Some msg else None,
         if bm_crc_ok msg then s\<lparr>kill := True, kill_evts := kill_evts s + 1\<rparr> else s)
      else if kind = Some SysRdy then
        (None,
         if bm_crc_ok msg \<and> bm_payload msg = [] \<and> sys_rdy_armed s
         then s\<lparr>sys_rdy_armed := False, sys_rdy_evts := sys_rdy_evts s + 1\<rparr> else s)
      else if bm_type msg = MSG_TYPE_KERN_ADDRS then
        (None, if bm_crc_ok msg then kern_addrs_effect (bm_payload msg) s else s)
      else if kind = Some SnapshotRequest then
        (None,
         if bm_crc_ok msg then
           (case decode_snapshot_request lossy (bm_payload msg) of
              Some req \<Rightarrow> s\<lparr>snapshot_requests_pending := snapshot_requests_pending s @ [req]\<rparr>
            | None \<Rightarrow> s)
         else s)
      else if kind = Some ScenarioStart then
        (Some msg, if bm_crc_ok msg then scenario_start_effect elapsed s else s)
      else if kind = Some ScenarioPause then
        (Some msg, if bm_crc_ok msg then scenario_pause_effect elapsed s else s)
      else if kind = Some ScenarioResume then
        (Some msg, if bm_crc_ok msg then scenario_resume_effect elapsed s else s)
      else if kind = Some ScenarioEnd then
        (Some msg, if bm_crc_ok msg then scenario_end_effect elapsed s else s)
      else (case kind of
              Some other \<Rightarrow> (if \<not> is_coordinator_internal other then Some msg else None, s)
            | None \<Rightarrow> (None, s)))"

text \<open>The loop over the messages of one wake-up; \<open>clock i\<close> is the time of message \<open>i\<close>.\<close>

primrec dispatch_all ::
  "(bytes \<Rightarrow> 's) \<Rightarrow> (nat \<Rightarrow> nat) \<Rightarrow> bulk_message list \<Rightarrow> 's sinks \<Rightarrow> bulk_message list \<times> 's sinks" where
  "dispatch_all lossy clock [] s = ([], s)"
| "dispatch_all lossy clock (msg # msgs) s =
     (let (entry, s) = dispatch_bulk_message lossy (clock 0) msg s;
          (bucket, s) = dispatch_all lossy (\<lambda>i. clock (Suc i)) msgs s
      in (case entry of Some e \<Rightarrow> e # bucket | None \<Rightarrow> bucket, s))"

section \<open>The end of the run\<close>

text \<open>What \<^verbatim>\<open>collect_results\<close> retains of the messages it parses itself.\<close>

definition collect_retains :: "bulk_message \<Rightarrow> bool" where
  "collect_retains e = (case msg_type_from_wire (bm_type e) of Some t \<Rightarrow> \<not> is_coordinator_internal t | None \<Rightarrow> True)"

definition collect_bulk_entries :: "(bytes \<Rightarrow> u32) \<Rightarrow> bytes \<Rightarrow> bulk_message list \<Rightarrow> bulk_message list" where
  "collect_bulk_entries crc bulk_bytes mid_run_bulk =
     (let entries = filter collect_retains (parse_tlv_stream crc bulk_bytes) in mid_run_bulk @ entries)"

section \<open>Specification functions\<close>

text \<open>The messages that reach the verdict when they are dispatched during the run.\<close>

definition verdict_bearing :: "bulk_message \<Rightarrow> bool" where
  "verdict_bearing msg \<longleftrightarrow>
     (case msg_type_from_wire (bm_type msg) of
        None \<Rightarrow> False
      | Some t \<Rightarrow> \<not> is_coordinator_internal t \<and> \<not> (t = SchedExit \<and> \<not> bm_crc_ok msg))"

definition intact :: "msg_type \<Rightarrow> bulk_message \<Rightarrow> bool" where
  "intact t msg \<longleftrightarrow> bm_type msg = msg_type_wire t \<and> bm_crc_ok msg"

definition snapshot_orders :: "(bytes \<Rightarrow> 's) \<Rightarrow> bulk_message list \<Rightarrow> 's snapshot_order list" where
  "snapshot_orders lossy msgs =
     List.map_filter (\<lambda>m. decode_snapshot_request lossy (bm_payload m)) (filter (intact SnapshotRequest) msgs)"

text \<open>
  The time a stream of messages spends paused, counted from the pause that is open at its start: a pause opens at
  the time of an intact \<^verbatim>\<open>ScenarioPause\<close>, replacing an open one, and ends at the next intact \<^verbatim>\<open>ScenarioResume\<close>.
\<close>

primrec paused_time :: "nat option \<Rightarrow> (nat \<times> bulk_message) list \<Rightarrow> nat" where
  "paused_time p [] = 0"
| "paused_time p (tm # ms) =
     (if intact ScenarioPause (snd tm) then paused_time (Some (fst tm)) ms
      else if intact ScenarioResume (snd tm)
      then (case p of Some t \<Rightarrow> fst tm - t | None \<Rightarrow> 0) + paused_time None ms
      else paused_time p ms)"

section \<open>Specification functions and sample values\<close>

definition idle_sinks :: "bytes sinks" where
  "idle_sinks = \<lparr>kill = False, kill_evts = 0, sys_rdy_armed = True, sys_rdy_evts = 0, snapshot_requests_pending = [],
     kern_phys_base = 0, kern_phys_base_evts = 0, watchdog_reset = Some (1000, 600), watchdog_pause_ns = 0,
     scenario_start_ns = 0, scenario_pause_cumulative_ns = 0\<rparr>"

lemmas effect_defs = kern_addrs_effect_def scenario_start_effect_def scenario_pause_effect_def
  scenario_resume_effect_def scenario_end_effect_def

section \<open>One message\<close>

lemma kern_addrs_unknown: "msg_type_from_wire MSG_TYPE_KERN_ADDRS = None"
  by (simp add: msg_type_from_wire_def MSG_TYPE_KERN_ADDRS_def)

lemma kind_eq: "msg_type_from_wire v = Some t \<longleftrightarrow> v = msg_type_wire t"
  by (rule msg.from_wire_Some_iff)

lemma dispatch_entry:
  "fst (dispatch_bulk_message lossy elapsed msg s) = (if verdict_bearing msg then Some msg else None)"
proof (cases "msg_type_from_wire (bm_type msg)")
  case None
  then show ?thesis by (simp add: dispatch_bulk_message_def verdict_bearing_def Let_def)
next
  case (Some t)
  then have "bm_type msg \<noteq> MSG_TYPE_KERN_ADDRS" using kern_addrs_unknown by auto
  with Some show ?thesis
    by (cases t) (simp_all add: dispatch_bulk_message_def verdict_bearing_def Let_def is_coordinator_internal_def)
qed

lemma dispatch_effects:
  fixes lossy :: "bytes \<Rightarrow> 's" and elapsed msg s
  defines "s' \<equiv> snd (dispatch_bulk_message lossy elapsed msg s)"
  shows "kill s' = (kill s \<or> intact SchedExit msg)"
    and "kill_evts s' = kill_evts s + of_bool (intact SchedExit msg)"
    and "sys_rdy_evts s' = sys_rdy_evts s + of_bool (sys_rdy_armed s \<and> intact SysRdy msg \<and> bm_payload msg = [])"
    and "sys_rdy_armed s' = (sys_rdy_armed s \<and> \<not> (intact SysRdy msg \<and> bm_payload msg = []))"
    and "snapshot_requests_pending s' = snapshot_requests_pending s @ snapshot_orders lossy [msg]"
  unfolding s'_def dispatch_bulk_message_def effect_defs Let_def kind_eq intact_def snapshot_orders_def
  by (auto simp: map_filter_def MSG_TYPE_KERN_ADDRS_def split: option.split prod.split)

section \<open>Streams of messages\<close>

lemma dispatch_all_entries: "fst (dispatch_all lossy clock msgs s) = filter verdict_bearing msgs"
  by (induction msgs arbitrary: clock s) (simp_all add: dispatch_entry case_prod_beta Let_def)

lemma snapshot_orders_Cons: "snapshot_orders lossy (m # ms) = snapshot_orders lossy [m] @ snapshot_orders lossy ms"
  by (simp add: snapshot_orders_def map_filter_def)

lemma dispatch_all_effects:
  "kill (snd (dispatch_all lossy clock msgs s)) = (kill s \<or> list_ex (intact SchedExit) msgs)"
  "kill_evts (snd (dispatch_all lossy clock msgs s)) = kill_evts s + length (filter (intact SchedExit) msgs)"
  "sys_rdy_evts (snd (dispatch_all lossy clock msgs s)) = sys_rdy_evts s
     + of_bool (sys_rdy_armed s \<and> list_ex (\<lambda>m. intact SysRdy m \<and> bm_payload m = []) msgs)"
  "snapshot_requests_pending (snd (dispatch_all lossy clock msgs s))
     = snapshot_requests_pending s @ snapshot_orders lossy msgs"
  by (induction msgs arbitrary: clock s)
    (simp_all add: case_prod_beta Let_def dispatch_effects snapshot_orders_Cons [of lossy _ "_ # _"],
     simp_all add: snapshot_orders_def map_filter_def)

section \<open>Pauses\<close>

lemma u64_clamp_max: "0 < n \<Longrightarrow> n < 2 ^ 64 \<Longrightarrow> max (u64_clamp n) 1 = of_nat n"
proof -
  assume "0 < n" "n < 2 ^ 64"
  then have "(1 :: u64) \<le> of_nat n" by (simp add: word_le_nat_alt unat_of_nat_no_overflow)
  with \<open>n < 2 ^ 64\<close> show ?thesis by (simp add: u64_clamp_def max_def)
qed

lemma sat_add_small: "a + b < 2 ^ 64 \<Longrightarrow> u128_saturating_add a b = a + b"
  by (simp add: u128_saturating_add_def)

lemma dispatch_other:
  assumes "\<not> intact ScenarioStart msg" and "\<not> intact ScenarioEnd msg" and "\<not> intact ScenarioPause msg"
    and "\<not> intact ScenarioResume msg"
  shows "watchdog_reset (snd (dispatch_bulk_message lossy t msg s)) = watchdog_reset s"
    and "watchdog_pause_ns (snd (dispatch_bulk_message lossy t msg s)) = watchdog_pause_ns s"
    and "scenario_pause_cumulative_ns (snd (dispatch_bulk_message lossy t msg s)) = scenario_pause_cumulative_ns s"
  using assms unfolding dispatch_bulk_message_def kern_addrs_effect_def Let_def kind_eq intact_def
  by (auto split: option.split)

lemma dispatch_pause:
  assumes "intact ScenarioPause msg" and "watchdog_reset s = Some rd" and "0 < t" and "t < 2 ^ 64"
  shows "snd (dispatch_bulk_message lossy t msg s) = s\<lparr>watchdog_pause_ns := of_nat t\<rparr>"
  using assms
  by (simp add: intact_def dispatch_bulk_message_def effect_defs kind_eq MSG_TYPE_KERN_ADDRS_def u64_clamp_max)

lemma dispatch_resume_unpaused:
  assumes "intact ScenarioResume msg" and "watchdog_reset s = Some (r, dur)" and "watchdog_pause_ns s = 0"
  shows "snd (dispatch_bulk_message lossy t msg s) = s"
  using assms by (simp add: intact_def dispatch_bulk_message_def effect_defs kind_eq MSG_TYPE_KERN_ADDRS_def Let_def)

lemma dispatch_resume:
  assumes "intact ScenarioResume msg" and "watchdog_reset s = Some (r, dur)"
    and "0 < a" and "a < 2 ^ 64" and "watchdog_pause_ns s = of_nat a" and "0 < unat r" and "unat r + (t - a) < 2 ^ 64"
    and "unat (scenario_pause_cumulative_ns s) + (t - a) < 2 ^ 64"
  shows "snd (dispatch_bulk_message lossy t msg s) = s\<lparr>watchdog_pause_ns := 0,
        watchdog_reset := Some (of_nat (unat r + (t - a)), dur),
        scenario_pause_cumulative_ns := of_nat (unat (scenario_pause_cumulative_ns s) + (t - a))\<rparr>"
proof -
  have a: "unat (of_nat a :: u64) = a" using assms(4) by (simp add: unat_of_nat_no_overflow)
  with assms(3) have pos: "(0 :: u64) < of_nat a" by (simp add: word_less_nat_alt)
  show ?thesis
    using assms(1,2,5) pos u64_clamp_max [of "unat r + (t - a)"] assms(6-8)
    by (simp add: intact_def dispatch_bulk_message_def effect_defs kind_eq MSG_TYPE_KERN_ADDRS_def Let_def a sat_add_small
        u64_clamp_def)
qed

lemma pauses_credited:
  assumes "watchdog_reset s = Some (r, dur)" and "watchdog_pause_ns s = (case p of Some a \<Rightarrow> of_nat a | None \<Rightarrow> 0)"
    and "\<And>a. p = Some a \<Longrightarrow> 0 < a \<and> a < 2 ^ 64"
    and "list_all (\<lambda>(t, m). 0 < t \<and> t < 2 ^ 64 \<and> \<not> intact ScenarioStart m \<and> \<not> intact ScenarioEnd m) ms"
    and "0 < unat r" and "unat r + paused_time p ms < 2 ^ 64"
    and "unat (scenario_pause_cumulative_ns s) + paused_time p ms < 2 ^ 64"
  shows "watchdog_reset (snd (dispatch_all lossy (\<lambda>i. fst (ms ! i)) (map snd ms) s))
      = Some (of_nat (unat r + paused_time p ms), dur)
    \<and> scenario_pause_cumulative_ns (snd (dispatch_all lossy (\<lambda>i. fst (ms ! i)) (map snd ms) s))
      = of_nat (unat (scenario_pause_cumulative_ns s) + paused_time p ms)"
  using assms
proof (induction ms arbitrary: s r p)
  case (Cons tm ms)
  obtain t m where tm: "tm = (t, m)" by (cases tm)
  let ?s = "snd (dispatch_bulk_message lossy t m s)"
  have all: "list_all (\<lambda>(t, m). 0 < t \<and> t < 2 ^ 64 \<and> \<not> intact ScenarioStart m \<and> \<not> intact ScenarioEnd m) ms"
    and t: "0 < t" "t < 2 ^ 64" "\<not> intact ScenarioStart m" "\<not> intact ScenarioEnd m" using Cons.prems(4) tm by auto
  have step: "snd (dispatch_all lossy (\<lambda>i. fst ((tm # ms) ! i)) (map snd (tm # ms)) s)
    = snd (dispatch_all lossy (\<lambda>i. fst (ms ! i)) (map snd ms) ?s)"
    by (simp add: case_prod_beta Let_def tm)
  consider (pause) "intact ScenarioPause m" | (resume) "\<not> intact ScenarioPause m" "intact ScenarioResume m"
    | (other) "\<not> intact ScenarioPause m" "\<not> intact ScenarioResume m" by blast
  then show ?case
  proof cases
    case pause
    note s = dispatch_pause [OF pause Cons.prems(1) t(1,2), of lossy]
    show ?thesis unfolding step
      using Cons.IH [of ?s r "Some t"] Cons.prems t all pause by (simp add: s tm)
  next
    case resume
    show ?thesis
    proof (cases p)
      case None
      have "?s = s" using dispatch_resume_unpaused [OF resume(2) Cons.prems(1)] Cons.prems(2) None by simp
      then show ?thesis unfolding step using Cons.IH [of s r None] Cons.prems all resume None by (simp add: tm)
    next
      case (Some a)
      let ?r = "of_nat (unat r + (t - a)) :: u64"
      have tot: "paused_time p (tm # ms) = (t - a) + paused_time None ms" using resume Some by (simp add: tm)
      have a: "0 < a" "a < 2 ^ 64" using Cons.prems(3) [OF Some] by auto
      have s: "?s = s\<lparr>watchdog_pause_ns := 0, watchdog_reset := Some (?r, dur),
          scenario_pause_cumulative_ns := of_nat (unat (scenario_pause_cumulative_ns s) + (t - a))\<rparr>"
        using Cons.prems tot Some by (intro dispatch_resume [OF resume(2) Cons.prems(1) a]) simp_all
      have r: "unat ?r = unat r + (t - a)"
        using Cons.prems(6) tot by (intro unat_of_nat_no_overflow) simp
      have c: "unat (of_nat (unat (scenario_pause_cumulative_ns s) + (t - a)) :: u64)
          = unat (scenario_pause_cumulative_ns s) + (t - a)"
        using Cons.prems(7) tot by (intro unat_of_nat_no_overflow) simp
      show ?thesis unfolding step
        using Cons.IH [of ?s ?r None] Cons.prems(5-7) all tot r c by (simp add: s add.assoc)
    qed
  next
    case other
    note o = dispatch_other [OF t(3,4) other, of lossy t s]
    show ?thesis unfolding step using Cons.IH [of ?s r p] Cons.prems all other by (simp add: o tm)
  qed
qed simp

section \<open>Properties\<close>

text \<open>
  C10: only intact frames of the right kind move the coordinator. Over any stream of messages, torn and unknown ones
  included, the kill flag is set exactly when an intact SCHED_EXIT occurs and its event fires once for each; the
  system-ready event fires at most once, exactly when it was still armed and an intact empty SYS_RDY occurs; the snapshot
  requests queued are exactly the valid decodings of the intact requests, in order; and the entries that reach the
  verdict are exactly the verdict-bearing messages, in order.
\<close>

theorem dispatch_gates:
  "fst (dispatch_all lossy clock msgs s) = filter verdict_bearing msgs
   \<and> (kill (snd (dispatch_all lossy clock msgs s)) \<longleftrightarrow> kill s \<or> list_ex (intact SchedExit) msgs)
   \<and> kill_evts (snd (dispatch_all lossy clock msgs s)) = kill_evts s + length (filter (intact SchedExit) msgs)
   \<and> sys_rdy_evts (snd (dispatch_all lossy clock msgs s)) = sys_rdy_evts s
       + of_bool (sys_rdy_armed s \<and> list_ex (\<lambda>m. intact SysRdy m \<and> bm_payload m = []) msgs)
   \<and> snapshot_requests_pending (snd (dispatch_all lossy clock msgs s))
       = snapshot_requests_pending s @ snapshot_orders lossy msgs"
  by (simp add: dispatch_all_entries dispatch_all_effects)

text \<open>
  C12: time spent paused never counts against the workload. For a stream of messages that starts unpaused and holds no
  intact SCENARIO_START or SCENARIO_END, with anything else between the pauses and resumes, the watchdog deadline moves
  by exactly the total time between each pause and the resume that ends it, and the cumulative pause time grows
  by the same amount, as long as neither leaves the range of 64 bits.
\<close>

theorem watchdog_pauses_credited:
  assumes "watchdog_reset s = Some (r, dur)" and "0 < unat r" and "watchdog_pause_ns s = 0"
    and "list_all (\<lambda>(t, m). 0 < t \<and> t < 2 ^ 64 \<and> \<not> intact ScenarioStart m \<and> \<not> intact ScenarioEnd m) ms"
    and "unat r + paused_time None ms < 2 ^ 64"
    and "unat (scenario_pause_cumulative_ns s) + paused_time None ms < 2 ^ 64"
  shows "watchdog_reset (snd (dispatch_all lossy (\<lambda>i. fst (ms ! i)) (map snd ms) s))
      = Some (of_nat (unat r + paused_time None ms), dur)
    \<and> scenario_pause_cumulative_ns (snd (dispatch_all lossy (\<lambda>i. fst (ms ! i)) (map snd ms) s))
      = of_nat (unat (scenario_pause_cumulative_ns s) + paused_time None ms)"
  using assms by (intro pauses_credited) simp_all

theorem watchdog_pauses_credited_witness:
  "watchdog_reset (snd (dispatch_all id (\<lambda>i. fst ([
       (100, \<lparr>bm_type = msg_type_wire ScenarioPause, bm_payload = [], bm_crc_ok = True\<rparr>),
       (130, \<lparr>bm_type = msg_type_wire ScenarioResume, bm_payload = [], bm_crc_ok = False\<rparr>),
       (150, \<lparr>bm_type = msg_type_wire ScenarioResume, bm_payload = [], bm_crc_ok = True\<rparr>)] ! i)) (map snd [
       (100 :: nat, \<lparr>bm_type = msg_type_wire ScenarioPause, bm_payload = [], bm_crc_ok = True\<rparr>),
       (130, \<lparr>bm_type = msg_type_wire ScenarioResume, bm_payload = [], bm_crc_ok = False\<rparr>),
       (150, \<lparr>bm_type = msg_type_wire ScenarioResume, bm_payload = [], bm_crc_ok = True\<rparr>)]) idle_sinks))
   = Some (1050, 600)"
proof -
  let ?ms = "[(100 :: nat, \<lparr>bm_type = msg_type_wire ScenarioPause, bm_payload = [], bm_crc_ok = True\<rparr>),
    (130, \<lparr>bm_type = msg_type_wire ScenarioResume, bm_payload = [], bm_crc_ok = False\<rparr>),
    (150, \<lparr>bm_type = msg_type_wire ScenarioResume, bm_payload = [], bm_crc_ok = True\<rparr>)]"
  have total: "paused_time None ?ms = 50" by (simp add: intact_def)
  have "watchdog_reset (snd (dispatch_all id (\<lambda>i. fst (?ms ! i)) (map snd ?ms) idle_sinks))
    = Some (of_nat (unat (1000 :: u64) + paused_time None ?ms), 600)"
    by (rule watchdog_pauses_credited [THEN conjunct1])
      (simp_all add: idle_sinks_def intact_def)
  also have "\<dots> = Some (1050, 600)" unfolding total by simp
  finally show ?thesis .
qed

text \<open>
  C28: what reaches the verdict depends on when a frame is drained. The dispatcher during the run keeps a message exactly
  when the filter at the end of the run retains it, its type is known, and it is not a torn SCHED_EXIT. So the
  messages that are dropped when the coordinator dispatches them, and enter the verdict when they are still in the device at
  the end, are exactly the frames of unknown type, KERN_ADDRS among them, and the torn SCHED_EXIT frames.
\<close>

theorem late_filter_keeps_more:
  "fst (dispatch_bulk_message lossy elapsed msg s) =
     (if collect_retains msg \<and> msg_type_from_wire (bm_type msg) \<noteq> None
         \<and> \<not> (bm_type msg = msg_type_wire SchedExit \<and> \<not> bm_crc_ok msg) then Some msg else None)
   \<and> (collect_retains msg \<and> fst (dispatch_bulk_message lossy elapsed msg s) = None
      \<longleftrightarrow> msg_type_from_wire (bm_type msg) = None \<or> bm_type msg = msg_type_wire SchedExit \<and> \<not> bm_crc_ok msg)
   \<and> msg_type_from_wire MSG_TYPE_KERN_ADDRS = None"
proof -
  have v: "verdict_bearing msg \<longleftrightarrow> collect_retains msg \<and> msg_type_from_wire (bm_type msg) \<noteq> None
      \<and> \<not> (bm_type msg = msg_type_wire SchedExit \<and> \<not> bm_crc_ok msg)"
    by (cases "msg_type_from_wire (bm_type msg)")
      (simp_all add: verdict_bearing_def collect_retains_def kind_eq [symmetric] del: msg_type_wire.simps)
  moreover have "collect_retains msg" if "msg_type_from_wire (bm_type msg) = None" using that by (simp add: collect_retains_def)
  moreover have "collect_retains msg" if "bm_type msg = msg_type_wire SchedExit"
  proof -
    from that have "msg_type_from_wire (bm_type msg) = Some SchedExit" by (simp only: kind_eq)
    then show ?thesis by (simp add: collect_retains_def is_coordinator_internal_def)
  qed
  moreover have "fst (dispatch_bulk_message lossy elapsed msg s) = (if verdict_bearing msg then Some msg else None)"
    by (simp add: dispatch_entry)
  ultimately show ?thesis using kern_addrs_unknown by (simp del: msg_type_wire.simps) blast
qed

end
