(* ===== verification/Console_Bulk.thy ===== *)
theory Console_Bulk
  imports Virtio_Console Bulk_Dispatch
begin

text \<open>
  The way of a message from the guest's bulk port to the results of a run: the console device, the coordinator that
  takes its bytes, assembles and dispatches the frames (the \<^verbatim>\<open>TOKEN_TX\<close> arm of \<^verbatim>\<open>src/vmm/freeze_coord/mod.rs\<close>), hands a partial
  frame back when it exits, and the collection of what is left. The steps of guest, device and
  coordinator interleave freely as an inductive relation; the lock of the source makes each of them atomic.
\<close>

section \<open>The coordinator\<close>

record ('m, 'q, 's) coord =
  co_dev :: "('m, 'q) vc_device"
  co_asm :: host_assembler
  co_sinks :: "'s sinks"
  co_bucket :: "bulk_message list"

definition on_tx_event ::
  "(bytes \<Rightarrow> u32) \<Rightarrow> (bytes \<Rightarrow> 's) \<Rightarrow> (nat \<Rightarrow> nat) \<Rightarrow> ('m, 'q, 's) coord \<Rightarrow> ('m, 'q, 's) coord" where
  "on_tx_event crc lossy clock c =
     (let (bs, d) = drain_bulk (co_dev c);
          (asm, drained) = feed crc (co_asm c) bs;
          (bucket, s) = dispatch_all lossy clock drained (co_sinks c)
      in \<lparr>co_dev = d, co_asm = asm, co_sinks = s,
          co_bucket = (if bucket \<noteq> [] then co_bucket c @ bucket else co_bucket c)\<rparr>)"

definition take_residual :: "host_assembler \<Rightarrow> bytes \<times> host_assembler" where
  "take_residual asm = (asm, [])"

definition coord_exit :: "('m, 'q, 's) coord \<Rightarrow> ('m, 'q, 's) coord" where
  "coord_exit c =
     (let (residual, asm) = take_residual (co_asm c)
      in c\<lparr>co_asm := asm, co_dev := (if residual \<noteq> [] then push_back_bulk residual (co_dev c) else co_dev c)\<rparr>)"

definition collect_bulk ::
  "nat \<Rightarrow> ('m, 'q) vc_api \<Rightarrow> (bytes \<Rightarrow> u32) \<Rightarrow> ('m, 'q, 's) coord \<Rightarrow> (bulk_message list) run" where
  "collect_bulk fuel api crc c =
     run_bind (final_drain fuel api (co_dev c)) (\<lambda>(bulk_bytes, d).
       Returns (collect_bulk_entries crc bulk_bytes (co_bucket c)))"

section \<open>Specification functions\<close>

text \<open>
  The bytes the guest puts into a chain, and into several: those of all its readable descriptors, in full. There
  are none when a descriptor lies outside of guest memory. A chain has short descriptors when none of them exceeds what
  the device reads of one descriptor.
\<close>

primrec guest_bytes :: "('m, 'q) vc_api \<Rightarrow> 'm \<Rightarrow> chain_descriptor list \<Rightarrow> bytes option" where
  "guest_bytes api m [] = Some []"
| "guest_bytes api m (desc # descs) =
     (if d_write_only desc then guest_bytes api m descs
      else Option.bind (vc_read_slice api m (d_addr desc) (unat (d_len desc))) (\<lambda>bs.
        map_option (\<lambda>rest. bs @ rest) (guest_bytes api m descs)))"

primrec sent_bytes :: "('m, 'q) vc_api \<Rightarrow> 'm \<Rightarrow> (u16 \<times> chain_descriptor list) list \<Rightarrow> bytes option" where
  "sent_bytes api m [] = Some []"
| "sent_bytes api m (c # cs) =
     Option.bind (guest_bytes api m (snd c)) (\<lambda>bs. map_option (\<lambda>rest. bs @ rest) (sent_bytes api m cs))"

definition short_descriptors :: "chain_descriptor list \<Rightarrow> bool" where
  "short_descriptors descs \<longleftrightarrow> list_all (\<lambda>d. d_write_only d \<or> unat (d_len d) \<le> VC_TX_DESC_MAX) descs"

text \<open>The bytes the device reads of a transmit chain, and of all chains waiting in a transmit queue.\<close>

primrec chain_bytes :: "('m, 'q) vc_api \<Rightarrow> 'm \<Rightarrow> chain_descriptor list \<Rightarrow> bytes" where
  "chain_bytes api m [] = []"
| "chain_bytes api m (desc # descs) =
     (if d_write_only desc then []
      else case vc_read_slice api m (d_addr desc) (min (unat (d_len desc)) VC_TX_DESC_MAX) of Some bs \<Rightarrow> bs | None \<Rightarrow> [])
     @ chain_bytes api m descs"

definition waiting ::
  "('m, 'q) vc_api \<Rightarrow> 'm \<Rightarrow> (u16 \<times> chain_descriptor list) list \<Rightarrow> bytes" where
  "waiting api m cs = concat (map (\<lambda>c. chain_bytes api m (snd c)) cs)"

text \<open>
  The laws of the queues. \<open>avail m q\<close> are the chains the guest made available on a queue and the device did not take yet;
  \<open>lay m qs\<close> says that the rings and buffers of the device's queues do not overlap. Taking a chain removes the
  first one, and publishing a used element disturbs neither the chains still available on any queue nor their buffers.
\<close>

definition queue_laws ::
  "('m, 'q) vc_api \<Rightarrow> ('m \<Rightarrow> 'q list \<Rightarrow> bool) \<Rightarrow> ('m \<Rightarrow> 'q \<Rightarrow> (u16 \<times> chain_descriptor list) list) \<Rightarrow> bool" where
  "queue_laws api lay avail \<longleftrightarrow>
     (\<forall>m qs i. lay m qs \<longrightarrow> i < length qs \<longrightarrow>
        (case avail m (qs ! i) of
           [] \<Rightarrow> \<exists>q'. vc_pop api m (qs ! i) = (None, q') \<and> avail m q' = [] \<and> lay m (qs[i := q'])
         | c # cs \<Rightarrow> \<exists>q'. vc_pop api m (qs ! i) = (Some c, q') \<and> avail m q' = cs \<and> lay m (qs[i := q']))) \<and>
     (\<forall>m qs i h n. lay m qs \<longrightarrow> i < length qs \<longrightarrow>
        (case vc_add_used api m (qs ! i) h n of (ok, m', q') \<Rightarrow>
           lay m' (qs[i := q'])
           \<and> (\<forall>j < length qs. avail m' (qs[i := q'] ! j) = avail m (qs ! j)
                \<and> (\<forall>c \<in> set (avail m (qs ! j)). chain_bytes api m' (snd c) = chain_bytes api m (snd c))))) \<and>
     (\<forall>m qs. lay m qs \<longrightarrow> lay m (map (q_reset api) qs) \<and> (\<forall>q \<in> set qs. avail m (q_reset api q) = [])) \<and>
     (\<forall>m a n bs. vc_read_slice api m a n = Some bs \<longrightarrow> length bs = n)"

section \<open>Specification functions and sample values\<close>

definition tx_loop_post ::
  "('m, 'q) vc_api \<Rightarrow> ('m \<Rightarrow> 'q list \<Rightarrow> bool) \<Rightarrow> ('m \<Rightarrow> 'q \<Rightarrow> (u16 \<times> chain_descriptor list) list) \<Rightarrow> 'm \<Rightarrow> 'q list \<Rightarrow> nat
    \<Rightarrow> bytes \<Rightarrow> nat \<Rightarrow> 'm \<times> 'q \<times> bytes \<times> bool \<Rightarrow> bool" where
  "tx_loop_post api lay avail m qs i buf cum r \<longleftrightarrow>
     (case r of (m', q', buf', g') \<Rightarrow>
        lay m' (qs[i := q']) \<and> buf' @ waiting api m' (avail m' q') = buf @ waiting api m (avail m (qs ! i))
        \<and> (\<forall>j < length qs. j \<noteq> i \<longrightarrow> avail m' (qs ! j) = avail m (qs ! j)
             \<and> waiting api m' (avail m (qs ! j)) = waiting api m (avail m (qs ! j)))
        \<and> (cum + length (waiting api m (avail m (qs ! i))) < TX_PER_CALL_MAX \<longrightarrow> avail m' q' = []))"

text \<open>The device holds the bytes the bulk port still has to deliver, in the port's buffer and in its queue.\<close>

definition bulk_held ::
  "('m, 'q) vc_api \<Rightarrow> ('m \<Rightarrow> 'q list \<Rightarrow> bool) \<Rightarrow> ('m \<Rightarrow> 'q \<Rightarrow> (u16 \<times> chain_descriptor list) list)
    \<Rightarrow> ('m, 'q) vc_device \<Rightarrow> bytes \<Rightarrow> bool" where
  "bulk_held api lay avail d bs \<longleftrightarrow>
     (\<exists>m. vc_mem d = Some m \<and> lay m (vc_queues d) \<and> length (vc_queues d) = 8 \<and> length (vc_ports d) = 3
        \<and> tx_buf (vc_port_of 1 d) @ waiting api m (avail m (vc_queues d ! PORT1_TXQ)) = bs
        \<and> (avail m (vc_queues d ! PORT1_TXQ) = [] \<or> vc_live d \<and> multiport_negotiated d))"

text \<open>
  What holds throughout a run: the chunks the coordinator took, followed by what the device still holds, are the
  bytes published; the assembler has been fed those chunks; and the bucket has their verdict-bearing messages.
\<close>

definition run_inv ::
  "(bytes \<Rightarrow> u32) \<Rightarrow> ('m, 'q) vc_api \<Rightarrow> ('m \<Rightarrow> 'q list \<Rightarrow> bool)
    \<Rightarrow> ('m \<Rightarrow> 'q \<Rightarrow> (u16 \<times> chain_descriptor list) list) \<Rightarrow> ('m, 'q, 's) coord \<Rightarrow> bytes \<Rightarrow> bool" where
  "run_inv crc api lay avail c pub \<longleftrightarrow>
     (\<exists>chunks msgs rest. pub = concat chunks @ rest \<and> bulk_held api lay avail (co_dev c) rest
        \<and> feed_all crc [] chunks = (co_asm c, msgs) \<and> co_bucket c = filter verdict_bearing msgs)"

text \<open>
  Memory with one ring of chains for each queue; a queue knows its number and the next chain to take, or is reset.
\<close>

type_synonym ring_memory = "bytes \<times> (nat \<Rightarrow> (u16 \<times> chain_descriptor list) list)"

type_synonym ring_queue = "nat \<times> nat option"

definition ring_avail :: "ring_memory \<Rightarrow> ring_queue \<Rightarrow> (u16 \<times> chain_descriptor list) list" where
  "ring_avail m q = (case snd q of Some n \<Rightarrow> drop n (snd m (fst q)) | None \<Rightarrow> [])"

definition ring_api :: "(ring_memory, ring_queue) vc_api" where
  "ring_api = \<lparr>q_max_size = (\<lambda>_. 256), q_ready = (\<lambda>q. snd q \<noteq> None), q_set_size = (\<lambda>_ q. q), q_set_ready = (\<lambda>_ q. q),
     q_set_desc = (\<lambda>_ _ q. q), q_set_avail = (\<lambda>_ _ q. q), q_set_used = (\<lambda>_ _ q. q), q_set_event_idx = (\<lambda>_ q. q),
     q_reset = (\<lambda>q. (fst q, None)),
     vc_read_slice = (\<lambda>m a n. if unat a + n \<le> length (fst m) then Some (take n (drop (unat a) (fst m))) else None),
     vc_write_slice = (\<lambda>m bs a. if unat a + length bs \<le> length (fst m)
        then (True, (overwrite (unat a) bs (fst m), snd m)) else (False, m)),
     vc_pop = (\<lambda>m q. case ring_avail m q of [] \<Rightarrow> (None, q) | c # _ \<Rightarrow> (Some c, (fst q, map_option Suc (snd q)))),
     vc_add_used = (\<lambda>m q h n. (True, m, q)),
     deque_slices = (\<lambda>bs. (take 3 bs, drop 3 bs))\<rparr>"

definition sample_crc :: "bytes \<Rightarrow> u32" where
  "sample_crc bs = of_nat (length bs)"

definition sample_frames :: "(u32 \<times> bytes) list" where
  "sample_frames = [(msg_type_wire Exit, [7]), (msg_type_wire Stdout, [104, 105])]"

text \<open>The guest cuts the two frames into two chains, the second of two descriptors.\<close>

definition sample_memory :: ring_memory where
  "sample_memory = (encode_all sample_crc sample_frames,
     \<lambda>i. if i = PORT1_TXQ then
           [(0, [\<lparr>d_addr = 0, d_len = 5, d_write_only = False\<rparr>]),
            (1, [\<lparr>d_addr = 5, d_len = 20, d_write_only = False\<rparr>, \<lparr>d_addr = 25, d_len = 10, d_write_only = False\<rparr>])]
         else [])"

definition sample_console :: "(ring_memory, ring_queue) vc_device" where
  "sample_console = (vc_new (0, None))\<lparr>vc_mem := Some ([], \<lambda>_. []), vc_queues := map (\<lambda>i. (i, Some 0)) [0..<8],
     vc_status := 0xf, vc_driver_features := vc_device_features\<rparr>"

definition sample_coord :: "(ring_memory, ring_queue, bytes) coord" where
  "sample_coord = on_tx_event sample_crc id (\<lambda>_. 1)
     \<lparr>co_dev = sample_console\<lparr>vc_mem := Some sample_memory\<rparr>, co_asm = [], co_sinks = idle_sinks, co_bucket = []\<rparr>"

text \<open>
  How a run unfolds, with the bytes the guest has published on the bulk port: the guest publishes chains of short
  descriptors, the device is notified on any port, the coordinator wakes up, and the guest resets the device.
\<close>

inductive bulk_run ::
  "(bytes \<Rightarrow> u32) \<Rightarrow> (bytes \<Rightarrow> 's) \<Rightarrow> ('m, 'q) vc_api \<Rightarrow> ('m \<Rightarrow> 'q list \<Rightarrow> bool)
    \<Rightarrow> ('m \<Rightarrow> 'q \<Rightarrow> (u16 \<times> chain_descriptor list) list) \<Rightarrow> ('m, 'q, 's) coord \<Rightarrow> bytes \<Rightarrow> bool"
  for crc lossy api lay avail where
  Start: "vc_mem d = Some m \<Longrightarrow> lay m (vc_queues d) \<Longrightarrow> length (vc_queues d) = 8 \<Longrightarrow> length (vc_ports d) = 3
     \<Longrightarrow> avail m (vc_queues d ! PORT1_TXQ) = [] \<Longrightarrow> tx_buf (vc_port_of 1 d) = [] \<Longrightarrow> vc_live d \<Longrightarrow> multiport_negotiated d
     \<Longrightarrow> bulk_run crc lossy api lay avail \<lparr>co_dev = d, co_asm = [], co_sinks = s, co_bucket = []\<rparr> []"
| Publish: "bulk_run crc lossy api lay avail c pub \<Longrightarrow> vc_live (co_dev c) \<Longrightarrow> multiport_negotiated (co_dev c)
     \<Longrightarrow> vc_mem (co_dev c) = Some m \<Longrightarrow> lay m' (vc_queues (co_dev c))
     \<Longrightarrow> avail m' (vc_queues (co_dev c) ! PORT1_TXQ) = avail m (vc_queues (co_dev c) ! PORT1_TXQ) @ new
     \<Longrightarrow> waiting api m' (avail m (vc_queues (co_dev c) ! PORT1_TXQ)) = waiting api m (avail m (vc_queues (co_dev c) ! PORT1_TXQ))
     \<Longrightarrow> list_all (\<lambda>c. short_descriptors (snd c)) new \<Longrightarrow> sent_bytes api m' new = Some bs
     \<Longrightarrow> bulk_run crc lossy api lay avail (c\<lparr>co_dev := (co_dev c)\<lparr>vc_mem := Some m'\<rparr>\<rparr>) (pub @ bs)"
| Notify: "bulk_run crc lossy api lay avail c pub \<Longrightarrow> p < 3 \<Longrightarrow> process_tx fuel api p (co_dev c) = Returns (b, d')
     \<Longrightarrow> bulk_run crc lossy api lay avail (c\<lparr>co_dev := d'\<rparr>) pub"
| Wake: "bulk_run crc lossy api lay avail c pub \<Longrightarrow> bulk_run crc lossy api lay avail (on_tx_event crc lossy clock c) pub"
| Reset: "bulk_run crc lossy api lay avail c pub \<Longrightarrow> vc_mem (co_dev c) = Some m
     \<Longrightarrow> length (waiting api m (avail m (vc_queues (co_dev c) ! PORT1_TXQ))) < TX_PER_CALL_MAX
     \<Longrightarrow> vc_reset fuel api (co_dev c) = Returns d'
     \<Longrightarrow> bulk_run crc lossy api lay avail (c\<lparr>co_dev := d'\<rparr>) pub"

section \<open>One chain\<close>

lemma tx_gather_eq:
  assumes "\<forall>a n bs. vc_read_slice api m a n = Some bs \<longrightarrow> length bs = n"
  shows "\<exists>h. tx_gather api m descs (buf, g, cum) = (buf @ chain_bytes api m descs, h, cum + length (chain_bytes api m descs))"
proof (induction descs arbitrary: buf g cum)
  case (Cons desc descs)
  let ?d = "min (unat (d_len desc)) VC_TX_DESC_MAX"
  show ?case
  proof (cases "\<not> d_write_only desc \<and> vc_read_slice api m (d_addr desc) ?d \<noteq> None")
    case True
    then obtain bs where bs: "vc_read_slice api m (d_addr desc) ?d = Some bs" by blast
    have "tx_gather api m (desc # descs) (buf, g, cum) = tx_gather api m descs (buf @ bs, g \<or> 0 < ?d, cum + length bs)"
      using True bs assms [rule_format, OF bs] by (simp add: Let_def)
    with True bs show ?thesis using Cons [of "buf @ bs" "g \<or> 0 < ?d" "cum + length bs"] by (simp add: add.assoc)
  next
    case False
    then have "tx_gather api m (desc # descs) (buf, g, cum) = tx_gather api m descs (buf, g, cum)" by (auto simp: Let_def)
    moreover have "chain_bytes api m (desc # descs) = chain_bytes api m descs" using False by auto
    ultimately show ?thesis using Cons by simp
  qed
qed simp

text \<open>Of short descriptors the device reads all.\<close>

lemma guest_chain_bytes: "short_descriptors descs \<Longrightarrow> guest_bytes api m descs = Some bs \<Longrightarrow> chain_bytes api m descs = bs"
  by (induction descs arbitrary: bs)
    (auto simp: short_descriptors_def min_absorb1 split: if_splits option.splits bind_splits)

section \<open>The transmit loop\<close>

lemma waiting_simps [simp]:
  "waiting api m [] = []" "waiting api m (c # cs) = chain_bytes api m (snd c) @ waiting api m cs"
  "waiting api m (cs @ cs') = waiting api m cs @ waiting api m cs'"
  by (simp_all add: waiting_def)

lemma sent_waiting: "list_all (\<lambda>c. short_descriptors (snd c)) cs \<Longrightarrow> sent_bytes api m cs = Some bs \<Longrightarrow> waiting api m cs = bs"
  by (induction cs arbitrary: bs) (auto simp: guest_chain_bytes split: bind_splits)

lemma law_read:
  assumes "queue_laws api lay avail" and "vc_read_slice api m a n = Some bs"
  shows "length bs = n"
  by (rule assms(1) [unfolded queue_laws_def, THEN conjunct2, THEN conjunct2, THEN conjunct2, rule_format, OF assms(2)])

lemma law_pop_empty:
  assumes "queue_laws api lay avail" and "lay m qs" and "i < length qs" and "avail m (qs ! i) = []"
  obtains q' where "vc_pop api m (qs ! i) = (None, q')" "avail m q' = []" "lay m (qs[i := q'])"
  using assms(1) [unfolded queue_laws_def, THEN conjunct1, rule_format, OF assms(2,3)] assms(4) by auto

lemma law_pop:
  assumes "queue_laws api lay avail" and "lay m qs" and "i < length qs" and "avail m (qs ! i) = c # cs"
  obtains q' where "vc_pop api m (qs ! i) = (Some c, q')" "avail m q' = cs" "lay m (qs[i := q'])"
  using assms(1) [unfolded queue_laws_def, THEN conjunct1, rule_format, OF assms(2,3)] assms(4) by auto

lemma law_reset:
  assumes "queue_laws api lay avail" and "lay m qs"
  shows "lay m (map (q_reset api) qs)" and "q \<in> set qs \<Longrightarrow> avail m (q_reset api q) = []"
  using assms(1) [unfolded queue_laws_def, THEN conjunct2, THEN conjunct2, THEN conjunct1, rule_format, OF assms(2)]
  by blast+

lemma law_add_used:
  assumes "queue_laws api lay avail" and "lay m qs" and "i < length qs" and "vc_add_used api m (qs ! i) h n = (ok, m', q')"
  shows "lay m' (qs[i := q'])" and "j < length qs \<Longrightarrow> avail m' (qs[i := q'] ! j) = avail m (qs ! j)"
    and "j < length qs \<Longrightarrow> waiting api m' (avail m (qs ! j)) = waiting api m (avail m (qs ! j))"
proof -
  have law: "lay m' (qs[i := q']) \<and> (\<forall>j < length qs. avail m' (qs[i := q'] ! j) = avail m (qs ! j)
      \<and> (\<forall>c \<in> set (avail m (qs ! j)). chain_bytes api m' (snd c) = chain_bytes api m (snd c)))"
    using assms(1) [unfolded queue_laws_def, THEN conjunct2, THEN conjunct1, rule_format, OF assms(2,3), of h n]
    unfolding assms(4) prod.case .
  then show "lay m' (qs[i := q'])" by blast
  assume j: "j < length qs"
  with law show "avail m' (qs[i := q'] ! j) = avail m (qs ! j)" by blast
  from law j show "waiting api m' (avail m (qs ! j)) = waiting api m (avail m (qs ! j))"
    by (simp add: waiting_def cong: map_cong)
qed

text \<open>Taking one chain: the queue, the memory and what every queue still holds.\<close>

lemma take_chain:
  assumes laws: "queue_laws api lay avail" and "lay m qs" and i: "i < length qs" and "avail m (qs ! i) = c # cs"
  obtains q1 ok m' q' where "vc_pop api m (qs ! i) = (Some c, q1)" "vc_add_used api m q1 h n = (ok, m', q')"
    "lay m' (qs[i := q'])" "avail m' q' = cs" "waiting api m' cs = waiting api m cs"
    "\<And>j. j < length qs \<Longrightarrow> j \<noteq> i \<Longrightarrow> avail m' (qs ! j) = avail m (qs ! j)
       \<and> waiting api m' (avail m (qs ! j)) = waiting api m (avail m (qs ! j))"
proof -
  obtain q1 where q1: "vc_pop api m (qs ! i) = (Some c, q1)" "avail m q1 = cs" "lay m (qs[i := q1])"
    by (rule law_pop [OF assms])
  obtain ok m' q' where used: "vc_add_used api m q1 h n = (ok, m', q')" by (metis surj_pair)
  have "vc_add_used api m (qs[i := q1] ! i) h n = (ok, m', q')" using used i by simp
  note law = law_add_used [OF laws q1(3) _ this, simplified, OF i]
  show ?thesis
  proof (rule that [OF q1(1) used])
    show "lay m' (qs[i := q'])" by (rule law(1))
    show "avail m' q' = cs" using law(2) [of i] i q1(2) by simp
    show "waiting api m' cs = waiting api m cs" using law(3) [of i] i q1(2) by simp
    show "avail m' (qs ! j) = avail m (qs ! j) \<and> waiting api m' (avail m (qs ! j)) = waiting api m (avail m (qs ! j))"
      if "j < length qs" "j \<noteq> i" for j using law(2,3) [of j] that by simp
  qed
qed

lemma tx_drain_loop_spec:
  assumes laws: "queue_laws api lay avail" and "lay m qs" and "i < length qs"
  shows "safe (tx_loop_post api lay avail m qs i buf cum) (tx_drain_loop fuel api m (qs ! i) (buf, g, cum))
    \<and> (length (avail m (qs ! i)) < fuel \<longrightarrow> tx_drain_loop fuel api m (qs ! i) (buf, g, cum) \<noteq> OutOfFuel)"
  using assms(2,3)
proof (induction fuel arbitrary: m qs buf g cum)
  case (Suc fuel)
  show ?case
  proof (cases "avail m (qs ! i)")
    case Nil
    obtain q' where "vc_pop api m (qs ! i) = (None, q')" "avail m q' = []" "lay m (qs[i := q'])"
      by (rule law_pop_empty [OF laws Suc.prems Nil])
    with Nil show ?thesis by (simp add: tx_loop_post_def)
  next
    case (Cons c cs)
    obtain q1 ok m' q' where pop: "vc_pop api m (qs ! i) = (Some c, q1)" "vc_add_used api m q1 (fst c) 0 = (ok, m', q')"
      and lay: "lay m' (qs[i := q'])" and q': "avail m' q' = cs" "waiting api m' cs = waiting api m cs"
      and other: "\<And>j. j < length qs \<Longrightarrow> j \<noteq> i \<Longrightarrow> avail m' (qs ! j) = avail m (qs ! j)
       \<and> waiting api m' (avail m (qs ! j)) = waiting api m (avail m (qs ! j))"
      by (rule take_chain [OF laws Suc.prems Cons, where h = "fst c" and n = 0]) blast
    let ?bs = "chain_bytes api m (snd c)"
    have rd: "\<forall>a n bs. vc_read_slice api m a n = Some bs \<longrightarrow> length bs = n" using law_read [OF laws] by blast
    obtain h where gather: "tx_gather api m (snd c) (buf, g, cum) = (buf @ ?bs, h, cum + length ?bs)"
      using tx_gather_eq [OF rd] by blast
    have step: "tx_drain_loop (Suc fuel) api m (qs ! i) (buf, g, cum) =
        (if TX_PER_CALL_MAX \<le> cum + length ?bs then Returns (m', q', buf @ ?bs, h)
         else tx_drain_loop fuel api m' (qs[i := q'] ! i) (buf @ ?bs, h, cum + length ?bs))"
      using Suc.prems(2) by (simp add: pop Let_def gather case_prod_beta)
    have ih: "safe (tx_loop_post api lay avail m' (qs[i := q']) i (buf @ ?bs) (cum + length ?bs))
        (tx_drain_loop fuel api m' (qs[i := q'] ! i) (buf @ ?bs, h, cum + length ?bs))
      \<and> (length (avail m' (qs[i := q'] ! i)) < fuel
          \<longrightarrow> tx_drain_loop fuel api m' (qs[i := q'] ! i) (buf @ ?bs, h, cum + length ?bs) \<noteq> OutOfFuel)"
      by (rule Suc.IH [OF lay]) (simp add: Suc.prems)
    have now: "tx_loop_post api lay avail m qs i buf cum (m', q', buf @ ?bs, h)" if "TX_PER_CALL_MAX \<le> cum + length ?bs"
      using that lay q' other Cons by (simp add: tx_loop_post_def)
    have later: "tx_loop_post api lay avail m qs i buf cum r"
      if "tx_loop_post api lay avail m' (qs[i := q']) i (buf @ ?bs) (cum + length ?bs) r" for r
      using that other q' Cons Suc.prems(2) by (auto simp: tx_loop_post_def add.assoc)
    show ?thesis
      unfolding step using ih now safe_mono [OF ih [THEN conjunct1] later] Cons q' Suc.prems(2) by simp
  qed
qed simp

section \<open>The device operations\<close>

lemma port_queues_tx:
  "port_queues p = Some (rx, tx) \<Longrightarrow> p < 3 \<and> tx < 8 \<and> (tx = PORT1_TXQ \<longleftrightarrow> p = 1)"
  by (auto simp: port_queues_def PORT0_TXQ_def PORT1_TXQ_def PORT2_TXQ_def split: if_splits)

lemma held_after_loop:
  assumes "bulk_held api lay avail d bs" and "vc_mem d = Some m" and pq: "port_queues p = Some (rx, tx)"
    and post: "tx_loop_post api lay avail m (vc_queues d) tx (tx_buf (vc_port_of p d)) 0 (m', q', buf', g')"
  shows "bulk_held api lay avail (vc_put_queue tx m' q' (vc_upd_port p (\<lambda>p. p\<lparr>tx_buf := buf'\<rparr>) d)) bs"
proof -
  have d: "lay m (vc_queues d)" "length (vc_queues d) = 8" "length (vc_ports d) = 3"
    "tx_buf (vc_port_of 1 d) @ waiting api m (avail m (vc_queues d ! PORT1_TXQ)) = bs"
    "avail m (vc_queues d ! PORT1_TXQ) = [] \<or> vc_live d \<and> multiport_negotiated d"
    using assms(1,2) by (auto simp: bulk_held_def)
  have tx: "p < 3" "tx < 8" "tx = PORT1_TXQ \<longleftrightarrow> p = 1" using port_queues_tx [OF pq] by auto
  let ?d = "vc_put_queue tx m' q' (vc_upd_port p (\<lambda>p. p\<lparr>tx_buf := buf'\<rparr>) d)"
  have one: "PORT1_TXQ < 8" by (simp add: PORT1_TXQ_def)
  have "tx_buf (vc_port_of 1 ?d) @ waiting api m' (avail m' (vc_queues ?d ! PORT1_TXQ)) = bs
    \<and> (avail m' (vc_queues ?d ! PORT1_TXQ) = [] \<or> vc_live d \<and> multiport_negotiated d)"
  proof (cases "p = 1")
    case True
    with tx d post one show ?thesis
      by (auto simp: tx_loop_post_def vc_put_queue_def vc_upd_port_def vc_port_of_def TX_PER_CALL_MAX_def)
  next
    case False
    with tx have "PORT1_TXQ \<noteq> tx" by auto
    then have "avail m' (vc_queues d ! PORT1_TXQ) = avail m (vc_queues d ! PORT1_TXQ)"
      "waiting api m' (avail m (vc_queues d ! PORT1_TXQ)) = waiting api m (avail m (vc_queues d ! PORT1_TXQ))"
      using post one d(2) by (auto simp: tx_loop_post_def)
    with False \<open>PORT1_TXQ \<noteq> tx\<close> tx d show ?thesis
      by (auto simp: vc_put_queue_def vc_upd_port_def vc_port_of_def)
  qed
  moreover have "vc_live ?d = vc_live d" "multiport_negotiated ?d = multiport_negotiated d"
    by (simp_all add: vc_live_def multiport_negotiated_def vc_put_queue_def vc_upd_port_def)
  moreover have "lay m' (vc_queues ?d)" using post by (simp add: tx_loop_post_def vc_put_queue_def vc_upd_port_def)
  ultimately show ?thesis using d(2,3) by (simp add: bulk_held_def vc_put_queue_def vc_upd_port_def)
qed

lemma held_signal [simp]:
  "bulk_held api lay avail (vc_signal_used d) bs = bulk_held api lay avail d bs"
  "bulk_held api lay avail (d\<lparr>tx_evts := n\<rparr>) bs = bulk_held api lay avail d bs"
  "bulk_held api lay avail (d\<lparr>stats_tx_evts := n\<rparr>) bs = bulk_held api lay avail d bs"
  by (simp_all add: bulk_held_def vc_signal_used_def vc_port_of_def vc_live_def multiport_negotiated_def)

text \<open>Both transmit walks share one shape.\<close>

lemma tx_walk:
  assumes laws: "queue_laws api lay avail" and held: "bulk_held api lay avail d bs"
    and pq: "port_queues p = Some (rx, tx)" and m: "vc_mem d = Some m"
    and f: "\<And>m' q' buf' g'. tx_loop_post api lay avail m (vc_queues d) tx (tx_buf (vc_port_of p d)) 0 (m', q', buf', g')
      \<Longrightarrow> bulk_held api lay avail (vc_put_queue tx m' q' (vc_upd_port p (\<lambda>p. p\<lparr>tx_buf := buf'\<rparr>) d)) bs
      \<Longrightarrow> safe P (f (m', q', buf', g'))"
  shows "safe P (run_bind (tx_drain_loop fuel api m (vc_queues d ! tx) (tx_buf (vc_port_of p d), False, 0)) f)"
proof -
  have "lay m (vc_queues d)" "tx < length (vc_queues d)"
    using held m port_queues_tx [OF pq] by (auto simp: bulk_held_def)
  from tx_drain_loop_spec [OF laws this, THEN conjunct1]
  have "safe (tx_loop_post api lay avail m (vc_queues d) tx (tx_buf (vc_port_of p d)) 0)
    (tx_drain_loop fuel api m (vc_queues d ! tx) (tx_buf (vc_port_of p d), False, 0))" .
  then show ?thesis
  proof (rule safe_bind)
    fix r assume post: "tx_loop_post api lay avail m (vc_queues d) tx (tx_buf (vc_port_of p d)) 0 r"
    obtain m' q' buf' g' where r: "r = (m', q', buf', g')" by (cases r)
    from f held_after_loop [OF held m pq] post show "safe P (f r)" unfolding r by blast
  qed
qed

lemma held_process_tx:
  assumes laws: "queue_laws api lay avail" and held: "bulk_held api lay avail d bs" and "p < 3"
  shows "safe (\<lambda>(b, d'). bulk_held api lay avail d' bs) (process_tx fuel api p d)"
proof -
  obtain m where m: "vc_mem d = Some m" using held by (auto simp: bulk_held_def)
  obtain rx tx where pq: "port_queues p = Some (rx, tx)" using port_queues_Some [OF \<open>p < 3\<close>] by blast
  show ?thesis
    unfolding process_tx_def pq m option.case prod.case
    by (intro safe_if tx_walk [OF laws held pq m]) (auto simp: held Let_def)
qed

text \<open>Everything fits in one call: the queue is empty afterwards.\<close>

lemma drain_tx_empties:
  assumes laws: "queue_laws api lay avail" and held: "bulk_held api lay avail d bs" and m: "vc_mem d = Some m"
    and few: "length (waiting api m (avail m (vc_queues d ! PORT1_TXQ))) < TX_PER_CALL_MAX"
  shows "safe (\<lambda>d'. bulk_held api lay avail d' bs \<and> (\<exists>m'. vc_mem d' = Some m' \<and> avail m' (vc_queues d' ! PORT1_TXQ) = []))
     (drain_tx_into_capture_buf fuel api 1 d)"
proof -
  have pq: "port_queues 1 = Some (PORT1_RXQ, PORT1_TXQ)" by (simp add: port_queues_def)
  have live: "avail m (vc_queues d ! PORT1_TXQ) = [] \<or> vc_live d \<and> multiport_negotiated d" "PORT1_TXQ < length (vc_queues d)"
    using held m by (auto simp: bulk_held_def PORT1_TXQ_def)
  show ?thesis
    unfolding drain_tx_into_capture_buf_def pq m option.case prod.case
    using live few
    by (intro safe_if tx_walk [OF laws held pq m])
      (auto simp: held m tx_loop_post_def vc_put_queue_def vc_upd_port_def)
qed

lemma held_frame:
  assumes laws: "queue_laws api lay avail" and held: "bulk_held api lay avail d bs" and "p < 3" and "p \<noteq> 1"
    and m: "vc_mem d = Some m"
  shows "safe (\<lambda>d'. bulk_held api lay avail d' bs \<and> (\<exists>m'. vc_mem d' = Some m'
     \<and> length (waiting api m' (avail m' (vc_queues d' ! PORT1_TXQ))) = length (waiting api m (avail m (vc_queues d ! PORT1_TXQ)))
     \<and> (avail m (vc_queues d ! PORT1_TXQ) = [] \<longrightarrow> avail m' (vc_queues d' ! PORT1_TXQ) = [])))
     (drain_tx_into_capture_buf fuel api p d)"
proof -
  obtain rx tx where pq: "port_queues p = Some (rx, tx)" using port_queues_Some [OF \<open>p < 3\<close>] by blast
  have tx: "tx \<noteq> PORT1_TXQ" using port_queues_tx [OF pq] \<open>p \<noteq> 1\<close> by blast
  have len: "PORT1_TXQ < length (vc_queues d)" using held m by (auto simp: bulk_held_def PORT1_TXQ_def)
  show ?thesis
    unfolding drain_tx_into_capture_buf_def pq m option.case prod.case
    using tx len
    by (intro safe_if tx_walk [OF laws held pq m])
      (auto simp: held m tx_loop_post_def vc_put_queue_def vc_upd_port_def)
qed

lemma held_cleared:
  assumes laws: "queue_laws api lay avail" and "bulk_held api lay avail d bs" and "vc_mem d = Some m"
    and "avail m (vc_queues d ! PORT1_TXQ) = []"
  shows "bulk_held api lay avail (vc_clear api d) bs"
  using assms(2-4) law_reset [OF laws, of m "vc_queues d"]
  by (auto simp: vc_clear_def bulk_held_def vc_port_of_def PORT1_TXQ_def)

lemma held_reset:
  assumes laws: "queue_laws api lay avail" and held: "bulk_held api lay avail d bs" and m: "vc_mem d = Some m"
    and few: "length (waiting api m (avail m (vc_queues d ! PORT1_TXQ))) < TX_PER_CALL_MAX"
  shows "safe (\<lambda>d'. bulk_held api lay avail d' bs) (vc_reset fuel api d)"
  unfolding vc_reset_def
proof (rule safe_bind, rule held_frame [OF laws held _ _ m])
  fix d1
  assume "bulk_held api lay avail d1 bs \<and> (\<exists>m'. vc_mem d1 = Some m'
     \<and> length (waiting api m' (avail m' (vc_queues d1 ! PORT1_TXQ))) = length (waiting api m (avail m (vc_queues d ! PORT1_TXQ)))
     \<and> (avail m (vc_queues d ! PORT1_TXQ) = [] \<longrightarrow> avail m' (vc_queues d1 ! PORT1_TXQ) = []))"
  then obtain m1 where d1: "bulk_held api lay avail d1 bs" "vc_mem d1 = Some m1"
    "length (waiting api m1 (avail m1 (vc_queues d1 ! PORT1_TXQ))) < TX_PER_CALL_MAX" using few by force
  show "safe (\<lambda>d'. bulk_held api lay avail d' bs) (run_bind (drain_tx_into_capture_buf fuel api 1 d1) (\<lambda>d.
     run_bind (drain_tx_into_capture_buf fuel api 2 d) (\<lambda>d.
     Returns (vc_clear api d))))"
  proof (rule safe_bind [OF drain_tx_empties [OF laws d1]], elim conjE exE)
    fix d2 m2
    assume d2: "bulk_held api lay avail d2 bs" "vc_mem d2 = Some m2" "avail m2 (vc_queues d2 ! PORT1_TXQ) = []"
    show "safe (\<lambda>d'. bulk_held api lay avail d' bs) (run_bind (drain_tx_into_capture_buf fuel api 2 d2) (\<lambda>d.
       Returns (vc_clear api d)))"
      by (rule safe_bind, rule held_frame [OF laws d2(1) _ _ d2(2)], simp, simp)
        (use d2(3) in \<open>auto intro: held_cleared [OF laws]\<close>)
  qed
qed simp_all

section \<open>The run\<close>

lemma held_take:
  assumes "bulk_held api lay avail d bs"
  shows "bulk_held api lay avail (snd (drain_bulk d)) (drop (length (tx_buf (vc_port_of 1 d))) bs)"
    and "bs = fst (drain_bulk d) @ drop (length (tx_buf (vc_port_of 1 d))) bs"
proof -
  obtain m where m: "vc_mem d = Some m" "lay m (vc_queues d)" "length (vc_queues d) = 8" "length (vc_ports d) = 3"
    "bs = tx_buf (vc_port_of 1 d) @ waiting api m (avail m (vc_queues d ! PORT1_TXQ))"
    "avail m (vc_queues d ! PORT1_TXQ) = [] \<or> vc_live d \<and> multiport_negotiated d"
    using assms by (auto simp: bulk_held_def)
  then show "bulk_held api lay avail (snd (drain_bulk d)) (drop (length (tx_buf (vc_port_of 1 d))) bs)"
    by (auto simp: bulk_held_def drain_bulk_def drain_port_tx_def vc_upd_port_def vc_port_of_def vc_live_def multiport_negotiated_def)
  show "bs = fst (drain_bulk d) @ drop (length (tx_buf (vc_port_of 1 d))) bs"
    by (simp add: m(5) drain_bulk_def drain_port_tx_def)
qed

lemma feed_all_snoc:
  "feed_all crc asm chunks = (a, out) \<Longrightarrow> feed crc a bs = (a', ms) \<Longrightarrow> feed_all crc asm (chunks @ [bs]) = (a', out @ ms)"
  by (simp add: feed_all_def)

lemma run_inv_wake:
  assumes "run_inv crc api lay avail c pub"
  shows "run_inv crc api lay avail (on_tx_event crc lossy clock c) pub"
proof -
  obtain chunks msgs rest where c: "pub = concat chunks @ rest" "bulk_held api lay avail (co_dev c) rest"
    "feed_all crc [] chunks = (co_asm c, msgs)" "co_bucket c = filter verdict_bearing msgs"
    using assms by (auto simp: run_inv_def)
  obtain a ms where fd: "feed crc (co_asm c) (fst (drain_bulk (co_dev c))) = (a, ms)" by (cases "feed crc (co_asm c) (fst (drain_bulk (co_dev c)))")
  note taken = held_take [OF c(2)]
  show ?thesis
    unfolding run_inv_def
  proof (intro exI conjI)
    show "pub = concat (chunks @ [fst (drain_bulk (co_dev c))]) @ drop (length (tx_buf (vc_port_of 1 (co_dev c)))) rest"
      using c(1) taken(2) by simp
    show "bulk_held api lay avail (co_dev (on_tx_event crc lossy clock c)) (drop (length (tx_buf (vc_port_of 1 (co_dev c)))) rest)"
      using taken(1) by (simp add: on_tx_event_def case_prod_beta Let_def)
    show "feed_all crc [] (chunks @ [fst (drain_bulk (co_dev c))]) = (co_asm (on_tx_event crc lossy clock c), msgs @ ms)"
      using feed_all_snoc [OF c(3) fd] fd by (simp add: on_tx_event_def case_prod_beta Let_def)
    show "co_bucket (on_tx_event crc lossy clock c) = filter verdict_bearing (msgs @ ms)"
      using c(4) fd dispatch_all_entries [of lossy clock ms "co_sinks c"]
      by (simp add: on_tx_event_def case_prod_beta Let_def)
  qed
qed

lemma run_inv_dev:
  assumes "run_inv crc api lay avail c pub"
    and "\<And>bs. bulk_held api lay avail (co_dev c) bs \<Longrightarrow> bulk_held api lay avail d' (bs @ new)"
  shows "run_inv crc api lay avail (c\<lparr>co_dev := d'\<rparr>) (pub @ new)"
  using assms by (fastforce simp: run_inv_def)

lemma run_inv_reachable:
  assumes laws: "queue_laws api lay avail" and "bulk_run crc lossy api lay avail c pub"
  shows "run_inv crc api lay avail c pub"
  using assms(2)
proof induction
  case (Start d m s)
  then show ?case
    unfolding run_inv_def by (intro exI [of _ "[]"]) (simp add: bulk_held_def feed_all_def)
next
  case (Publish c pub m m' new bs)
  then show ?case unfolding sent_waiting [OF Publish(8,9), symmetric]
    by (intro run_inv_dev) (auto simp: bulk_held_def vc_port_of_def vc_live_def multiport_negotiated_def)
next
  case (Notify c pub p fuel b d')
  then show ?case
    using run_inv_dev [of crc api lay avail c pub d' "[]"] held_process_tx [OF laws, of "co_dev c" _ p fuel] by fastforce
next
  case (Wake c pub clock)
  then show ?case by (intro run_inv_wake)
next
  case (Reset c pub m fuel d')
  then show ?case
    using run_inv_dev [of crc api lay avail c pub d' "[]"] held_reset [OF laws, of "co_dev c" _ m fuel] by fastforce
qed

section \<open>The end of the run\<close>

lemma held_push_back:
  assumes "bulk_held api lay avail d bs"
  shows "bulk_held api lay avail (push_back_bulk r d) (r @ bs)"
proof -
  have "fold (\<lambda>b buf. b # buf) (rev r) x = r @ x" for x by (simp add: fold_Cons_rev)
  with assms show ?thesis
    by (auto simp: push_back_bulk_def bulk_held_def vc_upd_port_def vc_port_of_def vc_live_def multiport_negotiated_def)
qed

lemma push_back_same: "vc_mem (push_back_bulk r d) = vc_mem d" "vc_queues (push_back_bulk r d) = vc_queues d"
  by (simp_all add: push_back_bulk_def vc_upd_port_def)

lemma final_drain_all:
  assumes laws: "queue_laws api lay avail" and held: "bulk_held api lay avail d bs" and m: "vc_mem d = Some m"
    and few: "length (waiting api m (avail m (vc_queues d ! PORT1_TXQ))) < TX_PER_CALL_MAX"
    and fuel: "length (avail m (vc_queues d ! PORT1_TXQ)) < fuel"
  shows "\<exists>d'. final_drain fuel api d = Returns (bs, d')"
proof (cases "vc_live d \<and> multiport_negotiated d")
  case True
  have pq: "port_queues 1 = Some (PORT1_RXQ, PORT1_TXQ)" by (simp add: port_queues_def)
  have d: "lay m (vc_queues d)" "PORT1_TXQ < length (vc_queues d)" "length (vc_ports d) = 3"
    "bs = tx_buf (vc_port_of 1 d) @ waiting api m (avail m (vc_queues d ! PORT1_TXQ))"
    using held m by (auto simp: bulk_held_def PORT1_TXQ_def)
  obtain m' q' buf' g' where loop:
    "tx_drain_loop fuel api m (vc_queues d ! PORT1_TXQ) (tx_buf (vc_port_of 1 d), False, 0) = Returns (m', q', buf', g')"
    "tx_loop_post api lay avail m (vc_queues d) PORT1_TXQ (tx_buf (vc_port_of 1 d)) 0 (m', q', buf', g')"
    using tx_drain_loop_spec [OF laws d(1,2), of "tx_buf (vc_port_of 1 d)" 0 fuel False] fuel
    by (cases "tx_drain_loop fuel api m (vc_queues d ! PORT1_TXQ) (tx_buf (vc_port_of 1 d), False, 0)") auto
  have "buf' = bs" using loop(2) few d(4) by (auto simp: tx_loop_post_def)
  with True d(3) show ?thesis
    by (simp add: final_drain_def process_tx_def pq [simplified] m loop(1) [unfolded vc_port_of_def, simplified] Let_def drain_bulk_def drain_port_tx_def
        vc_port_of_def vc_put_queue_def vc_upd_port_def vc_signal_used_def)
next
  case False
  then have "process_tx fuel api 1 d = Returns (False, d)" by (auto simp: process_tx_def port_queues_def)
  moreover have "bs = tx_buf (vc_port_of 1 d)" using held m False by (auto simp: bulk_held_def)
  ultimately show ?thesis by (simp add: final_drain_def drain_bulk_def drain_port_tx_def)
qed

lemma verdict_retained: "verdict_bearing m \<Longrightarrow> collect_retains m"
  by (auto simp: verdict_bearing_def collect_retains_def split: option.splits)

lemma collected:
  assumes laws: "queue_laws api lay avail" and run: "bulk_run crc lossy api lay avail c (encode_all crc ms)"
    and legit: "list_all legitimate ms" and m: "vc_mem (co_dev c) = Some m"
    and few: "length (waiting api m (avail m (vc_queues (co_dev c) ! PORT1_TXQ))) < TX_PER_CALL_MAX"
    and fuel: "length (avail m (vc_queues (co_dev c) ! PORT1_TXQ)) < fuel"
  shows "\<exists>k. collect_bulk fuel api crc (coord_exit c) =
    Returns (filter verdict_bearing (take k (map sent_message ms)) @ filter collect_retains (drop k (map sent_message ms)))"
proof -
  obtain chunks msgs rest where c: "encode_all crc ms = concat chunks @ rest" "bulk_held api lay avail (co_dev c) rest"
    "feed_all crc [] chunks = (co_asm c, msgs)" "co_bucket c = filter verdict_bearing msgs"
    using run_inv_reachable [OF laws run] by (auto simp: run_inv_def)
  have scan: "scan_all crc (concat chunks) = (msgs, co_asm c, False)"
    using feed_all_stream [OF legit c(1)] c(3) by auto
  have all: "scan_all crc (concat chunks @ rest) = (map sent_message ms, [], False)"
    using stream_prefix [OF legit, of crc "concat chunks @ rest" "[]"] c(1) by auto
  have "parse_tlv_stream crc (co_asm c @ rest) = fst (scan_all crc (co_asm c @ rest))" by (rule parse_tlv_stream_eq)
  then have sent: "map sent_message ms = msgs @ parse_tlv_stream crc (co_asm c @ rest)"
    using scan_all_append [OF scan, of rest] all by (simp split: prod.splits)
  let ?d = "if co_asm c \<noteq> [] then push_back_bulk (co_asm c) (co_dev c) else co_dev c"
  have "bulk_held api lay avail ?d (co_asm c @ rest)" using held_push_back [OF c(2)] c(2) by simp
  moreover have "vc_mem ?d = Some m" "vc_queues ?d = vc_queues (co_dev c)" using m by (simp_all add: push_back_same)
  ultimately obtain d' where "final_drain fuel api ?d = Returns (co_asm c @ rest, d')"
    using final_drain_all [OF laws, of ?d "co_asm c @ rest" m fuel] few fuel by auto
  then have "collect_bulk fuel api crc (coord_exit c)
    = Returns (filter verdict_bearing msgs @ filter collect_retains (parse_tlv_stream crc (co_asm c @ rest)))"
    using c(4) by (simp add: collect_bulk_def coord_exit_def take_residual_def collect_bulk_entries_def)
  then show ?thesis unfolding sent by (intro exI [of _ "length msgs"]) simp
qed

section \<open>A sample machine\<close>

lemma ring_laws: "queue_laws ring_api (\<lambda>_ _. True) ring_avail"
  by (auto simp: queue_laws_def ring_api_def ring_avail_def nth_list_update drop_Suc tl_drop
      split: list.split option.split dest: arg_cong [of _ _ tl])

lemma sample_frames_length: "length (encode_all sample_crc sample_frames) = 35"
  using hdr.length_enc
  by (simp add: encode_all_def sample_frames_def encode_frame_def FRAME_HEADER_SIZE_def)

lemma sample_sent:
  "sent_bytes ring_api sample_memory (ring_avail sample_memory (PORT1_TXQ, Some 0)) = Some (encode_all sample_crc sample_frames)"
  "list_all (\<lambda>c. short_descriptors (snd c)) (ring_avail sample_memory (PORT1_TXQ, Some 0))"
proof -
  let ?bs = "encode_all sample_crc sample_frames"
  have "take 5 ?bs @ take 20 (drop 5 ?bs) @ take 10 (drop 25 ?bs) = ?bs"
    using take_add [of 5 20 ?bs] take_add [of 25 10 ?bs] sample_frames_length by simp
  then show "sent_bytes ring_api sample_memory (ring_avail sample_memory (PORT1_TXQ, Some 0)) = Some ?bs"
    by (simp add: ring_avail_def sample_memory_def ring_api_def sample_frames_length)
  show "list_all (\<lambda>c. short_descriptors (snd c)) (ring_avail sample_memory (PORT1_TXQ, Some 0))"
    by (simp add: ring_avail_def sample_memory_def short_descriptors_def VC_TX_DESC_MAX_def)
qed

lemma sample_waiting:
  "waiting ring_api sample_memory (ring_avail sample_memory (PORT1_TXQ, Some 0)) = encode_all sample_crc sample_frames"
  by (rule sent_waiting [OF sample_sent(2,1)])

lemma sample_run: "bulk_run sample_crc id ring_api (\<lambda>_ _. True) ring_avail sample_coord (encode_all sample_crc sample_frames)"
proof -
  let ?c = "\<lparr>co_dev = sample_console, co_asm = [], co_sinks = idle_sinks, co_bucket = []\<rparr>"
  have queue: "vc_queues sample_console ! PORT1_TXQ = (PORT1_TXQ, Some 0)"
    by (simp add: sample_console_def PORT1_TXQ_def)
  have dev: "vc_mem sample_console = Some ([], \<lambda>_. [])" "length (vc_queues sample_console) = 8" "length (vc_ports sample_console) = 3"
    "tx_buf (vc_port_of 1 sample_console) = []" "vc_live sample_console" "multiport_negotiated sample_console"
    by (simp_all add: sample_console_def vc_new_def vc_port_of_def port_new_def vc_live_def multiport_negotiated_def
        status_defs vc_device_features_def feature_bit_def VIRTIO_F_VERSION_1_def VIRTIO_CONSOLE_F_MULTIPORT_def rust_shl_def)
  have "bulk_run sample_crc id ring_api (\<lambda>_ _. True) ring_avail ?c []"
    by (rule bulk_run.Start [OF dev(1) _ dev(2,3) _ dev(4-6)]) (simp_all add: queue ring_avail_def)
  then have "bulk_run sample_crc id ring_api (\<lambda>_ _. True) ring_avail
      (?c\<lparr>co_dev := (co_dev ?c)\<lparr>vc_mem := Some sample_memory\<rparr>\<rparr>)
      ([] @ encode_all sample_crc sample_frames)"
    by (rule bulk_run.Publish [where m = "([], \<lambda>_. [])", OF _ _ _ _ _ _ _ sample_sent(2,1)])
      (simp_all add: dev queue, simp_all add: ring_avail_def)
  then show ?thesis unfolding sample_coord_def by (intro bulk_run.Wake) simp
qed

section \<open>Properties\<close>

text \<open>
  C2: what the guest sends on the bulk port is what the run collects. The guest publishes messages with payloads of at
  most 16 MiB, cut in any way into chains of readable descriptors of at most 32 KiB; the device is notified, the
  coordinator wakes up and takes what the device has at any moments and in any order, and the guest may reset the device
  while less than one call's worth of bytes, 256 KiB, is waiting in its queue. Then the coordinator exits, pushing the bytes
  of a partial frame back, and the results are collected. If again less than one call's worth of bytes is waiting, collecting
  returns, and every message went exactly once and in order either through the dispatcher during the run, which
  keeps the verdict-bearing ones, or through the filter at the end; when all messages are verdict-bearing the result is
  exactly the messages sent.
\<close>

theorem bulk_messages_collected:
  assumes "queue_laws api lay avail" and "bulk_run crc lossy api lay avail c (encode_all crc ms)"
    and "list_all legitimate ms" and "vc_mem (co_dev c) = Some m"
    and "length (waiting api m (avail m (vc_queues (co_dev c) ! PORT1_TXQ))) < TX_PER_CALL_MAX"
    and "length (avail m (vc_queues (co_dev c) ! PORT1_TXQ)) < fuel"
  shows "(\<exists>k. collect_bulk fuel api crc (coord_exit c) = Returns
       (filter verdict_bearing (take k (map sent_message ms)) @ filter collect_retains (drop k (map sent_message ms))))
    \<and> (list_all (\<lambda>m. verdict_bearing (sent_message m)) ms
        \<longrightarrow> collect_bulk fuel api crc (coord_exit c) = Returns (map sent_message ms))"
proof -
  obtain k where k: "collect_bulk fuel api crc (coord_exit c) = Returns
      (filter verdict_bearing (take k (map sent_message ms)) @ filter collect_retains (drop k (map sent_message ms)))"
    using collected [OF assms] by blast
  moreover have "filter verdict_bearing (take k (map sent_message ms)) @ filter collect_retains (drop k (map sent_message ms))
      = map sent_message ms" if all: "list_all (\<lambda>m. verdict_bearing (sent_message m)) ms"
  proof -
    have vb: "verdict_bearing x" if "x \<in> set (map sent_message ms)" for x using all that by (auto simp: list_all_iff)
    have "filter verdict_bearing (take k (map sent_message ms)) = take k (map sent_message ms)"
      by (intro filter_True ballI vb) (rule in_set_takeD)
    moreover have "filter collect_retains (drop k (map sent_message ms)) = drop k (map sent_message ms)"
      by (intro filter_True ballI verdict_retained vb) (rule in_set_dropD)
    ultimately show ?thesis by simp
  qed
  ultimately show ?thesis by auto
qed

theorem bulk_messages_collected_witness:
  "collect_bulk 10 ring_api sample_crc (coord_exit sample_coord) = Returns
     [\<lparr>bm_type = msg_type_wire Exit, bm_payload = [7], bm_crc_ok = True\<rparr>,
      \<lparr>bm_type = msg_type_wire Stdout, bm_payload = [104, 105], bm_crc_ok = True\<rparr>]"
proof -
  have dev: "vc_mem (co_dev sample_coord) = Some sample_memory"
    "vc_queues (co_dev sample_coord) ! PORT1_TXQ = (PORT1_TXQ, Some 0)"
    by (simp_all add: sample_coord_def sample_console_def on_tx_event_def case_prod_beta Let_def drain_bulk_def
        drain_port_tx_def vc_upd_port_def PORT1_TXQ_def)
  have "list_all legitimate sample_frames" by (simp add: sample_frames_def legitimate_def unat_MAX)
  note this [THEN bulk_messages_collected [OF ring_laws sample_run], OF dev(1), of 10]
  moreover have "list_all (\<lambda>m. verdict_bearing (sent_message m)) sample_frames"
    by (simp add: sample_frames_def sent_message_def verdict_bearing_def msg_type_from_wire_def is_coordinator_internal_def)
  moreover have "map sent_message sample_frames = [\<lparr>bm_type = msg_type_wire Exit, bm_payload = [7], bm_crc_ok = True\<rparr>,
      \<lparr>bm_type = msg_type_wire Stdout, bm_payload = [104, 105], bm_crc_ok = True\<rparr>]"
    by (simp add: sample_frames_def sent_message_def)
  moreover have "length (ring_avail sample_memory (PORT1_TXQ, Some 0)) < 10"
    by (simp add: ring_avail_def sample_memory_def)
  ultimately show ?thesis
    by (simp only: dev sample_waiting sample_frames_length TX_PER_CALL_MAX_def)
qed

end
