(* ===== verification/Console_Input.thy ===== *)
theory Console_Input
  imports Virtio_Console
begin

text \<open>
  The way of bytes from the host to a port of the guest: the staging of the pending bytes, the walk over the
  descriptors of a chain and the loop over the available chains, as the guest sees them in the used ring and in its buffers.
\<close>

section \<open>Specification functions\<close>

text \<open>What the guest reads from a receive chain of which \<open>n\<close> bytes are used.\<close>

primrec rx_view :: "('m, 'q) vc_api \<Rightarrow> 'm \<Rightarrow> chain_descriptor list \<Rightarrow> nat \<Rightarrow> bytes" where
  "rx_view api m [] n = []"
| "rx_view api m (d # ds) n =
     (if d_write_only d then
        let k = min n (unat (d_len d)) in
        (if k = 0 then [] else case vc_read_slice api m (d_addr d) k of Some bs \<Rightarrow> bs | None \<Rightarrow> []) @ rx_view api m ds (n - k)
      else rx_view api m ds n)"

definition room :: "chain_descriptor list \<Rightarrow> nat" where
  "room ds = sum_list (map (\<lambda>d. unat (d_len d)) (filter d_write_only ds))"

definition rx_apart :: "u64 \<Rightarrow> nat \<Rightarrow> u64 \<Rightarrow> nat \<Rightarrow> bool" where
  "rx_apart a n a' n' \<longleftrightarrow> unat a + n \<le> unat a' \<or> unat a' + n' \<le> unat a"

definition off_buffers :: "u64 \<Rightarrow> nat \<Rightarrow> chain_descriptor list \<Rightarrow> bool" where
  "off_buffers a n ds \<longleftrightarrow> list_all (\<lambda>d. d_write_only d \<longrightarrow> rx_apart a n (d_addr d) (unat (d_len d))) ds"

primrec buffers_apart :: "chain_descriptor list \<Rightarrow> bool" where
  "buffers_apart [] = True"
| "buffers_apart (d # ds) = ((d_write_only d \<longrightarrow> off_buffers (d_addr d) (unat (d_len d)) ds) \<and> buffers_apart ds)"

text \<open>
  The laws of a receive queue. \<open>avail m q\<close> are the chains not taken yet, \<open>used m q\<close> the elements published, and
  \<open>buffer\<close> says which ranges are the guest's buffers; \<open>lay m q\<close> says that the rings of the queue lie outside the buffers.
  Taking a chain removes the first one; publishing touches no buffer; a write to a buffer touches nothing
  outside its range, reads back when it succeeds, and leaves the rings alone.
\<close>

definition rx_laws ::
  "('m, 'q) vc_api \<Rightarrow> ('m \<Rightarrow> 'q \<Rightarrow> bool) \<Rightarrow> (u64 \<Rightarrow> nat \<Rightarrow> bool) \<Rightarrow> ('m \<Rightarrow> 'q \<Rightarrow> (u16 \<times> chain_descriptor list) list)
    \<Rightarrow> ('m \<Rightarrow> 'q \<Rightarrow> (u16 \<times> u32) list) \<Rightarrow> bool" where
  "rx_laws api lay buffer avail used \<longleftrightarrow>
     (\<forall>m q r q'. lay m q \<longrightarrow> vc_pop api m q = (r, q') \<longrightarrow>
        lay m q' \<and> used m q' = used m q \<and> r = (case avail m q of [] \<Rightarrow> None | c # _ \<Rightarrow> Some c) \<and> avail m q' = tl (avail m q)) \<and>
     (\<forall>m q h n ok m' q'. lay m q \<longrightarrow> vc_add_used api m q h n = (ok, m', q') \<longrightarrow>
        lay m' q' \<and> avail m' q' = avail m q \<and> used m' q' = used m q @ (if ok then [(h, n)] else [])
        \<and> (\<forall>a k. buffer a k \<longrightarrow> vc_read_slice api m' a k = vc_read_slice api m a k)) \<and>
     (\<forall>m q bs a ok m'. lay m q \<longrightarrow> buffer a (length bs) \<longrightarrow> vc_write_slice api m bs a = (ok, m') \<longrightarrow>
        lay m' q \<and> avail m' q = avail m q \<and> used m' q = used m q
        \<and> (ok \<longrightarrow> vc_read_slice api m' a (length bs) = Some bs)
        \<and> (\<forall>a' k. rx_apart a (length bs) a' k \<longrightarrow> vc_read_slice api m' a' k = vc_read_slice api m a' k)) \<and>
     (\<forall>a n k. buffer a n \<longrightarrow> k \<le> n \<longrightarrow> buffer a k) \<and>
     (\<forall>xs. fst (deque_slices api xs) @ snd (deque_slices api xs) = xs)"

definition in_buffers :: "(u64 \<Rightarrow> nat \<Rightarrow> bool) \<Rightarrow> chain_descriptor list \<Rightarrow> bool" where
  "in_buffers buffer ds \<longleftrightarrow> list_all (\<lambda>d. d_write_only d \<longrightarrow> buffer (d_addr d) (unat (d_len d))) ds"

text \<open>Writes to the buffers and publications never fail.\<close>

definition rx_reliable :: "('m, 'q) vc_api \<Rightarrow> ('m \<Rightarrow> 'q \<Rightarrow> bool) \<Rightarrow> (u64 \<Rightarrow> nat \<Rightarrow> bool) \<Rightarrow> bool" where
  "rx_reliable api lay buffer \<longleftrightarrow>
     (\<forall>m q. lay m q \<longrightarrow> (\<forall>bs a. buffer a (length bs) \<longrightarrow> fst (vc_write_slice api m bs a)) \<and> (\<forall>h n. fst (vc_add_used api m q h n)))"

definition chains_room :: "(u16 \<times> chain_descriptor list) list \<Rightarrow> nat" where
  "chains_room cs = sum_list (map (\<lambda>c. room (snd c)) cs)"

section \<open>Specification functions and sample values\<close>

text \<open>What a walk over a chain leaves alone.\<close>

definition rx_frame where
  "rx_frame api lay avail used ds q m m' \<longleftrightarrow> lay m' q \<and> avail m' q = avail m q \<and> used m' q = used m q
     \<and> (\<forall>a k. off_buffers a k ds \<longrightarrow> vc_read_slice api m' a k = vc_read_slice api m a k)"

text \<open>
  The elements of the used ring with the chains they stand for, and what the guest reads from them.
\<close>

definition rx_delivered ::
  "('m, 'q) vc_api \<Rightarrow> 'm \<Rightarrow> (u16 \<times> chain_descriptor list) list \<Rightarrow> u32 list \<Rightarrow> bytes" where
  "rx_delivered api m cs ws = concat (map2 (\<lambda>c w. rx_view api m (snd c) (unat w)) cs ws)"

definition rx_post where
  "rx_post api avail used m q pending r \<longleftrightarrow>
     (case r of (m', q', pending', tw) \<Rightarrow>
        \<exists>ws. used m' q' = used m q @ map2 (\<lambda>c w. (fst c, w)) (avail m q) ws \<and> length ws \<le> length (avail m q)
           \<and> pending = rx_delivered api m' (avail m q) ws @ pending')"

type_synonym rx_memory = "bytes \<times> (u16 \<times> chain_descriptor list) list \<times> (u16 \<times> u32) list"

definition rx_api :: "(rx_memory, nat) vc_api" where
  "rx_api = \<lparr>q_max_size = (\<lambda>_. 256), q_ready = (\<lambda>_. True), q_set_size = (\<lambda>_ q. q), q_set_ready = (\<lambda>_ q. q),
     q_set_desc = (\<lambda>_ _ q. q), q_set_avail = (\<lambda>_ _ q. q), q_set_used = (\<lambda>_ _ q. q), q_set_event_idx = (\<lambda>_ q. q),
     q_reset = (\<lambda>_. 0),
     vc_read_slice = (\<lambda>m a n. if unat a + n \<le> length (fst m) then Some (take n (drop (unat a) (fst m))) else None),
     vc_write_slice = (\<lambda>m bs a. if unat a + length bs \<le> length (fst m)
        then (True, (overwrite (unat a) bs (fst m), snd m)) else (False, m)),
     vc_pop = (\<lambda>m q. if q < length (fst (snd m)) then (Some (fst (snd m) ! q), Suc q) else (None, q)),
     vc_add_used = (\<lambda>m q h n. (True, (fst m, fst (snd m), snd (snd m) @ [(h, n)]), q)),
     deque_slices = (\<lambda>bs. (take 3 bs, drop 3 bs))\<rparr>"

definition rx_sample_avail :: "rx_memory \<Rightarrow> nat \<Rightarrow> (u16 \<times> chain_descriptor list) list" where
  "rx_sample_avail m q = drop q (fst (snd m))"

definition rx_sample_memory :: rx_memory where
  "rx_sample_memory = (replicate 64 0,
     [(7, [\<lparr>d_addr = 0, d_len = 2, d_write_only = True\<rparr>, \<lparr>d_addr = 10, d_len = 1, d_write_only = False\<rparr>,
           \<lparr>d_addr = 20, d_len = 3, d_write_only = True\<rparr>]),
      (8, [\<lparr>d_addr = 30, d_len = 4, d_write_only = True\<rparr>])], [])"

definition rx_sample_device :: "(rx_memory, nat) vc_device" where
  "rx_sample_device = (vc_new 0)\<lparr>vc_mem := Some rx_sample_memory, vc_status := 0xf, vc_driver_features := vc_device_features,
     vc_ports := [port_new PORT0_NAME, (port_new PORT1_NAME)\<lparr>opened := True\<rparr>, port_new PORT2_NAME]\<rparr>"

section \<open>Staging\<close>

lemma stage_rx_eq:
  assumes "fst sl @ snd sl = xs" and "off + n \<le> length xs"
  shows "stage_rx sl off n = take n (drop off xs)"
proof -
  have "xs = fst sl @ snd sl" using assms(1) by simp
  then show ?thesis using assms(2) by (auto simp: stage_rx_def Let_def min_def)
qed

section \<open>One chain\<close>

lemma rx_law_write:
  assumes "rx_laws api lay buffer avail used" and "lay m q" and "buffer a (length bs)" and "vc_write_slice api m bs a = (ok, m')"
  shows "lay m' q" "avail m' q = avail m q" "used m' q = used m q"
    "ok \<Longrightarrow> vc_read_slice api m' a (length bs) = Some bs"
    "rx_apart a (length bs) a' k \<Longrightarrow> vc_read_slice api m' a' k = vc_read_slice api m a' k"
  using assms(1) [unfolded rx_laws_def, THEN conjunct2, THEN conjunct2, THEN conjunct1, rule_format, OF assms(2-4)] by blast+

lemma rx_law_used:
  assumes "rx_laws api lay buffer avail used" and "lay m q" and "vc_add_used api m q h n = (ok, m', q')"
  shows "lay m' q'" "avail m' q' = avail m q" "used m' q' = used m q @ (if ok then [(h, n)] else [])"
    "buffer a k \<Longrightarrow> vc_read_slice api m' a k = vc_read_slice api m a k"
  using assms(1) [unfolded rx_laws_def, THEN conjunct2, THEN conjunct1, rule_format, OF assms(2,3)] by blast+

lemma rx_law_pop:
  assumes "rx_laws api lay buffer avail used" and "lay m q" and "vc_pop api m q = (r, q')"
  shows "lay m q'" "used m q' = used m q" "r = (case avail m q of [] \<Rightarrow> None | c # _ \<Rightarrow> Some c)" "avail m q' = tl (avail m q)"
  using assms(1) [unfolded rx_laws_def, THEN conjunct1, rule_format, OF assms(2,3)] by blast+

lemma rx_law_buffer:
  assumes "rx_laws api lay buffer avail used"
  shows "buffer a n \<Longrightarrow> k \<le> n \<Longrightarrow> buffer a k" and "fst (deque_slices api xs) @ snd (deque_slices api xs) = xs"
  using assms [unfolded rx_laws_def, THEN conjunct2, THEN conjunct2, THEN conjunct2] by blast+

lemma rx_view_cong:
  assumes "\<And>d k. d \<in> set ds \<Longrightarrow> d_write_only d \<Longrightarrow> k \<le> unat (d_len d) \<Longrightarrow>
    vc_read_slice api m' (d_addr d) k = vc_read_slice api m (d_addr d) k"
  shows "rx_view api m' ds n = rx_view api m ds n"
  using assms
proof (induction ds arbitrary: n)
  case (Cons d ds)
  then show ?case by (auto simp: Let_def)
qed simp

lemma rx_view_0: "rx_view api m ds 0 = []"
  by (induction ds) simp_all

lemma fill_two: "min r l + min x (r - min r l) = min (l + x) (r :: nat)"
  by linarith

lemma rx_frame_Cons: "rx_frame api lay avail used ds q m m' \<Longrightarrow> rx_frame api lay avail used (d # ds) q m m'"
  by (simp add: rx_frame_def off_buffers_def)

lemma rx_frame_trans:
  "rx_frame api lay avail used ds q m m1 \<Longrightarrow> rx_frame api lay avail used ds q m1 m2 \<Longrightarrow> rx_frame api lay avail used ds q m m2"
  by (simp add: rx_frame_def)

lemma rx_scatter_spec:
  assumes laws: "rx_laws api lay buffer avail used"
    and "buffers_apart ds" and "in_buffers buffer ds" and "lay m q" and "off \<le> length pending"
    and "rx_scatter api pending ds (m, off, w) = (torn, m', off', w')"
  shows "rx_frame api lay avail used ds q m m' \<and> (\<not> torn \<longrightarrow> off' = off + min (room ds) (length pending - off)
     \<and> w' = w + of_nat (off' - off) \<and> rx_view api m' ds (off' - off) = take (off' - off) (drop off pending))"
  using assms(2-)
proof (induction ds arbitrary: m off w)
  case Nil
  then show ?case by (simp add: rx_frame_def room_def)
next
  case (Cons d ds)
  have sub: "buffers_apart ds" "in_buffers buffer ds" using Cons.prems by (simp_all add: in_buffers_def)
  show ?case
  proof (cases "d_write_only d \<and> off < length pending")
    case False
    have "rx_scatter api pending ds (m, off, w) = (torn, m', off', w')"
      using Cons.prems(5) by (simp only: rx_scatter.simps prod.case if_not_P [OF False])
    note ih = Cons.IH [OF sub Cons.prems(3,4) this]
    have view: "rx_view api m' (d # ds) (off' - off) = rx_view api m' ds (off' - off)" if "\<not> torn"
      using ih that False Cons.prems(4) by (auto simp: Let_def rx_view_0)
    have room: "min (room (d # ds)) (length pending - off) = min (room ds) (length pending - off)"
      using False Cons.prems(4) by (auto simp: room_def)
    show ?thesis
    proof (intro conjI impI)
      show "rx_frame api lay avail used (d # ds) q m m'" by (rule rx_frame_Cons [OF ih [THEN conjunct1]])
      assume nt: "\<not> torn"
      show "off' = off + min (room (d # ds)) (length pending - off)" unfolding room using ih nt by blast
      show "w' = w + of_nat (off' - off)" using ih nt by blast
      show "rx_view api m' (d # ds) (off' - off) = take (off' - off) (drop off pending)" unfolding view [OF nt] using ih nt by blast
    qed
  next
    case True
    let ?n = "min (length pending - off) (unat (d_len d))"
    have le: "off + ?n \<le> length pending" using Cons.prems(4) by (auto simp: min_def)
    have st: "stage_rx (deque_slices api pending) off ?n = take ?n (drop off pending)"
      by (rule stage_rx_eq [OF rx_law_buffer(2) [OF laws] le])
    obtain ok m1 where wr: "vc_write_slice api m (take ?n (drop off pending)) (d_addr d) = (ok, m1)" by (metis surj_pair)
    have len: "length (take ?n (drop off pending)) = ?n" by simp
    have "buffer (d_addr d) (unat (d_len d))" using Cons.prems(2) True by (simp add: in_buffers_def)
    then have buf: "buffer (d_addr d) (length (take ?n (drop off pending)))" using rx_law_buffer(1) [OF laws] len by simp
    note law = rx_law_write [OF laws Cons.prems(3) buf wr]
    have shrunk: "off_buffers a k (d # ds) \<Longrightarrow> rx_apart (d_addr d) ?n a k" for a k
      using True by (auto simp: off_buffers_def rx_apart_def)
    have frame: "rx_frame api lay avail used (d # ds) q m m1"
      using law(1-3) law(5) [unfolded len, OF shrunk] by (simp add: rx_frame_def)
    show ?thesis
    proof (cases ok)
      case False
      then show ?thesis using Cons.prems(5) True wr frame by (simp add: Let_def st)
    next
      case ok: True
      let ?off = "off + ?n"
      have rest: "rx_scatter api pending ds (m1, ?off, w + of_nat ?n) = (torn, m', off', w')"
        using Cons.prems(5) True wr ok by (simp add: Let_def st)
      note ih = Cons.IH [OF sub law(1) le rest]
      have own: "off_buffers (d_addr d) ?n ds"
        using Cons.prems(1) True by (auto simp: off_buffers_def rx_apart_def list_all_iff)
      have rd: "vc_read_slice api m' (d_addr d) ?n = Some (take ?n (drop off pending))"
        using ih own law(4) [OF ok] len by (simp add: rx_frame_def)
      have "rx_frame api lay avail used (d # ds) q m m'"
        by (rule rx_frame_trans [OF frame rx_frame_Cons [OF ih [THEN conjunct1]]])
      moreover have "off' = off + min (room (d # ds)) (length pending - off) \<and> w' = w + of_nat (off' - off)
        \<and> rx_view api m' (d # ds) (off' - off) = take (off' - off) (drop off pending)" if "\<not> torn"
      proof -
        from ih that have off': "off' = ?off + min (room ds) (length pending - ?off)"
          and w': "w' = w + of_nat ?n + of_nat (off' - ?off)"
          and view: "rx_view api m' ds (off' - ?off) = take (off' - ?off) (drop ?off pending)" by blast+
        have k: "min (off' - off) (unat (d_len d)) = ?n" "off' - off = ?n + (off' - ?off)"
          using off' by (cases "unat (d_len d) \<le> length pending - off"; simp add: min_def)+
        have "room (d # ds) = unat (d_len d) + room ds" using True by (simp add: room_def)
        then have "off' = off + min (room (d # ds)) (length pending - off)"
          by (simp only: off' add.assoc diff_diff_left [symmetric] fill_two)
        moreover have "w' = w + of_nat (off' - off)" unfolding k(2) w' by (simp add: add.assoc)
        moreover have "rx_view api m' (d # ds) (off' - off) = take ?n (drop off pending) @ rx_view api m' ds (off' - ?off)"
          using True k rd by (auto simp: Let_def)
        moreover have "\<dots> = take (off' - off) (drop off pending)"
          unfolding k(2) take_add view by (simp add: add.commute)
        ultimately show ?thesis by simp
      qed
      ultimately show ?thesis by blast
    qed
  qed
qed

section \<open>The receive loop\<close>

lemma buffers_apart_append:
  "buffers_apart (xs @ ys) \<longleftrightarrow> buffers_apart xs \<and> buffers_apart ys
     \<and> (\<forall>d \<in> set xs. d_write_only d \<longrightarrow> off_buffers (d_addr d) (unat (d_len d)) ys)"
  by (induction xs) (auto simp: off_buffers_def)

lemma off_buffers_append: "off_buffers a k (xs @ ys) \<longleftrightarrow> off_buffers a k xs \<and> off_buffers a k ys"
  by (simp add: off_buffers_def)

lemma off_buffers_shrink: "off_buffers a n ds \<Longrightarrow> k \<le> n \<Longrightarrow> off_buffers a k ds"
  by (auto simp: off_buffers_def rx_apart_def list_all_iff)

text \<open>Publishing after the walk over a chain, whether or not the walk was torn.\<close>

lemma rx_published:
  assumes laws: "rx_laws api lay buffer avail used" and frame: "rx_frame api lay avail used ds q1 m m1"
    and add: "vc_add_used api m1 q1 h w = (ok, m2, q2)"
  shows "lay m2 q2" and "avail m2 q2 = avail m q1" and "used m2 q2 = used m q1 @ (if ok then [(h, w)] else [])"
    and "buffer a k \<Longrightarrow> vc_read_slice api m2 a k = vc_read_slice api m1 a k"
    and "buffer a k \<Longrightarrow> off_buffers a k ds \<Longrightarrow> vc_read_slice api m2 a k = vc_read_slice api m a k"
proof -
  have "lay m1 q1" using frame by (simp add: rx_frame_def)
  note law = rx_law_used [OF laws this add]
  with frame show "lay m2 q2" "avail m2 q2 = avail m q1" "used m2 q2 = used m q1 @ (if ok then [(h, w)] else [])"
    by (simp_all add: rx_frame_def)
  show same: "buffer a k \<Longrightarrow> vc_read_slice api m2 a k = vc_read_slice api m1 a k" for a k by (rule law(4))
  show "buffer a k \<Longrightarrow> off_buffers a k ds \<Longrightarrow> vc_read_slice api m2 a k = vc_read_slice api m a k"
    using frame same by (simp add: rx_frame_def)
qed

lemma rx_post_stop:
  assumes "used m2 q2 = used m q @ us" and "us = [] \<or> us = [(h, 0)]" and "avail m q = (h, ds) # cs"
  shows "rx_post api avail used m q pending (m2, q2, pending, tw)"
proof (cases "us = []")
  case True
  then show ?thesis using assms by (auto simp: rx_post_def rx_delivered_def intro: exI [of _ "[]"])
next
  case False
  then show ?thesis using assms
    by (auto simp: rx_post_def rx_delivered_def rx_view_0 intro!: exI [of _ "[0]"])
qed

lemma rx_post_step:
  assumes "rx_post api avail used m2 q2 (drop off pending) r" and "avail m q = (h, ds) # cs"
    and "avail m2 q2 = cs" and "used m2 q2 = used m q @ [(h, w)]" and "unat w = off"
    and "rx_view api (fst r) ds off = take off pending"
  shows "rx_post api avail used m q pending r"
proof -
  obtain m' q' pending' tw where r: "r = (m', q', pending', tw)" by (cases r)
  obtain ws where ws: "used m' q' = used m2 q2 @ map2 (\<lambda>c w. (fst c, w)) cs ws" "length ws \<le> length cs"
    "drop off pending = rx_delivered api m' cs ws @ pending'"
    using assms(1,3) by (auto simp: rx_post_def r)
  have "pending = take off pending @ drop off pending" by simp
  also have "\<dots> = rx_delivered api m' (avail m q) (w # ws) @ pending'"
    using assms(2,5,6) ws(3) by (simp add: rx_delivered_def r)
  finally show ?thesis
    using assms(2,4) ws(1,2) unfolding rx_post_def r prod.case by (intro exI [of _ "w # ws"]) simp
qed

lemma rx_drain_loop_spec:
  assumes laws: "rx_laws api lay buffer avail used"
    and "lay m q" and "buffers_apart (concat (map snd (avail m q)))" and "in_buffers buffer (concat (map snd (avail m q)))"
    and "length pending < 2 ^ 32"
  shows "rx_post api avail used m q pending (rx_drain_loop n api m q pending tw)
    \<and> (\<forall>a k. buffer a k \<longrightarrow> off_buffers a k (concat (map snd (avail m q)))
          \<longrightarrow> vc_read_slice api (fst (rx_drain_loop n api m q pending tw)) a k = vc_read_slice api m a k)"
  using assms(2-)
proof (induction n arbitrary: m q pending tw)
  case 0
  show ?case by (auto simp: rx_post_def rx_delivered_def intro: exI [of _ "[]"])
next
  case (Suc n)
  obtain r q1 where pop: "vc_pop api m q = (r, q1)" by (metis surj_pair)
  note q1 = rx_law_pop [OF laws Suc.prems(1) pop]
  show ?case
  proof (cases "pending = [] \<or> avail m q = []")
    case True
    then have "\<exists>q'. rx_drain_loop (Suc n) api m q pending tw = (m, q', pending, tw) \<and> used m q' = used m q"
      using pop q1(2,3) by (cases "pending = []") simp_all
    then show ?thesis by (auto simp: rx_post_def rx_delivered_def intro: exI [of _ "[]"])
  next
    case False
    then obtain h ds cs where av: "avail m q = (h, ds) # cs" by (cases "avail m q") auto
    have r: "r = Some (h, ds)" and ne: "pending \<noteq> []" using q1(3) av False by simp_all
    have bufs: "buffers_apart ds" "buffers_apart (concat (map snd cs))" "in_buffers buffer ds" "in_buffers buffer (concat (map snd cs))"
      and sep: "\<And>d. d \<in> set ds \<Longrightarrow> d_write_only d \<Longrightarrow> off_buffers (d_addr d) (unat (d_len d)) (concat (map snd cs))"
      using Suc.prems(2,3) by (simp_all add: av buffers_apart_append in_buffers_def)
    obtain torn m1 off w where sc: "rx_scatter api pending ds (m, 0, 0) = (torn, m1, off, w)" by (metis surj_pair)
    note spec = rx_scatter_spec [OF laws bufs(1,3) q1(1) le0 sc]
    obtain ok m2 q2 where add: "vc_add_used api m1 q1 h (if torn then 0 else w) = (ok, m2, q2)" by (metis surj_pair)
    note publ = rx_published [OF laws spec [THEN conjunct1] add]
    have q2: "avail m2 q2 = cs" "used m2 q2 = used m q @ (if ok then [(h, if torn then 0 else w)] else [])"
      using publ(2,3) q1(2,4) av by simp_all
    show ?thesis
    proof (cases "torn \<or> \<not> ok")
      case True
      then have "rx_drain_loop (Suc n) api m q pending tw = (m2, q2, pending, tw)"
        using ne add by (cases torn) (simp_all add: pop r sc)
      moreover have "rx_post api avail used m q pending (m2, q2, pending, tw)"
        
        by (rule rx_post_stop [where us = "if ok then [(h, if torn then 0 else w)] else []" and h = h and ds = ds and cs = cs])
          (use q2(2) True av in auto)
      moreover have "vc_read_slice api m2 a k = vc_read_slice api m a k"
        if "buffer a k" "off_buffers a k (concat (map snd (avail m q)))" for a k
        using that(2) by (intro publ(5) [OF that(1)]) (simp add: av off_buffers_append)
      ultimately show ?thesis by simp
    next
      case go: False
      let ?r = "rx_drain_loop n api m2 q2 (drop off pending) (tw + w)"
      have loop: "rx_drain_loop (Suc n) api m q pending tw = ?r"
        using ne add go by (simp add: pop r sc)
      have off: "off \<le> length pending" "w = of_nat off" "rx_view api m1 ds off = take off pending"
        using spec go by auto
      have w: "unat w = off" using off(1,2) Suc.prems(4) by (simp add: unat_of_nat_no_overflow)
      have ih: "rx_post api avail used m2 q2 (drop off pending) ?r \<and> (\<forall>a k. buffer a k \<longrightarrow> off_buffers a k (concat (map snd cs))
          \<longrightarrow> vc_read_slice api (fst ?r) a k = vc_read_slice api m2 a k)"
        using Suc.IH [OF publ(1), of "drop off pending" "tw + w"] bufs Suc.prems(4) by (simp add: q2(1))
      have "rx_view api (fst ?r) ds off = rx_view api m1 ds off"
      proof (rule rx_view_cong)
        fix d k assume d: "d \<in> set ds" "d_write_only d" "k \<le> unat (d_len d)"
        have "buffer (d_addr d) (unat (d_len d))" using d(1,2) bufs(3) by (auto simp: in_buffers_def list_all_iff)
        then have b: "buffer (d_addr d) k" using rx_law_buffer(1) [OF laws] d(3) by blast
        have "vc_read_slice api (fst ?r) (d_addr d) k = vc_read_slice api m2 (d_addr d) k"
          using ih [THEN conjunct2] b off_buffers_shrink [OF sep [OF d(1,2)] d(3)] by blast
        also have "\<dots> = vc_read_slice api m1 (d_addr d) k" by (rule publ(4) [OF b])
        finally show "vc_read_slice api (fst ?r) (d_addr d) k = vc_read_slice api m1 (d_addr d) k" .
      qed
      then have view: "rx_view api (fst ?r) ds off = take off pending" using off(3) by (rule trans)
      have pub: "used m2 q2 = used m q @ [(h, w)]" using q2(2) go by simp
      have "rx_post api avail used m q pending ?r"
        by (rule rx_post_step [where used = used and avail = avail and m = m and q = q, OF ih [THEN conjunct1] av q2(1) pub w view])
      then show ?thesis
        unfolding loop av
      proof (intro conjI allI impI)
        fix a k assume b: "buffer a k" and o: "off_buffers a k (concat (map snd ((h, ds) # cs)))"
        have "vc_read_slice api (fst ?r) a k = vc_read_slice api m2 a k"
          using ih [THEN conjunct2] b o by (simp add: off_buffers_append)
        also have "\<dots> = vc_read_slice api m a k" using o by (intro publ(5) [OF b]) (simp add: off_buffers_append)
        finally show "vc_read_slice api (fst ?r) a k = vc_read_slice api m a k" .
      qed
    qed
  qed
qed

section \<open>Progress\<close>

lemma rx_scatter_whole:
  assumes laws: "rx_laws api lay buffer avail used" and rel: "rx_reliable api lay buffer" and "in_buffers buffer ds"
    and "off \<le> length pending" and "lay m q"
  shows "\<not> fst (rx_scatter api pending ds (m, off, w))"
  using assms(3-)
proof (induction ds arbitrary: m off w)
  case (Cons d ds)
  let ?n = "min (length pending - off) (unat (d_len d))"
  have le: "off + ?n \<le> length pending" using Cons.prems(2) by (auto simp: min_def)
  have st: "stage_rx (deque_slices api pending) off ?n = take ?n (drop off pending)"
    by (rule stage_rx_eq [OF rx_law_buffer(2) [OF laws] le])
  have ds: "in_buffers buffer ds" using Cons.prems(1) by (simp add: in_buffers_def)
  show ?case
  proof (cases "d_write_only d \<and> off < length pending")
    case True
    obtain ok m1 where wr: "vc_write_slice api m (take ?n (drop off pending)) (d_addr d) = (ok, m1)" by (metis surj_pair)
    have buf: "buffer (d_addr d) (length (take ?n (drop off pending)))"
      using True Cons.prems(1) rx_law_buffer(1) [OF laws, of "d_addr d" "unat (d_len d)" ?n] by (simp add: in_buffers_def)
    have ok using rel Cons.prems(3) buf wr unfolding rx_reliable_def by (metis fst_conv)
    then have "rx_scatter api pending (d # ds) (m, off, w) = rx_scatter api pending ds (m1, off + ?n, w + of_nat ?n)"
      using True wr by (simp add: Let_def st)
    with Cons.IH [OF ds le rx_law_write(1) [OF laws Cons.prems(3) buf wr]] show ?thesis by simp
  next
    case False
    have "rx_scatter api pending (d # ds) (m, off, w) = rx_scatter api pending ds (m, off, w)"
      by (simp only: rx_scatter.simps prod.case if_not_P [OF False])
    with Cons.IH [OF ds Cons.prems(2,3)] show ?thesis by simp
  qed
qed simp

lemma rx_drain_loop_progress:
  assumes laws: "rx_laws api lay buffer avail used" and rel: "rx_reliable api lay buffer"
    and "lay m q" and "buffers_apart (concat (map snd (avail m q)))" and "in_buffers buffer (concat (map snd (avail m q)))"
    and "rx_drain_loop n api m q pending tw = (m', q', pending', tw')"
  shows "pending' = drop (chains_room (take n (avail m q))) pending"
  using assms(3-)
proof (induction n arbitrary: m q pending tw)
  case 0
  then show ?case by (simp add: chains_room_def)
next
  case (Suc n)
  obtain r q1 where pop: "vc_pop api m q = (r, q1)" by (metis surj_pair)
  note q1 = rx_law_pop [OF laws Suc.prems(1) pop]
  show ?case
  proof (cases "pending = [] \<or> avail m q = []")
    case True
    then show ?thesis using Suc.prems(4) pop q1(3) by (cases "pending = []") (simp_all add: chains_room_def)
  next
    case False
    then obtain h ds cs where av: "avail m q = (h, ds) # cs" by (cases "avail m q") auto
    have r: "r = Some (h, ds)" and ne: "pending \<noteq> []" using q1(3) av False by simp_all
    have bufs: "buffers_apart ds" "buffers_apart (concat (map snd cs))" "in_buffers buffer ds" "in_buffers buffer (concat (map snd cs))"
      using Suc.prems(2,3) by (simp_all add: av buffers_apart_append in_buffers_def)
    obtain torn m1 off w where sc: "rx_scatter api pending ds (m, 0, 0) = (torn, m1, off, w)" by (metis surj_pair)
    have whole: "\<not> torn" using rx_scatter_whole [OF laws rel bufs(3) le0 q1(1), of pending 0] sc by simp
    note spec = rx_scatter_spec [OF laws bufs(1,3) q1(1) le0 sc]
    obtain ok m2 q2 where add: "vc_add_used api m1 q1 h w = (ok, m2, q2)" by (metis surj_pair)
    have "lay m1 q1" using spec by (simp add: rx_frame_def)
    then have ok: ok using rel add unfolding rx_reliable_def by (metis fst_conv)
    note publ = rx_published [OF laws spec [THEN conjunct1] add]
    have q2: "avail m2 q2 = cs" using publ(2) q1(4) av by simp
    have "rx_drain_loop n api m2 q2 (drop off pending) (tw + w) = (m', q', pending', tw')"
      using Suc.prems(4) ne whole ok add by (simp add: pop r sc)
    from Suc.IH [OF publ(1) _ _ this] bufs have "pending' = drop (chains_room (take n cs)) (drop off pending)" by (simp add: q2)
    moreover have "drop off pending = drop (room ds) pending" using spec whole by (auto simp: min_def)
    ultimately show ?thesis by (simp add: av chains_room_def add.commute)
  qed
qed

section \<open>A sample queue\<close>

lemma rx_sample_laws:
  "rx_laws rx_api (\<lambda>m q. length (fst m) = 64) (\<lambda>a k. unat a + k \<le> 64) rx_sample_avail (\<lambda>m q. snd (snd m))"
proof -
  have "drop q xs = xs ! q # drop (Suc q) xs" if "q < length xs" for q and xs :: "(u16 \<times> chain_descriptor list) list"
    using that by (rule Cons_nth_drop_Suc [symmetric])
  then show ?thesis
    unfolding rx_laws_def
    by (intro conjI allI impI)
      (auto simp: rx_api_def rx_sample_avail_def rx_apart_def take_drop_overwrite_same take_drop_overwrite_other
        split: if_splits list.split)
qed

section \<open>Properties\<close>

text \<open>
  C3: bytes the host sends on a port reach the guest exactly once and in order. When the host queues input on an open
  port of a live device, the elements the device publishes stand for the first chains the guest made available, and what the guest
  reads from those chains, one after the other, followed by what stays pending, is what was pending before followed by the
  new bytes, whether or not a write or a publication fails on the way. When none fails, the first 64 chains
  are filled completely: only the bytes beyond their room stay pending.
\<close>

theorem host_input_delivered:
  assumes "rx_laws api lay buffer avail used" and "port_queues p = Some (rx, tx)" and "vc_mem d = Some m"
    and "lay m (vc_queues d ! rx)" and "buffers_apart (concat (map snd (avail m (vc_queues d ! rx))))"
    and "in_buffers buffer (concat (map snd (avail m (vc_queues d ! rx))))"
    and "length (pending_rx (vc_port_of p d) @ data) < 2 ^ 32"
    and "vc_live d" and "multiport_negotiated d" and "opened (vc_port_of p d)" and "q_ready api (vc_queues d ! rx)"
    and "length (vc_ports d) = 3" and "length (vc_queues d) = 8"
  shows "\<exists>d' m' ws. vc_queue_input api p data d = Returns d' \<and> vc_mem d' = Some m'
    \<and> used m' (vc_queues d' ! rx) = used m (vc_queues d ! rx) @ map2 (\<lambda>c w. (fst c, w)) (avail m (vc_queues d ! rx)) ws
    \<and> length ws \<le> length (avail m (vc_queues d ! rx))
    \<and> pending_rx (vc_port_of p d) @ data
        = rx_delivered api m' (avail m (vc_queues d ! rx)) ws @ pending_rx (vc_port_of p d')
    \<and> (rx_reliable api lay buffer \<longrightarrow> pending_rx (vc_port_of p d')
        = drop (chains_room (take 64 (avail m (vc_queues d ! rx)))) (pending_rx (vc_port_of p d) @ data))"
proof -
  have p: "p < 3" "rx < 8" using assms(2) by (auto simp: port_queues_def PORT0_RXQ_def PORT1_RXQ_def PORT2_RXQ_def split: if_splits)
  let ?q = "vc_queues d ! rx"
  let ?all = "pending_rx (vc_port_of p d) @ data"
  let ?d = "vc_upd_port p (\<lambda>p. p\<lparr>pending_rx := pending_rx p @ data\<rparr>) d"
  have d: "vc_mem ?d = Some m" "vc_queues ?d = vc_queues d" "pending_rx (vc_port_of p ?d) = ?all" "vc_live ?d" "multiport_negotiated ?d"
    "opened (vc_port_of p ?d)" "length (vc_ports ?d) = 3"
    using assms(3,8-10,12) p by (simp_all add: vc_upd_port_def vc_port_of_def vc_live_def multiport_negotiated_def)
  show ?thesis
  proof (cases "?all = []")
    case True
    then have "vc_queue_input api p data d = Returns ?d" using d(3) assms(2) by (simp add: vc_queue_input_def drain_pending_rx_def)
    with True d show ?thesis by (intro exI [of _ ?d] exI [of _ m] exI [of _ "[]"]) (simp add: rx_delivered_def)
  next
    case False
    obtain m' q' pending' tw where loop: "rx_drain_loop RX_CHAINS_PER_CALL_MAX api m ?q ?all 0 = (m', q', pending', tw)"
      by (metis surj_pair)
    let ?e = "vc_put_queue rx m' q' (vc_upd_port p (\<lambda>p. p\<lparr>pending_rx := pending'\<rparr>) ?d)"
    have run: "vc_queue_input api p data d = Returns (if 0 < tw then vc_signal_used ?e else ?e)"
      using False d assms(2,11) loop by (auto simp: vc_queue_input_def drain_pending_rx_def Let_def)
    have e: "vc_mem (if 0 < tw then vc_signal_used ?e else ?e) = Some m'" "vc_queues (if 0 < tw then vc_signal_used ?e else ?e) ! rx = q'"
      "pending_rx (vc_port_of p (if 0 < tw then vc_signal_used ?e else ?e)) = pending'"
      using p assms(12,13) by (simp_all add: vc_signal_used_def vc_put_queue_def vc_upd_port_def vc_port_of_def)
    have "rx_post api avail used m ?q ?all (m', q', pending', tw)"
      using rx_drain_loop_spec [OF assms(1,4-7), of RX_CHAINS_PER_CALL_MAX 0] unfolding loop by (rule conjunct1)
    then obtain ws where ws: "used m' q' = used m ?q @ map2 (\<lambda>c w. (fst c, w)) (avail m ?q) ws" "length ws \<le> length (avail m ?q)"
      "?all = rx_delivered api m' (avail m ?q) ws @ pending'" unfolding rx_post_def prod.case by blast
    show ?thesis
      unfolding run
    proof (intro exI conjI impI)
      let ?f = "if 0 < tw then vc_signal_used ?e else ?e"
      show "Returns ?f = Returns ?f" ..
      show "vc_mem ?f = Some m'" by (rule e(1))
      show "used m' (vc_queues ?f ! rx) = used m ?q @ map2 (\<lambda>c w. (fst c, w)) (avail m ?q) ws" unfolding e(2) by (rule ws(1))
      show "length ws \<le> length (avail m ?q)" by (rule ws(2))
      show "?all = rx_delivered api m' (avail m ?q) ws @ pending_rx (vc_port_of p ?f)" unfolding e(3) by (rule ws(3))
      assume "rx_reliable api lay buffer"
      from rx_drain_loop_progress [OF assms(1) this assms(4-6) loop]
      show "pending_rx (vc_port_of p ?f) = drop (chains_room (take 64 (avail m ?q))) ?all"
        unfolding e(3) by (simp only: RX_CHAINS_PER_CALL_MAX_def)
    qed
  qed
qed

theorem host_input_delivered_witness:
  "\<exists>d'. vc_queue_input rx_api 1 [1, 2, 3, 4, 5, 6, 7] rx_sample_device = Returns d' \<and> pending_rx (vc_port_of 1 d') = []"
proof -
  have dev: "port_queues 1 = Some (PORT1_RXQ, PORT1_TXQ)" "vc_mem rx_sample_device = Some rx_sample_memory"
    "vc_queues rx_sample_device ! PORT1_RXQ = 0" "pending_rx (vc_port_of 1 rx_sample_device) = []"
    "opened (vc_port_of 1 rx_sample_device)" "vc_live rx_sample_device" "multiport_negotiated rx_sample_device"
    "length (vc_ports rx_sample_device) = 3" "length (vc_queues rx_sample_device) = 8"
    by (simp_all add: rx_sample_device_def vc_new_def vc_port_of_def port_new_def vc_live_def multiport_negotiated_def
        port_queues_def PORT1_RXQ_def status_defs vc_device_features_def feature_bit_def VIRTIO_F_VERSION_1_def
        VIRTIO_CONSOLE_F_MULTIPORT_def rust_shl_def)
  have rel: "rx_reliable rx_api (\<lambda>m q. length (fst m) = 64) (\<lambda>a k. unat a + k \<le> 64)"
    by (simp add: rx_reliable_def rx_api_def)
  have "\<exists>d' m' ws. vc_queue_input rx_api 1 [1, 2, 3, 4, 5, 6, 7] rx_sample_device = Returns d' \<and> vc_mem d' = Some m'
    \<and> snd (snd m') = snd (snd rx_sample_memory) @ map2 (\<lambda>c w. (fst c, w)) (rx_sample_avail rx_sample_memory (vc_queues rx_sample_device ! PORT1_RXQ)) ws
    \<and> length ws \<le> length (rx_sample_avail rx_sample_memory (vc_queues rx_sample_device ! PORT1_RXQ))
    \<and> pending_rx (vc_port_of 1 rx_sample_device) @ [1, 2, 3, 4, 5, 6, 7]
        = rx_delivered rx_api m' (rx_sample_avail rx_sample_memory (vc_queues rx_sample_device ! PORT1_RXQ)) ws @ pending_rx (vc_port_of 1 d')
    \<and> (rx_reliable rx_api (\<lambda>m q. length (fst m) = 64) (\<lambda>a k. unat a + k \<le> 64) \<longrightarrow> pending_rx (vc_port_of 1 d')
        = drop (chains_room (take 64 (rx_sample_avail rx_sample_memory (vc_queues rx_sample_device ! PORT1_RXQ))))
            (pending_rx (vc_port_of 1 rx_sample_device) @ [1, 2, 3, 4, 5, 6, 7]))"
    by (rule host_input_delivered [OF rx_sample_laws dev(1,2)])
      (simp_all add: dev dev(4,5) [simplified], simp_all add: rx_sample_memory_def rx_sample_avail_def off_buffers_def rx_apart_def in_buffers_def rx_api_def)
  moreover have "chains_room (take 64 (rx_sample_avail rx_sample_memory (vc_queues rx_sample_device ! PORT1_RXQ))) = 9"
    by (simp add: dev rx_sample_avail_def rx_sample_memory_def chains_room_def room_def)
  ultimately show ?thesis using rel dev(4) by auto
qed

end
