(* ===== verification/Serial_Console.thy ===== *)
theory Serial_Console
  imports Rust_Prelude "HOL-Library.Sublist"
begin

text \<open>
  The serial console (\<^verbatim>\<open>src/vmm/console.rs\<close>): port dispatch, captured output with its cap,
  the notifier of the drain thread, and the resuming search \<open>output_contains\<close>.

  The 16550A register file is the crate \<^verbatim>\<open>vm_superio\<close>: a \<open>uart_api\<close> whose two functions map the
  register state and an access to the new register state with, for a write, the bytes
  appended to the writer and, for a read, the byte returned. The writer is the \<open>Vec<u8>\<close> the
  wrapper reads and trims. A counter-mode eventfd is its 64-bit counter; a write that would
  reach the maximum fails and leaves it, as the kernel does.

  The lemmas show that the search, which skips what it has scanned before, always agrees
  with a search of the whole buffer; that the buffer keeps within its cap; and that drains
  and buffer together hold the bytes the guest sent, in order.
\<close>

section \<open>The register file and the wrapper\<close>

record 'u uart_api =
  uart_init :: 'u
  uart_write :: "'u \<Rightarrow> u8 \<Rightarrow> u8 \<Rightarrow> 'u \<times> bytes"
  uart_read :: "'u \<Rightarrow> u8 \<Rightarrow> 'u \<times> u8"

definition COM1_BASE :: u16 where "COM1_BASE = 0x3F8"

definition COM2_BASE :: u16 where "COM2_BASE = 0x2F8"

definition NUM_REGS :: u16 where "NUM_REGS = 8"

definition OUTPUT_CAP_BYTES :: nat where "OUTPUT_CAP_BYTES = 4 * 1024 * 1024"

definition OUTPUT_TRIM_TARGET :: nat where "OUTPUT_TRIM_TARGET = 3 * 1024 * 1024"

record 'u serial =
  com_base :: u16
  regs :: 'u
  writer :: bytes
  data_evt :: "u64 option"
  contains_cursor :: "(bytes \<times> nat) option"

definition serial_new :: "'u uart_api \<Rightarrow> u16 \<Rightarrow> 'u serial" where
  "serial_new api b =
     \<lparr>com_base = b, regs = uart_init api, writer = [], data_evt = None, contains_cursor = None\<rparr>"

definition install_data_evt :: "'u serial \<Rightarrow> 'u serial" where
  "install_data_evt s = s\<lparr>data_evt := Some 0\<rparr>"

text \<open>\<open>EventFd::write(1)\<close>.\<close>

definition eventfd_bump :: "u64 \<Rightarrow> u64" where
  "eventfd_bump c = (if unat c + 1 < 2 ^ 64 - 1 then c + 1 else c)"

definition signal_if_writer_grew :: "'u serial \<Rightarrow> nat \<Rightarrow> 'u serial" where
  "signal_if_writer_grew s pre_len =
     (if length (writer s) > pre_len
      then (case data_evt s of
              Some c \<Rightarrow> s\<lparr>data_evt := Some (eventfd_bump c)\<rparr>
            | None \<Rightarrow> s)
      else s)"

definition enforce_output_cap :: "'u serial \<Rightarrow> 'u serial" where
  "enforce_output_cap s =
     (let len = length (writer s) in
      if len \<le> OUTPUT_CAP_BYTES then s
      else let drop_count = len - OUTPUT_TRIM_TARGET in
           s\<lparr>writer := drop drop_count (writer s), contains_cursor := None\<rparr>)"

definition offset :: "'u serial \<Rightarrow> u16 \<Rightarrow> u8 option" where
  "offset s port =
     (if port \<ge> com_base s \<and> port < com_base s + NUM_REGS then Some (ucast (port - com_base s)) else None)"

definition inner_write :: "'u uart_api \<Rightarrow> 'u serial \<Rightarrow> u8 \<Rightarrow> u8 \<Rightarrow> 'u serial" where
  "inner_write api s off byte =
     (let pre = length (writer s);
          (u, out) = uart_write api (regs s) off byte;
          s = s\<lparr>regs := u, writer := writer s @ out\<rparr> in
      enforce_output_cap (signal_if_writer_grew s pre))"

definition inner_read :: "'u uart_api \<Rightarrow> 'u serial \<Rightarrow> u8 \<Rightarrow> 'u serial \<times> u8" where
  "inner_read api s off = (let (u, b) = uart_read api (regs s) off in (s\<lparr>regs := u\<rparr>, b))"

text \<open>
  The port handlers return the new state and whether the port is theirs; \<open>handle_in\<close> also
  returns the caller's buffer.
\<close>

definition handle_out :: "'u uart_api \<Rightarrow> 'u serial \<Rightarrow> u16 \<Rightarrow> bytes \<Rightarrow> 'u serial \<times> bool" where
  "handle_out api s port data =
     (case offset s port of
        None \<Rightarrow> (s, False)
      | Some off \<Rightarrow>
          if length data \<noteq> 1 then (s, True)
          else
            let pre = length (writer s);
                (u, out) = uart_write api (regs s) off (data ! 0);
                s = s\<lparr>regs := u, writer := writer s @ out\<rparr>;
                s = signal_if_writer_grew s pre;
                s = enforce_output_cap s in
            (s, True))"

definition handle_in ::
  "'u uart_api \<Rightarrow> 'u serial \<Rightarrow> u16 \<Rightarrow> bytes \<Rightarrow> 'u serial \<times> bytes \<times> bool" where
  "handle_in api s port data =
     (case offset s port of
        None \<Rightarrow> (s, data, False)
      | Some off \<Rightarrow>
          if length data \<noteq> 1 then (s, data, True)
          else let (u, b) = uart_read api (regs s) off in (s\<lparr>regs := u\<rparr>, data[0 := b], True))"

definition drain_output :: "'u serial \<Rightarrow> 'u serial \<times> bytes" where
  "drain_output s = (s\<lparr>contains_cursor := None, writer := []\<rparr>, writer s)"

text \<open>\<open>slice::windows\<close>: every run of \<open>n\<close> adjacent elements, from the left.\<close>

definition slice_windows :: "nat \<Rightarrow> 'a list \<Rightarrow> 'a list list" where
  "slice_windows n xs = map (\<lambda>i. take n (drop i xs)) [0..<length xs + 1 - n]"

definition output_contains :: "'u serial \<Rightarrow> bytes \<Rightarrow> 'u serial \<times> bool" where
  "output_contains s needle =
     (if needle = [] then (s, True)
      else if length (writer s) < length needle then (s, False)
      else
        let resume_from =
              (case contains_cursor s of
                 Some (cached, scanned_len) \<Rightarrow>
                   if cached = needle then scanned_len - (length needle - 1) else 0
               | None \<Rightarrow> 0);
            resume_from = min resume_from (length (writer s) - (length needle - 1));
            tail = drop resume_from (writer s);
            found = list_ex (\<lambda>w. w = needle) (slice_windows (length needle) tail) in
        if found then (s\<lparr>contains_cursor := None\<rparr>, True)
        else (s\<lparr>contains_cursor := Some (needle, length (writer s))\<rparr>, False))"

section \<open>Histories\<close>

text \<open>
  A history is any sequence of the wrapper's operations. \<open>serial_step\<close> performs one and
  reports what it handed out: the bytes the register file appended and the bytes drained.
\<close>

datatype serial_op =
  GuestOut u16 bytes | GuestIn u16 bytes | Drain | Search bytes | InstallEvt

definition emitted :: "'u uart_api \<Rightarrow> 'u serial \<Rightarrow> serial_op \<Rightarrow> bytes" where
  "emitted api s oper =
     (case oper of
        GuestOut port data \<Rightarrow>
          (case offset s port of
             Some off \<Rightarrow>
               if length data = 1 then snd (uart_write api (regs s) off (data ! 0)) else []
           | None \<Rightarrow> [])
      | _ \<Rightarrow> [])"

definition drained :: "'u serial \<Rightarrow> serial_op \<Rightarrow> bytes" where
  "drained s oper = (if oper = Drain then snd (drain_output s) else [])"

definition serial_step :: "'u uart_api \<Rightarrow> 'u serial \<Rightarrow> serial_op \<Rightarrow> 'u serial" where
  "serial_step api s oper =
     (case oper of
        GuestOut port data \<Rightarrow> fst (handle_out api s port data)
      | GuestIn port data \<Rightarrow> fst (handle_in api s port data)
      | Drain \<Rightarrow> fst (drain_output s)
      | Search needle \<Rightarrow> fst (output_contains s needle)
      | InstallEvt \<Rightarrow> install_data_evt s)"

fun serial_run :: "'u uart_api \<Rightarrow> 'u serial \<Rightarrow> serial_op list \<Rightarrow> 'u serial" where
  "serial_run api s [] = s"
| "serial_run api s (x # xs) = serial_run api (serial_step api s x) xs"

fun run_emitted :: "'u uart_api \<Rightarrow> 'u serial \<Rightarrow> serial_op list \<Rightarrow> bytes" where
  "run_emitted api s [] = []"
| "run_emitted api s (x # xs) = emitted api s x @ run_emitted api (serial_step api s x) xs"

fun run_drained :: "'u uart_api \<Rightarrow> 'u serial \<Rightarrow> serial_op list \<Rightarrow> bytes" where
  "run_drained api s [] = []"
| "run_drained api s (x # xs) = drained s x @ run_drained api (serial_step api s x) xs"

text \<open>
  The invariant: the buffer is within the cap, and the cursor marks a prefix of the buffer
  that does not hold the cached needle.
\<close>

definition serial_ok :: "'u serial \<Rightarrow> bool" where
  "serial_ok s \<longleftrightarrow>
     length (writer s) \<le> OUTPUT_CAP_BYTES \<and>
     (case contains_cursor s of
        None \<Rightarrow> True
      | Some (needle, n) \<Rightarrow>
          n \<le> length (writer s) \<and> \<not> sublist needle (take n (writer s)))"

section \<open>Specification functions and sample values\<close>

text \<open>
  A register file that appends every byte written to the data register and ignores the
  other registers, for concrete runs.
\<close>

definition plain_uart :: "unit uart_api" where
  "plain_uart = \<lparr>uart_init = (), uart_write = \<lambda>u off b. (u, if off = 0 then [b] else []),
     uart_read = \<lambda>u off. (u, 0)\<rparr>"

section \<open>Search\<close>

lemma slice_windows_sublist:
  assumes "xs \<noteq> []"
  shows "list_ex (\<lambda>w. w = xs) (slice_windows (length xs) ys) \<longleftrightarrow> sublist xs ys"
proof
  assume "list_ex (\<lambda>w. w = xs) (slice_windows (length xs) ys)"
  then obtain i where "take (length xs) (drop i ys) = xs"
    unfolding slice_windows_def list_ex_iff by auto metis
  then have "ys = take i ys @ xs @ drop (length xs) (drop i ys)"
    by (metis append_take_drop_id)
  then show "sublist xs ys" unfolding sublist_def by blast
next
  assume "sublist xs ys"
  then obtain ps ss where ys: "ys = ps @ xs @ ss" by (auto simp: sublist_def)
  then have "length ps < length ys + 1 - length xs" by simp
  moreover have "take (length xs) (drop (length ps) ys) = xs" using ys by simp
  ultimately show "list_ex (\<lambda>w. w = xs) (slice_windows (length xs) ys)"
    unfolding slice_windows_def list_ex_iff set_map by force
qed

text \<open>
  An occurrence that is not within the scanned prefix starts at most \<open>length xs - 1\<close> before
  its end, so it lies in the tail the search resumes from.
\<close>

lemma sublist_resume:
  assumes "\<not> sublist xs (take n ys)" and "k \<le> n - (length xs - 1)" and "n \<le> length ys"
  shows "sublist xs (drop k ys) \<longleftrightarrow> sublist xs ys"
proof
  assume "sublist xs (drop k ys)"
  then show "sublist xs ys" by (meson sublist_drop sublist_order.order_trans)
next
  assume "sublist xs ys"
  then obtain ps ss where ys: "ys = ps @ xs @ ss" by (auto simp: sublist_def)
  have "n < length ps + length xs"
  proof (rule ccontr)
    assume "\<not> n < length ps + length xs"
    then have "take n ys = ps @ xs @ take (n - length ps - length xs) ss" using ys by simp
    with assms(1) show False by simp
  qed
  with assms(2) have "k \<le> length ps" by linarith
  then have "drop k ys = drop k ps @ xs @ ss" using ys by simp
  then show "sublist xs (drop k ys)" by simp
qed

lemma output_contains_correct:
  assumes "serial_ok s"
  shows "snd (output_contains s needle) \<longleftrightarrow> sublist needle (writer s)"
proof (cases "needle = [] \<or> length (writer s) < length needle")
  case True
  then show ?thesis by (auto simp: output_contains_def dest: sublist_length_le)
next
  case False
  define k where "k = min (case contains_cursor s of
      Some (cached, scanned_len) \<Rightarrow>
        if cached = needle then scanned_len - (length needle - 1) else 0
    | None \<Rightarrow> 0) (length (writer s) - (length needle - 1))"
  have "sublist needle (drop k (writer s)) \<longleftrightarrow> sublist needle (writer s)"
  proof (cases "\<exists>n. contains_cursor s = Some (needle, n)")
    case True
    then obtain n where c: "contains_cursor s = Some (needle, n)" ..
    with assms have "\<not> sublist needle (take n (writer s))" "n \<le> length (writer s)"
      by (simp_all add: serial_ok_def)
    moreover have "k \<le> n - (length needle - 1)" using c by (simp add: k_def)
    ultimately show ?thesis by (intro sublist_resume)
  next
    case no: False
    then have "k = 0" by (auto simp: k_def split: option.split)
    then show ?thesis by simp
  qed
  moreover have "snd (output_contains s needle) \<longleftrightarrow>
    list_ex (\<lambda>w. w = needle) (slice_windows (length needle) (drop k (writer s)))"
    using False by (simp add: output_contains_def k_def Let_def)
  ultimately show ?thesis using False by (simp add: slice_windows_sublist)
qed

section \<open>Preservation\<close>

lemma serial_ok_new: "serial_ok (serial_new api b)"
  by (simp add: serial_ok_def serial_new_def)

lemma signal_if_writer_grew_keeps [simp]:
  "writer (signal_if_writer_grew s n) = writer s"
  "contains_cursor (signal_if_writer_grew s n) = contains_cursor s"
  "regs (signal_if_writer_grew s n) = regs s"
  "com_base (signal_if_writer_grew s n) = com_base s"
  by (simp_all add: signal_if_writer_grew_def split: option.split)

lemma handle_out_dropped:
  "offset s port = None \<or> length data \<noteq> 1 \<Longrightarrow> fst (handle_out api s port data) = s"
  by (auto simp: handle_out_def split: option.split)

lemma handle_out_inner_write:
  "offset s port = Some off \<Longrightarrow> handle_out api s port [b] = (inner_write api s off b, True)"
  by (simp add: handle_out_def inner_write_def Let_def split: prod.split)

lemma sublist_take_append:
  "n \<le> length xs \<Longrightarrow> take n (xs @ ys) = take n xs"
  by simp

lemma cap_over_target: "OUTPUT_TRIM_TARGET < OUTPUT_CAP_BYTES"
  by (simp add: OUTPUT_TRIM_TARGET_def OUTPUT_CAP_BYTES_def)

lemma enforce_output_cap_ok:
  assumes "case contains_cursor s of None \<Rightarrow> True
    | Some (needle, n) \<Rightarrow> n \<le> length (writer s) \<and> \<not> sublist needle (take n (writer s))"
  shows "serial_ok (enforce_output_cap s)"
  using assms cap_over_target by (auto simp: serial_ok_def enforce_output_cap_def Let_def)

lemma inner_write_ok:
  assumes "serial_ok s"
  shows "serial_ok (inner_write api s off b)"
proof -
  obtain u out where w: "uart_write api (regs s) off b = (u, out)" by fastforce
  show ?thesis
    using assms unfolding inner_write_def Let_def w prod.case
    by (intro enforce_output_cap_ok) (auto simp: serial_ok_def split: option.splits)
qed

lemma output_contains_state:
  "writer (fst (output_contains s needle)) = writer s"
  "com_base (fst (output_contains s needle)) = com_base s"
  "regs (fst (output_contains s needle)) = regs s"
  "data_evt (fst (output_contains s needle)) = data_evt s"
  by (simp_all add: output_contains_def Let_def)

lemma output_contains_cursor:
  "contains_cursor (fst (output_contains s needle)) \<in>
     (if snd (output_contains s needle) then {None, contains_cursor s}
      else {contains_cursor s, Some (needle, length (writer s))})"
  by (simp add: output_contains_def Let_def)

lemma output_contains_ok:
  assumes "serial_ok s"
  shows "serial_ok (fst (output_contains s needle))"
proof -
  have "contains_cursor (fst (output_contains s needle)) = Some (needle, length (writer s)) \<Longrightarrow>
      \<not> snd (output_contains s needle) \<or> contains_cursor s = Some (needle, length (writer s))"
    using output_contains_cursor [of s needle] by (auto split: if_splits)
  with assms output_contains_cursor [of s needle] output_contains_correct [OF assms, of needle]
  show ?thesis
    by (auto simp: serial_ok_def output_contains_state split: if_splits option.splits)
qed

lemma serial_step_ok:
  assumes "serial_ok s"
  shows "serial_ok (serial_step api s oper)"
proof (cases oper)
  case (GuestOut port data)
  show ?thesis
  proof (cases "offset s port = None \<or> length data \<noteq> 1")
    case True
    with assms GuestOut show ?thesis by (simp add: serial_step_def handle_out_dropped)
  next
    case False
    then obtain off b where "offset s port = Some off" "data = [b]"
      by (auto simp: length_Suc_conv)
    with assms GuestOut show ?thesis
      by (simp add: serial_step_def handle_out_inner_write inner_write_ok)
  qed
next
  case (GuestIn port data)
  with assms show ?thesis
    by (auto simp: serial_step_def handle_in_def serial_ok_def split: option.split prod.split)
next
  case Drain
  then show ?thesis by (simp add: serial_step_def drain_output_def serial_ok_def)
next
  case (Search needle)
  with assms show ?thesis by (simp add: serial_step_def output_contains_ok)
next
  case InstallEvt
  with assms show ?thesis
    by (auto simp: serial_step_def install_data_evt_def serial_ok_def split: option.split)
qed

lemma serial_run_ok: "serial_ok s \<Longrightarrow> serial_ok (serial_run api s ops)"
  by (induction ops arbitrary: s) (simp_all add: serial_step_ok)

section \<open>What the buffer holds\<close>

lemma enforce_output_cap_writer:
  "suffix (writer (enforce_output_cap s)) (writer s) \<and>
   min OUTPUT_TRIM_TARGET (length (writer s)) \<le> length (writer (enforce_output_cap s)) \<and>
   (length (writer s) \<le> OUTPUT_CAP_BYTES \<longrightarrow> enforce_output_cap s = s)"
  using cap_over_target by (auto simp: enforce_output_cap_def Let_def suffix_drop)

lemma handle_out_stream:
  "suffix (writer (fst (handle_out api s port data))) (writer s @ emitted api s (GuestOut port data)) \<and>
   min OUTPUT_TRIM_TARGET (length (writer s @ emitted api s (GuestOut port data)))
     \<le> length (writer (fst (handle_out api s port data))) \<and>
   (length (writer s @ emitted api s (GuestOut port data)) \<le> OUTPUT_CAP_BYTES \<longrightarrow>
      writer (fst (handle_out api s port data)) = writer s @ emitted api s (GuestOut port data))"
proof (cases "offset s port = None \<or> length data \<noteq> 1")
  case True
  then have "emitted api s (GuestOut port data) = []"
    by (auto simp: emitted_def split: option.split)
  with True show ?thesis by (simp add: handle_out_dropped)
next
  case False
  then obtain off b where o: "offset s port = Some off" "data = [b]"
    by (auto simp: length_Suc_conv)
  obtain u out where w: "uart_write api (regs s) off b = (u, out)" by fastforce
  define t where
    "t = signal_if_writer_grew (s\<lparr>regs := u, writer := writer s @ out\<rparr>) (length (writer s))"
  have "fst (handle_out api s port data) = enforce_output_cap t"
    using o w by (simp add: handle_out_inner_write inner_write_def t_def)
  moreover have "writer t = writer s @ emitted api s (GuestOut port data)"
    using o w by (simp add: t_def emitted_def)
  ultimately show ?thesis using enforce_output_cap_writer [of t] by auto
qed

lemma serial_step_stream:
  assumes "oper \<noteq> Drain"
  shows "suffix (writer (serial_step api s oper)) (writer s @ emitted api s oper) \<and>
    min OUTPUT_TRIM_TARGET (length (writer s @ emitted api s oper))
      \<le> length (writer (serial_step api s oper)) \<and>
    (length (writer s @ emitted api s oper) \<le> OUTPUT_CAP_BYTES \<longrightarrow>
       writer (serial_step api s oper) = writer s @ emitted api s oper)"
proof (cases oper)
  case (GuestOut port data)
  then show ?thesis using handle_out_stream [of api s port data] by (simp add: serial_step_def)
next
  case (GuestIn port data)
  then have "writer (serial_step api s oper) = writer s"
    by (simp add: serial_step_def handle_in_def split: option.split prod.split)
  with GuestIn show ?thesis by (simp add: emitted_def)
qed (use assms in \<open>simp_all add: serial_step_def emitted_def output_contains_state
  install_data_evt_def\<close>)

text \<open>Between two drains the buffer is the most recent output.\<close>

lemma serial_run_recent:
  "Drain \<notin> set ops \<Longrightarrow>
   suffix (writer (serial_run api s ops)) (writer s @ run_emitted api s ops) \<and>
   min OUTPUT_TRIM_TARGET (length (writer s @ run_emitted api s ops))
     \<le> length (writer (serial_run api s ops))"
proof (induction ops arbitrary: s)
  case Nil
  then show ?case by simp
next
  case (Cons x xs)
  define t where "t = serial_step api s x"
  from Cons.prems have x: "x \<noteq> Drain" and "Drain \<notin> set xs" by auto
  from Cons.IH [OF this(2), of t]
  have ih: "suffix (writer (serial_run api t xs)) (writer t @ run_emitted api t xs)"
    "min OUTPUT_TRIM_TARGET (length (writer t @ run_emitted api t xs))
      \<le> length (writer (serial_run api t xs))" by simp_all
  note step = serial_step_stream [OF x, of api s, folded t_def]
  note len = step [THEN conjunct2, THEN conjunct1]
  from step [THEN conjunct1] obtain lost where lost: "writer s @ emitted api s x = lost @ writer t"
    unfolding suffix_def ..
  have eq: "writer s @ run_emitted api s (x # xs) = lost @ writer t @ run_emitted api t xs"
  proof -
    have "writer s @ run_emitted api s (x # xs) =
        (writer s @ emitted api s x) @ run_emitted api t xs" by (simp add: t_def)
    also have "\<dots> = (lost @ writer t) @ run_emitted api t xs" by (simp only: lost)
    finally show ?thesis by simp
  qed
  from ih(1) have "suffix (writer (serial_run api t xs)) (lost @ writer t @ run_emitted api t xs)"
    by (rule suffix_appendI)
  moreover have "length (lost @ writer t) = length (writer s @ emitted api s x)"
    by (simp only: lost)
  then have "min OUTPUT_TRIM_TARGET (length (lost @ writer t @ run_emitted api t xs))
    \<le> length (writer (serial_run api t xs))"
    using ih(2) len by (simp add: min_def split: if_splits)
  ultimately show ?case unfolding eq by (simp add: t_def)
qed

text \<open>
  Drains and buffer together are the output in order, with nothing missing as long as it
  fits below the cap.
\<close>

lemma serial_run_complete:
  "length (writer s @ run_emitted api s ops) \<le> OUTPUT_CAP_BYTES \<Longrightarrow>
   run_drained api s ops @ writer (serial_run api s ops) = writer s @ run_emitted api s ops"
proof (induction ops arbitrary: s)
  case Nil
  then show ?case by simp
next
  case (Cons x xs)
  define t where "t = serial_step api s x"
  have step: "drained s x @ writer t = writer s @ emitted api s x"
  proof (cases "x = Drain")
    case True
    then show ?thesis by (simp add: t_def drained_def serial_step_def drain_output_def emitted_def)
  next
    case False
    with serial_step_stream [OF False, of api s] Cons.prems show ?thesis
      by (simp add: t_def drained_def)
  qed
  have "length (drained s x @ writer t) = length (writer s @ emitted api s x)"
    by (simp only: step)
  then have "length (writer t) \<le> length (writer s @ emitted api s x)" by simp
  with Cons.prems have "length (writer t @ run_emitted api t xs) \<le> OUTPUT_CAP_BYTES"
    by (simp add: t_def)
  then have "run_drained api t xs @ writer (serial_run api t xs) = writer t @ run_emitted api t xs"
    by (rule Cons.IH)
  then have "drained s x @ run_drained api t xs @ writer (serial_run api t xs) =
      (drained s x @ writer t) @ run_emitted api t xs" by simp
  then show ?case unfolding step by (simp add: t_def)
qed

lemma serial_run_ordered:
  "subseq (run_drained api s ops @ writer (serial_run api s ops)) (writer s @ run_emitted api s ops)"
proof (induction ops arbitrary: s)
  case Nil
  then show ?case by simp
next
  case (Cons x xs)
  define t where "t = serial_step api s x"
  have "subseq (drained s x @ writer t) (writer s @ emitted api s x)"
  proof (cases "x = Drain")
    case True
    then show ?thesis by (simp add: t_def drained_def serial_step_def drain_output_def emitted_def)
  next
    case False
    from serial_step_stream [OF this, of api s, THEN conjunct1]
    have "subseq (writer t) (writer s @ emitted api s x)"
      unfolding t_def by (rule suffix_imp_subseq)
    with False show ?thesis by (simp add: drained_def)
  qed
  then have whole: "subseq ((drained s x @ writer t) @ run_emitted api t xs)
      ((writer s @ emitted api s x) @ run_emitted api t xs)"
    by (rule list_emb_append_mono) simp
  have "subseq (drained s x @ run_drained api t xs @ writer (serial_run api t xs))
      (drained s x @ writer t @ run_emitted api t xs)"
    by (rule list_emb_append_mono [OF _ Cons.IH]) simp
  also note whole [unfolded append_assoc]
  finally show ?case by (simp add: t_def)
qed

section \<open>Properties\<close>

text \<open>
  C32: after any sequence of guest port accesses, drains, searches and notifier installations,
  \<open>output_contains\<close> answers exactly whether the needle occurs in the captured output,
  although it skips what earlier searches have scanned; and it leaves the output as it is.
\<close>

theorem output_contains_exact:
  "(let s = serial_run api (serial_new api b) ops in
    (snd (output_contains s needle) \<longleftrightarrow> sublist needle (writer s)) \<and>
    writer (fst (output_contains s needle)) = writer s)"
  unfolding Let_def
  by (intro conjI output_contains_correct serial_run_ok serial_ok_new output_contains_state)

text \<open>
  C33: after any history the captured output is at most the cap long, the drained chunks
  followed by the buffer are a subsequence of what the register file emitted, and they
  are all of it when that fits below the cap; with no drain in the history the buffer is a
  suffix of the output holding at least its last \<open>OUTPUT_TRIM_TARGET\<close> bytes.
\<close>

theorem serial_output_stream:
  assumes "s = serial_run api (serial_new api b) ops"
    and "out = run_emitted api (serial_new api b) ops"
    and "got = run_drained api (serial_new api b) ops @ writer s"
  shows "length (writer s) \<le> OUTPUT_CAP_BYTES \<and>
    subseq got out \<and>
    (length out \<le> OUTPUT_CAP_BYTES \<longrightarrow> got = out) \<and>
    (Drain \<notin> set ops \<longrightarrow>
       suffix (writer s) out \<and> min OUTPUT_TRIM_TARGET (length out) \<le> length (writer s))"
proof -
  have w: "writer (serial_new api b) = []" by (simp add: serial_new_def)
  have "serial_ok s" unfolding assms(1) by (rule serial_run_ok [OF serial_ok_new])
  moreover note serial_run_ordered [of api "serial_new api b" ops]
    serial_run_complete [of "serial_new api b" api ops]
    serial_run_recent [of ops api "serial_new api b"]
  ultimately show ?thesis by (simp add: assms w serial_ok_def)
qed

theorem serial_output_stream_witness:
  "(let ops = [GuestOut 0x2F8 [72], Search [73, 74], GuestOut 0x2F8 [73], GuestOut 0x3F8 [7],
       GuestOut 0x2F9 [7], Drain, GuestOut 0x2F8 [74]];
      s = serial_run plain_uart (serial_new plain_uart COM2_BASE) ops in
    writer s = [74] \<and> run_drained plain_uart (serial_new plain_uart COM2_BASE) ops = [72, 73] \<and>
    subseq ([72, 73] @ writer s) (run_emitted plain_uart (serial_new plain_uart COM2_BASE) ops))"
proof -
  define ops where "ops = [GuestOut 0x2F8 [72], Search [73, 74], GuestOut 0x2F8 [73],
    GuestOut 0x3F8 [7], GuestOut 0x2F9 [7], Drain, GuestOut 0x2F8 [74]]"
  define s where "s = serial_run plain_uart (serial_new plain_uart COM2_BASE) ops"
  have d: "run_drained plain_uart (serial_new plain_uart COM2_BASE) ops = [72, 73]"
    and w: "writer s = [74]"
    by (simp_all add: ops_def s_def plain_uart_def serial_new_def COM2_BASE_def NUM_REGS_def
      serial_step_def drained_def handle_out_def offset_def signal_if_writer_grew_def
      enforce_output_cap_def OUTPUT_CAP_BYTES_def output_contains_def drain_output_def)
  from serial_output_stream [of s plain_uart COM2_BASE ops, OF s_def refl refl] show ?thesis
    unfolding Let_def ops_def [symmetric] s_def [symmetric] d by (simp add: w)
qed

end
