(* ===== verification/Token_Bucket.thy ===== *)
theory Token_Bucket
  imports Rust_Prelude
begin

text \<open>
  The throttle of the block device: \<^verbatim>\<open>src/vmm/virtio_blk/throttle.rs\<close> and the throttle part
  of \<^verbatim>\<open>src/vmm/disk_config.rs\<close>. The clock is an argument: every operation takes the reading
  of \<^verbatim>\<open>Instant::now()\<close> in nanoseconds, and the theorems assume of it only that it does not
  run backwards and stays below \<open>2\<^sup>6\<^sup>4\<close>. Unsigned quantities are naturals kept in range by the
  invariant, the balance is an integer with the saturating 64-bit operations written out,
  and the 128-bit product of the refill is taken modulo \<open>2\<^sup>1\<^sup>2\<^sup>8\<close>.
\<close>

section \<open>Saturating and converting arithmetic\<close>

definition I64_MAX :: int where "I64_MAX = 2 ^ 63 - 1"
definition I64_MIN :: int where "I64_MIN = - (2 ^ 63)"
definition U64_MAX :: nat where "U64_MAX = 2 ^ 64 - 1"

definition i64_try_from :: "nat \<Rightarrow> int option" where
  "i64_try_from n = (if int n \<le> I64_MAX then Some (int n) else None)"

definition i64_or_max :: "nat \<Rightarrow> int" where
  "i64_or_max n = (case i64_try_from n of Some i \<Rightarrow> i | None \<Rightarrow> I64_MAX)"

definition u64_or_max :: "nat \<Rightarrow> nat" where
  "u64_or_max n = (if n \<le> U64_MAX then n else U64_MAX)"

definition i64_saturating_add :: "int \<Rightarrow> int \<Rightarrow> int" where
  "i64_saturating_add a b = max I64_MIN (min I64_MAX (a + b))"

definition i64_saturating_sub :: "int \<Rightarrow> int \<Rightarrow> int" where
  "i64_saturating_sub a b = max I64_MIN (min I64_MAX (a - b))"

definition div_ceil :: "nat \<Rightarrow> nat \<Rightarrow> nat option" where
  "div_ceil n d = (if d = 0 then None else Some ((n + d - 1) div d))"

section \<open>The bucket\<close>

record token_bucket =
  capacity :: nat
  refill_rate :: nat
  available :: int
  last_refill :: nat
  unlimited :: bool

definition bucket_unlimited :: "nat \<Rightarrow> token_bucket" where
  "bucket_unlimited now =
     \<lparr>capacity = 0, refill_rate = 0, available = 0, last_refill = now, unlimited = True\<rparr>"

definition bucket_new :: "nat \<Rightarrow> nat \<Rightarrow> nat \<Rightarrow> token_bucket" where
  "bucket_new now cap rate =
     (if cap = 0 \<or> rate = 0 then bucket_unlimited now
      else \<lparr>capacity = cap, refill_rate = rate, available = i64_or_max cap,
            last_refill = now, unlimited = False\<rparr>)"

definition refill_tokens :: "nat \<Rightarrow> token_bucket \<Rightarrow> nat" where
  "refill_tokens now b =
     u64_or_max ((refill_rate b * (now - last_refill b)) mod 2 ^ 128 div 1000000000)"

definition refill :: "nat \<Rightarrow> token_bucket \<Rightarrow> token_bucket" where
  "refill now b =
     (if unlimited b then b
      else if now - last_refill b = 0 then b
      else let new_tokens = refill_tokens now b in
        if new_tokens = 0 then b
        else b\<lparr>available := min (i64_saturating_add (available b) (i64_or_max new_tokens))
                               (i64_or_max (capacity b)),
               last_refill := now\<rparr>)"

definition consume :: "nat \<Rightarrow> nat \<Rightarrow> token_bucket \<Rightarrow> bool \<times> token_bucket" where
  "consume now n b =
     (if unlimited b then (True, b)
      else if n = 0 then (True, b)
      else let b = refill now b in
        case i64_try_from n of
          None \<Rightarrow> (False, b)
        | Some n_signed \<Rightarrow>
            let granted = (if capacity b < n then 0 \<le> available b else n_signed \<le> available b)
            in if \<not> granted then (False, b)
               else (True, b\<lparr>available := i64_saturating_sub (available b) n_signed\<rparr>))"

definition can_consume :: "nat \<Rightarrow> nat \<Rightarrow> token_bucket \<Rightarrow> bool \<times> token_bucket" where
  "can_consume now n b =
     (if unlimited b then (True, b)
      else if n = 0 then (True, b)
      else let b = refill now b in
        case i64_try_from n of
          None \<Rightarrow> (False, b)
        | Some n_signed \<Rightarrow>
            (if capacity b < n then 0 \<le> available b else n_signed \<le> available b, b))"

definition nanos_until_n_tokens :: "nat \<Rightarrow> nat \<Rightarrow> token_bucket \<Rightarrow> nat option \<times> token_bucket" where
  "nanos_until_n_tokens now need b =
     (if unlimited b \<or> need = 0 then (Some 0, b)
      else let b = refill now b;
               wait = (\<lambda>deficit. map_option u64_or_max
                        (div_ceil (nat deficit * 1000000000) (refill_rate b)))
        in if capacity b < need then
             (if 0 \<le> available b then (Some 0, b) else (wait (- available b), b))
           else
             (if int need \<le> available b then (Some 0, b) else (wait (int need - available b), b)))"

section \<open>Throttle configuration\<close>

record disk_throttle =
  iops :: "nat option"
  bytes_per_sec :: "nat option"
  iops_burst_capacity :: "nat option"
  bytes_burst_capacity :: "nat option"

datatype throttle_dimension = Iops | Bytes

datatype throttle_error =
    BurstBelowRate throttle_dimension nat nat
  | BurstWithoutRate throttle_dimension

definition validate_dimension ::
  "throttle_dimension \<Rightarrow> nat option \<Rightarrow> nat option \<Rightarrow> throttle_error + unit" where
  "validate_dimension d rate burst =
     (case burst of
        None \<Rightarrow> Inr ()
      | Some b \<Rightarrow>
          (case rate of
             Some r \<Rightarrow> if b < r then Inl (BurstBelowRate d b r) else Inr ()
           | None \<Rightarrow> Inl (BurstWithoutRate d)))"

definition validate_throttle :: "disk_throttle \<Rightarrow> throttle_error + unit" where
  "validate_throttle t =
     (case validate_dimension Iops (iops t) (iops_burst_capacity t) of
        Inl e \<Rightarrow> Inl e
      | Inr _ \<Rightarrow> validate_dimension Bytes (bytes_per_sec t) (bytes_burst_capacity t))"

definition bucket_for :: "nat \<Rightarrow> nat option \<Rightarrow> nat option \<Rightarrow> token_bucket" where
  "bucket_for now rate burst =
     (case rate of
        None \<Rightarrow> bucket_unlimited now
      | Some r \<Rightarrow> bucket_new now (case burst of None \<Rightarrow> r | Some b \<Rightarrow> b) r)"

definition buckets_from_throttle :: "nat \<Rightarrow> nat \<Rightarrow> disk_throttle \<Rightarrow> token_bucket \<times> token_bucket" where
  "buckets_from_throttle now1 now2 t =
     (bucket_for now1 (iops t) (iops_burst_capacity t),
      bucket_for now2 (bytes_per_sec t) (bytes_burst_capacity t))"

section \<open>Specification functions and sample values\<close>

definition bucket_inv :: "token_bucket \<Rightarrow> bool" where
  "bucket_inv b \<longleftrightarrow> unlimited b
     \<or> (0 < capacity b \<and> capacity b \<le> U64_MAX \<and> 0 < refill_rate b \<and> refill_rate b \<le> U64_MAX
        \<and> I64_MIN + 1 \<le> available b \<and> available b \<le> i64_or_max (capacity b))"

text \<open>Requests a bucket is asked, with the clock reading of each.\<close>

datatype bucket_op = Consume nat | CanConsume nat | NanosUntil nat

definition bucket_step :: "nat \<times> bucket_op \<Rightarrow> token_bucket \<Rightarrow> nat \<times> token_bucket" where
  "bucket_step = (\<lambda>(now, op) b. case op of
       Consume n \<Rightarrow> (case consume now n b of (ok, b') \<Rightarrow> (if ok then n else 0, b'))
     | CanConsume n \<Rightarrow> (0, snd (can_consume now n b))
     | NanosUntil n \<Rightarrow> (0, snd (nanos_until_n_tokens now n b)))"

text \<open>The tokens granted over a sequence of requests, and the bucket after it.\<close>

fun run_bucket :: "(nat \<times> bucket_op) list \<Rightarrow> token_bucket \<Rightarrow> nat \<times> token_bucket" where
  "run_bucket [] b = (0, b)"
| "run_bucket (op # ops) b =
     (let (g, b') = bucket_step op b; (g', b'') = run_bucket ops b' in (g + g', b''))"

definition potential :: "token_bucket \<Rightarrow> int" where
  "potential b = available b * 10 ^ 9 - int (refill_rate b) * int (last_refill b)"

definition same_limits :: "token_bucket \<Rightarrow> token_bucket \<Rightarrow> bool" where
  "same_limits b b' \<longleftrightarrow> capacity b' = capacity b \<and> refill_rate b' = refill_rate b
     \<and> unlimited b' = unlimited b"

definition grants :: "nat \<Rightarrow> token_bucket \<Rightarrow> bool" where
  "grants n b \<longleftrightarrow> int n \<le> I64_MAX \<and> (if capacity b < n then 0 \<le> available b else int n \<le> available b)"

definition within_overdraft :: "nat \<Rightarrow> nat \<Rightarrow> bucket_op \<Rightarrow> bool" where
  "within_overdraft cap M op = (case op of Consume n \<Rightarrow> n \<le> cap \<or> n \<le> M | _ \<Rightarrow> True)"

text \<open>The values the fields of type \<^verbatim>\<open>Option<NonZeroU64>\<close> can hold.\<close>

definition nonzero_u64 :: "nat option \<Rightarrow> bool" where
  "nonzero_u64 v = (case v of None \<Rightarrow> True | Some n \<Rightarrow> 0 < n \<and> n \<le> U64_MAX)"

definition throttle_in_range :: "disk_throttle \<Rightarrow> bool" where
  "throttle_in_range t \<longleftrightarrow> nonzero_u64 (iops t) \<and> nonzero_u64 (bytes_per_sec t)
     \<and> nonzero_u64 (iops_burst_capacity t) \<and> nonzero_u64 (bytes_burst_capacity t)"

section \<open>Refill\<close>

lemmas i64_defs = I64_MAX_def I64_MIN_def i64_try_from_def i64_or_max_def

lemma i64_or_max_le: "i64_or_max n \<le> int n" "0 \<le> i64_or_max n" "i64_or_max n \<le> I64_MAX"
  by (simp_all add: i64_defs)

lemma i64_or_max_mono: "m \<le> n \<Longrightarrow> i64_or_max m \<le> i64_or_max n"
  by (simp add: i64_defs)

lemma u64_or_max_le: "u64_or_max n \<le> n" by (simp add: u64_or_max_def U64_MAX_def)

lemma refill_tokens_le: "refill_tokens now b * 10 ^ 9 \<le> refill_rate b * (now - last_refill b)"
proof -
  let ?x = "refill_rate b * (now - last_refill b)"
  have "refill_tokens now b * 10 ^ 9 \<le> (?x mod 2 ^ 128 div 1000000000) * 10 ^ 9"
    unfolding refill_tokens_def by (intro mult_le_mono1 u64_or_max_le)
  also have "\<dots> \<le> ?x mod 2 ^ 128" by simp
  also have "\<dots> \<le> ?x" by simp
  finally show ?thesis .
qed

lemma saturating_add_nonneg:
  assumes "I64_MIN \<le> a" and "0 \<le> d"
  shows "i64_saturating_add a d = min I64_MAX (a + d)"
  using assms by (simp add: i64_saturating_add_def I64_MIN_def I64_MAX_def)

lemma refill_same_limits: "same_limits b (refill now b)"
  by (simp add: refill_def same_limits_def Let_def)

lemma refill_cases:
  assumes "bucket_inv b" and "\<not> unlimited b"
  obtains "refill now b = b"
  | "last_refill b < now" and "refill now b = b\<lparr>
        available := min (available b + i64_or_max (refill_tokens now b)) (i64_or_max (capacity b)),
        last_refill := now\<rparr>"
proof (cases "now - last_refill b = 0 \<or> refill_tokens now b = 0")
  case True
  then have "refill now b = b" by (auto simp: refill_def Let_def)
  with that(1) show thesis .
next
  case False
  have "min (i64_saturating_add (available b) (i64_or_max (refill_tokens now b)))
          (i64_or_max (capacity b))
      = min (available b + i64_or_max (refill_tokens now b)) (i64_or_max (capacity b))"
    using assms i64_or_max_le [of "refill_tokens now b"] i64_or_max_le [of "capacity b"]
    by (subst saturating_add_nonneg) (auto simp: bucket_inv_def)
  with False assms(2) that(2) show thesis by (simp add: refill_def Let_def)
qed

lemma refill_step:
  assumes "bucket_inv b" and "\<not> unlimited b"
  shows "bucket_inv (refill now b)" and "available b \<le> available (refill now b)"
    and "potential (refill now b) \<le> potential b"
    and "last_refill (refill now b) \<le> max now (last_refill b)"
    and "last_refill b \<le> last_refill (refill now b)"
proof -
  let ?i = "i64_or_max (refill_tokens now b)"
  have "bucket_inv (refill now b) \<and> available b \<le> available (refill now b)
    \<and> potential (refill now b) \<le> potential b \<and> last_refill (refill now b) \<le> max now (last_refill b)
    \<and> last_refill b \<le> last_refill (refill now b)"
  proof (rule refill_cases [OF assms, of now])
    assume now: "last_refill b < now" and r: "refill now b = b\<lparr>
        available := min (available b + ?i) (i64_or_max (capacity b)), last_refill := now\<rparr>"
    have "int (refill_tokens now b * 10 ^ 9) \<le> int (refill_rate b * (now - last_refill b))"
      using refill_tokens_le by (simp only: of_nat_le_iff)
    then have "?i * 10 ^ 9 \<le> int (refill_rate b) * (int now - int (last_refill b))"
      using i64_or_max_le(1) [of "refill_tokens now b"] now by (simp add: of_nat_diff)
    moreover have "available (refill now b) * 10 ^ 9 \<le> (available b + ?i) * 10 ^ 9"
      unfolding r by (intro mult_right_mono) simp_all
    ultimately have "potential (refill now b) \<le> potential b"
      by (simp add: r potential_def algebra_simps)
    with assms now i64_or_max_le [of "refill_tokens now b"] i64_or_max_le [of "capacity b"]
    show ?thesis by (auto simp: r bucket_inv_def)
  qed (use assms in simp_all)
  then show "bucket_inv (refill now b)" "available b \<le> available (refill now b)"
    "potential (refill now b) \<le> potential b" "last_refill (refill now b) \<le> max now (last_refill b)"
    "last_refill b \<le> last_refill (refill now b)"
    by blast+
qed

section \<open>Consuming\<close>

lemma saturating_sub_exact:
  assumes "0 \<le> a" and "a \<le> I64_MAX" and "0 \<le> n" and "n \<le> I64_MAX"
  shows "i64_saturating_sub a n = a - n"
  using assms by (simp add: i64_saturating_sub_def I64_MIN_def I64_MAX_def)

lemma can_consume_eq:
  "can_consume now n b =
     (if unlimited b \<or> n = 0 then (True, b) else (grants n (refill now b), refill now b))"
  by (simp add: can_consume_def grants_def i64_try_from_def Let_def)

lemma grants_available_nonneg: "grants n b \<Longrightarrow> 0 \<le> available b"
  by (auto simp: grants_def split: if_splits)

text \<open>In every state the invariant allows, the saturating subtraction is exact.\<close>

lemma consume_eq:
  assumes "bucket_inv b"
  shows "consume now n b =
     (if unlimited b \<or> n = 0 then (True, b)
      else let b' = refill now b in
        if grants n b' then (True, b'\<lparr>available := available b' - int n\<rparr>) else (False, b'))"
proof (cases "unlimited b \<or> n = 0")
  case False
  let ?b = "refill now b"
  have inv: "bucket_inv ?b" using refill_step(1) [OF assms] False by blast
  have "i64_saturating_sub (available ?b) (int n) = available ?b - int n" if "grants n ?b"
    using that inv grants_available_nonneg [OF that] i64_or_max_le [of "capacity ?b"]
    using refill_same_limits [of b now] False
    by (intro saturating_sub_exact) (auto simp: grants_def bucket_inv_def same_limits_def)
  with False show ?thesis
    by (auto simp: consume_def grants_def i64_try_from_def Let_def)
qed (auto simp: consume_def)

lemma consume_inv:
  assumes "bucket_inv b"
  shows "bucket_inv (snd (consume now n b))"
proof (cases "unlimited b \<or> n = 0")
  case False
  have inv: "bucket_inv (refill now b)" using refill_step(1) [OF assms] False by blast
  have "bucket_inv ((refill now b)\<lparr>available := available (refill now b) - int n\<rparr>)"
    if "grants n (refill now b)"
    using inv that grants_available_nonneg [OF that]
    by (auto simp: bucket_inv_def grants_def I64_MIN_def I64_MAX_def)
  with False inv show ?thesis by (simp add: consume_eq [OF assms] Let_def)
qed (use assms in \<open>auto simp: consume_def\<close>)

lemma can_consume_inv: "bucket_inv b \<Longrightarrow> bucket_inv (snd (can_consume now n b))"
  using refill_step(1) by (auto simp: can_consume_eq)

lemma nanos_state:
  "snd (nanos_until_n_tokens now n b) = (if unlimited b \<or> n = 0 then b else refill now b)"
  by (simp add: nanos_until_n_tokens_def Let_def)

lemma bucket_step_rate:
  assumes "bucket_inv b" and "\<not> unlimited b" and "bucket_step (now, op) b = (g, b')"
  shows "bucket_inv b'" and "same_limits b b'" and "potential b' + int g * 10 ^ 9 \<le> potential b"
    and "last_refill b' \<le> max now (last_refill b)"
proof -
  note r = refill_step [OF assms(1,2), of now] and l = refill_same_limits [of b now]
  have pot: "potential (c\<lparr>available := available c - int n\<rparr>) + int n * 10 ^ 9 = potential c" for c n
    by (simp add: potential_def algebra_simps)
  show "bucket_inv b'"
    using assms consume_inv [OF assms(1)] can_consume_inv [OF assms(1)] r(1)
    by (auto simp: bucket_step_def nanos_state split: bucket_op.splits prod.splits if_splits)
      (metis snd_conv)+
  show "same_limits b b'" "potential b' + int g * 10 ^ 9 \<le> potential b"
    "last_refill b' \<le> max now (last_refill b)"
    using assms(2,3) r l pot [of "refill now b"]
    by (auto simp: bucket_step_def nanos_state consume_eq [OF assms(1)] can_consume_eq Let_def
        same_limits_def split: bucket_op.splits if_splits)
qed

lemma run_bucket_rate:
  assumes "bucket_inv b" and "\<not> unlimited b" and "run_bucket ops b = (g, b')"
    and "last_refill b \<le> T" and "\<And>now op. (now, op) \<in> set ops \<Longrightarrow> now \<le> T"
  shows "bucket_inv b' \<and> same_limits b b' \<and> last_refill b' \<le> T
    \<and> potential b' + int g * 10 ^ 9 \<le> potential b"
  using assms
proof (induction ops arbitrary: b g)
  case Nil
  then show ?case by (simp add: same_limits_def)
next
  case (Cons o1 ops)
  obtain now op where o1: "o1 = (now, op)" by (cases o1)
  obtain g1 b1 where s1: "bucket_step o1 b = (g1, b1)" by (cases "bucket_step o1 b")
  obtain g2 where s2: "run_bucket ops b1 = (g2, b')" and g: "g = g1 + g2"
    using Cons.prems(3) s1 by (auto split: prod.splits)
  note st = bucket_step_rate [OF Cons.prems(1,2) s1 [unfolded o1]]
  have "now \<le> T" using Cons.prems(5) [of now op] o1 by simp
  with st(4) Cons.prems(4) have "last_refill b1 \<le> T" by simp
  then have "bucket_inv b' \<and> same_limits b1 b' \<and> last_refill b' \<le> T
      \<and> potential b' + int g2 * 10 ^ 9 \<le> potential b1"
    using Cons.prems(2,5) st(1,2) s2 by (intro Cons.IH) (auto simp: same_limits_def)
  with st(2,3) g show ?case by (simp add: same_limits_def algebra_simps)
qed

section \<open>The admission gate\<close>

text \<open>
  What the drain loop relies on: a positive check is honoured by a later withdrawal from
  the checked state, so two gates can be checked first and debited afterwards without ever
  charging one of them for a request the other refuses.
\<close>

locale admission_gate =
  fixes check :: "nat \<Rightarrow> nat \<Rightarrow> 's \<Rightarrow> bool \<times> 's"
    and debit :: "nat \<Rightarrow> nat \<Rightarrow> 's \<Rightarrow> bool \<times> 's"
    and valid :: "'s \<Rightarrow> bool"
  assumes check_valid: "valid s \<Longrightarrow> valid (snd (check now n s))"
    and debit_valid: "valid s \<Longrightarrow> valid (snd (debit now n s))"
    and check_debit: "valid s \<Longrightarrow> fst (check now n s) \<Longrightarrow> now \<le> now'
      \<Longrightarrow> fst (debit now' n (snd (check now n s)))"
begin

lemma both_gates_debit:
  assumes "valid s1" and "valid s2" and "fst (check t1 n1 s1)" and "fst (check t2 n2 s2)"
    and "t1 \<le> t3" and "t2 \<le> t4"
  shows "fst (debit t3 n1 (snd (check t1 n1 s1)))" and "fst (debit t4 n2 (snd (check t2 n2 s2)))"
    and "valid (snd (debit t3 n1 (snd (check t1 n1 s1))))"
    and "valid (snd (debit t4 n2 (snd (check t2 n2 s2))))"
  using assms by (simp_all add: check_debit check_valid debit_valid)

end

lemma grants_refill:
  assumes "bucket_inv b" and "\<not> unlimited b" and "grants n b"
  shows "grants n (refill now b)"
  using refill_step(2) [OF assms(1,2), of now] refill_same_limits [of b now] assms(3)
  by (auto simp: grants_def same_limits_def split: if_splits)

lemma can_consume_then_consume:
  assumes "bucket_inv b" and "fst (can_consume now n b)"
  shows "fst (consume now' n (snd (can_consume now n b)))"
proof (cases "unlimited b \<or> n = 0")
  case True
  then show ?thesis by (auto simp: can_consume_eq consume_def)
next
  case False
  let ?b = "refill now b"
  have inv: "bucket_inv ?b" and u: "\<not> unlimited ?b"
    using refill_step(1) [OF assms(1)] refill_same_limits [of b now] False
    by (auto simp: same_limits_def)
  have "grants n ?b" using assms(2) False by (simp add: can_consume_eq)
  from grants_refill [OF inv u this] False show ?thesis
    by (simp add: can_consume_eq consume_eq [OF inv] Let_def)
qed

interpretation bucket: admission_gate can_consume consume bucket_inv
  by unfold_locales (simp_all add: can_consume_inv consume_inv can_consume_then_consume)

section \<open>Waiting\<close>

lemma div_ceil_upper: "0 < d \<Longrightarrow> div_ceil n d = Some w \<Longrightarrow> n \<le> d * w"
proof -
  assume "0 < d" and "div_ceil n d = Some w"
  then have w: "w = (n + d - 1) div d" by (simp add: div_ceil_def)
  have "n + d - 1 < d * ((n + d - 1) div d + 1)"
    using \<open>0 < d\<close> by (metis Suc_eq_plus1 dividend_less_div_times mult.commute mult_Suc_right add.commute)
  with w show ?thesis by simp
qed

lemma refill_tokens_ge:
  assumes "refill_rate b \<le> U64_MAX" and "now \<le> U64_MAX" and "d \<le> U64_MAX"
    and "d * 10 ^ 9 \<le> refill_rate b * (now - last_refill b)"
  shows "d \<le> refill_tokens now b"
proof -
  let ?x = "refill_rate b * (now - last_refill b)"
  have "?x \<le> U64_MAX * U64_MAX" using assms(1,2) by (intro mult_le_mono) simp_all
  also have "\<dots> < 2 ^ 128" by (simp add: U64_MAX_def)
  finally have "?x mod 2 ^ 128 = ?x" by simp
  moreover have "d \<le> ?x div 1000000000" using assms(4) by (simp add: less_eq_div_iff_mult_less_eq)
  ultimately show ?thesis using assms(3) by (simp add: refill_tokens_def u64_or_max_def)
qed

lemma refill_reaches:
  assumes inv: "bucket_inv b" "\<not> unlimited b" and now: "now \<le> U64_MAX"
    and d: "0 < d" "int d \<le> I64_MAX"
    and el: "d * 10 ^ 9 \<le> refill_rate b * (now - last_refill b)"
  shows "min (available b + int d) (i64_or_max (capacity b)) \<le> available (refill now b)"
proof -
  have rate: "0 < refill_rate b" "refill_rate b \<le> U64_MAX" using inv by (auto simp: bucket_inv_def)
  have "d \<le> U64_MAX" using d(2) by (simp add: I64_MAX_def U64_MAX_def)
  from refill_tokens_ge [OF rate(2) now this el] have t: "d \<le> refill_tokens now b" .
  have "int d = i64_or_max d" using d(2) by (simp add: i64_defs)
  with i64_or_max_mono [OF t] have di: "int d \<le> i64_or_max (refill_tokens now b)" by simp
  have "now - last_refill b \<noteq> 0" using el d(1) by (cases "now - last_refill b") simp_all
  moreover have "refill_tokens now b \<noteq> 0" using t d(1) by simp
  moreover have "i64_saturating_add (available b) (i64_or_max (refill_tokens now b))
      = min I64_MAX (available b + i64_or_max (refill_tokens now b))"
    using inv i64_or_max_le by (intro saturating_add_nonneg) (auto simp: bucket_inv_def)
  ultimately show ?thesis
    using di inv(2) i64_or_max_le(3) [of "capacity b"] 
    by (simp add: refill_def Let_def) linarith
qed

lemma nanos_wait:
  assumes inv: "bucket_inv b" "\<not> unlimited b" "0 < n"
    and w: "fst (nanos_until_n_tokens now n b) = Some w" "w < U64_MAX"
    and ng: "\<not> grants n (refill now b)" "int n \<le> I64_MAX" "int n - available b \<le> I64_MAX"
  obtains d where "0 < d" and "int d \<le> I64_MAX" and "d * 10 ^ 9 \<le> refill_rate b * w"
    and "available (refill now b) + int d = (if capacity b < n then 0 else int n)"
proof -
  let ?b = "refill now b" and ?t = "if capacity b < n then 0 else int n"
  note r = refill_step [OF inv(1,2), of now]
  have lim: "capacity ?b = capacity b" "refill_rate ?b = refill_rate b" "\<not> unlimited ?b"
    using refill_same_limits [of b now] inv(2) by (simp_all add: same_limits_def)
  define d where "d = nat (?t - available ?b)"
  from ng(1,2) lim have pos: "0 < ?t - available ?b" by (auto simp: grants_def split: if_splits)
  from r(1) inv(2) lim have "I64_MIN + 1 \<le> available ?b" by (simp add: bucket_inv_def)
  with ng(3) r(2) have le: "?t - available ?b \<le> I64_MAX" by (simp add: I64_MIN_def I64_MAX_def)
  have "map_option u64_or_max (div_ceil (d * 1000000000) (refill_rate b)) = Some w"
    using w(1) inv(2,3) pos lim by (simp add: nanos_until_n_tokens_def Let_def d_def split: if_splits)
  then have "div_ceil (d * 1000000000) (refill_rate b) = Some w"
    using w(2) by (auto simp: u64_or_max_def split: if_splits)
  moreover have "0 < refill_rate b" using inv(1,2) by (simp add: bucket_inv_def)
  ultimately have "d * 10 ^ 9 \<le> refill_rate b * w" using div_ceil_upper by fastforce
  with that [of d] pos le show thesis by (simp add: d_def)
qed

lemma wait_is_enough:
  assumes inv: "bucket_inv b" and "last_refill b \<le> now"
    and n: "nanos_until_n_tokens now n b = (Some w, b')" "w < U64_MAX"
    and size: "int n \<le> I64_MAX" "int n - available b \<le> I64_MAX"
    and later: "now + w \<le> now'" "now' \<le> U64_MAX"
  shows "fst (consume now' n b')"
proof (cases "unlimited b \<or> n = 0")
  case True
  with n(1) show ?thesis by (auto simp: nanos_until_n_tokens_def consume_def)
next
  case False
  have b': "b' = refill now b" using n(1) nanos_state [of now n b] False by (metis snd_conv)
  note r = refill_step [OF inv, of now]
  have lim: "capacity b' = capacity b" "refill_rate b' = refill_rate b" "\<not> unlimited b'"
    using refill_same_limits [of b now] False by (simp_all add: same_limits_def b')
  have inv': "bucket_inv b'" using r(1) False b' by simp
  have "grants n (refill now' b')"
  proof (cases "grants n b'")
    case True
    with grants_refill [OF inv' lim(3)] show ?thesis by blast
  next
    case False': False
    obtain d where d: "0 < d" "int d \<le> I64_MAX" "d * 10 ^ 9 \<le> refill_rate b * w"
      "available b' + int d = (if capacity b < n then 0 else int n)"
      using False False' n size by (auto simp: b' intro: nanos_wait [OF inv, of n now w])
    have "last_refill b' \<le> now" using r(4) False assms(2) b' by simp
    with later(1) have "w \<le> now' - last_refill b'" by simp
    with d(3) lim(2) have el: "d * 10 ^ 9 \<le> refill_rate b' * (now' - last_refill b')"
      by (metis le_trans mult_le_mono2)
    have "min (available b' + int d) (i64_or_max (capacity b')) \<le> available (refill now' b')"
      by (rule refill_reaches [OF inv' lim(3) later(2) d(1,2) el])
    then show ?thesis
      using d(4) size(1) lim(1) refill_same_limits [of b' now'] i64_or_max_le(2) [of "capacity b"]
        i64_or_max_mono [of n "capacity b"]
      by (auto simp: grants_def same_limits_def i64_or_max_def [of n] i64_try_from_def split: if_splits)
  qed
  with False lim(3) show ?thesis by (simp add: consume_eq [OF inv'] Let_def)
qed

section \<open>Properties\<close>

lemma bucket_step_overdraft:
  assumes "bucket_inv b" and "\<not> unlimited b" and "bucket_step (now, op) b = (g, b')"
    and "within_overdraft (capacity b) M op" and "- int M \<le> available b"
  shows "- int M \<le> available b'"
  using assms refill_step(2) [OF assms(1,2), of now] refill_same_limits [of b now]
  by (auto simp: bucket_step_def nanos_state consume_eq [OF assms(1)] can_consume_eq Let_def
      same_limits_def grants_def within_overdraft_def split: bucket_op.splits if_splits)

lemma run_bucket_overdraft:
  assumes "bucket_inv b" and "\<not> unlimited b" and "run_bucket ops b = (g, b')"
    and "\<And>now op. (now, op) \<in> set ops \<Longrightarrow> within_overdraft (capacity b) M op" and "- int M \<le> available b"
  shows "- int M \<le> available b'"
  using assms
proof (induction ops arbitrary: b g)
  case (Cons o1 ops)
  obtain now op where o1: "o1 = (now, op)" by (cases o1)
  obtain g1 b1 where s1: "bucket_step o1 b = (g1, b1)" by (cases "bucket_step o1 b")
  obtain g2 where s2: "run_bucket ops b1 = (g2, b')"
    using Cons.prems(3) s1 by (auto split: prod.splits)
  note st = bucket_step_rate [OF Cons.prems(1,2) s1 [unfolded o1]]
  have "- int M \<le> available b1"
    using bucket_step_overdraft [OF Cons.prems(1,2) s1 [unfolded o1]] Cons.prems(4) [of now op] Cons.prems(5) o1
    by simp
  with Cons.prems(2,4) st(1,2) s2 show ?case by (intro Cons.IH) (auto simp: same_limits_def)
qed simp

lemma bucket_new_inv:
  assumes "cap \<le> U64_MAX" and "rate \<le> U64_MAX"
  shows "bucket_inv (bucket_new now cap rate)"
  using assms i64_or_max_le(2) [of cap]
  by (simp add: bucket_inv_def bucket_new_def bucket_unlimited_def I64_MIN_def)

text \<open>
  C1: the throttle keeps to its configured rate. Whatever sequence of requests a fresh bucket serves up to time T, the
  tokens granted are at most the burst capacity, plus the rate times the elapsed time, plus \<open>M\<close>, where every single
  request is at most the capacity or at most \<open>M\<close>: a request larger than the capacity is admitted on credit, so that
  the excess is one such request at most, and when no request is larger than the capacity \<open>M\<close> is zero.
\<close>

theorem token_bucket_rate_limit:
  assumes lim: "0 < cap" "cap \<le> U64_MAX" "0 < rate" "rate \<le> U64_MAX"
    and run: "run_bucket ops (bucket_new t0 cap rate) = (g, b')"
    and T: "t0 \<le> T" "\<And>now op. (now, op) \<in> set ops \<Longrightarrow> now \<le> T"
    and small: "\<And>now op. (now, op) \<in> set ops \<Longrightarrow> within_overdraft cap M op"
  shows "g * 10 ^ 9 \<le> (cap + M) * 10 ^ 9 + rate * (T - t0)"
proof -
  let ?b = "bucket_new t0 cap rate"
  have b: "bucket_inv ?b" "\<not> unlimited ?b" "capacity ?b = cap" "refill_rate ?b = rate"
    "last_refill ?b = t0" "0 \<le> available ?b" "available ?b \<le> int cap"
    using lim bucket_new_inv [of cap rate t0] i64_or_max_le [of cap] by (simp_all add: bucket_new_def)
  have "bucket_inv b' \<and> same_limits ?b b' \<and> last_refill b' \<le> T
      \<and> potential b' + int g * 10 ^ 9 \<le> potential ?b"
    using T by (intro run_bucket_rate [OF b(1,2) run]) (auto simp: b(5))
  moreover have "- int M \<le> available b'"
    using small b(6) by (intro run_bucket_overdraft [OF b(1,2) run]) (simp_all add: b(3))
  ultimately have "int g * 10 ^ 9 \<le> (int cap + int M) * 10 ^ 9 + int rate * (int (last_refill b') - int t0)"
    and "last_refill b' \<le> T"
    using b by (auto simp: potential_def same_limits_def algebra_simps)
  moreover from this(2) have "int rate * (int (last_refill b') - int t0) \<le> int rate * (int T - int t0)"
    by (intro mult_left_mono) simp_all
  ultimately have "int (g * 10 ^ 9) \<le> int ((cap + M) * 10 ^ 9 + rate * (T - t0))"
    using T(1) by (simp add: of_nat_diff)
  then show ?thesis by (simp only: of_nat_le_iff)
qed

theorem token_bucket_rate_limit_witness:
  "run_bucket [(0, Consume 5), (500000000, Consume 3), (500000001, Consume 4)] (bucket_new 0 5 10)
     = (8, \<lparr>capacity = 5, refill_rate = 10, available = 2, last_refill = 500000000, unlimited = False\<rparr>)
   \<and> 8 * 10 ^ 9 \<le> 5 * 10 ^ 9 + (10 :: nat) * (500000001 - 0)"
proof -
  let ?ops = "[(0, Consume 5), (500000000, Consume 3), (500000001, Consume 4)]"
  have run: "run_bucket ?ops (bucket_new 0 5 10)
    = (8, \<lparr>capacity = 5, refill_rate = 10, available = 2, last_refill = 500000000, unlimited = False\<rparr>)"
    by (simp add: bucket_step_def bucket_new_def consume_def refill_def refill_tokens_def
        u64_or_max_def U64_MAX_def i64_defs i64_saturating_add_def i64_saturating_sub_def Let_def)
  show ?thesis
    using token_bucket_rate_limit [OF _ _ _ _ run, of 500000001 0] run
    by (auto simp: U64_MAX_def within_overdraft_def)
qed

text \<open>
  requests larger than the capacity are admitted on credit and the credit is repaid. For
  every sequence of requests, of any size, from any state in range, the tokens granted are
  at most the balance given up plus the rate times the elapsed time; a negative final
  balance is exactly the debt still owed.
\<close>

theorem token_bucket_debt_accounted:
  assumes inv: "bucket_inv b" "\<not> unlimited b" and run: "run_bucket ops b = (g, b')"
    and T: "last_refill b \<le> T" "\<And>now op. (now, op) \<in> set ops \<Longrightarrow> now \<le> T"
  shows "bucket_inv b' \<and> int g * 10 ^ 9 \<le>
    (available b - available b') * 10 ^ 9 + int (refill_rate b * (T - last_refill b))"
proof -
  have r: "bucket_inv b' \<and> same_limits b b' \<and> last_refill b' \<le> T
      \<and> potential b' + int g * 10 ^ 9 \<le> potential b"
    using T(2) by (rule run_bucket_rate [OF inv run T(1)])
  then have "last_refill b' \<le> T" by blast
  then have "int (refill_rate b) * int (last_refill b') \<le> int (refill_rate b) * int T"
    by (intro mult_left_mono) simp_all
  with r T(1) show ?thesis
    by (auto simp: potential_def same_limits_def of_nat_diff algebra_simps)
qed

theorem token_bucket_debt_accounted_witness:
  "\<exists>b'. run_bucket [(0, Consume 20), (1000000000, Consume 1)] (bucket_new 0 5 10) = (20, b')
    \<and> available b' = -5
    \<and> (20 :: int) * 10 ^ 9 \<le> (5 - available b') * 10 ^ 9 + int (10 * (1000000000 - 0))"
proof -
  obtain b' where b': "run_bucket [(0, Consume 20), (1000000000, Consume 1)] (bucket_new 0 5 10) = (20, b')"
    "available b' = -5"
    by (simp add: bucket_step_def bucket_new_def consume_def refill_def refill_tokens_def
        u64_or_max_def U64_MAX_def i64_defs i64_saturating_add_def i64_saturating_sub_def Let_def)
  have nb: "bucket_inv (bucket_new 0 5 10)" "\<not> unlimited (bucket_new 0 5 10)"
    "last_refill (bucket_new 0 5 10) \<le> 1000000000"
    using bucket_new_inv [of 5 10 0] by (simp_all add: bucket_new_def U64_MAX_def)
  from token_bucket_debt_accounted [OF nb(1,2) b'(1) nb(3)] b' show ?thesis
    by (auto simp: bucket_new_def i64_defs)
qed

text \<open>
  the retry time reported for a stalled request is long enough. If the estimate is below
  its saturation value, then a withdrawal attempted no earlier than that many nanoseconds
  later, with nothing else withdrawn in between, is granted.
\<close>

theorem nanos_until_n_tokens_sufficient:
  assumes "bucket_inv b" and "last_refill b \<le> now"
    and "nanos_until_n_tokens now n b = (Some w, b')" and "w < U64_MAX"
    and "int n \<le> I64_MAX" and "int n - available b \<le> I64_MAX"
    and "now + w \<le> now'" and "now' \<le> U64_MAX"
  shows "fst (consume now' n b')"
  by (rule wait_is_enough [OF assms])

theorem nanos_until_n_tokens_sufficient_witness:
  "fst (nanos_until_n_tokens 7 3 ((bucket_new 0 5 10)\<lparr>available := - 4\<rparr>)) = Some 700000000
   \<and> fst (consume 700000007 3
        (snd (nanos_until_n_tokens 7 3 ((bucket_new 0 5 10)\<lparr>available := - 4\<rparr>))))"
proof -
  let ?b = "(bucket_new 0 5 10)\<lparr>available := - 4\<rparr>"
  have b: "bucket_inv ?b" "last_refill ?b \<le> 7"
    by (simp_all add: bucket_inv_def bucket_new_def i64_defs U64_MAX_def)
  have n: "nanos_until_n_tokens 7 3 ?b = (Some 700000000, ?b)"
    by (simp add: nanos_until_n_tokens_def bucket_new_def refill_def refill_tokens_def div_ceil_def
        u64_or_max_def U64_MAX_def Let_def)
  from nanos_until_n_tokens_sufficient [OF b n, of 700000007] n show ?thesis
    by (simp add: U64_MAX_def i64_defs bucket_new_def)
qed

text \<open>
  every operation keeps the balance between one more than the smallest 64-bit integer and
  the capacity, so none of the saturating subtractions ever saturates, and a query and a
  withdrawal at the same instant give the same answer.
\<close>

theorem token_bucket_invariant:
  assumes "bucket_inv b"
  shows "bucket_inv (refill now b) \<and> bucket_inv (snd (consume now n b))
    \<and> bucket_inv (snd (can_consume now n b)) \<and> bucket_inv (snd (nanos_until_n_tokens now n b))
    \<and> fst (can_consume now n b) = fst (consume now n b)
    \<and> (\<not> unlimited b \<and> 0 < n \<and> fst (consume now n b) \<longrightarrow>
        available (snd (consume now n b)) = available (refill now b) - int n)"
proof -
  have "unlimited b \<Longrightarrow> refill now b = b" by (simp add: refill_def)
  then have r: "bucket_inv (refill now b)" using refill_step(1) [OF assms] assms by fastforce
  show ?thesis
    using r assms consume_inv [OF assms] can_consume_inv [OF assms]
    by (auto simp: nanos_state can_consume_eq consume_eq [OF assms] Let_def)
qed

theorem token_bucket_invariant_witness:
  "bucket_inv (bucket_new 0 5 10) \<and> bucket_inv (snd (consume 3 9 (bucket_new 0 5 10)))
   \<and> available (snd (consume 3 9 (bucket_new 0 5 10))) = - 4"
proof -
  have b: "bucket_inv (bucket_new 0 5 10)" using bucket_new_inv [of 5 10 0] by (simp add: U64_MAX_def)
  have "available (snd (consume 3 9 (bucket_new 0 5 10))) = - 4"
    by (simp add: bucket_new_def consume_def refill_def refill_tokens_def
        u64_or_max_def U64_MAX_def i64_defs i64_saturating_sub_def Let_def)
  with token_bucket_invariant [OF b, of 3 9] b show ?thesis by simp
qed

text \<open>
  Each refill discards the fraction of a token it could not grant, because it moves the
  reference time to now. Polled every half second, a bucket of rate 3 gains 2 tokens in a
  second where a single refill after that second gains 3.
\<close>

theorem refill_drops_fractions:
  "available (refill 1000000000 (refill 500000000 ((bucket_new 0 3 3)\<lparr>available := 0\<rparr>))) = 2
   \<and> available (refill 1000000000 ((bucket_new 0 3 3)\<lparr>available := 0\<rparr>)) = 3"
  by (simp add: bucket_new_def refill_def refill_tokens_def u64_or_max_def U64_MAX_def i64_defs
      i64_saturating_add_def Let_def)

lemma bucket_for_validated:
  assumes "validate_dimension d rate burst = Inr ()" and "nonzero_u64 rate" and "nonzero_u64 burst"
  shows "bucket_inv (bucket_for now rate burst)
    \<and> refill_rate (bucket_for now rate burst) \<le> capacity (bucket_for now rate burst)
    \<and> (unlimited (bucket_for now rate burst) \<longleftrightarrow> rate = None)"
  using assms
  by (auto simp: validate_dimension_def bucket_for_def bucket_new_def bucket_unlimited_def
      bucket_inv_def i64_defs nonzero_u64_def split: option.splits if_splits)

text \<open>
  A throttle configuration that validates is materialised into two buckets in range
  whose capacity holds at least one second of refill, and a dimension without a rate is
  unthrottled.
\<close>

theorem buckets_from_validated_throttle:
  assumes "validate_throttle t = Inr ()"
    and "throttle_in_range t"
    and "buckets_from_throttle now1 now2 t = (ops, byt)"
  shows "bucket_inv ops \<and> refill_rate ops \<le> capacity ops \<and> (unlimited ops \<longleftrightarrow> iops t = None)
    \<and> bucket_inv byt \<and> refill_rate byt \<le> capacity byt
    \<and> (unlimited byt \<longleftrightarrow> bytes_per_sec t = None)"
proof -
  from assms(1) have "validate_dimension Iops (iops t) (iops_burst_capacity t) = Inr ()"
    "validate_dimension Bytes (bytes_per_sec t) (bytes_burst_capacity t) = Inr ()"
    by (auto simp: validate_throttle_def split: sum.splits)
  with assms(2,3) show ?thesis
    using bucket_for_validated by (auto simp: buckets_from_throttle_def throttle_in_range_def)
qed

theorem buckets_from_validated_throttle_witness:
  "validate_throttle \<lparr>iops = Some 100, bytes_per_sec = None, iops_burst_capacity = Some 250,
     bytes_burst_capacity = None\<rparr> = Inr ()
   \<and> \<not> unlimited (bucket_for 7 (Some 100) (Some 250)) \<and> unlimited (bucket_for 9 None None)
   \<and> bucket_inv (bucket_for 7 (Some 100) (Some 250))"
proof -
  let ?t = "\<lparr>iops = Some 100, bytes_per_sec = None, iops_burst_capacity = Some 250,
     bytes_burst_capacity = None\<rparr>"
  have v: "validate_throttle ?t = Inr ()" by (simp add: validate_throttle_def validate_dimension_def)
  have "buckets_from_throttle 7 9 ?t = (bucket_for 7 (Some 100) (Some 250), bucket_for 9 None None)"
    by (simp add: buckets_from_throttle_def)
  from buckets_from_validated_throttle [OF v _ this] v show ?thesis
    by (simp add: U64_MAX_def throttle_in_range_def nonzero_u64_def)
qed

end
