(* ===== verification/Virtio_Blk_Device.thy ===== *)
theory Virtio_Blk_Device
  imports Virtio_Status
begin

text \<open>
  The register file of the block device (\<^verbatim>\<open>src/vmm/virtio_blk/device.rs\<close>): feature
  negotiation, the status state machine with its race against the worker thread, queue
  configuration, configuration space, and reset. The virtqueue itself is code of the
  \<^verbatim>\<open>virtio_queue\<close> crate and enters as a record of its operations. What a register access
  triggers outside the register file (kicking, resetting or respawning the worker) is
  returned as a list of effects.
\<close>

section \<open>Registers\<close>

definition MMIO_MAGIC :: u32 where "MMIO_MAGIC = 0x74726976"
definition MMIO_VERSION :: u32 where "MMIO_VERSION = 2"
definition VENDOR_ID :: u32 where "VENDOR_ID = 0"
definition VIRTIO_ID_BLOCK :: u32 where "VIRTIO_ID_BLOCK = 2"
definition VIRTIO_BLK_SECTOR_SIZE :: u32 where "VIRTIO_BLK_SECTOR_SIZE = 512"
definition VIRTIO_BLK_SEG_MAX :: u32 where "VIRTIO_BLK_SEG_MAX = 128"
definition VIRTIO_BLK_SIZE_MAX :: u32 where "VIRTIO_BLK_SIZE_MAX = 1048576"
definition NUM_QUEUES :: nat where "NUM_QUEUES = 1"
definition REQ_QUEUE :: nat where "REQ_QUEUE = 0"

record 'q blk_device =
  queue_select :: u32
  device_features_sel :: u32
  driver_features_sel :: u32
  driver_features :: u64
  interrupt_status :: u32
  device_status :: u32
  config_generation :: u32
  read_only :: bool
  capacity_sectors :: u64
  req_queue :: 'q

datatype blk_effect = KickWorker | ResetEngine | ConsumePendingRespawn

definition blk_new :: "'q \<Rightarrow> u64 \<Rightarrow> bool \<Rightarrow> 'q blk_device" where
  "blk_new q capacity_bytes ro =
     \<lparr>queue_select = 0, device_features_sel = 0, driver_features_sel = 0, driver_features = 0,
      interrupt_status = 0, device_status = 0, config_generation = 0, read_only = ro,
      capacity_sectors = capacity_bytes div ucast VIRTIO_BLK_SECTOR_SIZE, req_queue = q\<rparr>"

definition device_features :: "'q blk_device \<Rightarrow> u64" where
  "device_features d =
     (let feats = feature_bit VIRTIO_F_VERSION_1 OR feature_bit 6 OR feature_bit 2
                  OR feature_bit 1 OR feature_bit 9 OR feature_bit VIRTIO_RING_F_EVENT_IDX
      in if read_only d then feats OR feature_bit 5 else feats)"

definition selected_queue :: "'q blk_device \<Rightarrow> nat option" where
  "selected_queue d = (let idx = unat (queue_select d) in if idx < NUM_QUEUES then Some idx else None)"

section \<open>Reading registers\<close>

definition blk_config_bytes :: "'q blk_device \<Rightarrow> bytes" where
  "blk_config_bytes d =
     to_le_bytes 8 (capacity_sectors d) @ to_le_bytes 4 VIRTIO_BLK_SIZE_MAX
     @ to_le_bytes 4 VIRTIO_BLK_SEG_MAX @ replicate 4 0 @ to_le_bytes 4 VIRTIO_BLK_SECTOR_SIZE"

definition read_blk_config :: "'q blk_device \<Rightarrow> u64 \<Rightarrow> nat \<Rightarrow> bytes" where
  "read_blk_config d offset len =
     (let cfg_bytes = blk_config_bytes d; start = unat offset in
      if length cfg_bytes \<le> start then replicate len 0
      else let end' = min (start + len) (length cfg_bytes); n = end' - start
           in byte_slice cfg_bytes start end' @ replicate (len - n) 0)"

definition mmio_read_reg :: "'q queue_api \<Rightarrow> 'q blk_device \<Rightarrow> mmio_reg option \<Rightarrow> u32" where
  "mmio_read_reg api d reg =
     (case reg of
        Some MagicValue \<Rightarrow> MMIO_MAGIC
      | Some Version \<Rightarrow> MMIO_VERSION
      | Some DeviceId \<Rightarrow> VIRTIO_ID_BLOCK
      | Some VendorId \<Rightarrow> VENDOR_ID
      | Some DeviceFeatures \<Rightarrow>
          if device_features_sel d = 0 then ucast (device_features d)
          else if device_features_sel d = 1 then ucast (rust_shr (device_features d) 32)
          else 0
      | Some QueueNumMax \<Rightarrow>
          (case selected_queue d of Some _ \<Rightarrow> ucast (q_max_size api (req_queue d)) | None \<Rightarrow> 0)
      | Some QueueReady \<Rightarrow>
          (case selected_queue d of Some _ \<Rightarrow> of_bool (q_ready api (req_queue d)) | None \<Rightarrow> 0)
      | Some InterruptStatus \<Rightarrow> interrupt_status d
      | Some Status \<Rightarrow> device_status d
      | Some ConfigGeneration \<Rightarrow> config_generation d
      | _ \<Rightarrow> 0)"

text \<open>The buffer contents after a read of \<open>len\<close> bytes.\<close>

definition mmio_read :: "'q queue_api \<Rightarrow> 'q blk_device \<Rightarrow> u64 \<Rightarrow> nat \<Rightarrow> bytes" where
  "mmio_read api d offset len =
     (if 0x100 \<le> offset then read_blk_config d (offset - 0x100) len
      else if len \<noteq> 4 then replicate len 0xff
      else to_le_bytes 4 (mmio_read_reg api d (mmio_reg_of offset)))"

section \<open>The status state machine\<close>

definition MAX_CAS_RETRIES :: nat where "MAX_CAS_RETRIES = 4"

datatype status_outcome = Rejected | Unchanged | StoredFailed | Abandoned | Advanced u32

definition valid_advance :: "u64 \<Rightarrow> u64 \<Rightarrow> u32 \<Rightarrow> u32 \<Rightarrow> bool" where
  "valid_advance driver_feats device_feats current new_bits =
     (if new_bits = VIRTIO_CONFIG_S_ACKNOWLEDGE then current = 0
      else if new_bits = VIRTIO_CONFIG_S_DRIVER then current = S_ACK
      else if new_bits = VIRTIO_CONFIG_S_FEATURES_OK then
        current = S_DRV \<and> driver_feats AND feature_bit VIRTIO_F_VERSION_1 \<noteq> 0
        \<and> driver_feats AND NOT device_feats = 0
      else if new_bits = VIRTIO_CONFIG_S_DRIVER_OK then current = S_FEAT
      else False)"

text \<open>
  The compare-and-swap loop. The register is shared with the worker, which may set
  NEEDS_RESET at any moment: \<open>poison i\<close> says whether it does so just before the \<open>i\<close>th
  compare-and-swap. Arguments: the remaining retry budget, the number of compare-and-swaps
  so far, the snapshot the loop works on and the actual content of the register. The result
  is the final content, the outcome and the number of compare-and-swaps.
\<close>

fun set_status_loop ::
  "(nat \<Rightarrow> bool) \<Rightarrow> u64 \<Rightarrow> u64 \<Rightarrow> u32 \<Rightarrow> nat \<Rightarrow> nat \<Rightarrow> u32 \<Rightarrow> u32 \<Rightarrow> u32 \<times> status_outcome \<times> nat"
where
  "set_status_loop poison drv dev val 0 i current actual = (actual, Abandoned, i)"
| "set_status_loop poison drv dev val (Suc budget) i current actual =
     (if val AND current \<noteq> current then (actual, Rejected, i)
      else let new_bits = val AND NOT current in
        if new_bits = 0 then (actual, Unchanged, i)
        else if new_bits = VIRTIO_CONFIG_S_FAILED \<or> valid_advance drv dev current new_bits then
          let observed = (if poison i then actual OR VIRTIO_CONFIG_S_NEEDS_RESET else actual) in
          if observed = current then
            (val, if new_bits = VIRTIO_CONFIG_S_FAILED then StoredFailed else Advanced new_bits, Suc i)
          else set_status_loop poison drv dev val budget (Suc i) observed observed
        else (actual, Rejected, i))"

definition set_status ::
  "'q queue_api \<Rightarrow> (nat \<Rightarrow> bool) \<Rightarrow> u32 \<Rightarrow> 'q blk_device \<Rightarrow> 'q blk_device \<times> blk_effect list" where
  "set_status api poison val d =
     (let current = device_status d;
          (st, outcome, _) = set_status_loop poison (driver_features d) (device_features d) val
                               MAX_CAS_RETRIES 0 current current;
          d1 = d\<lparr>device_status := st\<rparr>;
          d2 = (if outcome = Advanced VIRTIO_CONFIG_S_FEATURES_OK
                   \<and> driver_features d AND feature_bit VIRTIO_RING_F_EVENT_IDX \<noteq> 0
                then d1\<lparr>req_queue := q_set_event_idx api True (req_queue d1)\<rparr> else d1)
      in (d2, if outcome = Advanced VIRTIO_CONFIG_S_DRIVER_OK then [ConsumePendingRespawn] else []))"

definition reset :: "'q queue_api \<Rightarrow> 'q blk_device \<Rightarrow> 'q blk_device \<times> blk_effect list" where
  "reset api d =
     (d\<lparr>queue_select := 0, device_features_sel := 0, driver_features_sel := 0,
        driver_features := 0, config_generation := config_generation d + 1,
        req_queue := q_reset api (req_queue d), interrupt_status := 0, device_status := 0\<rparr>,
      [ResetEngine])"

section \<open>Writing registers\<close>

definition write_driver_features :: "u32 \<Rightarrow> 'q blk_device \<Rightarrow> 'q blk_device" where
  "write_driver_features val d =
     (if \<not> features_write_allowed (device_status d) then d
      else if driver_features_sel d = 0 then
        d\<lparr>driver_features := (driver_features d AND 0xffffffff00000000) OR ucast val\<rparr>
      else if driver_features_sel d = 1 then
        d\<lparr>driver_features := (driver_features d AND 0x00000000ffffffff) OR rust_shl (ucast val) 32\<rparr>
      else d)"

text \<open>A queue register: guarded by the status, applied to the selected queue if there is one.\<close>

definition configure_queue :: "('q \<Rightarrow> 'q) \<Rightarrow> 'q blk_device \<Rightarrow> 'q blk_device" where
  "configure_queue f d =
     (if queue_config_allowed (device_status d) then
        (case selected_queue d of Some _ \<Rightarrow> d\<lparr>req_queue := f (req_queue d)\<rparr> | None \<Rightarrow> d)
      else d)"

definition mmio_write_reg ::
  "'q queue_api \<Rightarrow> (nat \<Rightarrow> bool) \<Rightarrow> mmio_reg option \<Rightarrow> u32 \<Rightarrow> 'q blk_device
     \<Rightarrow> 'q blk_device \<times> blk_effect list" where
  "mmio_write_reg api poison reg val d =
     (case reg of
        Some DeviceFeaturesSel \<Rightarrow> (d\<lparr>device_features_sel := val\<rparr>, [])
      | Some DriverFeaturesSel \<Rightarrow> (d\<lparr>driver_features_sel := val\<rparr>, [])
      | Some DriverFeatures \<Rightarrow> (write_driver_features val d, [])
      | Some QueueSel \<Rightarrow> (d\<lparr>queue_select := val\<rparr>, [])
      | Some QueueNum \<Rightarrow> (configure_queue (q_set_size api (ucast val)) d, [])
      | Some QueueReady \<Rightarrow> (configure_queue (q_set_ready api (val = 1)) d, [])
      | Some QueueNotify \<Rightarrow> (d, if unat val = REQ_QUEUE then [KickWorker] else [])
      | Some InterruptAck \<Rightarrow> (d\<lparr>interrupt_status := interrupt_status d AND NOT val\<rparr>, [])
      | Some Status \<Rightarrow> if val = 0 then reset api d else set_status api poison val d
      | Some QueueDescLow \<Rightarrow> (configure_queue (q_set_desc api (Some val) None) d, [])
      | Some QueueDescHigh \<Rightarrow> (configure_queue (q_set_desc api None (Some val)) d, [])
      | Some QueueAvailLow \<Rightarrow> (configure_queue (q_set_avail api (Some val) None) d, [])
      | Some QueueAvailHigh \<Rightarrow> (configure_queue (q_set_avail api None (Some val)) d, [])
      | Some QueueUsedLow \<Rightarrow> (configure_queue (q_set_used api (Some val) None) d, [])
      | Some QueueUsedHigh \<Rightarrow> (configure_queue (q_set_used api None (Some val)) d, [])
      | _ \<Rightarrow> (d, []))"

definition mmio_write ::
  "'q queue_api \<Rightarrow> (nat \<Rightarrow> bool) \<Rightarrow> u64 \<Rightarrow> bytes \<Rightarrow> 'q blk_device
     \<Rightarrow> 'q blk_device \<times> blk_effect list" where
  "mmio_write api poison offset data d =
     (if 0x100 \<le> offset then (d, [])
      else if length data \<noteq> 4 then (d, [])
      else mmio_write_reg api poison (mmio_reg_of offset) (from_le_bytes data) d)"

section \<open>The device and its environment\<close>

text \<open>
  One step of the device: the guest writes a register, or the worker poisons the device
  (\<^verbatim>\<open>fetch_or\<close> of NEEDS_RESET) or raises an interrupt. Reads change nothing.
\<close>

inductive blk_step :: "'q queue_api \<Rightarrow> 'q blk_device \<Rightarrow> 'q blk_device \<Rightarrow> bool" for api where
  guest_write: "blk_step api d (fst (mmio_write api poison offset data d))"
| worker_poison: "blk_step api d (d\<lparr>device_status := device_status d OR VIRTIO_CONFIG_S_NEEDS_RESET\<rparr>)"
| worker_interrupt: "blk_step api d (d\<lparr>interrupt_status := interrupt_status d OR 1\<rparr>)"

inductive blk_reachable :: "'q queue_api \<Rightarrow> 'q blk_device \<Rightarrow> bool" for api where
  initial: "blk_reachable api (blk_new q cap ro)"
| step: "blk_reachable api d \<Longrightarrow> blk_step api d d' \<Longrightarrow> blk_reachable api d'"

inductive_cases blk_stepE: "blk_step api d d'"

text \<open>The negotiated features are a subset of the offered ones and include VERSION_1.\<close>

definition negotiated :: "'q blk_device \<Rightarrow> bool" where
  "negotiated d \<longleftrightarrow> driver_features d AND feature_bit VIRTIO_F_VERSION_1 \<noteq> 0
     \<and> driver_features d AND NOT (device_features d) = 0"

definition blk_inv :: "'q blk_device \<Rightarrow> bool" where
  "blk_inv d \<longleftrightarrow> on_ladder (device_status d)
     \<and> (device_status d AND VIRTIO_CONFIG_S_FEATURES_OK \<noteq> 0 \<longrightarrow> negotiated d)"

section \<open>Specification functions and sample values\<close>

text \<open>
  What the loop guarantees against the worker: no bit is lost, the ladder is kept, and a
  poisoning that happened before the loop finished is in the final status.
\<close>

definition loop_ok :: "(nat \<Rightarrow> bool) \<Rightarrow> nat \<Rightarrow> u32 \<Rightarrow> u32 \<times> status_outcome \<times> nat \<Rightarrow> bool" where
  "loop_ok poison i current = (\<lambda>(st, outcome, k).
     current AND st = current \<and> (on_ladder current \<longrightarrow> on_ladder st) \<and> i \<le> k
     \<and> ((\<exists>j. i \<le> j \<and> j < k \<and> poison j) \<longrightarrow> st AND VIRTIO_CONFIG_S_NEEDS_RESET \<noteq> 0))"

text \<open>A queue with plain register semantics, used to evaluate the device on examples.\<close>

record plain_queue =
  pq_size :: u16
  pq_ready :: bool
  pq_event_idx :: bool

definition plain_api :: "plain_queue queue_api" where
  "plain_api = \<lparr>q_max_size = (\<lambda>_. 256), q_ready = pq_ready,
     q_set_size = (\<lambda>n q. q\<lparr>pq_size := n\<rparr>), q_set_ready = (\<lambda>r q. q\<lparr>pq_ready := r\<rparr>),
     q_set_desc = (\<lambda>_ _ q. q), q_set_avail = (\<lambda>_ _ q. q), q_set_used = (\<lambda>_ _ q. q),
     q_set_event_idx = (\<lambda>e q. q\<lparr>pq_event_idx := e\<rparr>),
     q_reset = (\<lambda>q. \<lparr>pq_size = 256, pq_ready = False, pq_event_idx = False\<rparr>)\<rparr>"

definition plain_blk :: "plain_queue blk_device" where
  "plain_blk = blk_new \<lparr>pq_size = 256, pq_ready = False, pq_event_idx = False\<rparr> 1048576 False"

definition driver_init :: "u64 \<Rightarrow> (u64 \<times> u32) list" where
  "driver_init feats = [(0x70, 0), (0x70, 1), (0x70, 3), (0x24, 0), (0x20, ucast feats), (0x24, 1),
     (0x20, ucast (drop_bit 32 feats)), (0x70, 0xb), (0x70, 0xf)]"

definition guest_writes ::
  "'q queue_api \<Rightarrow> (nat \<Rightarrow> bool) \<Rightarrow> (u64 \<times> u32) list \<Rightarrow> 'q blk_device \<Rightarrow> 'q blk_device" where
  "guest_writes api poison ws d =
     foldl (\<lambda>d (off, val). fst (mmio_write api poison off (to_le_bytes 4 val) d)) d ws"

definition regs_are :: "u64 \<Rightarrow> u32 \<Rightarrow> u64 \<Rightarrow> 'q blk_device \<Rightarrow> bool" where
  "regs_are dev st drv d \<longleftrightarrow>
     device_features d = dev \<and> device_status d = st \<and> driver_features d = drv"

definition live_blk :: "plain_queue blk_device" where
  "live_blk = guest_writes plain_api (\<lambda>_. False) (driver_init 0x100000000) plain_blk"

section \<open>The compare-and-swap loop\<close>

lemma valid_advance_next:
  assumes "valid_advance drv dev current new_bits" and "val AND current = current"
    and "new_bits = val AND NOT current"
  shows "on_ladder val"
proof -
  have "val = current OR new_bits" using superset_eq_or [OF assms(2)] assms(3) by simp
  then show ?thesis
    using assms(1) on_ladder_rungs
    by (auto simp: valid_advance_def status_defs split: if_splits)
qed

lemma loop_ok_same: "loop_ok poison i current (current, outcome, i)"
  by (auto simp: loop_ok_def)

lemma loop_ok_stored:
  assumes "val AND current = current" and "new_bits = val AND NOT current"
    and "new_bits = VIRTIO_CONFIG_S_FAILED \<or> valid_advance drv dev current new_bits"
    and "(if poison i then current OR VIRTIO_CONFIG_S_NEEDS_RESET else current) = current"
  shows "loop_ok poison i current (val, outcome, Suc i)"
proof -
  have sup: "current AND val = current" using assms(1) by (simp add: and.commute)
  have "on_ladder val" if "on_ladder current"
    using assms(3)
  proof
    assume "new_bits = VIRTIO_CONFIG_S_FAILED"
    then have "val = current OR 0x80"
      using superset_eq_or [OF assms(1)] assms(2) by (simp add: status_defs)
    with that on_ladder_flags(2) show ?thesis by simp
  qed (rule valid_advance_next [OF _ assms(1,2)])
  moreover have "val AND VIRTIO_CONFIG_S_NEEDS_RESET \<noteq> 0" if "poison i"
  proof -
    from assms(4) that have "current OR VIRTIO_CONFIG_S_NEEDS_RESET = current" by simp
    with or_flag_bit [of current] have "current AND VIRTIO_CONFIG_S_NEEDS_RESET \<noteq> 0" by metis
    with superset_bit [OF sup] show ?thesis by blast
  qed
  ultimately show ?thesis using sup by (auto simp: loop_ok_def less_Suc_eq_le)
qed

lemma loop_ok_retry:
  assumes "observed = current OR VIRTIO_CONFIG_S_NEEDS_RESET" and "loop_ok poison (Suc i) observed r"
  shows "loop_ok poison i current r"
proof -
  obtain st outcome k where r: "r = (st, outcome, k)" by (cases r)
  have sup: "observed AND st = observed" using assms(2) by (simp add: loop_ok_def r)
  have "current AND st = current"
    using superset_trans [OF _ sup, of current] assms(1) by (simp add: and_or_absorb)
  moreover have "on_ladder st" if "on_ladder current"
    using assms on_ladder_flags(1) [OF that] by (simp add: loop_ok_def r status_defs)
  moreover have "st AND VIRTIO_CONFIG_S_NEEDS_RESET \<noteq> 0"
    using superset_bit [OF sup] or_flag_bit assms(1) by blast
  ultimately show ?thesis using assms(2) by (simp add: loop_ok_def r)
qed

lemma set_status_loop_ok:
  "loop_ok poison i current (set_status_loop poison drv dev val budget i current current)"
proof (induction budget arbitrary: i current)
  case (Suc budget)
  let ?new = "val AND NOT current"
  let ?obs = "if poison i then current OR VIRTIO_CONFIG_S_NEEDS_RESET else current"
  consider (keep) "val AND current \<noteq> current \<or> ?new = 0
        \<or> \<not> (?new = VIRTIO_CONFIG_S_FAILED \<or> valid_advance drv dev current ?new)"
    | (cas) "val AND current = current" "?new \<noteq> 0"
        "?new = VIRTIO_CONFIG_S_FAILED \<or> valid_advance drv dev current ?new"
    by blast
  then show ?case
  proof cases
    case keep
    then show ?thesis by (auto simp: loop_ok_same Let_def)
  next
    case cas
    show ?thesis
    proof (cases "?obs = current")
      case True
      have "loop_ok poison i current (val, outcome, Suc i)" for outcome
        by (rule loop_ok_stored [OF cas(1) refl cas(3), of poison i, OF True])
      with True cas show ?thesis by (simp add: Let_def)
    next
      case False
      then have "?obs = current OR VIRTIO_CONFIG_S_NEEDS_RESET" by (simp split: if_splits)
      from loop_ok_retry [OF this Suc.IH] cas False show ?thesis by (simp add: Let_def)
    qed
  qed
qed (simp add: loop_ok_same)

text \<open>The loop as a case distinction, for the proofs that follow.\<close>

lemma set_status_loop_cases [consumes 1, case_names keep stored retry]:
  assumes "set_status_loop poison drv dev val (Suc budget) i current current = (st, outcome, k)"
  obtains "st = current" and "outcome = Rejected \<or> outcome = Unchanged" and "k = i"
  | "val AND current = current"
    and "val AND NOT current = VIRTIO_CONFIG_S_FAILED \<and> outcome = StoredFailed
         \<or> valid_advance drv dev current (val AND NOT current) \<and> outcome = Advanced (val AND NOT current)"
    and "st = val" and "k = Suc i"
  | "current OR VIRTIO_CONFIG_S_NEEDS_RESET \<noteq> current"
    and "set_status_loop poison drv dev val budget (Suc i) (current OR VIRTIO_CONFIG_S_NEEDS_RESET)
           (current OR VIRTIO_CONFIG_S_NEEDS_RESET) = (st, outcome, k)"
proof -
  let ?new = "val AND NOT current"
  let ?obs = "if poison i then current OR VIRTIO_CONFIG_S_NEEDS_RESET else current"
  let ?cas = "?new = VIRTIO_CONFIG_S_FAILED \<or> valid_advance drv dev current ?new"
  consider (rej) "val AND current \<noteq> current" | (same) "val AND current = current" "?new = 0"
    | (bad) "val AND current = current" "?new \<noteq> 0" "\<not> ?cas"
    | (ok) "val AND current = current" "?new \<noteq> 0" "?cas" "?obs = current"
    | (lost) "val AND current = current" "?new \<noteq> 0" "?cas" "?obs \<noteq> current"
    by blast
  then show thesis
  proof cases
    case rej
    with assms that(1) show ?thesis by simp
  next
    case same
    with assms that(1) show ?thesis by simp
  next
    case bad
    with assms that(1) show ?thesis by (simp add: Let_def)
  next
    case ok
    have "set_status_loop poison drv dev val (Suc budget) i current current
        = (val, if ?new = VIRTIO_CONFIG_S_FAILED then StoredFailed else Advanced ?new, Suc i)"
      unfolding set_status_loop.simps Let_def using ok by (simp only: if_True if_False simp_thms)
    with assms have "st = val" "k = Suc i"
      "outcome = (if ?new = VIRTIO_CONFIG_S_FAILED then StoredFailed else Advanced ?new)" by simp_all
    with that(2) ok show ?thesis by (cases "?new = VIRTIO_CONFIG_S_FAILED") simp_all
  next
    case lost
    have "set_status_loop poison drv dev val (Suc budget) i current current
        = set_status_loop poison drv dev val budget (Suc i) ?obs ?obs"
      unfolding set_status_loop.simps Let_def using lost by (simp only: if_True if_False simp_thms)
    with assms lost(4) that(3) show ?thesis by (simp split: if_splits)
  qed
qed

lemma set_status_loop_retries:
  assumes "set_status_loop poison drv dev val (Suc (Suc budget)) i current current = (st, outcome, k)"
  shows "k \<le> i + 2" and "outcome \<noteq> Abandoned"
proof -
  have nr: "current OR VIRTIO_CONFIG_S_NEEDS_RESET OR VIRTIO_CONFIG_S_NEEDS_RESET
      = current OR VIRTIO_CONFIG_S_NEEDS_RESET" by simp
  from assms have "k \<le> i + 2 \<and> outcome \<noteq> Abandoned"
  proof (cases rule: set_status_loop_cases)
    case retry
    from retry(2) show ?thesis by (cases rule: set_status_loop_cases) (auto simp: nr or.assoc)
  qed auto
  then show "k \<le> i + 2" and "outcome \<noteq> Abandoned" by blast+
qed

lemma set_status_loop_advanced:
  assumes "set_status_loop poison drv dev val budget i current current
             = (st, Advanced VIRTIO_CONFIG_S_FEATURES_OK, k)"
  shows "st = 0xb"
  using assms
proof (induction budget arbitrary: i current)
  case (Suc budget)
  from Suc.prems show ?case
  proof (cases rule: set_status_loop_cases)
    case stored
    then have "val AND NOT current = 8" "current = 3"
      by (auto simp: valid_advance_def status_defs split: if_splits)
    with superset_eq_or [OF stored(1)] stored(3) show ?thesis by simp
  qed (use Suc.IH in auto)
qed simp

lemma set_status_loop_negotiated:
  assumes "set_status_loop poison drv dev val budget i current current = (st, outcome, k)"
    and "st AND VIRTIO_CONFIG_S_FEATURES_OK \<noteq> 0" and "current AND VIRTIO_CONFIG_S_FEATURES_OK = 0"
  shows "drv AND feature_bit VIRTIO_F_VERSION_1 \<noteq> 0 \<and> drv AND NOT dev = 0"
  using assms
proof (induction budget arbitrary: i current)
  case (Suc budget)
  from Suc.prems(1) show ?case
  proof (cases rule: set_status_loop_cases)
    case keep
    with Suc.prems show ?thesis by simp
  next
    case stored
    have "st = current OR (val AND NOT current)" using superset_eq_or [OF stored(1)] stored(3) by simp
    with Suc.prems(2,3) have "(val AND NOT current) AND VIRTIO_CONFIG_S_FEATURES_OK \<noteq> 0"
      by (simp add: or_and_distrib)
    with stored(2) show ?thesis by (auto simp: valid_advance_def status_defs split: if_splits)
  next
    case retry
    have "(current OR VIRTIO_CONFIG_S_NEEDS_RESET) AND VIRTIO_CONFIG_S_FEATURES_OK = 0"
      using Suc.prems(3) by (simp add: or_and_distrib status_defs)
    with Suc.IH [OF retry(2) Suc.prems(2)] show ?thesis by blast
  qed
qed simp

section \<open>The device\<close>

lemma set_status_result:
  obtains outcome k st where
    "set_status_loop poison (driver_features d) (device_features d) val MAX_CAS_RETRIES 0
       (device_status d) (device_status d) = (st, outcome, k)"
    and "device_status (fst (set_status api poison val d)) = st"
    and "driver_features (fst (set_status api poison val d)) = driver_features d"
    and "read_only (fst (set_status api poison val d)) = read_only d"
    and "outcome \<noteq> Advanced VIRTIO_CONFIG_S_FEATURES_OK
         \<longrightarrow> req_queue (fst (set_status api poison val d)) = req_queue d"
proof -
  obtain st outcome k where l: "set_status_loop poison (driver_features d) (device_features d) val
      MAX_CAS_RETRIES 0 (device_status d) (device_status d) = (st, outcome, k)"
    by (cases "set_status_loop poison (driver_features d) (device_features d) val
      MAX_CAS_RETRIES 0 (device_status d) (device_status d)") auto
  from that [OF l] l show thesis by (simp add: set_status_def Let_def)
qed

interpretation blk_status: status_register device_status "\<lambda>v d. fst (set_status api poison v d)"
  for api :: "'q queue_api" and poison
proof
  fix d :: "'q blk_device" and v
  obtain st outcome k where l: "set_status_loop poison (driver_features d) (device_features d) v
      MAX_CAS_RETRIES 0 (device_status d) (device_status d) = (st, outcome, k)"
    and st: "device_status (fst (set_status api poison v d)) = st"
    by (rule set_status_result)
  have ok: "loop_ok poison 0 (device_status d) (st, outcome, k)"
    using set_status_loop_ok [of poison 0 "device_status d"] l by metis
  then show "device_status d AND device_status (fst (set_status api poison v d)) = device_status d"
    by (simp add: st loop_ok_def)
  show "on_ladder (device_status d) \<Longrightarrow> on_ladder (device_status (fst (set_status api poison v d)))"
    using ok by (simp add: st loop_ok_def)
qed

lemma configure_queue_fields [simp]:
  "device_status (configure_queue f d) = device_status d"
  "driver_features (configure_queue f d) = driver_features d"
  "read_only (configure_queue f d) = read_only d"
  by (simp_all add: configure_queue_def split: option.split)

lemma negotiated_cong:
  "driver_features d' = driver_features d \<Longrightarrow> read_only d' = read_only d \<Longrightarrow> negotiated d' = negotiated d"
  by (simp add: negotiated_def device_features_def)

lemma blk_inv_cong:
  "device_status d' = device_status d \<Longrightarrow> driver_features d' = driver_features d
   \<Longrightarrow> read_only d' = read_only d \<Longrightarrow> blk_inv d' = blk_inv d"
  using negotiated_cong [of d' d] by (simp add: blk_inv_def)

lemma set_status_inv:
  assumes "blk_inv d"
  shows "blk_inv (fst (set_status api poison val d))"
proof -
  let ?d = "fst (set_status api poison val d)"
  obtain st outcome k where l: "set_status_loop poison (driver_features d) (device_features d) val
      MAX_CAS_RETRIES 0 (device_status d) (device_status d) = (st, outcome, k)"
    and st: "device_status ?d = st" and same: "driver_features ?d = driver_features d" "read_only ?d = read_only d"
    by (rule set_status_result)
  have "on_ladder st" 
    using blk_status.write_on_ladder [of d api poison val] assms unfolding st [symmetric] blk_inv_def by blast
  moreover have "negotiated d" if "st AND VIRTIO_CONFIG_S_FEATURES_OK \<noteq> 0"
    using set_status_loop_negotiated [OF l that] assms
    by (cases "device_status d AND VIRTIO_CONFIG_S_FEATURES_OK = 0")
      (auto simp: blk_inv_def negotiated_def)
  ultimately show ?thesis using negotiated_cong [OF same] by (simp add: blk_inv_def st)
qed

lemma write_driver_features_inv: "blk_inv d \<Longrightarrow> blk_inv (write_driver_features val d)"
  by (auto simp: write_driver_features_def blk_inv_def features_write_allowed_def)

lemma reset_inv: "blk_inv (fst (reset api d))"
  by (simp add: reset_def blk_inv_def on_ladder_rungs)

lemma mmio_write_inv:
  assumes "blk_inv d"
  shows "blk_inv (fst (mmio_write api poison offset data d))"
proof -
  have "blk_inv (fst (mmio_write_reg api poison reg val d))" for reg val
  proof (cases reg)
    case (Some r)
    show ?thesis
      unfolding Some mmio_write_reg_def
      using assms set_status_inv [OF assms] reset_inv [of api d] write_driver_features_inv [OF assms]
      by (cases r) (simp_all add: blk_inv_cong [of "configure_queue _ d" d]
          blk_inv_cong [of "d\<lparr>device_features_sel := val\<rparr>" d]
          blk_inv_cong [of "d\<lparr>driver_features_sel := val\<rparr>" d]
          blk_inv_cong [of "d\<lparr>queue_select := val\<rparr>" d]
          blk_inv_cong [of "d\<lparr>interrupt_status := interrupt_status d AND NOT val\<rparr>" d])
  qed (simp add: mmio_write_reg_def assms)
  then show ?thesis using assms by (simp add: mmio_write_def)
qed

lemma worker_poison_inv:
  assumes "blk_inv d"
  shows "blk_inv (d\<lparr>device_status := device_status d OR VIRTIO_CONFIG_S_NEEDS_RESET\<rparr>)"
proof -
  have "(s OR 0x40) AND 8 = s AND 8" for s :: u32 by (simp add: or_and_distrib)
  with assms on_ladder_flags(1) show ?thesis
    by (simp add: blk_inv_def status_defs negotiated_def device_features_def)
qed

lemma blk_step_inv: "blk_step api d d' \<Longrightarrow> blk_inv d \<Longrightarrow> blk_inv d'"
  by (erule blk_stepE)
    (simp_all add: mmio_write_inv worker_poison_inv
      blk_inv_cong [of "d\<lparr>interrupt_status := interrupt_status d OR 1\<rparr>" d])

lemma blk_reachable_inv: "blk_reachable api d \<Longrightarrow> blk_inv d"
proof (induction rule: blk_reachable.induct)
  case (initial q cap ro)
  show ?case by (simp add: blk_new_def blk_inv_def on_ladder_rungs)
next
  case (step d d')
  with blk_step_inv show ?case by blast
qed

lemma set_status_queue:
  assumes "device_status d AND VIRTIO_CONFIG_S_DRIVER_OK \<noteq> 0"
  shows "req_queue (fst (set_status api poison val d)) = req_queue d"
proof -
  obtain st outcome k where l: "set_status_loop poison (driver_features d) (device_features d) val
      MAX_CAS_RETRIES 0 (device_status d) (device_status d) = (st, outcome, k)"
    and st: "device_status (fst (set_status api poison val d)) = st"
    and "driver_features (fst (set_status api poison val d)) = driver_features d"
    and "read_only (fst (set_status api poison val d)) = read_only d"
    and q: "outcome \<noteq> Advanced VIRTIO_CONFIG_S_FEATURES_OK
         \<longrightarrow> req_queue (fst (set_status api poison val d)) = req_queue d"
    by (rule set_status_result)
  have "outcome \<noteq> Advanced VIRTIO_CONFIG_S_FEATURES_OK"
  proof
    assume "outcome = Advanced VIRTIO_CONFIG_S_FEATURES_OK"
    with l have "st = 0xb" using set_status_loop_advanced by blast
    moreover have "device_status d AND st = device_status d"
      using blk_status.write_keeps_bits [of d api poison val] st by simp
    ultimately have "device_status d AND 4 = (device_status d AND 0xb) AND 4" by simp
    then show False using assms by (simp add: status_defs and.assoc)
  qed
  with q show ?thesis by blast
qed

lemma mmio_write_live:
  assumes "on_ladder (device_status d)" and live: "device_status d AND VIRTIO_CONFIG_S_DRIVER_OK \<noteq> 0"
    and "\<not> (mmio_reg_of offset = Some Status \<and> from_le_bytes data = (0 :: u32))"
  shows "req_queue (fst (mmio_write api poison offset data d)) = req_queue d"
    and "driver_features (fst (mmio_write api poison offset data d)) = driver_features d"
proof -
  have f: "device_status d AND 0xf = 0xf"
    using on_ladder_driver_ok [OF assms(1)] live by (simp add: status_defs)
  have "(device_status d AND 0xf) AND 8 = device_status d AND (0xf AND 8)" by (rule and.assoc)
  then have "device_status d AND 8 = 8" unfolding f by simp
  then have feats: "\<not> features_write_allowed (device_status d)"
    by (simp add: features_write_allowed_def status_defs)
  have cfg: "\<not> queue_config_allowed (device_status d)" using live by (simp add: queue_config_allowed_def)
  have "req_queue (fst (mmio_write_reg api poison reg val d)) = req_queue d
      \<and> driver_features (fst (mmio_write_reg api poison reg val d)) = driver_features d"
    if "\<not> (reg = Some Status \<and> val = 0)" for reg val
  proof (cases reg)
    case (Some r)
    have "driver_features (fst (set_status api poison val d)) = driver_features d"
      by (rule set_status_result [of poison d val api])
    with Some that set_status_queue [OF live] show ?thesis
      by (cases r) (simp_all add: mmio_write_reg_def configure_queue_def cfg
          write_driver_features_def feats)
  qed (simp add: mmio_write_reg_def)
  with assms(3) show "req_queue (fst (mmio_write api poison offset data d)) = req_queue d"
    and "driver_features (fst (mmio_write api poison offset data d)) = driver_features d"
    by (simp_all add: mmio_write_def)
qed

section \<open>Reads\<close>

lemma length_blk_config_bytes: "length (blk_config_bytes d) = 24"
  by (simp add: blk_config_bytes_def)

lemma length_mmio_read: "length (mmio_read api d offset len) = len"
  by (simp add: mmio_read_def read_blk_config_def length_blk_config_bytes Let_def)

section \<open>Driver initialisation\<close>

lemma mmio_write_reg_word:
  "off < 0x100 \<Longrightarrow> mmio_write api poison off (to_le_bytes 4 val) d
     = mmio_write_reg api poison (mmio_reg_of off) val d"
  by (simp add: mmio_write_def le_simps linorder_not_le [symmetric])

lemma set_status_ok:
  assumes "valid_advance (driver_features d) (device_features d) (device_status d)
      (val AND NOT (device_status d))"
    and "val AND device_status d = device_status d" and "val AND NOT (device_status d) \<noteq> 0"
    and "\<not> poison 0"
  shows "device_status (fst (set_status api poison val d)) = val"
    and "driver_features (fst (set_status api poison val d)) = driver_features d"
    and "read_only (fst (set_status api poison val d)) = read_only d"
    and "driver_features_sel (fst (set_status api poison val d)) = driver_features_sel d"
proof -
  have M: "MAX_CAS_RETRIES = Suc 3" by (simp add: MAX_CAS_RETRIES_def)
  have "\<exists>out. set_status_loop poison (driver_features d) (device_features d) val MAX_CAS_RETRIES 0
      (device_status d) (device_status d) = (val, out, 1)"
    unfolding M set_status_loop.simps Let_def using assms by simp
  then show "device_status (fst (set_status api poison val d)) = val"
    by (auto simp: set_status_def Let_def)
  show "driver_features (fst (set_status api poison val d)) = driver_features d"
    "read_only (fst (set_status api poison val d)) = read_only d"
    "driver_features_sel (fst (set_status api poison val d)) = driver_features_sel d"
    by (simp_all add: set_status_def Let_def split: prod.splits)
qed

section \<open>Properties\<close>

text \<open>
  C29: in every state the guest and the worker can bring the device to, the status register is
  on the virtio ladder, a negotiated device has accepted only offered features including
  VERSION_1, and a live device has passed every earlier rung. The guest may write any value
  to any register at any time and the worker may poison the device at any time.
\<close>

theorem blk_reachable_states:
  assumes "blk_reachable api d"
  shows "on_ladder (device_status d)
    \<and> (device_status d AND VIRTIO_CONFIG_S_FEATURES_OK = 0 \<or> negotiated d)
    \<and> (device_status d AND VIRTIO_CONFIG_S_DRIVER_OK = 0 \<or> device_status d AND 0xf = 0xf)"
  using blk_reachable_inv [OF assms] on_ladder_driver_ok [of "device_status d"]
  by (auto simp: blk_inv_def status_defs)

lemma plain_blk_reachable: "blk_reachable plain_api plain_blk"
  unfolding plain_blk_def by (rule blk_reachable.initial)

theorem blk_reachable_states_witness:
  "\<exists>d. d = fst (mmio_write plain_api (\<lambda>_. False) 0x70 (to_le_bytes 4 (1 :: u32)) plain_blk)
     \<and> device_status d = 1 \<and> on_ladder (device_status d)
     \<and> (device_status d AND VIRTIO_CONFIG_S_FEATURES_OK = 0 \<or> negotiated d)
     \<and> (device_status d AND VIRTIO_CONFIG_S_DRIVER_OK = 0 \<or> device_status d AND 0xf = 0xf)"
proof -
  let ?d = "fst (mmio_write plain_api (\<lambda>_. False) 0x70 (to_le_bytes 4 (1 :: u32)) plain_blk)"
  have "device_status ?d = 1"
    using set_status_ok(1) [of plain_blk 1 "\<lambda>_. False" plain_api]
    by (simp add: mmio_write_reg_word mmio_write_reg_def mmio_reg_of_def plain_blk_def blk_new_def
        valid_advance_def status_defs)
  moreover have "blk_reachable plain_api ?d"
    by (rule blk_reachable.step [OF plain_blk_reachable blk_step.guest_write])
  ultimately show ?thesis using blk_reachable_states [of plain_api ?d] by blast
qed

text \<open>
  C23: the status update is safe against the worker. Whatever the guest writes and whenever the
  worker poisons the device, the compare-and-swap loop loses no status bit, a poisoning that
  happens before it finishes is visible in the final status, it needs at most two
  compare-and-swaps and never gives up on its retry budget.
\<close>

theorem set_status_race_safe:
  "case set_status_loop poison drv dev val MAX_CAS_RETRIES 0 current current of (st, outcome, k) \<Rightarrow>
     current AND st = current \<and> k \<le> 2 \<and> outcome \<noteq> Abandoned
     \<and> ({j. j < k \<and> poison j} = {} \<or> st AND VIRTIO_CONFIG_S_NEEDS_RESET \<noteq> 0)"
proof -
  obtain st outcome k where l: "set_status_loop poison drv dev val MAX_CAS_RETRIES 0 current current
      = (st, outcome, k)"
    by (cases "set_status_loop poison drv dev val MAX_CAS_RETRIES 0 current current") auto
  have M: "MAX_CAS_RETRIES = Suc (Suc 2)" by (simp add: MAX_CAS_RETRIES_def)
  have "loop_ok poison 0 current (st, outcome, k)" using set_status_loop_ok [of poison 0 current] l by metis
  moreover note set_status_loop_retries [OF l [unfolded M]]
  ultimately show ?thesis using l by (auto simp: loop_ok_def)
qed

theorem set_status_race_safe_witness:
  "set_status_loop (\<lambda>i. i = 0) 0 0 3 MAX_CAS_RETRIES 0 1 1 = (0x41, Rejected, 1)
   \<and> (1 :: u32) AND 0x41 = 1 \<and> (0x41 :: u32) AND VIRTIO_CONFIG_S_NEEDS_RESET \<noteq> 0"
proof -
  have M: "MAX_CAS_RETRIES = Suc (Suc 2)" by (simp add: MAX_CAS_RETRIES_def)
  have l: "set_status_loop (\<lambda>i. i = 0) 0 0 3 MAX_CAS_RETRIES 0 1 1 = (0x41, Rejected, 1)"
    unfolding M set_status_loop.simps by (simp add: valid_advance_def status_defs Let_def)
  have "{j. j < 1 \<and> j = (0 :: nat)} \<noteq> {}" by auto
  with set_status_race_safe [where poison = "\<lambda>i. i = 0" and drv = 0 and dev = 0 and val = 3 and current = 1] l show ?thesis by (auto dest: spec [of _ 0])
qed

text \<open>
  once the driver is live, neither the queue configuration nor the negotiated features can
  change by any register write other than a reset.
\<close>

theorem blk_live_frozen:
  assumes "blk_reachable api d" and "device_status d AND VIRTIO_CONFIG_S_DRIVER_OK \<noteq> 0"
    and "mmio_reg_of offset \<noteq> Some Status \<or> from_le_bytes data \<noteq> (0 :: u32)"
  shows "req_queue (fst (mmio_write api poison offset data d)) = req_queue d
    \<and> driver_features (fst (mmio_write api poison offset data d)) = driver_features d"
  using blk_reachable_inv [OF assms(1)] mmio_write_live [OF _ assms(2)] assms(3)
  by (auto simp: blk_inv_def)

lemma mask_32: "(0xffffffff :: u64) = mask 32"
  by (simp add: mask_eq_exp_minus_1)

lemma two_halves:
  "(ucast (ucast w :: u32) AND 0xffffffff) OR rust_shl (ucast (ucast (drop_bit 32 w) :: u32)) 32 = (w :: u64)"
proof -
  have "bit ((ucast (ucast w :: u32) AND mask 32)
      OR push_bit 32 (ucast (ucast (drop_bit 32 w) :: u32) :: u64)) n = bit w n" if "n < 64" for n
    using that by (auto simp: bit_simps not_less)
  then show ?thesis unfolding mask_32 rust_shl_def by (intro bit_word_eqI) simp
qed

lemma status_write_advances:
  assumes "regs_are dev st drv d" and "valid_advance drv dev st (val AND NOT st)"
    and "val AND st = st" and "val AND NOT st \<noteq> 0" and "val \<noteq> 0"
  shows "regs_are dev val drv (fst (mmio_write api (\<lambda>_. False) 0x70 (to_le_bytes 4 val) d))"
  using set_status_ok [of d val "\<lambda>_. False" api] assms
  by (simp add: regs_are_def mmio_write_reg_word mmio_write_reg_def mmio_reg_of_def device_features_def)

lemma features_writes:
  assumes "regs_are dev 3 0 d"
  shows "regs_are dev 3 feats (guest_writes api (\<lambda>_. False)
     [(0x24, 0), (0x20, ucast feats), (0x24, 1), (0x20, ucast (drop_bit 32 feats))] d)"
  using assms two_halves [of feats]
  by (simp add: regs_are_def guest_writes_def mmio_write_reg_word mmio_write_reg_def mmio_reg_of_def
      write_driver_features_def features_write_allowed_def status_defs device_features_def)

lemma driver_init_split:
  "guest_writes api poison (driver_init feats) d =
     (let w = (\<lambda>val d. fst (mmio_write api poison 0x70 (to_le_bytes 4 (val :: u32)) d));
          d3 = w 3 (w 1 (w 0 d));
          d4 = guest_writes api poison
                 [(0x24, 0), (0x20, ucast feats), (0x24, 1), (0x20, ucast (drop_bit 32 feats))] d3
      in w 0xf (w 0xb d4))"
  by (simp add: guest_writes_def driver_init_def Let_def)

lemma driver_init_regs:
  assumes "feats AND NOT (device_features d) = 0" and "feats AND feature_bit VIRTIO_F_VERSION_1 \<noteq> 0"
  shows "regs_are (device_features d) 0xf feats (guest_writes api (\<lambda>_. False) (driver_init feats) d)"
proof -
  define w where "w = (\<lambda>val d. fst (mmio_write api (\<lambda>_. False) 0x70 (to_le_bytes 4 (val :: u32)) d))"
  define d3 where "d3 = w 3 (w 1 (w 0 d))"
  define d4 where "d4 = guest_writes api (\<lambda>_. False)
    [(0x24, 0), (0x20, ucast feats), (0x24, 1), (0x20, ucast (drop_bit 32 feats))] d3"
  let ?dev = "device_features d"
  have "regs_are ?dev 0 0 (w 0 d)"
    by (simp add: w_def mmio_write_reg_word mmio_write_reg_def mmio_reg_of_def reset_def regs_are_def
        device_features_def)
  then have "regs_are ?dev 1 0 (w 1 (w 0 d))" unfolding w_def
    by (rule status_write_advances) (simp_all add: valid_advance_def status_defs)
  then have "regs_are ?dev 3 0 d3" unfolding d3_def w_def
    by (rule status_write_advances) (simp_all add: valid_advance_def status_defs)
  then have "regs_are ?dev 3 feats d4" unfolding d4_def by (rule features_writes)
  then have "regs_are ?dev 0xb feats (w 0xb d4)" unfolding w_def
    by (rule status_write_advances) (simp_all add: valid_advance_def status_defs assms)
  then have "regs_are ?dev 0xf feats (w 0xf (w 0xb d4))" unfolding w_def
    by (rule status_write_advances) (simp_all add: valid_advance_def status_defs)
  then show ?thesis by (simp add: driver_init_split Let_def flip: w_def d3_def d4_def)
qed

text \<open>
  C30: a driver can always bring the device up. From any state, a reset followed by the virtio
  initialisation sequence with any subset of the offered features that includes VERSION_1 leads
  to a live device with exactly those features, if the worker does not poison it meanwhile.
\<close>

theorem driver_init_succeeds:
  assumes "feats AND NOT (device_features d) = 0" and "feats AND feature_bit VIRTIO_F_VERSION_1 \<noteq> 0"
  shows "device_status (guest_writes api (\<lambda>_. False) (driver_init feats) d) = 0xf
    \<and> driver_features (guest_writes api (\<lambda>_. False) (driver_init feats) d) = feats"
  using driver_init_regs [OF assms, of api] by (simp add: regs_are_def)

theorem driver_init_succeeds_witness:
  "device_status (guest_writes plain_api (\<lambda>_. False) (driver_init 0x120000200) plain_blk) = 0xf
   \<and> driver_features (guest_writes plain_api (\<lambda>_. False) (driver_init 0x120000200) plain_blk) = 0x120000200"
proof -
  have "0x120000200 AND NOT (device_features plain_blk) = 0"
    "(0x120000200 :: u64) AND feature_bit VIRTIO_F_VERSION_1 \<noteq> 0"
    by (simp_all add: device_features_def plain_blk_def blk_new_def feature_bit_def rust_shl_def
        VIRTIO_F_VERSION_1_def VIRTIO_RING_F_EVENT_IDX_def push_bit_eq_mult)
  from driver_init_succeeds [OF this] show ?thesis .
qed

lemma guest_writes_reachable:
  "blk_reachable api d \<Longrightarrow> blk_reachable api (guest_writes api poison ws d)"
proof (induction ws arbitrary: d)
  case (Cons w ws)
  obtain off val where w: "w = (off, val)" by (cases w)
  have "blk_reachable api (fst (mmio_write api poison off (to_le_bytes 4 val) d))"
    by (rule blk_reachable.step [OF Cons.prems blk_step.guest_write])
  from Cons.IH [OF this] show ?case by (simp add: guest_writes_def w)
qed (simp add: guest_writes_def)

lemma live_blk_facts:
  "blk_reachable plain_api live_blk" "device_status live_blk = 0xf"
proof -
  show "blk_reachable plain_api live_blk"
    unfolding live_blk_def by (rule guest_writes_reachable [OF plain_blk_reachable])
  have "0x100000000 AND NOT (device_features plain_blk) = 0"
    "(0x100000000 :: u64) AND feature_bit VIRTIO_F_VERSION_1 \<noteq> 0"
    by (simp_all add: device_features_def plain_blk_def blk_new_def feature_bit_def rust_shl_def
        VIRTIO_F_VERSION_1_def VIRTIO_RING_F_EVENT_IDX_def push_bit_eq_mult)
  from driver_init_regs [OF this, of plain_api] show "device_status live_blk = 0xf"
    by (simp add: live_blk_def regs_are_def)
qed

theorem blk_live_frozen_witness:
  "req_queue (fst (mmio_write plain_api (\<lambda>_. True) 0x38 (to_le_bytes 4 (64 :: u32)) live_blk))
     = req_queue live_blk
   \<and> driver_features (fst (mmio_write plain_api (\<lambda>_. True) 0x38 (to_le_bytes 4 (64 :: u32)) live_blk))
     = driver_features live_blk"
proof -
  have "device_status live_blk AND VIRTIO_CONFIG_S_DRIVER_OK \<noteq> 0"
    by (simp add: live_blk_facts(2) status_defs)
  moreover have "mmio_reg_of 0x38 \<noteq> Some Status \<or> from_le_bytes (to_le_bytes 4 (64 :: u32)) \<noteq> (0 :: u32)"
    by (simp add: mmio_reg_of_def)
  ultimately show ?thesis by (rule blk_live_frozen [OF live_blk_facts(1)])
qed

text \<open>
  A read fills exactly the requested buffer, the two feature pages together are the 64-bit
  feature word, and the configuration space starts with the capacity in sectors and is zero
  past its end.
\<close>

theorem blk_reads_exact:
  "length (mmio_read api d offset len) = len
   \<and> (let lo = mmio_read_reg api (d\<lparr>device_features_sel := 0\<rparr>) (Some DeviceFeatures);
          hi = mmio_read_reg api (d\<lparr>device_features_sel := 1\<rparr>) (Some DeviceFeatures)
      in (ucast lo AND 0xffffffff) OR rust_shl (ucast hi) 32 = device_features d)
   \<and> mmio_read api d 0x100 8 = to_le_bytes 8 (capacity_sectors d)
   \<and> mmio_read api d 0x118 len = replicate len 0"
proof -
  have "mmio_read api d 0x100 8 = to_le_bytes 8 (capacity_sectors d)"
    by (simp add: mmio_read_def read_blk_config_def length_blk_config_bytes byte_slice_def Let_def)
      (simp add: blk_config_bytes_def)
  moreover have "mmio_read api d 0x118 len = replicate len 0"
    by (simp add: mmio_read_def read_blk_config_def length_blk_config_bytes Let_def)
  moreover have "device_features (d\<lparr>device_features_sel := x\<rparr>) = device_features d" for x
    by (simp add: device_features_def)
  ultimately show ?thesis
    using two_halves [of "device_features d"] length_mmio_read [of api d offset len]
    by (simp add: mmio_read_reg_def rust_shr_def Let_def)
qed

end
