(* ===== verification/Virtio_Blk_Handlers.thy ===== *)
theory Virtio_Blk_Handlers
  imports Token_Bucket Virtio_Blk_Device
begin

text \<open>
  The request handlers of the block device: \<^verbatim>\<open>publish_completion\<close>, the vectored handlers and
  \<^verbatim>\<open>classify_pre_throttle\<close> of \<^verbatim>\<open>src/vmm/virtio_blk/device.rs\<close>, the flush and identity handlers of
  \<^verbatim>\<open>handlers.rs\<close> and the counters of \<^verbatim>\<open>counters.rs\<close>. Guest memory (\<^verbatim>\<open>vm_memory\<close>), the virtqueue
  (\<^verbatim>\<open>virtio_queue\<close>) and the system calls on the backing file enter as a record of operations over
  abstract states. Log messages are left out, and the scratch vectors, which are refilled
  for every chain, are local lists.
\<close>

section \<open>Counters\<close>

record blk_counters =
  reads_completed :: u64
  bytes_read :: u64
  writes_completed :: u64
  bytes_written :: u64
  flushes_completed :: u64
  io_errors :: u64
  throttled_count :: u64
  currently_throttled_gauge :: u64
  invalid_avail_idx_count :: u64

definition counters_zero :: blk_counters where
  "counters_zero = \<lparr>reads_completed = 0, bytes_read = 0, writes_completed = 0, bytes_written = 0,
     flushes_completed = 0, io_errors = 0, throttled_count = 0, currently_throttled_gauge = 0,
     invalid_avail_idx_count = 0\<rparr>"

definition record_read :: "u64 \<Rightarrow> blk_counters \<Rightarrow> blk_counters" where
  "record_read n c = c\<lparr>reads_completed := reads_completed c + 1, bytes_read := bytes_read c + n\<rparr>"

definition record_write :: "u64 \<Rightarrow> blk_counters \<Rightarrow> blk_counters" where
  "record_write n c = c\<lparr>writes_completed := writes_completed c + 1, bytes_written := bytes_written c + n\<rparr>"

definition record_flush :: "blk_counters \<Rightarrow> blk_counters" where
  "record_flush c = c\<lparr>flushes_completed := flushes_completed c + 1\<rparr>"

definition record_io_error :: "blk_counters \<Rightarrow> blk_counters" where
  "record_io_error c = c\<lparr>io_errors := io_errors c + 1\<rparr>"

definition record_throttled :: "blk_counters \<Rightarrow> blk_counters" where
  "record_throttled c = c\<lparr>throttled_count := throttled_count c + 1\<rparr>"

definition record_throttle_pending_inc :: "blk_counters \<Rightarrow> blk_counters" where
  "record_throttle_pending_inc c = c\<lparr>currently_throttled_gauge := currently_throttled_gauge c + 1\<rparr>"

definition record_throttle_pending_dec :: "blk_counters \<Rightarrow> blk_counters" where
  "record_throttle_pending_dec c =
     (if currently_throttled_gauge c = 0 then c else c\<lparr>currently_throttled_gauge := currently_throttled_gauge c - 1\<rparr>)"

definition record_invalid_avail_idx :: "blk_counters \<Rightarrow> blk_counters" where
  "record_invalid_avail_idx c = c\<lparr>invalid_avail_idx_count := invalid_avail_idx_count c + 1\<rparr>"

section \<open>Environment and worker state\<close>

text \<open>
  The operations of \<^verbatim>\<open>vm_memory\<close>, \<^verbatim>\<open>virtio_queue\<close> and the backing file. A failed operation is
  \<open>None\<close> or \<open>False\<close>; a slice is its guest address and length.
\<close>

record ('m, 'q, 'f) blk_api =
  gm_read_header :: "'m \<Rightarrow> u64 \<Rightarrow> bytes option"
  gm_write_slice :: "'m \<Rightarrow> bytes \<Rightarrow> u64 \<Rightarrow> 'm option"
  gm_get_slices :: "'m \<Rightarrow> u64 \<Rightarrow> nat \<Rightarrow> (u64 \<times> nat) list option"
  vq_ready :: "'q \<Rightarrow> bool"
  vq_disable_notification :: "'m \<Rightarrow> 'q \<Rightarrow> 'm \<times> 'q"
  vq_iter_next :: "'m \<Rightarrow> 'q \<Rightarrow> vq_next \<times> 'q"
  vq_add_used :: "'m \<Rightarrow> 'q \<Rightarrow> u16 \<Rightarrow> u32 \<Rightarrow> bool \<times> 'm \<times> 'q"
  vq_next_avail :: "'q \<Rightarrow> u16"
  vq_set_next_avail :: "u16 \<Rightarrow> 'q \<Rightarrow> 'q"
  vq_enable_notification :: "'m \<Rightarrow> 'q \<Rightarrow> bool option \<times> 'm \<times> 'q"
  vq_needs_notification :: "'m \<Rightarrow> 'q \<Rightarrow> bool option \<times> 'q"
  f_preadv :: "'f \<Rightarrow> 'm \<Rightarrow> (u64 \<times> nat) list \<Rightarrow> u64 \<Rightarrow> (nat \<times> 'm) option"
  f_pwritev :: "'f \<Rightarrow> 'm \<Rightarrow> (u64 \<times> nat) list \<Rightarrow> u64 \<Rightarrow> nat option \<times> 'f"
  f_sync_data :: "'f \<Rightarrow> bool"

record ('m, 'q, 'f) blk_worker =
  wk_mem :: 'm
  wk_queue :: 'q
  wk_backing :: 'f
  wk_capacity_bytes :: u64
  wk_read_only :: bool
  wk_ops :: token_bucket
  wk_bytes :: token_bucket
  wk_stalled :: bool
  wk_poisoned :: bool
  wk_counters :: blk_counters
  wk_device_status :: u32
  wk_interrupt_status :: u32
  wk_irqs :: nat
  wk_clock_reads :: nat

definition count :: "(blk_counters \<Rightarrow> blk_counters) \<Rightarrow> ('m, 'q, 'f) blk_worker \<Rightarrow> ('m, 'q, 'f) blk_worker" where
  "count f w = w\<lparr>wk_counters := f (wk_counters w)\<rparr>"

definition VIRTIO_BLK_S_OK :: u8 where "VIRTIO_BLK_S_OK = 0"
definition VIRTIO_BLK_S_IOERR :: u8 where "VIRTIO_BLK_S_IOERR = 1"
definition VIRTIO_BLK_S_UNSUPP :: u8 where "VIRTIO_BLK_S_UNSUPP = 2"
definition VIRTIO_BLK_T_IN :: u32 where "VIRTIO_BLK_T_IN = 0"
definition VIRTIO_BLK_T_OUT :: u32 where "VIRTIO_BLK_T_OUT = 1"
definition VIRTIO_BLK_T_FLUSH :: u32 where "VIRTIO_BLK_T_FLUSH = 4"
definition VIRTIO_BLK_T_GET_ID :: u32 where "VIRTIO_BLK_T_GET_ID = 8"
definition VIRTIO_BLK_ID_BYTES :: u32 where "VIRTIO_BLK_ID_BYTES = 20"
definition VIRTIO_BLK_OUTHDR_SIZE :: nat where "VIRTIO_BLK_OUTHDR_SIZE = 16"
definition VIRTIO_BLK_SERIAL :: bytes where
  "VIRTIO_BLK_SERIAL = map of_char ''ktstr-virtio-blk'' @ replicate 4 0"

section \<open>Publishing a completion\<close>

definition publish_completion ::
  "('m, 'q, 'f) blk_api \<Rightarrow> u16 \<Rightarrow> u64 \<Rightarrow> u8 \<Rightarrow> u32 \<Rightarrow> ('m, 'q, 'f) blk_worker
     \<Rightarrow> bool \<times> ('m, 'q, 'f) blk_worker" where
  "publish_completion api head status_addr status_byte used_len w =
     (case gm_write_slice api (wk_mem w) [status_byte] status_addr of
        None \<Rightarrow> (False, count record_io_error w)
      | Some m \<Rightarrow>
          (case vq_add_used api m (wk_queue w) head used_len of
             (ok, m', q') \<Rightarrow>
               let w' = w\<lparr>wk_mem := m', wk_queue := q'\<rparr>
               in if ok then (True, w') else (False, count record_io_error w')))"

section \<open>Handlers\<close>

type_synonym ('m, 'q, 'f) handled = "(u8 \<times> u32) \<times> ('m, 'q, 'f) blk_worker"

definition io_error :: "('m, 'q, 'f) blk_worker \<Rightarrow> ('m, 'q, 'f) handled" where
  "io_error w = ((VIRTIO_BLK_S_IOERR, 1), count record_io_error w)"

definition request_offset :: "u64 \<Rightarrow> u64 \<Rightarrow> u64 \<Rightarrow> u64 option" where
  "request_offset capacity_bytes sector data_len =
     do {
       base_offset \<leftarrow> checked_mul sector (ucast VIRTIO_BLK_SECTOR_SIZE);
       end_offset \<leftarrow> checked_add base_offset data_len;
       if capacity_bytes < end_offset then None else Some base_offset
     }"

text \<open>
  The slices of the data segments, in order. \<open>device_writes\<close> is the direction the request
  needs; a segment of the other direction or one outside guest memory gives \<open>None\<close>.
\<close>

fun collect_iovecs ::
  "('m, 'q, 'f) blk_api \<Rightarrow> 'm \<Rightarrow> bool \<Rightarrow> chain_descriptor list \<Rightarrow> (u64 \<times> nat) list option" where
  "collect_iovecs api m device_writes [] = Some []"
| "collect_iovecs api m device_writes (seg # segs) =
     (if d_write_only seg \<noteq> device_writes then None
      else if d_len seg = 0 then collect_iovecs api m device_writes segs
      else do {
        slices \<leftarrow> gm_get_slices api m (d_addr seg) (unat (d_len seg));
        rest \<leftarrow> collect_iovecs api m device_writes segs;
        Some (slices @ rest)
      })"

definition ZERO_BUF_LEN :: nat where "ZERO_BUF_LEN = 65536"

text \<open>Zeroing one stretch of guest memory in chunks; the flag says whether it succeeded.\<close>

function zero_chunks :: "('m, 'q, 'f) blk_api \<Rightarrow> 'm \<Rightarrow> u64 \<Rightarrow> nat \<Rightarrow> bool \<times> 'm" where
  "zero_chunks api m zero_addr remaining =
     (if 0 < remaining then
        let chunk = min remaining ZERO_BUF_LEN in
        case gm_write_slice api m (replicate chunk 0) zero_addr of
          None \<Rightarrow> (False, m)
        | Some m' \<Rightarrow>
            (case checked_add zero_addr (of_nat chunk) of
               None \<Rightarrow> (False, m')
             | Some next \<Rightarrow> zero_chunks api m' next (remaining - chunk))
      else (True, m))"
  by pat_completeness auto
termination
  by (relation "measure (\<lambda>(api, m, a, n). n)") (auto simp: ZERO_BUF_LEN_def)

fun zero_fill ::
  "('m, 'q, 'f) blk_api \<Rightarrow> 'm \<Rightarrow> nat \<Rightarrow> nat \<Rightarrow> chain_descriptor list \<Rightarrow> bool \<times> 'm" where
  "zero_fill api m filled to_zero [] = (True, m)"
| "zero_fill api m filled to_zero (seg # segs) =
     (if to_zero = 0 then (True, m)
      else let seg_len = unat (d_len seg) in
        if seg_len \<le> filled then zero_fill api m (filled - seg_len) to_zero segs
        else let seg_remaining = min (seg_len - filled) to_zero in
          case checked_add (d_addr seg) (of_nat filled) of
            None \<Rightarrow> (False, m)
          | Some zero_addr \<Rightarrow>
              (case zero_chunks api m zero_addr seg_remaining of
                 (False, m') \<Rightarrow> (False, m')
               | (True, m') \<Rightarrow> zero_fill api m' 0 (to_zero - seg_remaining) segs))"

definition segments_len :: "chain_descriptor list \<Rightarrow> u64" where
  "segments_len segs = sum_list (map (\<lambda>d. ucast (d_len d)) segs)"

definition handle_read_vectored ::
  "('m, 'q, 'f) blk_api \<Rightarrow> u64 \<Rightarrow> chain_descriptor list \<Rightarrow> u64 \<Rightarrow> ('m, 'q, 'f) blk_worker
     \<Rightarrow> ('m, 'q, 'f) handled" where
  "handle_read_vectored api sector segs data_len w =
     (case request_offset (wk_capacity_bytes w) sector data_len of
        None \<Rightarrow> io_error w
      | Some base_offset \<Rightarrow>
        (case collect_iovecs api (wk_mem w) True segs of
           None \<Rightarrow> io_error w
         | Some iovecs \<Rightarrow>
           (case (if iovecs = [] then Some (0, wk_mem w)
                  else f_preadv api (wk_backing w) (wk_mem w) iovecs base_offset) of
              None \<Rightarrow> io_error w
            | Some (from_backing, m) \<Rightarrow>
                let w1 = w\<lparr>wk_mem := m\<rparr>;
                    (ok, m') = (if from_backing < unat data_len
                                then zero_fill api m from_backing (unat data_len - from_backing) segs
                                else (True, m));
                    w2 = w1\<lparr>wk_mem := m'\<rparr>
                in if \<not> ok then io_error w2
                   else ((VIRTIO_BLK_S_OK, ucast data_len + 1),
                         count (record_read (of_nat from_backing)) w2))))"

definition handle_write_vectored ::
  "('m, 'q, 'f) blk_api \<Rightarrow> u64 \<Rightarrow> chain_descriptor list \<Rightarrow> u64 \<Rightarrow> ('m, 'q, 'f) blk_worker
     \<Rightarrow> ('m, 'q, 'f) handled" where
  "handle_write_vectored api sector segs data_len w =
     (case request_offset (wk_capacity_bytes w) sector data_len of
        None \<Rightarrow> io_error w
      | Some base_offset \<Rightarrow>
        (case collect_iovecs api (wk_mem w) False segs of
           None \<Rightarrow> io_error w
         | Some iovecs \<Rightarrow>
             if iovecs = [] then ((VIRTIO_BLK_S_OK, 1), count (record_write 0) w)
             else (case f_pwritev api (wk_backing w) (wk_mem w) iovecs base_offset of
                     (None, f) \<Rightarrow> io_error (w\<lparr>wk_backing := f\<rparr>)
                   | (Some total_written, f) \<Rightarrow>
                       let w1 = w\<lparr>wk_backing := f\<rparr> in
                       if total_written \<noteq> unat data_len then io_error w1
                       else ((VIRTIO_BLK_S_OK, 1), count (record_write (of_nat total_written)) w1))))"

definition handle_flush :: "('m, 'q, 'f) blk_api \<Rightarrow> ('m, 'q, 'f) blk_worker \<Rightarrow> ('m, 'q, 'f) handled" where
  "handle_flush api w =
     (if f_sync_data api (wk_backing w) then ((VIRTIO_BLK_S_OK, 1), count record_flush w)
      else ((VIRTIO_BLK_S_IOERR, 1), count record_io_error w))"

definition handle_get_id ::
  "('m, 'q, 'f) blk_api \<Rightarrow> chain_descriptor list \<Rightarrow> ('m, 'q, 'f) blk_worker \<Rightarrow> ('m, 'q, 'f) handled" where
  "handle_get_id api segs w =
     (case segs of
        [] \<Rightarrow> io_error w
      | first # _ \<Rightarrow>
          if \<not> d_write_only first then io_error w
          else if d_len first < VIRTIO_BLK_ID_BYTES then io_error w
          else (case gm_write_slice api (wk_mem w) VIRTIO_BLK_SERIAL (d_addr first) of
                  None \<Rightarrow> io_error w
                | Some m \<Rightarrow> ((VIRTIO_BLK_S_OK, VIRTIO_BLK_ID_BYTES + 1), w\<lparr>wk_mem := m\<rparr>)))"

definition classify_pre_throttle ::
  "u32 \<Rightarrow> ('m, 'q, 'f) blk_worker \<Rightarrow> (u8 \<times> u32) option \<times> ('m, 'q, 'f) blk_worker" where
  "classify_pre_throttle req_type w =
     (if req_type = VIRTIO_BLK_T_OUT \<and> wk_read_only w then
        (Some (VIRTIO_BLK_S_IOERR, 1), count record_io_error w)
      else if req_type = VIRTIO_BLK_T_FLUSH \<and> wk_read_only w then
        (Some (VIRTIO_BLK_S_OK, 1), count record_flush w)
      else if req_type \<in> {VIRTIO_BLK_T_IN, VIRTIO_BLK_T_OUT, VIRTIO_BLK_T_FLUSH, VIRTIO_BLK_T_GET_ID}
        then (None, w)
      else (Some (VIRTIO_BLK_S_UNSUPP, 1), w))"

declare zero_chunks.simps [simp del]

section \<open>Specification functions and sample values\<close>

definition errors :: "('m, 'q, 'f) blk_worker \<Rightarrow> u64" where
  "errors w = io_errors (wk_counters w)"

definition io_frame :: "('m, 'q, 'f) blk_worker \<Rightarrow> ('m, 'q, 'f) blk_worker \<Rightarrow> bool" where
  "io_frame w w' \<longleftrightarrow> wk_capacity_bytes w' = wk_capacity_bytes w \<and> wk_read_only w' = wk_read_only w
     \<and> wk_ops w' = wk_ops w \<and> wk_bytes w' = wk_bytes w \<and> wk_stalled w' = wk_stalled w
     \<and> wk_poisoned w' = wk_poisoned w \<and> wk_device_status w' = wk_device_status w
     \<and> wk_interrupt_status w' = wk_interrupt_status w \<and> wk_irqs w' = wk_irqs w
     \<and> wk_clock_reads w' = wk_clock_reads w
     \<and> currently_throttled_gauge (wk_counters w') = currently_throttled_gauge (wk_counters w)"

text \<open>
  What \<^verbatim>\<open>write_slice\<close> does to a byte of guest memory, with \<open>rd\<close> the byte stored at an address.
\<close>

definition write_law :: "('m, 'q, 'f) blk_api \<Rightarrow> ('m \<Rightarrow> u64 \<Rightarrow> u8) \<Rightarrow> bool" where
  "write_law api rd \<longleftrightarrow> (\<forall>m bs a m'. gm_write_slice api m bs a = Some m' \<longrightarrow>
     (\<forall>x. rd m' x = (if unat (x - a) < length bs then bs ! unat (x - a) else rd m x)))"

text \<open>The guest addresses of the bytes of a request, in the order the data fills them.\<close>

definition segment_addrs :: "chain_descriptor \<Rightarrow> u64 list" where
  "segment_addrs d = map (\<lambda>i. d_addr d + of_nat i) [0..<unat (d_len d)]"

definition data_addrs :: "chain_descriptor list \<Rightarrow> u64 list" where
  "data_addrs segs = concat (map segment_addrs segs)"

text \<open>
  A concrete environment: byte-addressed memory, a ring of published chains and a backing file
  that records the writes made to it and reads as empty.
\<close>

type_synonym byte_mem = "u64 \<Rightarrow> u8"

record sample_ring =
  sr_chains :: "(u16 \<times> chain_descriptor list) list"
  sr_next :: u16
  sr_used :: "(u16 \<times> u32) list"

type_synonym write_log = "(u64 \<times> (u64 \<times> nat) list) list"

definition mem_store :: "byte_mem \<Rightarrow> bytes \<Rightarrow> u64 \<Rightarrow> byte_mem" where
  "mem_store m bs a = (\<lambda>x. if unat (x - a) < length bs then bs ! unat (x - a) else m x)"

definition sample_api :: "(byte_mem, sample_ring, write_log) blk_api" where
  "sample_api = \<lparr>
     gm_read_header = (\<lambda>m a. Some (map (\<lambda>i. m (a + of_nat i)) [0..<16])),
     gm_write_slice = (\<lambda>m bs a. Some (mem_store m bs a)),
     gm_get_slices = (\<lambda>m a n. Some [(a, n)]),
     vq_ready = (\<lambda>q. True),
     vq_disable_notification = (\<lambda>m q. (m, q)),
     vq_iter_next = (\<lambda>m q.
       if 65535 < length (sr_chains q) then (InvalidAvailRingIndex, q)
       else if unat (sr_next q) < length (sr_chains q)
       then (case sr_chains q ! unat (sr_next q) of
               (head, descs) \<Rightarrow> (Chain head descs, q\<lparr>sr_next := sr_next q + 1\<rparr>))
       else (NoChain, q)),
     vq_add_used = (\<lambda>m q head n. (True, m, q\<lparr>sr_used := sr_used q @ [(head, n)]\<rparr>)),
     vq_next_avail = sr_next,
     vq_set_next_avail = (\<lambda>i q. q\<lparr>sr_next := i\<rparr>),
     vq_enable_notification = (\<lambda>m q. (Some (unat (sr_next q) < length (sr_chains q)), m, q)),
     vq_needs_notification = (\<lambda>m q. (Some True, q)),
     f_preadv = (\<lambda>f m iovecs off. Some (0, m)),
     f_pwritev = (\<lambda>f m iovecs off. (Some (sum_list (map snd iovecs)), f @ [(off, iovecs)])),
     f_sync_data = (\<lambda>f. True)\<rparr>"

definition sample_worker :: "byte_mem \<Rightarrow> sample_ring \<Rightarrow> (byte_mem, sample_ring, write_log) blk_worker" where
  "sample_worker m q =
     \<lparr>wk_mem = m, wk_queue = q, wk_backing = [], wk_capacity_bytes = 4096, wk_read_only = False,
      wk_ops = bucket_unlimited 0, wk_bytes = bucket_unlimited 0, wk_stalled = False, wk_poisoned = False,
      wk_counters = counters_zero, wk_device_status = 0xf, wk_interrupt_status = 0, wk_irqs = 0,
      wk_clock_reads = 0\<rparr>"

definition empty_ring :: sample_ring where
  "empty_ring = \<lparr>sr_chains = [], sr_next = 0, sr_used = []\<rparr>"

lemmas record_defs = record_read_def record_write_def record_flush_def record_io_error_def
  record_throttled_def record_invalid_avail_idx_def

lemma io_frame_trans: "io_frame u v \<Longrightarrow> io_frame v w \<Longrightarrow> io_frame u w"
  by (simp add: io_frame_def)

lemma io_frame_refl [simp]: "io_frame w w"
  by (simp add: io_frame_def)

lemma io_frame_updates [simp]:
  "io_frame w (v\<lparr>wk_mem := m\<rparr>) = io_frame w v" "io_frame w (v\<lparr>wk_queue := q\<rparr>) = io_frame w v"
  "io_frame w (v\<lparr>wk_backing := f\<rparr>) = io_frame w v" "io_frame w (count (record_read n) v) = io_frame w v"
  "io_frame w (count (record_write n) v) = io_frame w v" "io_frame w (count record_flush v) = io_frame w v"
  "io_frame w (count record_io_error v) = io_frame w v"
  by (simp_all add: io_frame_def count_def record_defs)

lemma count_fields [simp]:
  "wk_mem (count f w) = wk_mem w" "wk_queue (count f w) = wk_queue w"
  "wk_backing (count f w) = wk_backing w" "wk_counters (count f w) = f (wk_counters w)"
  "wk_capacity_bytes (count f w) = wk_capacity_bytes w" "wk_read_only (count f w) = wk_read_only w"
  by (simp_all add: count_def)

text \<open>What no handler touches: the frame and the queue.\<close>

lemma publish_frame: "io_frame w (snd (publish_completion api head a s n w))"
  by (simp add: publish_completion_def Let_def split: option.split prod.split)

lemma read_frame: "io_frame w (snd (handle_read_vectored api sector segs n w))"
    "wk_queue (snd (handle_read_vectored api sector segs n w)) = wk_queue w"
    "wk_backing (snd (handle_read_vectored api sector segs n w)) = wk_backing w"
  by (simp_all add: handle_read_vectored_def io_error_def Let_def split: option.split prod.split)

lemma write_frame: "io_frame w (snd (handle_write_vectored api sector segs n w))"
    "wk_queue (snd (handle_write_vectored api sector segs n w)) = wk_queue w"
    "wk_mem (snd (handle_write_vectored api sector segs n w)) = wk_mem w"
  by (simp_all add: handle_write_vectored_def io_error_def Let_def split: option.split prod.split)

lemma flush_frame: "io_frame w (snd (handle_flush api w))"
    "wk_queue (snd (handle_flush api w)) = wk_queue w"
    "wk_backing (snd (handle_flush api w)) = wk_backing w"
  by (simp_all add: handle_flush_def)

lemma get_id_frame: "io_frame w (snd (handle_get_id api segs w))"
    "wk_queue (snd (handle_get_id api segs w)) = wk_queue w"
    "wk_backing (snd (handle_get_id api segs w)) = wk_backing w"
  by (simp_all add: handle_get_id_def io_error_def split: list.split option.split)

lemma unsupp_frame: "io_frame w (count record_io_error w)"
  by simp

lemmas handler_frames = read_frame write_frame flush_frame get_id_frame unsupp_frame

lemma classify_frame: "io_frame w (snd (classify_pre_throttle t w))"
  by (simp add: classify_pre_throttle_def)

lemma errors_count [simp]:
  "errors (count record_io_error w) = errors w + 1" "errors (count (record_read n) w) = errors w"
  "errors (count (record_write n) w) = errors w" "errors (count record_flush w) = errors w"
  "errors (w\<lparr>wk_mem := m\<rparr>) = errors w" "errors (w\<lparr>wk_backing := f\<rparr>) = errors w"
  "errors (w\<lparr>wk_queue := q\<rparr>) = errors w" "errors (w\<lparr>wk_ops := b\<rparr>) = errors w"
  "errors (w\<lparr>wk_bytes := b\<rparr>) = errors w" "errors (w\<lparr>wk_clock_reads := k\<rparr>) = errors w"
  by (simp_all add: errors_def count_def record_defs)

lemma classify_same:
  "wk_queue (snd (classify_pre_throttle t w)) = wk_queue w"
  "wk_mem (snd (classify_pre_throttle t w)) = wk_mem w"
  "wk_backing (snd (classify_pre_throttle t w)) = wk_backing w"
  "errors (snd (classify_pre_throttle t w)) \<in> {errors w, errors w + 1}"
  by (simp_all add: classify_pre_throttle_def)

section \<open>Zero fill\<close>

lemma word_range_split:
  fixes x a :: u64
  assumes "c \<le> n" and "n < 2 ^ 64"
  shows "unat (x - a) < n \<longleftrightarrow> unat (x - a) < c \<or> unat (x - (a + of_nat c)) < n - c"
proof (cases "unat (x - a) < c")
  case False
  have c: "unat (of_nat c :: u64) = c" using assms by (simp add: unat_of_nat)
  have "unat (x - a - of_nat c) = unat (x - a) - c"
    using False c by (subst unat_sub) (simp_all add: word_le_nat_alt)
  then show ?thesis using False assms by (auto simp: diff_diff_eq algebra_simps)
qed (use assms in simp)

lemma zero_chunks_zeroes:
  assumes "write_law api rd" and "zero_chunks api m a n = (True, m')" and "n < 2 ^ 64"
  shows "rd m' x = (if unat (x - a) < n then 0 else rd m x)"
  using assms
proof (induction api m a n rule: zero_chunks.induct)
  case (1 api m a n)
  show ?case
  proof (cases "0 < n")
    case True
    let ?c = "min n ZERO_BUF_LEN"
    from 1(3) True obtain m1 next' where w: "gm_write_slice api m (replicate ?c 0) a = Some m1"
      and nx: "checked_add a (of_nat ?c) = Some next'" and r: "zero_chunks api m1 next' (n - ?c) = (True, m')"
      by (subst (asm) zero_chunks.simps) (auto simp: Let_def split: option.splits if_splits)
    have "next' = a + of_nat ?c" using nx by (auto simp: checked_add_def split: if_splits)
    moreover have "rd m1 x = (if unat (x - a) < ?c then 0 else rd m x)"
      using 1(2) w by (simp add: write_law_def)
    ultimately show ?thesis
      using 1(1) [OF True refl w nx 1(2) r] word_range_split [of ?c n x a] 1(4) by auto
  next
    case False
    with 1(3) show ?thesis by (subst (asm) zero_chunks.simps) simp
  qed
qed

lemma segment_addrs_drop:
  assumes "f \<le> unat (d_len d)"
  shows "x \<in> set (take r (drop f (segment_addrs d)))
    \<longleftrightarrow> unat (x - (d_addr d + of_nat f)) < min r (unat (d_len d) - f)"
proof -
  let ?b = "d_addr d + of_nat f" and ?k = "min r (unat (d_len d) - f)"
  have "unat (d_len d) < 2 ^ LENGTH(32)" by (rule unsigned_less)
  then have lt: "?k < 2 ^ 64" by simp
  have "take r (drop f (segment_addrs d)) = map (\<lambda>i. d_addr d + of_nat i) (take r [f..<unat (d_len d)])"
    by (simp add: segment_addrs_def take_map drop_map)
  also have "take r [f..<unat (d_len d)] = map (\<lambda>i. i + f) [0..<?k]"
    by (rule nth_equalityI) (auto simp: min_def split: if_splits)
  finally have "set (take r (drop f (segment_addrs d))) = (\<lambda>i. ?b + of_nat i) ` {0..<?k}"
    by (simp add: image_image algebra_simps)
  moreover have "x \<in> (\<lambda>i. ?b + of_nat i) ` {0..<?k} \<longleftrightarrow> unat (x - ?b) < ?k"
  proof
    assume "x \<in> (\<lambda>i. ?b + of_nat i) ` {0..<?k}"
    then obtain i where "i < ?k" "x = ?b + of_nat i" by auto
    moreover from this lt have "i < 2 ^ 64" by linarith
    ultimately show "unat (x - ?b) < ?k" by (simp add: unat_of_nat)
  next
    assume "unat (x - ?b) < ?k"
    then show "x \<in> (\<lambda>i. ?b + of_nat i) ` {0..<?k}" by (intro image_eqI [of _ _ "unat (x - ?b)"]) simp_all
  qed
  ultimately show ?thesis by simp
qed

lemma length_segment_addrs [simp]: "length (segment_addrs d) = unat (d_len d)"
  by (simp add: segment_addrs_def)

lemma zero_fill_zeroes:
  assumes law: "write_law api rd" and "zero_fill api m filled z segs = (True, m')"
  shows "rd m' x = (if x \<in> set (take z (drop filled (data_addrs segs))) then 0 else rd m x)"
  using assms(2)
proof (induction segs arbitrary: m filled z)
  case Nil
  then show ?case by (simp add: data_addrs_def)
next
  case (Cons d segs)
  let ?l = "unat (d_len d)"
  have da: "data_addrs (d # segs) = segment_addrs d @ data_addrs segs" by (simp add: data_addrs_def)
  consider "z = 0" | "z \<noteq> 0" "?l \<le> filled" | "z \<noteq> 0" "filled < ?l" by linarith
  then show ?case
  proof cases
    case 1
    with Cons.prems show ?thesis by simp
  next
    case 2
    with Cons.prems have "zero_fill api m (filled - ?l) z segs = (True, m')" by (simp add: Let_def)
    from Cons.IH [OF this] 2 show ?thesis by (simp add: da)
  next
    case 3
    let ?r = "min (?l - filled) z"
    from Cons.prems 3 obtain a m1 where a: "checked_add (d_addr d) (of_nat filled) = Some a"
      and c: "zero_chunks api m a ?r = (True, m1)" and rest: "zero_fill api m1 0 (z - ?r) segs = (True, m')"
      by (auto simp: Let_def split: option.splits prod.splits bool.splits)
    have "?l < 2 ^ LENGTH(32)" by (rule unsigned_less)
    then have lt: "?r < 2 ^ 64" by simp
    have a': "a = d_addr d + of_nat filled" using a by (auto simp: checked_add_def split: if_splits)
    have "x \<in> set (take z (drop filled (segment_addrs d))) \<longleftrightarrow> unat (x - a) < ?r"
      using segment_addrs_drop [of filled d x z] 3(2) by (simp add: a' min.commute)
    moreover have "take z (drop filled (data_addrs (d # segs)))
        = take z (drop filled (segment_addrs d)) @ take (z - ?r) (data_addrs segs)"
      using 3(2) by (simp add: da min_def)
    ultimately show ?thesis
      using Cons.IH [OF rest] zero_chunks_zeroes [OF law c lt, of x] by auto
  qed
qed

lemma length_data_addrs: "length (data_addrs segs) = sum_list (map (\<lambda>d. unat (d_len d)) segs)"
  by (simp add: data_addrs_def length_concat comp_def)

lemma sum_list_bound: "(\<And>x. x \<in> set xs \<Longrightarrow> f x \<le> (k :: nat)) \<Longrightarrow> sum_list (map f xs) \<le> length xs * k"
  by (induction xs) (simp_all add: add_mono)

lemma segments_len_sum:
  assumes "length segs * 2 ^ 32 < 2 ^ 64"
  shows "unat (segments_len segs) = sum_list (map (\<lambda>d. unat (d_len d)) segs)"
  using assms
proof (induction segs)
  case (Cons d segs)
  have le: "unat (d_len e) \<le> 2 ^ 32" for e
  proof -
    have "unat (d_len e) < 2 ^ LENGTH(32)" by (rule unsigned_less)
    then show ?thesis by simp
  qed
  have "sum_list (map (\<lambda>d. unat (d_len d)) (d # segs)) \<le> length (d # segs) * 2 ^ 32"
    by (rule sum_list_bound) (rule le)
  also have "\<dots> < 2 ^ 64" by (rule Cons.prems)
  finally have s: "unat (d_len d) + sum_list (map (\<lambda>d. unat (d_len d)) segs) < 2 ^ 64" by simp
  have IH: "unat (segments_len segs) = sum_list (map (\<lambda>d. unat (d_len d)) segs)"
    by (rule Cons.IH) (use Cons.prems in simp)
  have u: "unat (ucast (d_len d) :: u64) = unat (d_len d)" by (rule unat_ucast_up) simp
  have "segments_len (d # segs) = ucast (d_len d) + segments_len segs" by (simp add: segments_len_def)
  moreover have "unat (ucast (d_len d) + segments_len segs :: u64) = unat (d_len d) + unat (segments_len segs)"
    using s IH u by (subst unat_add_lem [THEN iffD1]) simp_all
  ultimately show ?case using IH by simp
qed (simp add: segments_len_def)

lemma read_ok_cases:
  assumes "handle_read_vectored api sector segs n w = ((VIRTIO_BLK_S_OK, used_len), w')"
  obtains off iovecs k m m' where "request_offset (wk_capacity_bytes w) sector n = Some off"
    and "collect_iovecs api (wk_mem w) True segs = Some iovecs"
    and "(if iovecs = [] then Some (0, wk_mem w) else f_preadv api (wk_backing w) (wk_mem w) iovecs off) = Some (k, m)"
    and "(if k < unat n then zero_fill api m k (unat n - k) segs else (True, m)) = (True, m')"
    and "wk_mem w' = m'" and "used_len = ucast n + 1"
proof -
  have ne: "VIRTIO_BLK_S_IOERR \<noteq> VIRTIO_BLK_S_OK" by (simp add: VIRTIO_BLK_S_IOERR_def VIRTIO_BLK_S_OK_def)
  obtain off where o: "request_offset (wk_capacity_bytes w) sector n = Some off"
    using assms ne by (cases "request_offset (wk_capacity_bytes w) sector n")
      (auto simp: handle_read_vectored_def io_error_def)
  obtain iovecs where i: "collect_iovecs api (wk_mem w) True segs = Some iovecs"
    using assms ne o by (cases "collect_iovecs api (wk_mem w) True segs")
      (auto simp: handle_read_vectored_def io_error_def)
  let ?p = "if iovecs = [] then Some (0, wk_mem w) else f_preadv api (wk_backing w) (wk_mem w) iovecs off"
  obtain k m where p: "?p = Some (k, m)"
    using assms ne o i by (cases ?p) (auto simp: handle_read_vectored_def io_error_def)
  obtain ok m' where z: "(if k < unat n then zero_fill api m k (unat n - k) segs else (True, m)) = (ok, m')"
    by fastforce
  have ok
    using assms ne o i p z by (cases ok) (simp_all add: handle_read_vectored_def io_error_def Let_def)
  with assms o i p z have "used_len = ucast n + 1" "w' = count (record_read (of_nat k)) (w\<lparr>wk_mem := m'\<rparr>)"
    by (simp_all add: handle_read_vectored_def io_error_def Let_def)
  with that [OF o i p] z \<open>ok\<close> show thesis by simp
qed

text \<open>
  C19: a successful read defines every byte it promises. If the vectored read delivers the first
  \<open>k\<close> bytes of the request, then afterwards exactly the addresses of the remaining bytes hold
  zero and every other byte of guest memory is as the system call left it; the
  used length is the whole data length plus the status byte.
\<close>

theorem short_read_zero_filled:
  assumes "write_law api rd" and "length segs * 2 ^ 32 < 2 ^ 64"
    and "handle_read_vectored api sector segs (segments_len segs) w = ((VIRTIO_BLK_S_OK, used_len), w')"
  shows "\<exists>off iovecs k m. request_offset (wk_capacity_bytes w) sector (segments_len segs) = Some off
    \<and> collect_iovecs api (wk_mem w) True segs = Some iovecs
    \<and> (if iovecs = [] then Some (0, wk_mem w) else f_preadv api (wk_backing w) (wk_mem w) iovecs off) = Some (k, m)
    \<and> (\<forall>x. rd (wk_mem w') x = (if x \<in> set (drop k (data_addrs segs)) then 0 else rd m x))
    \<and> used_len = ucast (segments_len segs) + 1 \<and> wk_backing w' = wk_backing w"
proof -
  let ?n = "segments_len segs"
  obtain off iovecs k m m' where o: "request_offset (wk_capacity_bytes w) sector ?n = Some off"
    and c: "collect_iovecs api (wk_mem w) True segs = Some iovecs"
    and p: "(if iovecs = [] then Some (0, wk_mem w) else f_preadv api (wk_backing w) (wk_mem w) iovecs off) = Some (k, m)"
    and z: "(if k < unat ?n then zero_fill api m k (unat ?n - k) segs else (True, m)) = (True, m')"
    and w': "wk_mem w' = m'" "used_len = ucast ?n + 1"
    by (rule read_ok_cases [OF assms(3)]) blast
  have len: "length (data_addrs segs) = unat ?n"
    by (simp add: length_data_addrs segments_len_sum [OF assms(2)])
  have rd: "rd m' x = (if x \<in> set (drop k (data_addrs segs)) then 0 else rd m x)" for x
  proof (cases "k < unat ?n")
    case True
    with z have "zero_fill api m k (unat ?n - k) segs = (True, m')" by simp
    from zero_fill_zeroes [OF assms(1) this, of x] len show ?thesis by simp
  next
    case False
    with z len show ?thesis by simp
  qed
  have "wk_backing w' = wk_backing w" using read_frame(3) [of api sector segs ?n w] assms(3) by simp
  with o c p w' rd show ?thesis by blast
qed

lemma sample_write_law: "write_law sample_api (\<lambda>m. m)"
  by (auto simp: write_law_def sample_api_def mem_store_def)

theorem short_read_zero_filled_witness:
  "\<exists>w'. handle_read_vectored sample_api 2 [\<lparr>d_addr = 0x5000, d_len = 512, d_write_only = True\<rparr>] 512
       (sample_worker (\<lambda>x. 7) empty_ring) = ((VIRTIO_BLK_S_OK, 513), w')
     \<and> wk_mem w' 0x5000 = 0 \<and> wk_mem w' 0x51ff = 0 \<and> wk_mem w' 0x5200 = 7"
proof -
  let ?d = "\<lparr>d_addr = 0x5000, d_len = 512, d_write_only = True\<rparr> :: chain_descriptor"
  let ?w = "sample_worker (\<lambda>x. 7) empty_ring"
  have len: "segments_len [?d] = 512" by (simp add: segments_len_def)
  obtain w' where r: "handle_read_vectored sample_api 2 [?d] 512 ?w = ((VIRTIO_BLK_S_OK, 513), w')"
    by (simp add: handle_read_vectored_def request_offset_def checked_mul_def checked_add_def
        VIRTIO_BLK_SECTOR_SIZE_def sample_worker_def sample_api_def zero_chunks.simps ZERO_BUF_LEN_def Let_def)
  have in1: "(0x5000 :: u64) \<in> set (data_addrs [?d])" "(0x51ff :: u64) \<in> set (data_addrs [?d])"
    "(0x5200 :: u64) \<notin> set (data_addrs [?d])"
    using segment_addrs_drop [of 0 ?d _ 512] by (simp_all add: data_addrs_def)
  have pre: "handle_read_vectored sample_api 2 [?d] (segments_len [?d]) ?w = ((VIRTIO_BLK_S_OK, 513), w')"
    using r len by simp
  have "length [?d] * 2 ^ 32 < 2 ^ 64" by simp
  from short_read_zero_filled [OF sample_write_law this pre] in1 r show ?thesis
    by (auto simp: sample_api_def sample_worker_def)
qed

end
