(* ===== verification/Virtio_Blk_Chain.thy ===== *)
theory Virtio_Blk_Chain
  imports Virtio_Blk_Handlers
begin

text \<open>
  One descriptor chain: the body of the inner loop of \<^verbatim>\<open>drain_bracket_impl\<close> in
  \<^verbatim>\<open>src/vmm/virtio_blk/drain.rs\<close>, from the chain the queue yields to its completion, its
  rejection or its return to the queue by the throttle. The clock is a function from the
  number of readings taken so far to a time in nanoseconds.
\<close>

section \<open>One descriptor chain\<close>

record virtio_blk_out_hdr =
  hdr_type :: u32
  hdr_ioprio :: u32
  hdr_sector :: u64

definition out_hdr_from_bytes :: "bytes \<Rightarrow> virtio_blk_out_hdr" where
  "out_hdr_from_bytes bs =
     \<lparr>hdr_type = from_le_bytes (byte_slice bs 0 4), hdr_ioprio = from_le_bytes (byte_slice bs 4 8),
      hdr_sector = from_le_bytes (byte_slice bs 8 16)\<rparr>"

definition SCRATCH_CAP :: nat where "SCRATCH_CAP = unat VIRTIO_BLK_SEG_MAX + 2"

definition header_addr_of :: "chain_descriptor list \<Rightarrow> u64 option" where
  "header_addr_of descs =
     (case descs of
        [] \<Rightarrow> None
      | first # _ \<Rightarrow>
          if \<not> d_write_only first \<and> VIRTIO_BLK_OUTHDR_SIZE \<le> unat (d_len first)
          then Some (d_addr first) else None)"

definition status_addr_of :: "chain_descriptor list \<Rightarrow> u64 option" where
  "status_addr_of descs =
     (case descs of
        [] \<Rightarrow> None
      | first # rest \<Rightarrow>
          if rest = [] then None
          else let last_desc = last rest in
            if d_write_only last_desc \<and> 1 \<le> d_len last_desc
            then checked_add (d_addr last_desc) (ucast (d_len last_desc) - 1) else None)"

definition request_malformed :: "u32 \<Rightarrow> chain_descriptor list \<Rightarrow> bool" where
  "request_malformed req_type data_segments \<longleftrightarrow>
     (\<exists>d \<in> set data_segments. VIRTIO_BLK_SIZE_MAX < d_len d)
     \<or> (req_type \<in> {VIRTIO_BLK_T_IN, VIRTIO_BLK_T_OUT, VIRTIO_BLK_T_GET_ID} \<and> data_segments = [])
     \<or> (req_type = VIRTIO_BLK_T_FLUSH \<and> data_segments \<noteq> [])
     \<or> (req_type \<in> {VIRTIO_BLK_T_IN, VIRTIO_BLK_T_OUT}
        \<and> segments_len data_segments mod ucast VIRTIO_BLK_SECTOR_SIZE \<noteq> 0)"

definition direction_violation :: "u32 \<Rightarrow> chain_descriptor list \<Rightarrow> bool" where
  "direction_violation req_type data_segments \<longleftrightarrow>
     (if req_type = VIRTIO_BLK_T_IN \<or> req_type = VIRTIO_BLK_T_GET_ID
      then \<exists>d \<in> set data_segments. \<not> d_write_only d
      else req_type = VIRTIO_BLK_T_OUT \<and> (\<exists>d \<in> set data_segments. d_write_only d))"

text \<open>Whether a chain was dealt with (and the guest is to be signalled), or stalled, or panicked.\<close>

datatype chain_result = ChainDone bool | ChainStalled nat | ChainPanic

definition reject ::
  "('m, 'q, 'f) blk_api \<Rightarrow> u16 \<Rightarrow> u64 \<Rightarrow> ('m, 'q, 'f) blk_worker \<Rightarrow> chain_result \<times> ('m, 'q, 'f) blk_worker" where
  "reject api head status_addr w =
     (case publish_completion api head status_addr VIRTIO_BLK_S_IOERR 1 (count record_io_error w) of
        (ok, w') \<Rightarrow> (ChainDone ok, w'))"

text \<open>The checks of both buckets; each call takes the next reading of the clock.\<close>

definition check_buckets ::
  "(nat \<Rightarrow> nat) \<Rightarrow> u64 \<Rightarrow> ('m, 'q, 'f) blk_worker \<Rightarrow> bool \<times> bool \<times> ('m, 'q, 'f) blk_worker" where
  "check_buckets clock data_len w =
     (let k = wk_clock_reads w;
          (ops_ok, ops) = can_consume (clock k) 1 (wk_ops w);
          (bytes_ok, bytes) = can_consume (clock (k + 1)) (unat data_len) (wk_bytes w)
      in (ops_ok, bytes_ok, w\<lparr>wk_ops := ops, wk_bytes := bytes, wk_clock_reads := k + 2\<rparr>))"

text \<open>The first refusal since the last admission raises the gauge.\<close>

definition mark_stalled :: "('m, 'q, 'f) blk_worker \<Rightarrow> ('m, 'q, 'f) blk_worker" where
  "mark_stalled w =
     (let w1 = count record_throttled w in
      if wk_stalled w1 then w1 else count record_throttle_pending_inc (w1\<lparr>wk_stalled := True\<rparr>))"

text \<open>\<^verbatim>\<open>self.set_next_avail(self.next_avail().wrapping_sub(1))\<close>\<close>

definition rolled_back :: "('m, 'q, 'f) blk_api \<Rightarrow> 'q \<Rightarrow> 'q" where
  "rolled_back api q = vq_set_next_avail api (vq_next_avail api q - 1) q"

definition bucket_wait :: "bool \<Rightarrow> nat \<Rightarrow> nat \<Rightarrow> token_bucket \<Rightarrow> nat option \<times> token_bucket" where
  "bucket_wait ok now n b = (if \<not> ok then nanos_until_n_tokens now n b else (Some 0, b))"

definition stall_chain ::
  "('m, 'q, 'f) blk_api \<Rightarrow> (nat \<Rightarrow> nat) \<Rightarrow> bool \<Rightarrow> bool \<Rightarrow> u64 \<Rightarrow> ('m, 'q, 'f) blk_worker
     \<Rightarrow> chain_result \<times> ('m, 'q, 'f) blk_worker" where
  "stall_chain api clock ops_ok bytes_ok data_len w =
     (let k = wk_clock_reads w;
          w1 = mark_stalled w;
          (ops_wait, ops) = bucket_wait ops_ok (clock k) 1 (wk_ops w1);
          (bytes_wait, bytes) = bucket_wait bytes_ok (clock (k + 1)) (unat data_len) (wk_bytes w1);
          w2 = w1\<lparr>wk_queue := rolled_back api (wk_queue w1), wk_ops := ops, wk_bytes := bytes,
                  wk_clock_reads := k + 2\<rparr>
      in (case (ops_wait, bytes_wait) of
            (Some a, Some b) \<Rightarrow> (ChainStalled (max a b), w2)
          | _ \<Rightarrow> (ChainPanic, w2)))"

definition debit_buckets ::
  "(nat \<Rightarrow> nat) \<Rightarrow> u64 \<Rightarrow> ('m, 'q, 'f) blk_worker \<Rightarrow> ('m, 'q, 'f) blk_worker" where
  "debit_buckets clock data_len w =
     (let k = wk_clock_reads w;
          w1 = w\<lparr>wk_ops := snd (consume (clock k) 1 (wk_ops w)),
                 wk_bytes := snd (consume (clock (k + 1)) (unat data_len) (wk_bytes w)),
                 wk_clock_reads := k + 2\<rparr>
      in if wk_stalled w1 then count record_throttle_pending_dec (w1\<lparr>wk_stalled := False\<rparr>) else w1)"

definition dispatch_request ::
  "('m, 'q, 'f) blk_api \<Rightarrow> virtio_blk_out_hdr \<Rightarrow> chain_descriptor list \<Rightarrow> ('m, 'q, 'f) blk_worker
     \<Rightarrow> ('m, 'q, 'f) handled" where
  "dispatch_request api hdr data_segments w =
     (let data_len = segments_len data_segments in
      if hdr_type hdr = VIRTIO_BLK_T_IN then
        handle_read_vectored api (hdr_sector hdr) data_segments data_len w
      else if hdr_type hdr = VIRTIO_BLK_T_OUT then
        handle_write_vectored api (hdr_sector hdr) data_segments data_len w
      else if hdr_type hdr = VIRTIO_BLK_T_FLUSH then handle_flush api w
      else if hdr_type hdr = VIRTIO_BLK_T_GET_ID then handle_get_id api data_segments w
      else ((VIRTIO_BLK_S_UNSUPP, 1), count record_io_error w))"

definition publish_handled ::
  "('m, 'q, 'f) blk_api \<Rightarrow> u16 \<Rightarrow> u64 \<Rightarrow> ('m, 'q, 'f) handled \<Rightarrow> chain_result \<times> ('m, 'q, 'f) blk_worker" where
  "publish_handled api head status_addr h =
     (case h of ((status_byte, used_len), w) \<Rightarrow>
        (case publish_completion api head status_addr status_byte used_len w of
           (ok, w') \<Rightarrow> (ChainDone ok, w')))"

text \<open>A request whose type needs the backing device: the throttle gate, then the handler.\<close>

definition admit_request ::
  "('m, 'q, 'f) blk_api \<Rightarrow> (nat \<Rightarrow> nat) \<Rightarrow> u16 \<Rightarrow> u64 \<Rightarrow> virtio_blk_out_hdr \<Rightarrow> chain_descriptor list
     \<Rightarrow> ('m, 'q, 'f) blk_worker \<Rightarrow> chain_result \<times> ('m, 'q, 'f) blk_worker" where
  "admit_request api clock head status_addr hdr data_segments w =
     (let data_len = segments_len data_segments in
      case check_buckets clock data_len w of
        (ops_ok, bytes_ok, w1) \<Rightarrow>
          if \<not> ops_ok \<or> \<not> bytes_ok then stall_chain api clock ops_ok bytes_ok data_len w1
          else publish_handled api head status_addr
                 (dispatch_request api hdr data_segments (debit_buckets clock data_len w1)))"

definition process_request ::
  "('m, 'q, 'f) blk_api \<Rightarrow> (nat \<Rightarrow> nat) \<Rightarrow> u16 \<Rightarrow> u64 \<Rightarrow> virtio_blk_out_hdr \<Rightarrow> chain_descriptor list
     \<Rightarrow> ('m, 'q, 'f) blk_worker \<Rightarrow> chain_result \<times> ('m, 'q, 'f) blk_worker" where
  "process_request api clock head status_addr hdr data_segments w =
     (if request_malformed (hdr_type hdr) data_segments then reject api head status_addr w
      else case classify_pre_throttle (hdr_type hdr) w of
        (Some out, w1) \<Rightarrow> publish_handled api head status_addr (out, w1)
      | (None, w1) \<Rightarrow>
          if direction_violation (hdr_type hdr) data_segments then reject api head status_addr w1
          else admit_request api clock head status_addr hdr data_segments w1)"

definition process_chain ::
  "('m, 'q, 'f) blk_api \<Rightarrow> (nat \<Rightarrow> nat) \<Rightarrow> u16 \<Rightarrow> chain_descriptor list \<Rightarrow> ('m, 'q, 'f) blk_worker
     \<Rightarrow> chain_result \<times> ('m, 'q, 'f) blk_worker" where
  "process_chain api clock head descs w =
     (if SCRATCH_CAP < length descs then (ChainDone False, count record_io_error w)
      else case status_addr_of descs of
        None \<Rightarrow> (ChainDone False, count record_io_error w)
      | Some status_addr \<Rightarrow>
          (case header_addr_of descs of
             None \<Rightarrow> reject api head status_addr w
           | Some header_addr \<Rightarrow>
               (case gm_read_header api (wk_mem w) header_addr of
                  None \<Rightarrow> reject api head status_addr w
                | Some bs \<Rightarrow>
                    process_request api clock head status_addr (out_hdr_from_bytes bs)
                      (butlast (tl descs)) w)))"

section \<open>Specification functions and sample values\<close>

text \<open>
  The largest data length a request can have, and what the worker keeps of its buckets: an
  overdraft is never larger than one request, and no refill lies in the future.
\<close>

definition MAX_DATA_LEN :: nat where "MAX_DATA_LEN = unat VIRTIO_BLK_SEG_MAX * unat VIRTIO_BLK_SIZE_MAX"

definition worker_bucket_inv :: "nat \<Rightarrow> token_bucket \<Rightarrow> bool" where
  "worker_bucket_inv T b \<longleftrightarrow> bucket_inv b
     \<and> (unlimited b \<or> - int MAX_DATA_LEN \<le> available b \<and> last_refill b \<le> T)"

definition worker_inv :: "(nat \<Rightarrow> nat) \<Rightarrow> ('m, 'q, 'f) blk_worker \<Rightarrow> bool" where
  "worker_inv clock w \<longleftrightarrow> worker_bucket_inv (clock (wk_clock_reads w)) (wk_ops w)
     \<and> worker_bucket_inv (clock (wk_clock_reads w)) (wk_bytes w)
     \<and> currently_throttled_gauge (wk_counters w) = (if wk_stalled w then 1 else 0)"

text \<open>
  The chains that are subject to the throttle: well formed, with a readable header and a status byte, of a known type,
  and neither a write nor a flush of a read-only device.
\<close>

definition throttled_chain :: "('m, 'q, 'f) blk_api \<Rightarrow> chain_descriptor list \<Rightarrow> ('m, 'q, 'f) blk_worker \<Rightarrow> bool" where
  "throttled_chain api descs w \<longleftrightarrow> length descs \<le> SCRATCH_CAP \<and> status_addr_of descs \<noteq> None \<and>
     (case header_addr_of descs of
        None \<Rightarrow> False
      | Some ha \<Rightarrow>
          (case gm_read_header api (wk_mem w) ha of
             None \<Rightarrow> False
           | Some bs \<Rightarrow>
               let t = hdr_type (out_hdr_from_bytes bs); segs = butlast (tl descs) in
               \<not> request_malformed t segs \<and> \<not> direction_violation t segs
               \<and> (t \<in> {VIRTIO_BLK_T_IN, VIRTIO_BLK_T_GET_ID}
                  \<or> t \<in> {VIRTIO_BLK_T_OUT, VIRTIO_BLK_T_FLUSH} \<and> \<not> wk_read_only w)))"

text \<open>Sample chains: a header at 0x1000, an optional data segment, a status byte at 0x2000.\<close>

definition request_mem :: "u8 \<Rightarrow> byte_mem" where
  "request_mem t = (\<lambda>x. if x = 0x1000 then t else 0)"

definition flush_chain :: "chain_descriptor list" where
  "flush_chain = [\<lparr>d_addr = 0x1000, d_len = 16, d_write_only = False\<rparr>,
     \<lparr>d_addr = 0x2000, d_len = 1, d_write_only = True\<rparr>]"

definition data_chain :: "bool \<Rightarrow> chain_descriptor list" where
  "data_chain device_writes = [\<lparr>d_addr = 0x1000, d_len = 16, d_write_only = False\<rparr>,
     \<lparr>d_addr = 0x5000, d_len = 512, d_write_only = device_writes\<rparr>,
     \<lparr>d_addr = 0x2000, d_len = 1, d_write_only = True\<rparr>]"

definition drained_ops_worker :: "(byte_mem, sample_ring, write_log) blk_worker" where
  "drained_ops_worker = (sample_worker (request_mem 0) empty_ring)\<lparr>wk_ops := (bucket_new 0 1 1)\<lparr>available := 0\<rparr>\<rparr>"

definition late_clock :: "nat \<Rightarrow> nat" where
  "late_clock i = (if i < 4 then 0 else 5000000000)"

section \<open>Frames\<close>

lemmas request_type_defs = VIRTIO_BLK_T_IN_def VIRTIO_BLK_T_OUT_def VIRTIO_BLK_T_FLUSH_def VIRTIO_BLK_T_GET_ID_def

lemma dispatch_frame: "io_frame w (snd (dispatch_request api hdr segs w))"
  by (simp add: dispatch_request_def Let_def handler_frames)

lemma publish_handled_snd:
  "snd (publish_handled api head a ((s, n), w)) = snd (publish_completion api head a s n w)"
  by (simp add: publish_handled_def split: prod.split)

lemma reject_eq:
  "reject api head a w = publish_handled api head a ((VIRTIO_BLK_S_IOERR, 1), count record_io_error w)"
  by (simp add: reject_def publish_handled_def)

lemma publish_handled_frame: "io_frame (snd h) (snd (publish_handled api head a h))"
  by (cases h; cases "fst h") (simp add: publish_handled_snd publish_frame)

lemma reject_frame: "io_frame w (snd (reject api head a w))"
  unfolding reject_eq by (rule io_frame_trans [OF unsupp_frame]) (use publish_handled_frame in force)

lemma dispatch_queue: "wk_queue (snd (dispatch_request api hdr segs w)) = wk_queue w"
  by (simp add: dispatch_request_def Let_def handler_frames)

lemma publish_handled_cases:
  assumes "publish_handled api head a ((s, n), w) = (r, w')"
  obtains (written) m where "gm_write_slice api (wk_mem w) [s] a = Some m" and "r = ChainDone True"
      and "vq_add_used api m (wk_queue w) head n = (True, wk_mem w', wk_queue w')"
      and "wk_counters w' = wk_counters w"
  | (failed) "r = ChainDone False" and "wk_counters w' = record_io_error (wk_counters w)"
  using assms
  by (auto simp: publish_handled_def publish_completion_def count_def Let_def
      split: prod.splits option.splits if_splits)

section \<open>How a chain is resolved\<close>

lemma dispatch_errors: "errors (snd (dispatch_request api hdr segs w)) \<in> {errors w, errors w + 1}"
proof -
  have "errors (snd (handle_read_vectored api s segs n w)) \<in> {errors w, errors w + 1}" for s n
    by (simp add: handle_read_vectored_def io_error_def Let_def split: option.split prod.split)
  moreover have "errors (snd (handle_write_vectored api s segs n w)) \<in> {errors w, errors w + 1}" for s n
    by (simp add: handle_write_vectored_def io_error_def Let_def split: option.split prod.split)
  moreover have "errors (snd (handle_flush api w)) \<in> {errors w, errors w + 1}"
    by (simp add: handle_flush_def)
  moreover have "errors (snd (handle_get_id api segs w)) \<in> {errors w, errors w + 1}"
    by (simp add: handle_get_id_def io_error_def split: list.split option.split)
  ultimately show ?thesis by (simp add: dispatch_request_def Let_def)
qed

lemma publish_handled_resolves:
  assumes "publish_handled api head a h = (r, w')"
  shows "if r = ChainDone True
    then errors w' = errors (snd h) \<and> (\<exists>m. gm_write_slice api (wk_mem (snd h)) [fst (fst h)] a = Some m
      \<and> vq_add_used api m (wk_queue (snd h)) head (snd (fst h)) = (True, wk_mem w', wk_queue w'))
    else r = ChainDone False \<and> errors w' = errors (snd h) + 1
      \<and> (wk_queue w' = wk_queue (snd h)
         \<or> (\<exists>m. vq_add_used api m (wk_queue (snd h)) head (snd (fst h)) = (False, wk_mem w', wk_queue w')))"
  using assms
  by (auto simp: publish_handled_def publish_completion_def Let_def split: prod.splits option.splits if_splits)

lemma publish_handled_backing: "publish_handled api head a h = (r, w') \<Longrightarrow> wk_backing w' = wk_backing (snd h)"
  by (auto simp: publish_handled_def publish_completion_def Let_def split: prod.splits option.splits if_splits)

section \<open>One chain\<close>

lemma io_frame_inv: "io_frame w w' \<Longrightarrow> worker_inv clock w' = worker_inv clock w"
  by (simp add: io_frame_def worker_inv_def)

lemma classify_None: "classify_pre_throttle t w = (None, w1) \<Longrightarrow> w1 = w"
  by (auto simp: classify_pre_throttle_def split: if_splits)

text \<open>
  A chain is dropped, answered without the backing device, or handed to the throttle gate
  as a well-formed request of a known type.
\<close>

lemma process_chain_cases:
  assumes "process_chain api clock head descs w = (r, w')"
  obtains (dropped) "r = ChainDone False" and "w' = count record_io_error w"
  | (answered) a h where "status_addr_of descs = Some a" and "publish_handled api head a h = (r, w')"
      and "io_frame w (snd h)" and "wk_queue (snd h) = wk_queue w"
      and "wk_backing (snd h) = wk_backing w" and "errors (snd h) \<in> {errors w, errors w + 1}"
  | (admitted) a ha bs hdr segs where "status_addr_of descs = Some a" and "header_addr_of descs = Some ha"
      and "gm_read_header api (wk_mem w) ha = Some bs" and "hdr = out_hdr_from_bytes bs"
      and "segs = butlast (tl descs)" and "length descs \<le> SCRATCH_CAP"
      and "\<not> request_malformed (hdr_type hdr) segs" and "\<not> direction_violation (hdr_type hdr) segs"
      and "classify_pre_throttle (hdr_type hdr) w = (None, w)"
      and "admit_request api clock head a hdr segs w = (r, w')"
proof (cases "SCRATCH_CAP < length descs \<or> status_addr_of descs = None")
  case True
  with assms dropped show thesis by (auto simp: process_chain_def split: if_splits)
next
  case False
  then obtain a where a: "status_addr_of descs = Some a" and len: "length descs \<le> SCRATCH_CAP" by auto
  have rej: thesis if "reject api head a w = (r, w')"
    using that answered [OF a, of "((VIRTIO_BLK_S_IOERR, 1), count record_io_error w)"]
    by (simp add: reject_eq)
  show thesis
  proof (cases "header_addr_of descs = None \<or> gm_read_header api (wk_mem w) (the (header_addr_of descs)) = None")
    case True
    with assms a len rej show thesis by (auto simp: process_chain_def split: option.splits)
  next
    case False
    then obtain ha bs where ha: "header_addr_of descs = Some ha"
      and bs: "gm_read_header api (wk_mem w) ha = Some bs" by auto
    let ?hdr = "out_hdr_from_bytes bs" and ?segs = "butlast (tl descs)"
    have req: "process_request api clock head a ?hdr ?segs w = (r, w')"
      using assms a len ha bs by (simp add: process_chain_def)
    obtain c w1 where c: "classify_pre_throttle (hdr_type ?hdr) w = (c, w1)" by fastforce
    have w1: "io_frame w w1" "wk_queue w1 = wk_queue w" "wk_backing w1 = wk_backing w"
      "errors w1 \<in> {errors w, errors w + 1}"
      using c classify_frame [of w "hdr_type ?hdr"] classify_same [of "hdr_type ?hdr" w] by simp_all
    consider "request_malformed (hdr_type ?hdr) ?segs" | "\<not> request_malformed (hdr_type ?hdr) ?segs" "c = None"
      | out where "\<not> request_malformed (hdr_type ?hdr) ?segs" "c = Some out" by blast
    then show thesis
    proof cases
      case 1
      with req rej show thesis by (simp add: process_request_def)
    next
      case 2
      with c classify_None have "classify_pre_throttle (hdr_type ?hdr) w = (None, w)" by metis
      with 2(1) req rej admitted [OF a ha bs refl refl len] show thesis
        by (auto simp: process_request_def split: if_splits)
    next
      case 3
      with req c have "publish_handled api head a (out, w1) = (r, w')" by (simp add: process_request_def)
      with answered [OF a this] w1 show thesis by simp
    qed
  qed
qed

section \<open>Request sizes\<close>

lemma MAX_DATA_LEN_val: "MAX_DATA_LEN = 134217728"
  by (simp add: MAX_DATA_LEN_def VIRTIO_BLK_SEG_MAX_def VIRTIO_BLK_SIZE_MAX_def)

lemma request_len_bound:
  assumes "\<not> request_malformed t segs" and "length segs \<le> unat VIRTIO_BLK_SEG_MAX"
  shows "unat (segments_len segs) \<le> MAX_DATA_LEN"
    and "unat (segments_len segs) = sum_list (map (\<lambda>d. unat (d_len d)) segs)"
proof -
  have len: "length segs \<le> 128" using assms(2) by (simp add: VIRTIO_BLK_SEG_MAX_def)
  show exact: "unat (segments_len segs) = sum_list (map (\<lambda>d. unat (d_len d)) segs)"
    by (rule segments_len_sum) (use len in simp)
  have "unat (d_len d) \<le> unat VIRTIO_BLK_SIZE_MAX" if "d \<in> set segs" for d
    using assms(1) that by (auto simp: request_malformed_def word_le_nat_alt not_less)
  then have "sum_list (map (\<lambda>d. unat (d_len d)) segs) \<le> length segs * unat VIRTIO_BLK_SIZE_MAX"
    by (rule sum_list_bound)
  also have "\<dots> \<le> MAX_DATA_LEN" unfolding MAX_DATA_LEN_def using assms(2) by (rule mult_le_mono1)
  finally show "unat (segments_len segs) \<le> MAX_DATA_LEN" by (simp only: exact)
qed

lemma chain_segments_bound:
  "length descs \<le> SCRATCH_CAP \<Longrightarrow> length (butlast (tl descs)) \<le> unat VIRTIO_BLK_SEG_MAX"
  by (simp add: SCRATCH_CAP_def)

section \<open>The worker's buckets\<close>

lemma worker_bucket_mono: "worker_bucket_inv T b \<Longrightarrow> T \<le> T' \<Longrightarrow> worker_bucket_inv T' b"
  by (auto simp: worker_bucket_inv_def)

lemma worker_bucket_refill:
  assumes "worker_bucket_inv T b" and "T \<le> now" and "\<not> unlimited b"
  shows "worker_bucket_inv now (refill now b)" and "available b \<le> available (refill now b)"
  using assms refill_step [of b now] by (auto simp: worker_bucket_inv_def)

lemma worker_bucket_check:
  assumes "worker_bucket_inv T b" and "T \<le> now"
  shows "worker_bucket_inv now (snd (can_consume now n b))"
    and "worker_bucket_inv now (snd (nanos_until_n_tokens now n b))"
    and "available b \<le> available (snd (can_consume now n b))"
    and "available b \<le> available (snd (nanos_until_n_tokens now n b))"
  using assms worker_bucket_refill [OF assms] worker_bucket_mono [OF assms]
  by (auto simp: can_consume_eq nanos_state)

lemma worker_bucket_debit:
  assumes "worker_bucket_inv T b" and "T \<le> now" and "n \<le> MAX_DATA_LEN"
  shows "worker_bucket_inv now (snd (consume now n b))"
proof (cases "unlimited b \<or> n = 0")
  case True
  with assms worker_bucket_mono show ?thesis by (auto simp: consume_def)
next
  case False
  have inv: "bucket_inv b" using assms(1) by (simp add: worker_bucket_inv_def)
  have "- int MAX_DATA_LEN \<le> available (refill now b) - int n" if "grants n (refill now b)"
    using grants_available_nonneg [OF that] assms(3) by linarith
  with worker_bucket_refill [OF assms(1,2)] consume_inv [OF inv, of now n] False show ?thesis
    by (cases "grants n (refill now b)") (auto simp: worker_bucket_inv_def consume_eq [OF inv] Let_def)
qed

lemma nanos_returns:
  assumes "bucket_inv b"
  shows "\<exists>n. fst (nanos_until_n_tokens now k b) = Some n"
proof (cases "unlimited b")
  case False
  with assms refill_same_limits [of b now] have "refill_rate (refill now b) \<noteq> 0"
    by (simp add: bucket_inv_def same_limits_def)
  then show ?thesis by (simp add: nanos_until_n_tokens_def div_ceil_def Let_def)
qed (simp add: nanos_until_n_tokens_def)

text \<open>Once a bucket grants a request it keeps granting it until something is withdrawn.\<close>

lemma check_persists:
  assumes "bucket_inv b" and "fst (can_consume now n b)"
  shows "fst (can_consume now' n (snd (can_consume now n b)))"
  using assms grants_refill refill_step(1) refill_same_limits [of b now]
  by (auto simp: can_consume_eq same_limits_def)

lemma check_after_wait:
  assumes "worker_bucket_inv T b" and "T \<le> now" and "nanos_until_n_tokens now n b = (Some w, b')"
    and "w < U64_MAX" and "n \<le> MAX_DATA_LEN" and "now + w \<le> now'" and "now' \<le> U64_MAX"
  shows "fst (can_consume now' n b')"
proof (cases "unlimited b \<or> n = 0")
  case True
  with assms(3) show ?thesis by (auto simp: nanos_until_n_tokens_def can_consume_def)
next
  case False
  have inv: "bucket_inv b" using assms(1) by (simp add: worker_bucket_inv_def)
  have "int n \<le> I64_MAX" "int n - available b \<le> I64_MAX" "last_refill b \<le> now"
    using assms(1,2,5) False by (auto simp: worker_bucket_inv_def MAX_DATA_LEN_val I64_MAX_def)
  with wait_is_enough [OF inv _ assms(3,4)] assms(6,7) have "fst (consume now' n b')" by blast
  moreover have "bucket_inv b'"
    using worker_bucket_check(2) [OF assms(1,2), of n] assms(3) by (simp add: worker_bucket_inv_def)
  ultimately show ?thesis by (auto simp: consume_eq can_consume_eq Let_def split: if_splits)
qed

section \<open>The throttle gate\<close>

lemma check_buckets_eq:
  "check_buckets clock data_len w =
     (fst (can_consume (clock (wk_clock_reads w)) 1 (wk_ops w)),
      fst (can_consume (clock (wk_clock_reads w + 1)) (unat data_len) (wk_bytes w)),
      w\<lparr>wk_ops := snd (can_consume (clock (wk_clock_reads w)) 1 (wk_ops w)),
        wk_bytes := snd (can_consume (clock (wk_clock_reads w + 1)) (unat data_len) (wk_bytes w)),
        wk_clock_reads := wk_clock_reads w + 2\<rparr>)"
  by (simp add: check_buckets_def Let_def split: prod.split)

text \<open>The buckets of a stalled chain: what each wait promises.\<close>

lemma bucket_wait_ok:
  assumes "worker_bucket_inv T b" and "T \<le> now" and "n \<le> MAX_DATA_LEN"
    and "ok \<Longrightarrow> \<forall>t. fst (can_consume t n b)"
  obtains w where "fst (bucket_wait ok now n b) = Some w"
    and "worker_bucket_inv now (snd (bucket_wait ok now n b))"
    and "available b \<le> available (snd (bucket_wait ok now n b))"
    and "\<forall>t. w < U64_MAX \<and> now + w \<le> t \<and> t \<le> U64_MAX \<longrightarrow> fst (can_consume t n (snd (bucket_wait ok now n b)))"
proof (cases ok)
  case True
  with assms that [of 0] worker_bucket_mono show thesis by (auto simp: bucket_wait_def)
next
  case False
  have "bucket_inv b" using assms(1) by (simp add: worker_bucket_inv_def)
  from nanos_returns [OF this] obtain w where w: "nanos_until_n_tokens now n b
      = (Some w, snd (nanos_until_n_tokens now n b))" by (metis prod.collapse)
  have "\<forall>t. w < U64_MAX \<and> now + w \<le> t \<and> t \<le> U64_MAX
      \<longrightarrow> fst (can_consume t n (snd (nanos_until_n_tokens now n b)))"
    using check_after_wait [OF assms(1,2) w _ assms(3)] by blast
  moreover from w have "fst (nanos_until_n_tokens now n b) = Some w" by (metis fst_conv)
  ultimately show thesis
    using False that [of w] worker_bucket_check(2,4) [OF assms(1,2), of n] by (simp add: bucket_wait_def)
qed

lemma mark_stalled_fields:
  "wk_queue (mark_stalled w) = wk_queue w" "wk_ops (mark_stalled w) = wk_ops w"
  "wk_bytes (mark_stalled w) = wk_bytes w" "wk_mem (mark_stalled w) = wk_mem w"
  "wk_backing (mark_stalled w) = wk_backing w" "wk_stalled (mark_stalled w)"
  "wk_poisoned (mark_stalled w) = wk_poisoned w" "wk_clock_reads (mark_stalled w) = wk_clock_reads w"
  "currently_throttled_gauge (wk_counters w) = (if wk_stalled w then 1 else 0)
   \<Longrightarrow> currently_throttled_gauge (wk_counters (mark_stalled w)) = 1"
  by (simp_all add: mark_stalled_def count_def record_throttled_def record_throttle_pending_inc_def Let_def)

lemma stall_chain_eq:
  assumes "fst (bucket_wait ops_ok (clock (wk_clock_reads w)) 1 (wk_ops w)) = Some a"
    and "fst (bucket_wait bytes_ok (clock (wk_clock_reads w + 1)) (unat data_len) (wk_bytes w)) = Some b"
  shows "stall_chain api clock ops_ok bytes_ok data_len w =
    (ChainStalled (max a b), (mark_stalled w)
      \<lparr>wk_queue := rolled_back api (wk_queue w),
       wk_ops := snd (bucket_wait ops_ok (clock (wk_clock_reads w)) 1 (wk_ops w)),
       wk_bytes := snd (bucket_wait bytes_ok (clock (wk_clock_reads w + 1)) (unat data_len) (wk_bytes w)),
       wk_clock_reads := wk_clock_reads w + 2\<rparr>)"
  using assms
  by (cases "bucket_wait ops_ok (clock (wk_clock_reads w)) 1 (wk_ops w)";
      cases "bucket_wait bytes_ok (clock (wk_clock_reads w + 1)) (unat data_len) (wk_bytes w)")
    (simp add: stall_chain_def Let_def mark_stalled_fields)

lemma stall_chain_cases:
  assumes inv: "worker_inv clock w" and mono: "mono clock" and n: "unat data_len \<le> MAX_DATA_LEN"
    and ok: "ops_ok \<Longrightarrow> \<forall>t. fst (can_consume t 1 (wk_ops w))"
      "bytes_ok \<Longrightarrow> \<forall>t. fst (can_consume t (unat data_len) (wk_bytes w))"
    and st: "stall_chain api clock ops_ok bytes_ok data_len w = (r, w')"
  obtains wait where "r = ChainStalled wait" and "worker_inv clock w'"
    and "wk_queue w' = rolled_back api (wk_queue w)" and "wk_mem w' = wk_mem w"
    and "wk_backing w' = wk_backing w" and "wk_stalled w'" and "wk_poisoned w' = wk_poisoned w"
    and "wk_clock_reads w' = wk_clock_reads w + 2"
    and "available (wk_ops w) \<le> available (wk_ops w')" and "available (wk_bytes w) \<le> available (wk_bytes w')"
    and "\<forall>t. wait < U64_MAX \<and> clock (wk_clock_reads w + 1) + wait \<le> t \<and> t \<le> U64_MAX
           \<longrightarrow> fst (can_consume t 1 (wk_ops w')) \<and> fst (can_consume t (unat data_len) (wk_bytes w'))"
proof -
  let ?k = "wk_clock_reads w"
  have le: "clock ?k \<le> clock (?k + 1)" "clock (?k + 1) \<le> clock (?k + 2)" "clock ?k \<le> clock (?k + 2)"
    using mono by (simp_all add: monoD)
  have b: "worker_bucket_inv (clock ?k) (wk_ops w)" "worker_bucket_inv (clock ?k) (wk_bytes w)"
    using inv by (simp_all add: worker_inv_def)
  have one: "1 \<le> MAX_DATA_LEN" by (simp add: MAX_DATA_LEN_val)
  obtain a where a: "fst (bucket_wait ops_ok (clock ?k) 1 (wk_ops w)) = Some a"
    "worker_bucket_inv (clock ?k) (snd (bucket_wait ops_ok (clock ?k) 1 (wk_ops w)))"
    "available (wk_ops w) \<le> available (snd (bucket_wait ops_ok (clock ?k) 1 (wk_ops w)))"
    "\<forall>t. a < U64_MAX \<and> clock ?k + a \<le> t \<and> t \<le> U64_MAX
       \<longrightarrow> fst (can_consume t 1 (snd (bucket_wait ops_ok (clock ?k) 1 (wk_ops w))))"
    by (rule bucket_wait_ok [OF b(1) order_refl one ok(1)])
  obtain c where c: "fst (bucket_wait bytes_ok (clock (?k + 1)) (unat data_len) (wk_bytes w)) = Some c"
    "worker_bucket_inv (clock (?k + 1)) (snd (bucket_wait bytes_ok (clock (?k + 1)) (unat data_len) (wk_bytes w)))"
    "available (wk_bytes w) \<le> available (snd (bucket_wait bytes_ok (clock (?k + 1)) (unat data_len) (wk_bytes w)))"
    "\<forall>t. c < U64_MAX \<and> clock (?k + 1) + c \<le> t \<and> t \<le> U64_MAX
       \<longrightarrow> fst (can_consume t (unat data_len) (snd (bucket_wait bytes_ok (clock (?k + 1)) (unat data_len) (wk_bytes w))))"
    by (rule bucket_wait_ok [OF b(2) le(1) n ok(2)])
  note eq = st [unfolded stall_chain_eq [OF a(1) c(1)], symmetric, unfolded prod.inject]
  have g: "currently_throttled_gauge (wk_counters (mark_stalled w)) = 1"
    using inv by (intro mark_stalled_fields(9)) (simp add: worker_inv_def)
  show thesis
  proof (rule that [of "max a c"])
    show "worker_inv clock w'"
      using eq g worker_bucket_mono [OF a(2) le(3)] worker_bucket_mono [OF c(2) le(2)]
      by (simp add: worker_inv_def mark_stalled_fields)
    show "\<forall>t. max a c < U64_MAX \<and> clock (?k + 1) + max a c \<le> t \<and> t \<le> U64_MAX
        \<longrightarrow> fst (can_consume t 1 (wk_ops w')) \<and> fst (can_consume t (unat data_len) (wk_bytes w'))"
    proof (intro allI impI)
      fix t
      assume "max a c < U64_MAX \<and> clock (?k + 1) + max a c \<le> t \<and> t \<le> U64_MAX"
      moreover from this le(1) have "clock ?k + a \<le> t" "clock (?k + 1) + c \<le> t" by linarith+
      ultimately show "fst (can_consume t 1 (wk_ops w')) \<and> fst (can_consume t (unat data_len) (wk_bytes w'))"
        using a(4) c(4) eq by simp
    qed
  qed (use eq a(3) c(3) in \<open>simp_all add: mark_stalled_fields\<close>)
qed

lemma debit_buckets_fields:
  "wk_queue (debit_buckets clock n w) = wk_queue w" "wk_mem (debit_buckets clock n w) = wk_mem w"
  "wk_backing (debit_buckets clock n w) = wk_backing w"
  "wk_capacity_bytes (debit_buckets clock n w) = wk_capacity_bytes w"
  "wk_poisoned (debit_buckets clock n w) = wk_poisoned w" "\<not> wk_stalled (debit_buckets clock n w)"
  "wk_clock_reads (debit_buckets clock n w) = wk_clock_reads w + 2"
  "wk_ops (debit_buckets clock n w) = snd (consume (clock (wk_clock_reads w)) 1 (wk_ops w))"
  "wk_bytes (debit_buckets clock n w) = snd (consume (clock (wk_clock_reads w + 1)) (unat n) (wk_bytes w))"
  "currently_throttled_gauge (wk_counters w) = (if wk_stalled w then 1 else 0)
   \<Longrightarrow> currently_throttled_gauge (wk_counters (debit_buckets clock n w)) = 0"
  "errors (debit_buckets clock n w) = errors w"
  by (simp_all add: debit_buckets_def Let_def count_def record_throttle_pending_dec_def errors_def)

text \<open>
  An admitted request has both debits granted; a refused one is put back, with nothing
  withdrawn from either bucket.
\<close>

lemma admit_cases:
  fixes w w' :: "('m, 'q, 'f) blk_worker"
  assumes inv: "worker_inv clock w" and mono: "mono clock"
    and ad: "admit_request api clock head a hdr segs w = (r, w')"
    and n: "unat (segments_len segs) \<le> MAX_DATA_LEN"
  defines "k \<equiv> wk_clock_reads w" and "n \<equiv> unat (segments_len segs)"
  obtains (run) w2 where "consume (clock (k + 2)) 1 (snd (can_consume (clock k) 1 (wk_ops w))) = (True, wk_ops w2)"
      and "consume (clock (k + 3)) n (snd (can_consume (clock (k + 1)) n (wk_bytes w))) = (True, wk_bytes w2)"
      and "publish_handled api head a (dispatch_request api hdr segs w2) = (r, w')"
      and "worker_inv clock w2" and "wk_queue w2 = wk_queue w" and "wk_mem w2 = wk_mem w"
      and "wk_backing w2 = wk_backing w" and "wk_capacity_bytes w2 = wk_capacity_bytes w"
      and "wk_poisoned w2 = wk_poisoned w" and "\<not> wk_stalled w2" and "wk_clock_reads w2 = k + 4"
      and "errors w2 = errors w"
      and "fst (can_consume (clock k) 1 (wk_ops w)) \<and> fst (can_consume (clock (k + 1)) n (wk_bytes w))"
  | (stall) wait where "r = ChainStalled wait" and "worker_inv clock w'"
      and "wk_queue w' = rolled_back api (wk_queue w)" and "wk_mem w' = wk_mem w"
      and "wk_backing w' = wk_backing w" and "wk_stalled w'" and "wk_poisoned w' = wk_poisoned w"
      and "wk_clock_reads w' = k + 4"
      and "available (wk_ops w) \<le> available (wk_ops w')"
      and "available (wk_bytes w) \<le> available (wk_bytes w')"
      and "\<forall>t. wait < U64_MAX \<and> clock (k + 3) + wait \<le> t \<and> t \<le> U64_MAX
             \<longrightarrow> fst (can_consume t 1 (wk_ops w')) \<and> fst (can_consume t n (wk_bytes w'))"
      and "\<not> (fst (can_consume (clock k) 1 (wk_ops w)) \<and> fst (can_consume (clock (k + 1)) n (wk_bytes w)))"
proof -
  let ?o = "can_consume (clock k) 1 (wk_ops w)" and ?b = "can_consume (clock (k + 1)) n (wk_bytes w)"
  define w1 where "w1 = w\<lparr>wk_ops := snd ?o, wk_bytes := snd ?b, wk_clock_reads := k + 2\<rparr>"
  have ck: "check_buckets clock (segments_len segs) w = (fst ?o, fst ?b, w1)"
    by (simp only: check_buckets_eq w1_def k_def n_def)
  have le: "clock k \<le> clock (k + 1)" "clock (k + 1) \<le> clock (k + 2)" "clock k \<le> clock (k + 2)"
    "clock (k + 2) \<le> clock (k + 4)" "clock (k + 3) \<le> clock (k + 4)" "clock (k + 2) \<le> clock (k + 3)"
    "clock (k + 1) \<le> clock (k + 3)"
    using mono by (simp_all add: monoD)
  have b: "worker_bucket_inv (clock k) (wk_ops w)" "worker_bucket_inv (clock k) (wk_bytes w)"
    and g: "currently_throttled_gauge (wk_counters w) = (if wk_stalled w then 1 else 0)"
    using inv by (simp_all add: worker_inv_def k_def)
  have bi: "bucket_inv (wk_ops w)" "bucket_inv (wk_bytes w)" using b by (simp_all add: worker_bucket_inv_def)
  have v: "worker_bucket_inv (clock (k + 2)) (snd ?o)" "worker_bucket_inv (clock (k + 2)) (snd ?b)"
    using worker_bucket_check(1) [OF b(1) order_refl, of 1, THEN worker_bucket_mono, OF le(3)]
      worker_bucket_check(1) [OF b(2) le(1), of n, THEN worker_bucket_mono, OF le(2)] by simp_all
  have inv1: "worker_inv clock w1" using v g by (simp add: worker_inv_def w1_def)
  show thesis
  proof (cases "fst ?o \<and> fst ?b")
    case True
    let ?w2 = "debit_buckets clock (segments_len segs) w1"
    note d = bucket.both_gates_debit [OF bi conjunct1 [OF True] conjunct2 [OF True] le(3,7)]
    have "worker_bucket_inv (clock (k + 4)) (snd (consume (clock (k + 2)) 1 (snd ?o)))"
      by (rule worker_bucket_debit [OF v(1) order_refl, THEN worker_bucket_mono, OF _ le(4)])
        (simp add: MAX_DATA_LEN_val)
    moreover have "worker_bucket_inv (clock (k + 4)) (snd (consume (clock (k + 3)) n (snd ?b)))"
      by (rule worker_bucket_debit [OF v(2) le(6), THEN worker_bucket_mono, OF _ le(5)]) (use n in \<open>simp add: n_def\<close>)
    moreover have "currently_throttled_gauge (wk_counters ?w2) = 0"
      using g by (intro debit_buckets_fields(10)) (simp add: w1_def)
    ultimately have inv2: "worker_inv clock ?w2"
      by (simp add: worker_inv_def debit_buckets_fields w1_def n_def [symmetric] eval_nat_numeral)
    have "publish_handled api head a (dispatch_request api hdr segs ?w2) = (r, w')"
      using ad True by (simp add: admit_request_def ck Let_def)
    then show thesis
      using inv2 d True by (intro run [of ?w2])
        (simp_all add: debit_buckets_fields w1_def n_def [symmetric] prod_eq_iff eval_nat_numeral)
  next
    case False
    then have st: "stall_chain api clock (fst ?o) (fst ?b) (segments_len segs) w1 = (r, w')"
      using ad by (auto simp: admit_request_def ck Let_def)
    have po: "\<forall>t. fst (can_consume t 1 (wk_ops w1))" if "fst ?o"
      using check_persists [OF bi(1) that] by (simp add: w1_def)
    have pb: "\<forall>t. fst (can_consume t (unat (segments_len segs)) (wk_bytes w1))" if "fst ?b"
      using check_persists [OF bi(2) that] by (simp add: w1_def n_def)
    have av: "available (wk_ops w) \<le> available (snd ?o)" "available (wk_bytes w) \<le> available (snd ?b)"
      using worker_bucket_check(3) [OF b(1) order_refl] worker_bucket_check(3) [OF b(2) le(1)] by simp_all
    show thesis
    proof (rule stall_chain_cases [OF inv1 mono n po pb st])
      fix wait
      assume f: "r = ChainStalled wait" "worker_inv clock w'"
        "wk_queue w' = rolled_back api (wk_queue w1)" "wk_mem w' = wk_mem w1"
        "wk_backing w' = wk_backing w1" "wk_stalled w'" "wk_poisoned w' = wk_poisoned w1"
        "wk_clock_reads w' = wk_clock_reads w1 + 2"
        "available (wk_ops w1) \<le> available (wk_ops w')" "available (wk_bytes w1) \<le> available (wk_bytes w')"
        "\<forall>t. wait < U64_MAX \<and> clock (wk_clock_reads w1 + 1) + wait \<le> t \<and> t \<le> U64_MAX
           \<longrightarrow> fst (can_consume t 1 (wk_ops w')) \<and> fst (can_consume t (unat (segments_len segs)) (wk_bytes w'))"
      have "wk_clock_reads w1 + 1 = k + 3" "wk_clock_reads w1 + 2 = k + 4" by (simp_all add: w1_def)
      with f av False show thesis by (intro stall [of wait]) (simp_all add: w1_def n_def numeral_3_eq_3)
    qed assumption+
  qed
qed

section \<open>Invariant of the worker\<close>

lemma publish_handled_inv:
  "publish_handled api head a h = (r, w') \<Longrightarrow> worker_inv clock w' = worker_inv clock (snd h)"
  using publish_handled_frame [of h api head a] io_frame_inv [of "snd h" w'] by simp

lemma publish_handled_done: "publish_handled api head a h = (r, w') \<Longrightarrow> \<exists>ok. r = ChainDone ok"
  by (auto simp: publish_handled_def split: prod.splits)

lemma dispatch_inv: "worker_inv clock (snd (dispatch_request api hdr segs w)) = worker_inv clock w"
  by (rule io_frame_inv) (rule dispatch_frame)

lemma io_frame_poisoned: "io_frame w w' \<Longrightarrow> wk_poisoned w' = wk_poisoned w"
  by (simp add: io_frame_def)

text \<open>What every answered chain keeps: the invariant and the poison flag.\<close>

lemma answered_keeps:
  assumes "publish_handled api head a h = (r, w')" and "io_frame w (snd h)"
  shows "worker_inv clock w' = worker_inv clock w \<and> r \<noteq> ChainPanic \<and> wk_poisoned w' = wk_poisoned w"
proof -
  have f: "io_frame w w'"
    using io_frame_trans [OF assms(2) publish_handled_frame [of h api head a]] assms(1) by simp
  from publish_handled_done [OF assms(1)] have "r \<noteq> ChainPanic" by blast
  with io_frame_inv [OF f] io_frame_poisoned [OF f] show ?thesis by simp
qed

lemma process_chain_inv:
  assumes "worker_inv clock w" and "mono clock" and "process_chain api clock head descs w = (r, w')"
  shows "worker_inv clock w' \<and> r \<noteq> ChainPanic \<and> wk_poisoned w' = wk_poisoned w"
  using assms(3)
proof (cases rule: process_chain_cases)
  case dropped
  with assms(1) io_frame_inv [OF unsupp_frame, of clock w] show ?thesis by (simp add: count_def)
next
  case (answered a h)
  with answered_keeps [OF answered(2,3)] assms(1) show ?thesis by simp
next
  case (admitted a ha bs hdr segs)
  note n = request_len_bound(1) [OF admitted(7) chain_segments_bound [OF admitted(6), folded admitted(5)]]
  from assms(1,2) admitted(10) n show ?thesis
  proof (cases rule: admit_cases)
    case (run w2)
    with answered_keeps [OF run(3) dispatch_frame] show ?thesis by simp
  qed simp
qed

section \<open>Properties\<close>

text \<open>
  C6: every chain taken from the queue is resolved in exactly one way. It is completed:
  its status byte was written to the address the chain names and after that, and only after that,
  its head was added to the used ring. Or it is abandoned, with the error counter raised and
  nothing new on the used ring. Or it is put back by stepping the cursor back once, with
  guest memory and the backing file untouched.
\<close>

theorem chain_resolved_once:
  assumes "worker_inv clock w" and "mono clock" and "process_chain api clock head descs w = (r, w')"
  shows "case r of
      ChainDone True \<Rightarrow> (\<exists>a m0 s m n. status_addr_of descs = Some a \<and> gm_write_slice api m0 [s] a = Some m
          \<and> vq_add_used api m (wk_queue w) head n = (True, wk_mem w', wk_queue w'))
    | ChainDone False \<Rightarrow> errors w' \<in> {errors w + 1, errors w + 2}
          \<and> (wk_queue w' = wk_queue w \<or> (\<exists>m n. vq_add_used api m (wk_queue w) head n = (False, wk_mem w', wk_queue w')))
    | ChainStalled wait \<Rightarrow> wk_queue w' = rolled_back api (wk_queue w) \<and> wk_mem w' = wk_mem w
          \<and> wk_backing w' = wk_backing w
    | ChainPanic \<Rightarrow> False"
  using assms(3)
proof (cases rule: process_chain_cases)
  case (answered a h)
  with publish_handled_resolves [OF answered(2)] show ?thesis by (auto split: if_splits)
next
  case (admitted a ha bs hdr segs)
  note n = request_len_bound(1) [OF admitted(7) chain_segments_bound [OF admitted(6), folded admitted(5)]]
  from assms(1,2) admitted(10) n show ?thesis
  proof (cases rule: admit_cases)
    case (run w2)
    with publish_handled_resolves [OF run(3)] admitted(1) dispatch_errors [of api hdr segs w2]
    show ?thesis by (auto simp: dispatch_queue split: if_splits)
  qed simp
qed simp

lemma throttled_chain_admitted:
  assumes "throttled_chain api descs w"
  obtains a hdr where "process_chain api clock head descs w = admit_request api clock head a hdr (butlast (tl descs)) w"
    and "unat (segments_len (butlast (tl descs))) \<le> MAX_DATA_LEN"
proof -
  obtain a ha bs where a: "status_addr_of descs = Some a" "header_addr_of descs = Some ha" "gm_read_header api (wk_mem w) ha = Some bs"
    "length descs \<le> SCRATCH_CAP"
    using assms by (auto simp: throttled_chain_def split: option.splits)
  let ?h = "out_hdr_from_bytes bs" and ?segs = "butlast (tl descs)"
  have t: "\<not> request_malformed (hdr_type ?h) ?segs" "\<not> direction_violation (hdr_type ?h) ?segs"
    "hdr_type ?h \<in> {VIRTIO_BLK_T_IN, VIRTIO_BLK_T_GET_ID} \<or> hdr_type ?h \<in> {VIRTIO_BLK_T_OUT, VIRTIO_BLK_T_FLUSH} \<and> \<not> wk_read_only w"
    using assms a by (simp_all add: throttled_chain_def Let_def)
  have "classify_pre_throttle (hdr_type ?h) w = (None, w)"
    using t(3) by (elim disjE conjE) (auto simp: classify_pre_throttle_def request_type_defs)
  with t(1,2) a have "process_chain api clock head descs w = admit_request api clock head a ?h ?segs w"
    by (simp add: process_chain_def process_request_def)
  with request_len_bound(1) [OF t(1) chain_segments_bound [OF a(4)]] that show thesis by blast
qed

lemma unthrottled_chain_answered:
  assumes "\<not> throttled_chain api descs w" and "process_chain api clock head descs w = (r, w')"
  shows "(\<exists>ok. r = ChainDone ok) \<and> wk_ops w' = wk_ops w \<and> wk_bytes w' = wk_bytes w \<and> wk_backing w' = wk_backing w"
  using assms(2)
proof (cases rule: process_chain_cases)
  case dropped
  then show ?thesis by (auto simp: count_def)
next
  case (answered a h)
  have f: "io_frame w w'"
    using io_frame_trans [OF answered(3) publish_handled_frame [of h api head a]] answered(2) by simp
  from publish_handled_backing [OF answered(2)] publish_handled_done [OF answered(2)] answered(5) f
  show ?thesis by (auto simp: io_frame_def)
next
  case (admitted a ha bs hdr segs)
  then have "throttled_chain api descs w"
    by (auto simp: throttled_chain_def classify_pre_throttle_def Let_def split: if_splits)
  with assms(1) show ?thesis by contradiction
qed

text \<open>
  C7: the throttle charges both buckets or neither, and nothing passes it unpaid. A well-formed read, write, flush or
  identification request, other than a write or flush of a read-only device, is dealt with exactly when both
  buckets can pay for it, and then one operation and exactly the bytes of the request are granted and
  withdrawn; otherwise it is stalled, with neither balance lower than before and the backing file unchanged.
  Every other chain is answered or dropped with both buckets and the backing file untouched.
\<close>

theorem throttle_all_or_nothing:
  assumes "worker_inv clock w" and "mono clock" and "process_chain api clock head descs w = (r, w')"
  defines "k \<equiv> wk_clock_reads w" and "n \<equiv> unat (segments_len (butlast (tl descs)))"
  shows "if throttled_chain api descs w
    then if fst (can_consume (clock k) 1 (wk_ops w)) \<and> fst (can_consume (clock (k + 1)) n (wk_bytes w))
      then (\<exists>ok. r = ChainDone ok)
        \<and> consume (clock (k + 2)) 1 (snd (can_consume (clock k) 1 (wk_ops w))) = (True, wk_ops w')
        \<and> consume (clock (k + 3)) n (snd (can_consume (clock (k + 1)) n (wk_bytes w))) = (True, wk_bytes w')
      else (\<exists>wait. r = ChainStalled wait) \<and> available (wk_ops w) \<le> available (wk_ops w')
        \<and> available (wk_bytes w) \<le> available (wk_bytes w') \<and> wk_backing w' = wk_backing w
    else (\<exists>ok. r = ChainDone ok) \<and> wk_ops w' = wk_ops w \<and> wk_bytes w' = wk_bytes w \<and> wk_backing w' = wk_backing w"
proof (cases "throttled_chain api descs w")
  case True
  then obtain a hdr where ad: "process_chain api clock head descs w = admit_request api clock head a hdr (butlast (tl descs)) w"
    and n: "unat (segments_len (butlast (tl descs))) \<le> MAX_DATA_LEN"
    by (rule throttled_chain_admitted)
  from assms(1,2) assms(3) [unfolded ad] n show ?thesis
  proof (cases rule: admit_cases)
    case (run w2)
    have f: "io_frame w2 w'"
      using io_frame_trans [OF dispatch_frame publish_handled_frame [of "dispatch_request api hdr (butlast (tl descs)) w2" api head a]]
        run(3) by simp
    with run(1,2,13) publish_handled_done [OF run(3)] True show ?thesis by (simp add: k_def n_def io_frame_def)
  next
    case (stall wait)
    from stall(1,5,9,10,12) True show ?thesis unfolding k_def n_def by (simp del: de_Morgan_conj)
  qed
next
  case False
  with unthrottled_chain_answered [OF False assms(3)] show ?thesis by simp
qed

text \<open>
  C17: a stalled chain is admitted on retry. If the wait reported for it is below its saturation
  value and the next attempt reads the clock no earlier than that long after the last
  reading, with nothing else withdrawn in between, then the same chain does not stall again.
\<close>

theorem stalled_chain_admitted_after_wait:
  assumes "worker_inv clock w" and "mono clock" and "\<And>i. clock i \<le> U64_MAX"
    and "process_chain api clock head descs w = (ChainStalled wait, w')" and "wait < U64_MAX"
    and "wk_ops w2 = wk_ops w'" and "wk_bytes w2 = wk_bytes w'"
    and "clock (wk_clock_reads w' - 1) + wait \<le> clock (wk_clock_reads w2)"
  shows "fst (process_chain api2 clock head2 descs w2) \<noteq> ChainStalled wait2"
proof
  assume "fst (process_chain api2 clock head2 descs w2) = ChainStalled wait2"
  then obtain w3 where "process_chain api2 clock head2 descs w2 = (ChainStalled wait2, w3)"
    by (metis prod.collapse)
  then show False
  proof (cases rule: process_chain_cases)
    case (answered a h)
    with publish_handled_done [OF answered(2)] show False by simp
  next
    case (admitted a ha bs hdr segs)
    let ?n = "unat (segments_len segs)" and ?k = "wk_clock_reads w2"
    have both: "fst (can_consume (clock ?k) 1 (wk_ops w2)) \<and> fst (can_consume (clock (?k + 1)) ?n (wk_bytes w2))"
      using assms(4)
    proof (cases rule: process_chain_cases)
      case (answered a h)
      with publish_handled_done [OF answered(2)] show ?thesis by simp
    next
      case ad: (admitted a' ha' bs' hdr' segs')
      note n = request_len_bound(1) [OF ad(7) chain_segments_bound [OF ad(6), folded ad(5)]]
      from assms(1,2) ad(10) n show ?thesis
      proof (cases rule: admit_cases)
        case (run w2)
        with publish_handled_done [OF run(3)] show ?thesis by simp
      next
        case (stall wait')
        have t: "clock (wk_clock_reads w + 3) + wait \<le> clock ?k" using assms(8) stall(8) by (simp add: add.commute)
        have "clock ?k \<le> clock (?k + 1)" using assms(2) by (simp add: monoD)
        with t have t': "clock (wk_clock_reads w + 3) + wait \<le> clock (?k + 1)" by simp
        have seg: "segs' = segs" using ad(5) admitted(5) by simp
        note ok = stall(11) [rule_format]
        show ?thesis
          using ok [of "clock ?k"] ok [of "clock (?k + 1)"] t t' stall(1) assms(3,5)
          by (simp add: assms(6,7) seg)
      qed
    qed simp
    have "\<exists>ok. ChainStalled wait2 = ChainDone ok"
      using admitted(10) both publish_handled_done
      by (fastforce simp: admit_request_def check_buckets_eq Let_def)
    then show False by simp
  qed simp
qed

lemma write_backing:
  assumes "wk_backing (snd (handle_write_vectored api sector segs n w)) \<noteq> wk_backing w"
  obtains off iovecs where "request_offset (wk_capacity_bytes w) sector n = Some off"
    and "collect_iovecs api (wk_mem w) False segs = Some iovecs"
    and "wk_backing (snd (handle_write_vectored api sector segs n w))
      = snd (f_pwritev api (wk_backing w) (wk_mem w) iovecs off)"
  using assms
  by (auto simp: handle_write_vectored_def io_error_def Let_def split: option.splits prod.splits if_splits)

lemma request_offset_Some:
  assumes "request_offset cap sector n = Some off"
  shows "unat off = unat sector * 512" and "unat off + unat n \<le> unat cap"
proof -
  obtain e where m: "checked_mul sector 512 = Some off" and a: "checked_add off n = Some e" and le: "\<not> cap < e"
    using assms by (auto simp: request_offset_def VIRTIO_BLK_SECTOR_SIZE_def bind_eq_Some_conv split: if_splits)
  show "unat off = unat sector * 512" using checked_mul_Some [OF m] by simp
  show "unat off + unat n \<le> unat cap" using checked_add_Some [OF a] le by (simp add: word_le_nat_alt not_less)
qed

lemma dispatch_backing:
  assumes "wk_backing (snd (dispatch_request api hdr segs w)) \<noteq> wk_backing w"
  shows "hdr_type hdr = VIRTIO_BLK_T_OUT"
    and "dispatch_request api hdr segs w = handle_write_vectored api (hdr_sector hdr) segs (segments_len segs) w"
  using assms by (auto simp: dispatch_request_def Let_def handler_frames split: if_splits)

lemma admit_backing:
  assumes "admit_request api clock head a hdr segs w = (r, w')" and "wk_backing w' \<noteq> wk_backing w"
  obtains w2 where "wk_backing w' = wk_backing (snd (dispatch_request api hdr segs w2))"
    and "wk_backing w2 = wk_backing w" and "wk_mem w2 = wk_mem w" and "wk_capacity_bytes w2 = wk_capacity_bytes w"
proof -
  obtain o1 b1 w1 where ck: "check_buckets clock (segments_len segs) w = (o1, b1, w1)" by (metis prod_cases3)
  have w1: "wk_backing w1 = wk_backing w" "wk_mem w1 = wk_mem w" "wk_capacity_bytes w1 = wk_capacity_bytes w"
    using ck by (auto simp: check_buckets_eq)
  have "wk_backing (snd (stall_chain api clock o1 b1 n w1)) = wk_backing w" for n
    using w1 by (simp add: stall_chain_def Let_def mark_stalled_fields split: prod.split option.split)
  with assms ck have "publish_handled api head a (dispatch_request api hdr segs (debit_buckets clock (segments_len segs) w1)) = (r, w')"
    by (auto simp: admit_request_def Let_def split: if_splits) (metis snd_conv)+
  from publish_handled_backing [OF this] w1 that [of "debit_buckets clock (segments_len segs) w1"] show thesis
    by (simp add: debit_buckets_fields)
qed

text \<open>
  C8: the backing file changes only as a valid write request allows. A read-only device never
  changes it. Otherwise the change is one vectored write for a request of type OUT, from the
  device-readable segments of the chain, at the byte offset of the requested sector, of a whole
  number of sectors that all lie within the capacity.
\<close>

theorem backing_writes_confined:
  assumes "process_chain api clock head descs w = (r, w')" and "wk_backing w' \<noteq> wk_backing w"
  defines "segs \<equiv> butlast (tl descs)" and "len \<equiv> sum_list (map (\<lambda>d. unat (d_len d)) (butlast (tl descs)))"
  shows "\<not> wk_read_only w \<and> (\<exists>ha bs off iovecs. header_addr_of descs = Some ha
    \<and> gm_read_header api (wk_mem w) ha = Some bs \<and> hdr_type (out_hdr_from_bytes bs) = VIRTIO_BLK_T_OUT
    \<and> collect_iovecs api (wk_mem w) False segs = Some iovecs
    \<and> wk_backing w' = snd (f_pwritev api (wk_backing w) (wk_mem w) iovecs off)
    \<and> unat off = unat (hdr_sector (out_hdr_from_bytes bs)) * 512
    \<and> len mod 512 = 0 \<and> unat off + len \<le> unat (wk_capacity_bytes w))"
  using assms(1)
proof (cases rule: process_chain_cases)
  case dropped
  with assms(2) show ?thesis by simp
next
  case (answered a h)
  with publish_handled_backing [OF answered(2)] assms(2) show ?thesis by simp
next
  case (admitted a ha bs hdr segs')
  have segs: "segs' = segs" using admitted(5) segs_def by simp
  note len = request_len_bound(2) [OF admitted(7) chain_segments_bound [OF admitted(6), folded admitted(5)]]
  obtain w2 where w2: "wk_backing w' = wk_backing (snd (dispatch_request api hdr segs' w2))"
    "wk_backing w2 = wk_backing w" "wk_mem w2 = wk_mem w" "wk_capacity_bytes w2 = wk_capacity_bytes w"
    by (rule admit_backing [OF admitted(10) assms(2)])
  then have ne: "wk_backing (snd (dispatch_request api hdr segs' w2)) \<noteq> wk_backing w2" using assms(2) by simp
  note d = dispatch_backing [OF ne]
  obtain off iovecs where o: "request_offset (wk_capacity_bytes w2) (hdr_sector hdr) (segments_len segs') = Some off"
    "collect_iovecs api (wk_mem w2) False segs' = Some iovecs"
    "wk_backing (snd (handle_write_vectored api (hdr_sector hdr) segs' (segments_len segs') w2))
      = snd (f_pwritev api (wk_backing w2) (wk_mem w2) iovecs off)"
    by (rule write_backing [OF ne [unfolded d(2)]])
  have "\<not> wk_read_only w" using admitted(9) d(1) by (auto simp: classify_pre_throttle_def)
  moreover have "len mod 512 = 0"
  proof -
    have "segments_len segs' mod 512 = 0"
      using admitted(7) d(1) by (simp add: request_malformed_def VIRTIO_BLK_SECTOR_SIZE_def)
    then have "unat (segments_len segs' mod 512) = 0" by simp
    then show ?thesis using len by (simp add: unat_mod len_def admitted(5))
  qed
  ultimately show ?thesis
    using admitted(2-4) d o w2 request_offset_Some [OF o(1)] len segs
    by (auto simp: len_def admitted(5))
qed

lemmas sample_defs = sample_api_def sample_worker_def empty_ring_def request_mem_def flush_chain_def
  data_chain_def counters_zero_def

lemma sample_worker_inv: "worker_inv clock (sample_worker m q)"
  by (simp add: worker_inv_def worker_bucket_inv_def sample_worker_def bucket_inv_def bucket_unlimited_def
      counters_zero_def)

lemma drained_ops_inv: "worker_inv clock drained_ops_worker"
  by (simp add: worker_inv_def worker_bucket_inv_def drained_ops_worker_def sample_worker_def bucket_inv_def
      bucket_unlimited_def bucket_new_def counters_zero_def MAX_DATA_LEN_val i64_defs U64_MAX_def)

lemma mono_late_clock: "mono late_clock" "late_clock i \<le> U64_MAX"
  by (simp_all add: mono_def late_clock_def U64_MAX_def)

lemma sample_chain_addrs:
  "status_addr_of flush_chain = Some 0x2000" "header_addr_of flush_chain = Some 0x1000"
  "status_addr_of (data_chain b) = Some 0x2000" "header_addr_of (data_chain b) = Some 0x1000"
  "length flush_chain \<le> SCRATCH_CAP" "length (data_chain b) \<le> SCRATCH_CAP"
  by (simp_all add: status_addr_of_def header_addr_of_def flush_chain_def data_chain_def checked_add_def
      VIRTIO_BLK_OUTHDR_SIZE_def SCRATCH_CAP_def VIRTIO_BLK_SEG_MAX_def word_le_nat_alt)

lemma sample_header:
  "\<exists>bs. gm_read_header sample_api (request_mem t) 0x1000 = Some bs
     \<and> hdr_type (out_hdr_from_bytes bs) = ucast t \<and> hdr_sector (out_hdr_from_bytes bs) = 0"
  by (simp add: sample_api_def request_mem_def out_hdr_from_bytes_def byte_slice_def from_le_bytes_def
      upt_rec)

lemmas chain_eval = process_request_def request_malformed_def classify_pre_throttle_def direction_violation_def
  admit_request_def check_buckets_def debit_buckets_def stall_chain_def mark_stalled_def bucket_wait_def
  dispatch_request_def handle_flush_def handle_write_vectored_def publish_handled_def publish_completion_def
  request_offset_def segments_len_def checked_mul_def checked_add_def count_def VIRTIO_BLK_SECTOR_SIZE_def
  VIRTIO_BLK_SIZE_MAX_def can_consume_def consume_def bucket_unlimited_def nanos_until_n_tokens_def
  request_type_defs sample_defs Let_def

lemma process_sample:
  assumes "wk_mem w = request_mem t" and "status_addr_of descs = Some a" and "header_addr_of descs = Some 0x1000"
    and "length descs \<le> SCRATCH_CAP"
  obtains hdr where "hdr_type hdr = ucast t" and "hdr_sector hdr = 0"
    and "process_chain sample_api clock head descs w
      = process_request sample_api clock head a hdr (butlast (tl descs)) w"
  using sample_header [of t] assms by (auto simp: process_chain_def not_less)

lemma flush_done:
  "\<exists>w'. process_chain sample_api clock 3 flush_chain (sample_worker (request_mem 4) q) = (ChainDone True, w')
     \<and> wk_queue w' = q\<lparr>sr_used := sr_used q @ [(3, 1)]\<rparr> \<and> \<not> wk_poisoned w'"
proof -
  let ?w = "sample_worker (request_mem 4) q"
  obtain hdr where h: "hdr_type hdr = ucast (4 :: u8)" "hdr_sector hdr = 0"
    "process_chain sample_api clock 3 flush_chain ?w
      = process_request sample_api clock 3 0x2000 hdr (butlast (tl flush_chain)) ?w"
    by (rule process_sample [of ?w 4 flush_chain]) (simp_all add: sample_chain_addrs sample_worker_def)
  show ?thesis unfolding h(3)
    by (simp add: h(1,2) chain_eval)
qed

lemma write_done:
  "\<exists>w'. process_chain sample_api clock 3 (data_chain False) (sample_worker (request_mem 1) q) = (ChainDone True, w')
     \<and> wk_backing w' = [(0, [(0x5000, 512)])]"
proof -
  let ?w = "sample_worker (request_mem 1) q"
  obtain hdr where h: "hdr_type hdr = ucast (1 :: u8)" "hdr_sector hdr = 0"
    "process_chain sample_api clock 3 (data_chain False) ?w
      = process_request sample_api clock 3 0x2000 hdr (butlast (tl (data_chain False))) ?w"
    by (rule process_sample [of ?w 1 "data_chain False"]) (simp_all add: sample_chain_addrs sample_worker_def)
  show ?thesis unfolding h(3)
    by (simp add: h(1,2) chain_eval)
qed

lemma read_stalls:
  "\<exists>w'. process_chain sample_api late_clock 3 (data_chain True) drained_ops_worker = (ChainStalled 1000000000, w')
     \<and> wk_clock_reads w' = 4"
proof -
  let ?w = drained_ops_worker
  obtain hdr where h: "hdr_type hdr = ucast (0 :: u8)" "hdr_sector hdr = 0"
    "process_chain sample_api late_clock 3 (data_chain True) ?w
      = process_request sample_api late_clock 3 0x2000 hdr (butlast (tl (data_chain True))) ?w"
    by (rule process_sample [of ?w 0 "data_chain True"])
      (simp_all add: sample_chain_addrs sample_worker_def drained_ops_worker_def)
  show ?thesis unfolding h(3)
    by (simp add: h(1,2) chain_eval refill_def div_ceil_def u64_or_max_def U64_MAX_def i64_try_from_def I64_MAX_def
        bucket_new_def drained_ops_worker_def late_clock_def)
qed

theorem chain_resolved_once_witness:
  "\<exists>w' m0 s m n. process_chain sample_api late_clock 3 flush_chain (sample_worker (request_mem 4) empty_ring) = (ChainDone True, w')
     \<and> gm_write_slice sample_api m0 [s] 0x2000 = Some m
     \<and> vq_add_used sample_api m empty_ring 3 n = (True, wk_mem w', wk_queue w')"
proof -
  obtain w' where r: "process_chain sample_api late_clock 3 flush_chain (sample_worker (request_mem 4) empty_ring)
      = (ChainDone True, w')" using flush_done by blast
  from chain_resolved_once [OF sample_worker_inv mono_late_clock(1) r] r show ?thesis
    by (auto simp: sample_chain_addrs sample_worker_def)
qed

theorem throttle_all_or_nothing_witness:
  "\<exists>w'. process_chain sample_api late_clock 3 (data_chain True) drained_ops_worker = (ChainStalled 1000000000, w')
     \<and> throttled_chain sample_api (data_chain True) drained_ops_worker \<and> 0 \<le> available (wk_ops w')"
proof -
  obtain w' where r: "process_chain sample_api late_clock 3 (data_chain True) drained_ops_worker
      = (ChainStalled 1000000000, w')" using read_stalls by blast
  from throttle_all_or_nothing [OF drained_ops_inv mono_late_clock(1) r] r show ?thesis
    by (auto simp: drained_ops_worker_def split: if_splits)
qed

theorem stalled_chain_admitted_after_wait_witness:
  "\<exists>w'. process_chain sample_api late_clock 3 (data_chain True) drained_ops_worker = (ChainStalled 1000000000, w')
     \<and> (\<forall>wait. fst (process_chain sample_api late_clock 3 (data_chain True) w') \<noteq> ChainStalled wait)"
proof -
  obtain w' where r: "process_chain sample_api late_clock 3 (data_chain True) drained_ops_worker
      = (ChainStalled 1000000000, w')" and k: "wk_clock_reads w' = 4" using read_stalls by blast
  have "late_clock (wk_clock_reads w' - 1) + 1000000000 \<le> late_clock (wk_clock_reads w')"
    by (simp add: k late_clock_def)
  with stalled_chain_admitted_after_wait [OF drained_ops_inv mono_late_clock r _ refl refl] r
  show ?thesis by (auto simp: U64_MAX_def)
qed

theorem backing_writes_confined_witness:
  "\<exists>w' off iovecs. process_chain sample_api late_clock 3 (data_chain False) (sample_worker (request_mem 1) empty_ring)
       = (ChainDone True, w')
     \<and> wk_backing w' = snd (f_pwritev sample_api [] (request_mem 1) iovecs off) \<and> unat off + 512 \<le> 4096"
proof -
  let ?w = "sample_worker (request_mem 1) empty_ring"
  obtain w' where r: "process_chain sample_api late_clock 3 (data_chain False) ?w = (ChainDone True, w')"
    and b: "wk_backing w' = [(0, [(0x5000, 512)])]" using write_done by blast
  have "wk_backing w' \<noteq> wk_backing ?w" by (simp add: b sample_worker_def)
  from backing_writes_confined [OF r this] r show ?thesis
    by (auto simp: sample_worker_def data_chain_def)
qed

end
