(* ===== verification/Virtio_Blk_Drain.thy ===== *)
theory Virtio_Blk_Drain
  imports Virtio_Blk_Chain
begin

text \<open>
  The drain loop of the block device worker, \<^verbatim>\<open>drain_bracket_impl\<close> of
  \<^verbatim>\<open>src/vmm/virtio_blk/drain.rs\<close>, and the decisions of \<^verbatim>\<open>worker.rs\<close> on its outcome.
\<close>

section \<open>The drain loop\<close>

datatype drain_outcome = Done | ThrottleStalled nat | DrainPanic

datatype inner_exit = RingEmpty | RingPoisoned | RingStalled nat | RingPanic

definition poison ::
  "(blk_counters \<Rightarrow> blk_counters) \<Rightarrow> ('m, 'q, 'f) blk_worker \<Rightarrow> ('m, 'q, 'f) blk_worker" where
  "poison record_it w = (count record_it w)
     \<lparr>wk_poisoned := True,
      wk_device_status := wk_device_status w OR VIRTIO_CONFIG_S_NEEDS_RESET,
      wk_interrupt_status := wk_interrupt_status w OR VIRTIO_MMIO_INT_CONFIG,
      wk_irqs := wk_irqs w + 1\<rparr>"

text \<open>
  The inner loop, one unit of fuel for each call of \<^verbatim>\<open>iter\<close>; \<open>signal\<close> is \<^verbatim>\<open>signal_needed\<close>. Out of
  fuel is \<open>None\<close>.
\<close>

fun drain_inner ::
  "nat \<Rightarrow> ('m, 'q, 'f) blk_api \<Rightarrow> (nat \<Rightarrow> nat) \<Rightarrow> bool \<Rightarrow> ('m, 'q, 'f) blk_worker
     \<Rightarrow> (inner_exit \<times> bool \<times> ('m, 'q, 'f) blk_worker) option" where
  "drain_inner 0 api clock signal w = None"
| "drain_inner (Suc fuel) api clock signal w =
     (case vq_iter_next api (wk_mem w) (wk_queue w) of
        (next, q) \<Rightarrow> let w1 = w\<lparr>wk_queue := q\<rparr> in
          (case next of
             NoChain \<Rightarrow> Some (RingEmpty, signal, w1)
           | InvalidAvailRingIndex \<Rightarrow> Some (RingPoisoned, signal, poison record_invalid_avail_idx w1)
           | IterFailed \<Rightarrow> Some (RingPoisoned, signal, poison record_io_error w1)
           | Chain head descs \<Rightarrow>
               (case process_chain api clock head descs w1 of
                  (ChainDone ok, w2) \<Rightarrow> drain_inner fuel api clock (signal \<or> ok) w2
                | (ChainStalled wait, w2) \<Rightarrow> Some (RingStalled wait, signal, w2)
                | (ChainPanic, w2) \<Rightarrow> Some (RingPanic, signal, w2))))"

definition disable_notification :: "('m, 'q, 'f) blk_api \<Rightarrow> ('m, 'q, 'f) blk_worker \<Rightarrow> ('m, 'q, 'f) blk_worker" where
  "disable_notification api w =
     (case vq_disable_notification api (wk_mem w) (wk_queue w) of
        (m, q) \<Rightarrow> w\<lparr>wk_mem := m, wk_queue := q\<rparr>)"

definition enable_notification ::
  "('m, 'q, 'f) blk_api \<Rightarrow> ('m, 'q, 'f) blk_worker \<Rightarrow> bool option \<times> ('m, 'q, 'f) blk_worker" where
  "enable_notification api w =
     (case vq_enable_notification api (wk_mem w) (wk_queue w) of
        (r, m, q) \<Rightarrow> (r, w\<lparr>wk_mem := m, wk_queue := q\<rparr>))"

fun drain_outer ::
  "nat \<Rightarrow> ('m, 'q, 'f) blk_api \<Rightarrow> (nat \<Rightarrow> nat) \<Rightarrow> nat \<Rightarrow> bool \<Rightarrow> ('m, 'q, 'f) blk_worker
     \<Rightarrow> (drain_outcome \<times> bool \<times> ('m, 'q, 'f) blk_worker) option" where
  "drain_outer 0 api clock inner_fuel signal w = None"
| "drain_outer (Suc fuel) api clock inner_fuel signal w =
     (case drain_inner inner_fuel api clock signal (disable_notification api w) of
        None \<Rightarrow> None
      | Some (RingPoisoned, signal', w1) \<Rightarrow> Some (Done, signal', w1)
      | Some (RingPanic, signal', w1) \<Rightarrow> Some (DrainPanic, signal', w1)
      | Some (RingStalled wait, signal', w1) \<Rightarrow>
          Some (ThrottleStalled wait, signal', snd (enable_notification api w1))
      | Some (RingEmpty, signal', w1) \<Rightarrow>
          (case enable_notification api w1 of
             (Some True, w2) \<Rightarrow> drain_outer fuel api clock inner_fuel signal' w2
           | (_, w2) \<Rightarrow> Some (Done, signal', w2)))"

definition signal_used ::
  "('m, 'q, 'f) blk_api \<Rightarrow> ('m, 'q, 'f) blk_worker \<Rightarrow> ('m, 'q, 'f) blk_worker" where
  "signal_used api w =
     (case vq_needs_notification api (wk_mem w) (wk_queue w) of
        (needs, q) \<Rightarrow>
          let w1 = w\<lparr>wk_interrupt_status := wk_interrupt_status w OR VIRTIO_MMIO_INT_VRING, wk_queue := q\<rparr>
          in if (case needs of None \<Rightarrow> True | Some b \<Rightarrow> b) then w1\<lparr>wk_irqs := wk_irqs w1 + 1\<rparr> else w1)"

definition drain_bracket ::
  "nat \<Rightarrow> ('m, 'q, 'f) blk_api \<Rightarrow> (nat \<Rightarrow> nat) \<Rightarrow> ('m, 'q, 'f) blk_worker
     \<Rightarrow> (drain_outcome \<times> ('m, 'q, 'f) blk_worker) option" where
  "drain_bracket fuel api clock w =
     (if \<not> vq_ready api (wk_queue w) then Some (Done, w)
      else if wk_poisoned w then Some (Done, w)
      else case drain_outer fuel api clock fuel False w of
        None \<Rightarrow> None
      | Some (DrainPanic, signal, w1) \<Rightarrow> Some (DrainPanic, w1)
      | Some (outcome, signal, w1) \<Rightarrow> Some (outcome, if signal then signal_used api w1 else w1))"

section \<open>What the worker does with the outcome\<close>

datatype stall_action = StallContinue | ReDrain | StallSleep nat

datatype worker_action = WorkerContinue | WorkerSleep nat

definition RETRY_TIMER_MAX_NANOS :: nat where "RETRY_TIMER_MAX_NANOS = 1000000000"

definition clamp_retry_nanos :: "nat \<Rightarrow> nat" where
  "clamp_retry_nanos wait_nanos = min (max wait_nanos 1) RETRY_TIMER_MAX_NANOS"

definition decide_stall_action :: "drain_outcome \<Rightarrow> stall_action option" where
  "decide_stall_action outcome =
     (case outcome of
        Done \<Rightarrow> Some StallContinue
      | ThrottleStalled wait_nanos \<Rightarrow>
          Some (if wait_nanos = 0 then ReDrain else StallSleep (clamp_retry_nanos wait_nanos))
      | DrainPanic \<Rightarrow> None)"

text \<open>\<open>redrain\<close> is the second drain, run only when the first action asks for it.\<close>

definition resolve_action ::
  "stall_action \<Rightarrow> ('s \<Rightarrow> drain_outcome \<times> 's) \<Rightarrow> 's \<Rightarrow> (worker_action \<times> 's) option" where
  "resolve_action first redrain s =
     (case first of
        StallContinue \<Rightarrow> Some (WorkerContinue, s)
      | StallSleep nanos \<Rightarrow> Some (WorkerSleep nanos, s)
      | ReDrain \<Rightarrow>
          (case redrain s of (outcome, s') \<Rightarrow>
             (case decide_stall_action outcome of
                None \<Rightarrow> None
              | Some StallContinue \<Rightarrow> Some (WorkerContinue, s')
              | Some (StallSleep nanos) \<Rightarrow> Some (WorkerSleep nanos, s')
              | Some ReDrain \<Rightarrow> Some (WorkerSleep 1, s'))))"

definition KICK_TOKEN :: u64 where "KICK_TOKEN = 1"
definition STOP_TOKEN :: u64 where "STOP_TOKEN = 2"
definition THROTTLE_TOKEN :: u64 where "THROTTLE_TOKEN = 3"
definition PAUSE_TOKEN :: u64 where "PAUSE_TOKEN = 4"

datatype worker_dispatch_action = DispatchStop | DispatchDrain bool | DispatchPause | DispatchSkip

definition worker_dispatch_event :: "u64 \<Rightarrow> worker_dispatch_action" where
  "worker_dispatch_event token =
     (if token = STOP_TOKEN then DispatchStop
      else if token = KICK_TOKEN then DispatchDrain False
      else if token = THROTTLE_TOKEN then DispatchDrain True
      else if token = PAUSE_TOKEN then DispatchPause
      else DispatchSkip)"

section \<open>Specification functions and sample values\<close>

text \<open>
  What the drain loop relies on of a queue: \<open>pending\<close> counts the chains the guest has published
  and the device has not taken, \<open>used\<close> the entries of the used ring. Only taking a chain
  lowers the first and only \<open>add_used\<close> raises the second, and the queue asks for another pass
  only when something is pending.
\<close>

definition queue_laws :: "('m, 'q, 'f) blk_api \<Rightarrow> ('q \<Rightarrow> nat) \<Rightarrow> ('q \<Rightarrow> nat) \<Rightarrow> bool" where
  "queue_laws api pending used \<longleftrightarrow>
     (\<forall>m q r q'. vq_iter_next api m q = (r, q') \<longrightarrow> used q' = used q
        \<and> (case r of Chain h ds \<Rightarrow> pending q' < pending q | NoChain \<Rightarrow> pending q' = 0 | _ \<Rightarrow> True))
   \<and> (\<forall>m q h n ok m' q'. vq_add_used api m q h n = (ok, m', q') \<longrightarrow>
        pending q' = pending q \<and> used q' = (if ok then used q + 1 else used q))
   \<and> (\<forall>q. used (rolled_back api q) = used q)
   \<and> (\<forall>m q m' q'. vq_disable_notification api m q = (m', q') \<longrightarrow> pending q' = pending q \<and> used q' = used q)
   \<and> (\<forall>m q r m' q'. vq_enable_notification api m q = (r, m', q') \<longrightarrow>
        pending q' = pending q \<and> used q' = used q \<and> (r = Some True \<longrightarrow> 0 < pending q))
   \<and> (\<forall>m q r q'. vq_needs_notification api m q = (r, q') \<longrightarrow> pending q' = pending q \<and> used q' = used q)"

definition poison_announced :: "('m, 'q, 'f) blk_worker \<Rightarrow> bool" where
  "poison_announced w \<longleftrightarrow> wk_device_status w AND VIRTIO_CONFIG_S_NEEDS_RESET = VIRTIO_CONFIG_S_NEEDS_RESET
     \<and> wk_interrupt_status w AND VIRTIO_MMIO_INT_CONFIG = VIRTIO_MMIO_INT_CONFIG"

definition flush_ring :: sample_ring where
  "flush_ring = \<lparr>sr_chains = [(3, flush_chain)], sr_next = 0, sr_used = []\<rparr>"

definition ring_pending :: "sample_ring \<Rightarrow> nat" where
  "ring_pending q = length (sr_chains q) - unat (sr_next q)"

lemma queue_lawsD:
  assumes "queue_laws api pending used"
  shows "vq_iter_next api m q = (r, q') \<Longrightarrow> used q' = used q"
    and "vq_iter_next api m q = (Chain h ds, q') \<Longrightarrow> pending q' < pending q"
    and "vq_iter_next api m q = (NoChain, q') \<Longrightarrow> pending q' = 0"
    and "vq_add_used api m q h n = (ok, m', q') \<Longrightarrow> pending q' = pending q"
    and "vq_add_used api m q h n = (ok, m', q') \<Longrightarrow> used q' = (if ok then used q + 1 else used q)"
    and "used (rolled_back api q) = used q"
    and "vq_disable_notification api m q = (m', q') \<Longrightarrow> pending q' = pending q \<and> used q' = used q"
    and "vq_enable_notification api m q = (b, m', q') \<Longrightarrow> pending q' = pending q \<and> used q' = used q"
    and "vq_enable_notification api m q = (Some True, m', q') \<Longrightarrow> 0 < pending q"
    and "vq_needs_notification api m q = (b, q') \<Longrightarrow> pending q' = pending q \<and> used q' = used q"
proof -
  note laws = assms [unfolded queue_laws_def]
  note it = laws [THEN conjunct1, rule_format]
  show "vq_iter_next api m q = (r, q') \<Longrightarrow> used q' = used q" using it by blast
  show "vq_iter_next api m q = (Chain h ds, q') \<Longrightarrow> pending q' < pending q"
    using it [of m q "Chain h ds" q'] by simp
  show "vq_iter_next api m q = (NoChain, q') \<Longrightarrow> pending q' = 0"
    using it [of m q NoChain q'] by simp
qed (use assms in \<open>simp_all add: queue_laws_def\<close>)

section \<open>The drain loop\<close>

lemma poison_fields:
  "worker_inv clock (poison record_io_error w) = worker_inv clock w"
  "worker_inv clock (poison record_invalid_avail_idx w) = worker_inv clock w"
  "wk_poisoned (poison f w)" "wk_queue (poison f w) = wk_queue w"
  "wk_device_status (poison f w) = wk_device_status w OR VIRTIO_CONFIG_S_NEEDS_RESET"
  "wk_interrupt_status (poison f w) = wk_interrupt_status w OR VIRTIO_MMIO_INT_CONFIG"
  by (simp_all add: poison_def count_def worker_inv_def record_io_error_def record_invalid_avail_idx_def)

lemma worker_inv_queue [simp]:
  "worker_inv clock (w\<lparr>wk_queue := q\<rparr>) = worker_inv clock w"
  "worker_inv clock (w\<lparr>wk_mem := m\<rparr>) = worker_inv clock w"
  by (simp_all add: worker_inv_def)

lemma drain_inner_inv:
  assumes "worker_inv clock w" and "mono clock" and "\<not> wk_poisoned w"
    and "drain_inner fuel api clock signal w = Some (e, signal', w')"
  shows "worker_inv clock w' \<and> e \<noteq> RingPanic \<and> (wk_poisoned w' \<longleftrightarrow> e = RingPoisoned)
    \<and> (e = RingPoisoned \<longrightarrow> wk_device_status w' AND VIRTIO_CONFIG_S_NEEDS_RESET = VIRTIO_CONFIG_S_NEEDS_RESET
        \<and> wk_interrupt_status w' AND VIRTIO_MMIO_INT_CONFIG = VIRTIO_MMIO_INT_CONFIG)"
  using assms(1,3,4)
proof (induction fuel arbitrary: signal w)
  case (Suc fuel)
  obtain next' q where nx: "vq_iter_next api (wk_mem w) (wk_queue w) = (next', q)" by fastforce
  let ?w = "w\<lparr>wk_queue := q\<rparr>"
  show ?case
  proof (cases next')
    case (Chain head descs)
    obtain r w2 where pc: "process_chain api clock head descs ?w = (r, w2)" by fastforce
    have k: "worker_inv clock w2 \<and> r \<noteq> ChainPanic \<and> wk_poisoned w2 = wk_poisoned w"
      using process_chain_inv [OF _ assms(2) pc] Suc.prems(1) by simp
    with Suc.prems nx Chain pc Suc.IH [of w2] show ?thesis by (cases r) auto
  qed (use Suc.prems nx in \<open>auto simp: Let_def poison_fields or_and_distrib\<close>)
qed simp

lemma publish_handled_counts:
  assumes "queue_laws api pending used" and "publish_handled api head a h = (r, w')"
  shows "used (wk_queue w') = used (wk_queue (snd h)) + (if r = ChainDone True then 1 else 0)"
    and "pending (wk_queue w') = pending (wk_queue (snd h))"
proof -
  obtain s n w where h: "h = ((s, n), w)" by (cases h) auto
  note law = queue_lawsD(4,5) [OF assms(1)]
  show "used (wk_queue w') = used (wk_queue (snd h)) + (if r = ChainDone True then 1 else 0)"
    using assms(2) by (auto simp: h publish_handled_def publish_completion_def Let_def
        split: prod.splits option.splits if_splits dest!: law(2))
  show "pending (wk_queue w') = pending (wk_queue (snd h))"
    using assms(2) by (auto simp: h publish_handled_def publish_completion_def Let_def
        split: prod.splits option.splits if_splits dest!: law(1))
qed

lemma process_chain_counts:
  assumes "queue_laws api pending used" and "worker_inv clock w" and "mono clock"
    and "process_chain api clock head descs w = (r, w')"
  shows "used (wk_queue w') = used (wk_queue w) + (if r = ChainDone True then 1 else 0)
    \<and> ((\<exists>ok. r = ChainDone ok) \<longrightarrow> pending (wk_queue w') = pending (wk_queue w))"
  using assms(4)
proof (cases rule: process_chain_cases)
  case (answered a h)
  with publish_handled_counts [OF assms(1) answered(2)] show ?thesis by simp
next
  case (admitted a ha bs hdr segs)
  note n = request_len_bound(1) [OF admitted(7) chain_segments_bound [OF admitted(6), folded admitted(5)]]
  from assms(2,3) admitted(10) n show ?thesis
  proof (cases rule: admit_cases)
    case (run w2)
    with publish_handled_counts [OF assms(1) run(3)] show ?thesis by (simp add: dispatch_queue)
  next
    case (stall wait)
    with queue_lawsD(6) [OF assms(1)] show ?thesis by simp
  qed
qed simp

text \<open>
  Enough fuel for the pending chains lets the inner loop finish; every used-ring entry it
  adds leaves the signal flag set, and it stops on an empty ring only when none is pending.
\<close>

lemma drain_inner_terminates:
  assumes laws: "queue_laws api pending used" and "mono clock"
    and "worker_inv clock w" and "pending (wk_queue w) < fuel"
  shows "\<exists>e signal' w'. drain_inner fuel api clock signal w = Some (e, signal', w')
    \<and> (e = RingEmpty \<longrightarrow> pending (wk_queue w') = 0)
    \<and> used (wk_queue w) \<le> used (wk_queue w') \<and> (signal \<longrightarrow> signal')
    \<and> (used (wk_queue w) < used (wk_queue w') \<longrightarrow> signal')
    \<and> (signal' \<longrightarrow> signal \<or> used (wk_queue w) < used (wk_queue w'))"
  using assms(3,4)
proof (induction fuel arbitrary: signal w)
  case (Suc fuel)
  obtain next' q where nx: "vq_iter_next api (wk_mem w) (wk_queue w) = (next', q)" by fastforce
  let ?w = "w\<lparr>wk_queue := q\<rparr>"
  note l = queue_lawsD(1-3) [OF laws, of "wk_mem w" "wk_queue w"]
  have u: "used q = used (wk_queue w)" using l(1) [OF nx] .
  show ?case
  proof (cases next')
    case (Chain head descs)
    obtain r w2 where pc: "process_chain api clock head descs ?w = (r, w2)" by fastforce
    have inv: "worker_inv clock ?w" using Suc.prems(1) by simp
    note c = process_chain_counts [OF laws inv assms(2) pc] and k = process_chain_inv [OF inv assms(2) pc]
    show ?thesis
    proof (cases r)
      case (ChainDone ok)
      from l(2) nx Chain have "pending q < pending (wk_queue w)" by simp
      with c ChainDone Suc.prems(2) have "pending (wk_queue w2) < fuel" by simp
      with Suc.IH [of w2 "signal \<or> ok"] k obtain e signal' w' where
        "drain_inner fuel api clock (signal \<or> ok) w2 = Some (e, signal', w')"
        "e = RingEmpty \<longrightarrow> pending (wk_queue w') = 0" "used (wk_queue w2) \<le> used (wk_queue w')"
        "signal \<or> ok \<longrightarrow> signal'" "used (wk_queue w2) < used (wk_queue w') \<longrightarrow> signal'"
        "signal' \<longrightarrow> (signal \<or> ok) \<or> used (wk_queue w2) < used (wk_queue w')" by blast
      with nx Chain pc ChainDone c u show ?thesis by (auto split: if_splits)
    qed (use nx Chain pc c u k in \<open>simp_all\<close>)
  qed (use nx u l(3) in \<open>simp_all add: poison_fields\<close>)
qed simp

text \<open>
  With the queue not growing while the worker drains it, one pass of the outer loop is enough.
\<close>

lemma drain_outer_terminates:
  assumes laws: "queue_laws api pending used" and mono: "mono clock"
    and inv: "worker_inv clock w" and fuel: "pending (wk_queue w) < fuel"
  shows "\<exists>e s' w1. drain_inner fuel api clock signal (disable_notification api w) = Some (e, s', w1)
    \<and> drain_outer (Suc n) api clock fuel signal w = Some (case e of
          RingStalled wait \<Rightarrow> (ThrottleStalled wait, s', snd (enable_notification api w1))
        | RingEmpty \<Rightarrow> (Done, s', snd (enable_notification api w1))
        | RingPoisoned \<Rightarrow> (Done, s', w1) | RingPanic \<Rightarrow> (DrainPanic, s', w1))
    \<and> (e = RingEmpty \<longrightarrow> pending (wk_queue w1) = 0) \<and> used (wk_queue w) \<le> used (wk_queue w1)
    \<and> (used (wk_queue w) < used (wk_queue w1) \<longrightarrow> s')
    \<and> (s' \<longrightarrow> signal \<or> used (wk_queue w) < used (wk_queue w1))"
proof -
  let ?w = "disable_notification api w"
  obtain m q where dis: "vq_disable_notification api (wk_mem w) (wk_queue w) = (m, q)" by fastforce
  from queue_lawsD(7) [OF laws dis] have q: "pending q = pending (wk_queue w)" "used q = used (wk_queue w)"
    by simp_all
  have w: "?w = w\<lparr>wk_mem := m, wk_queue := q\<rparr>" by (simp add: disable_notification_def dis)
  obtain e s' w1 where d: "drain_inner fuel api clock signal ?w = Some (e, s', w1)"
    "e = RingEmpty \<longrightarrow> pending (wk_queue w1) = 0" "used (wk_queue ?w) \<le> used (wk_queue w1)"
    "used (wk_queue ?w) < used (wk_queue w1) \<longrightarrow> s'" "s' \<longrightarrow> signal \<or> used (wk_queue ?w) < used (wk_queue w1)"
    using drain_inner_terminates [OF laws mono, of ?w fuel signal] inv fuel q by (auto simp: w)
  obtain r m' q' where en: "vq_enable_notification api (wk_mem w1) (wk_queue w1) = (r, m', q')"
    by (metis prod_cases3)
  have "r \<noteq> Some True" if "e = RingEmpty" using queue_lawsD(9) [OF laws] en d(2) that by fastforce
  with d(1) have "drain_outer (Suc n) api clock fuel signal w = Some (case e of
          RingStalled wait \<Rightarrow> (ThrottleStalled wait, s', snd (enable_notification api w1))
        | RingEmpty \<Rightarrow> (Done, s', snd (enable_notification api w1))
        | RingPoisoned \<Rightarrow> (Done, s', w1) | RingPanic \<Rightarrow> (DrainPanic, s', w1))"
    by (cases e) (auto simp: enable_notification_def en split: option.split bool.split)
  with d q show ?thesis by (simp add: w)
qed

text \<open>Only poisoning the queue raises the interrupt inside the loop.\<close>

lemma process_chain_irqs:
  assumes "process_chain api clock head descs w = (r, w')"
  shows "wk_irqs w' = wk_irqs w"
  using assms
proof (cases rule: process_chain_cases)
  case (answered a h)
  with io_frame_trans [OF answered(3) publish_handled_frame [of h api head a]] show ?thesis by (simp add: io_frame_def)
next
  case (admitted a ha bs hdr segs)
  obtain oo bo w1 where ck: "check_buckets clock (segments_len segs) w = (oo, bo, w1)" by (metis prod_cases3)
  then have w1: "wk_irqs w1 = wk_irqs w" by (auto simp: check_buckets_eq)
  let ?d = "debit_buckets clock (segments_len segs) w1"
  have d: "wk_irqs ?d = wk_irqs w1" by (simp add: debit_buckets_def Let_def count_def)
  have f: "io_frame ?d (snd (publish_handled api head a (dispatch_request api hdr segs ?d)))"
    by (rule io_frame_trans [OF dispatch_frame publish_handled_frame])
  have "wk_irqs (snd (stall_chain api clock oo bo (segments_len segs) w1)) = wk_irqs w1"
    by (simp add: stall_chain_def mark_stalled_def count_def Let_def split: prod.split option.split)
  with admitted(10) w1 d f show ?thesis
    by (auto simp: admit_request_def ck Let_def io_frame_def split: if_splits)
qed (simp add: count_def)

lemma drain_inner_irqs:
  "drain_inner fuel api clock signal w = Some (e, signal', w')
   \<Longrightarrow> wk_irqs w' = wk_irqs w + (if e = RingPoisoned then 1 else 0)"
proof (induction fuel arbitrary: signal w)
  case (Suc fuel)
  obtain next' q where nx: "vq_iter_next api (wk_mem w) (wk_queue w) = (next', q)" by fastforce
  show ?case
  proof (cases next')
    case (Chain head descs)
    obtain r w2 where pc: "process_chain api clock head descs (w\<lparr>wk_queue := q\<rparr>) = (r, w2)" by fastforce
    from process_chain_irqs [OF pc] have "wk_irqs w2 = wk_irqs w" by simp
    with Suc.prems Suc.IH [of "signal \<or> (r = ChainDone True)" w2] nx Chain pc show ?thesis by (cases r) auto
  qed (use Suc.prems nx in \<open>auto simp: Let_def poison_def\<close>)
qed simp

lemma signal_used_raises:
  "\<exists>needs. vq_needs_notification api (wk_mem w) (wk_queue w) = (needs, wk_queue (signal_used api w))
     \<and> wk_irqs (signal_used api w) = wk_irqs w + (if needs = Some False then 0 else 1)"
  "wk_mem (signal_used api w) = wk_mem w"
  by (auto simp: signal_used_def Let_def split: prod.split option.split)

lemma enable_notification_counts:
  assumes "queue_laws api pending used"
  shows "pending (wk_queue (snd (enable_notification api w))) = pending (wk_queue w)"
    and "used (wk_queue (snd (enable_notification api w))) = used (wk_queue w)"
  using queue_lawsD(8) [OF assms] by (auto simp: enable_notification_def split: prod.split)

lemma signal_used_counts:
  assumes "queue_laws api pending used"
  shows "pending (wk_queue (signal_used api w)) = pending (wk_queue w)"
    and "used (wk_queue (signal_used api w)) = used (wk_queue w)"
  using queue_lawsD(10) [OF assms] by (auto simp: signal_used_def Let_def split: prod.split)

lemma signal_used_keeps:
  "worker_inv clock (signal_used api w) = worker_inv clock w"
  "wk_poisoned (signal_used api w) = wk_poisoned w"
  "wk_device_status (signal_used api w) = wk_device_status w"
  "wk_interrupt_status (signal_used api w) = wk_interrupt_status w OR VIRTIO_MMIO_INT_VRING"
  by (simp_all add: signal_used_def Let_def worker_inv_def split: prod.split)

lemma enable_notification_keeps:
  "worker_inv clock (snd (enable_notification api w)) = worker_inv clock w"
  "wk_poisoned (snd (enable_notification api w)) = wk_poisoned w"
  "wk_device_status (snd (enable_notification api w)) = wk_device_status w"
  "wk_interrupt_status (snd (enable_notification api w)) = wk_interrupt_status w"
  "wk_irqs (snd (enable_notification api w)) = wk_irqs w"
  by (simp_all add: enable_notification_def split: prod.split)

lemma or_keeps_bits: "a AND c = c \<Longrightarrow> (a OR b) AND c = (c :: 'a::len word)"
  by (simp add: or_and_distrib word_ao_absorbs)

lemma disable_notification_keeps:
  "worker_inv clock (disable_notification api w) = worker_inv clock w"
  "wk_poisoned (disable_notification api w) = wk_poisoned w"
  "wk_irqs (disable_notification api w) = wk_irqs w"
  by (simp_all add: disable_notification_def split: prod.split)

lemma drain_outer_inv:
  assumes "worker_inv clock w" and "mono clock" and "\<not> wk_poisoned w"
    and "drain_outer n api clock fuel signal w = Some (out, signal', w')"
  shows "worker_inv clock w' \<and> out \<noteq> DrainPanic \<and> (wk_poisoned w' \<longrightarrow> poison_announced w')"
  using assms(1,3,4)
proof (induction n arbitrary: signal w)
  case (Suc n)
  let ?w = "disable_notification api w"
  have pre: "worker_inv clock ?w" "\<not> wk_poisoned ?w" using Suc.prems by (simp_all add: disable_notification_keeps)
  obtain e s1 w1 where d: "drain_inner fuel api clock signal ?w = Some (e, s1, w1)"
    using Suc.prems(3) by (auto split: option.splits)
  note inv = drain_inner_inv [OF pre(1) assms(2) pre(2) d]
  obtain r w2 where en: "enable_notification api w1 = (r, w2)" by fastforce
  have w2: "worker_inv clock w2 = worker_inv clock w1" "wk_poisoned w2 = wk_poisoned w1"
    using enable_notification_keeps(1) [of clock api w1] enable_notification_keeps(2) [of api w1] en by simp_all
  show ?case
  proof (cases e)
    case RingEmpty
    show ?thesis
    proof (cases "r = Some True")
      case True
      with Suc.prems(3) d en RingEmpty Suc.IH [of w2 s1] inv w2 show ?thesis by simp
    next
      case False
      with Suc.prems(3) d en RingEmpty have "out = Done" "w' = w2" by (auto split: option.splits bool.splits)
      with inv w2 RingEmpty show ?thesis by simp
    qed
  qed (use Suc.prems(3) d en inv w2 in \<open>auto simp: poison_announced_def\<close>)
qed simp

section \<open>Properties\<close>

text \<open>
  C15: draining keeps the worker consistent. Whatever the queue and the backing file do, a
  drain never panics; it keeps both buckets within their limits, keeps any byte overdraft
  within one request, and keeps the stall gauge at one exactly when a chain is stalled. A
  poisoned queue is left alone, and a drain that poisons it has set the NEEDS_RESET status bit
  and the configuration-change interrupt bit.
\<close>

theorem drain_keeps_invariant:
  assumes "worker_inv clock w" and "mono clock" and "drain_bracket fuel api clock w = Some (out, w')"
  shows "worker_inv clock w' \<and> out \<noteq> DrainPanic \<and> (wk_poisoned w \<longrightarrow> w' = w)
    \<and> (wk_poisoned w' \<and> \<not> wk_poisoned w \<longrightarrow> poison_announced w')"
proof (cases "\<not> vq_ready api (wk_queue w) \<or> wk_poisoned w")
  case True
  with assms(3) have "out = Done" "w' = w" by (auto simp: drain_bracket_def split: if_splits)
  with assms(1) show ?thesis by simp
next
  case False
  then obtain s w1 where o: "drain_outer fuel api clock fuel False w = Some (out, s, w1)"
    and w': "w' = (if s \<and> out \<noteq> DrainPanic then signal_used api w1 else w1)"
    using assms(3) by (auto simp: drain_bracket_def split: option.splits prod.splits drain_outcome.splits)
  from False drain_outer_inv [OF assms(1,2) _ o] show ?thesis
    by (auto simp: w' signal_used_keeps poison_announced_def or_keeps_bits)
qed

text \<open>
  C9: a drain finishes and tells the guest. If the guest publishes nothing meanwhile, fuel for the pending chains
  is enough for a result; when the result is that the drain is done and the queue was not
  poisoned, no chain is left pending. If any entry was added to the used ring, the used-buffer interrupt bit is set, the
  queue is asked after the last entry whether the driver wants an interrupt, and unless it says no the
  interrupt is raised once; without a new entry it is not raised, except once by poisoning the queue.
\<close>

theorem drain_terminates:
  assumes "queue_laws api pending used" and "mono clock" and "worker_inv clock w"
    and "pending (wk_queue w) < fuel" and "vq_ready api (wk_queue w)" and "\<not> wk_poisoned w"
  shows "\<exists>out w'. drain_bracket fuel api clock w = Some (out, w')
    \<and> (out = Done \<and> \<not> wk_poisoned w' \<longrightarrow> pending (wk_queue w') = 0)
    \<and> (if used (wk_queue w) < used (wk_queue w')
       then wk_interrupt_status w' AND VIRTIO_MMIO_INT_VRING = VIRTIO_MMIO_INT_VRING
         \<and> (\<exists>q needs. vq_needs_notification api (wk_mem w') q = (needs, wk_queue w') \<and> used q = used (wk_queue w')
              \<and> wk_irqs w' = wk_irqs w + (if wk_poisoned w' then 1 else 0) + (if needs = Some False then 0 else 1))
       else wk_irqs w' = wk_irqs w + (if wk_poisoned w' then 1 else 0))"
proof -
  obtain n where n: "fuel = Suc n" using assms(4) by (cases fuel) auto
  obtain e s' w1 where d: "drain_inner fuel api clock False (disable_notification api w) = Some (e, s', w1)"
    and o: "drain_outer fuel api clock fuel False w = Some (case e of
          RingStalled wait \<Rightarrow> (ThrottleStalled wait, s', snd (enable_notification api w1))
        | RingEmpty \<Rightarrow> (Done, s', snd (enable_notification api w1))
        | RingPoisoned \<Rightarrow> (Done, s', w1) | RingPanic \<Rightarrow> (DrainPanic, s', w1))"
    and c: "e = RingEmpty \<longrightarrow> pending (wk_queue w1) = 0" "s' \<longleftrightarrow> used (wk_queue w) < used (wk_queue w1)"
    using drain_outer_terminates [OF assms(1-4), of False n] unfolding n by blast
  have inv: "e \<noteq> RingPanic" "wk_poisoned w1 \<longleftrightarrow> e = RingPoisoned"
    using drain_inner_inv [OF _ assms(2) _ d] assms(3,6) by (simp_all add: disable_notification_keeps)
  define w2 where "w2 = (if e = RingPoisoned then w1 else snd (enable_notification api w1))"
  have w2: "pending (wk_queue w2) = pending (wk_queue w1)" "used (wk_queue w2) = used (wk_queue w1)"
    "wk_poisoned w2 \<longleftrightarrow> e = RingPoisoned" "wk_irqs w2 = wk_irqs w + (if e = RingPoisoned then 1 else 0)"
    using inv drain_inner_irqs [OF d]
    by (simp_all add: w2_def enable_notification_counts [OF assms(1)] enable_notification_keeps disable_notification_keeps)
  obtain out where out: "drain_bracket fuel api clock w = Some (out, if s' then signal_used api w2 else w2)"
    "out = Done \<longrightarrow> e = RingEmpty \<or> e = RingPoisoned"
    using inv assms(5,6) by (cases e) (simp_all add: drain_bracket_def o w2_def)
  note sg = signal_used_counts [OF assms(1), of w2] signal_used_keeps(2-4) [of api w2] signal_used_raises [of api w2]
  show ?thesis
  proof (cases s')
    case True
    obtain needs where nd: "vq_needs_notification api (wk_mem w2) (wk_queue w2) = (needs, wk_queue (signal_used api w2))"
      "wk_irqs (signal_used api w2) = wk_irqs w2 + (if needs = Some False then 0 else 1)"
      using sg(6) by blast
    have "wk_interrupt_status (signal_used api w2) AND VIRTIO_MMIO_INT_VRING = VIRTIO_MMIO_INT_VRING"
      by (simp add: sg(5) or_and_distrib)
    with True c out w2 nd sg show ?thesis
      by (intro exI [of _ out] exI [of _ "signal_used api w2"]) auto
  next
    case False
    with c out w2 show ?thesis by (intro exI [of _ out] exI [of _ w2]) auto
  qed
qed

lemma ring_next_advances:
  assumes "unat x < n" and "n \<le> 65535"
  shows "n - unat (x + 1 :: u16) < n - unat x"
  using assms by (simp add: unat_word_ariths)

lemma sample_queue_laws: "queue_laws sample_api ring_pending (\<lambda>q. length (sr_used q))"
  by (auto simp: queue_laws_def sample_api_def ring_pending_def rolled_back_def not_less ring_next_advances
      split: prod.splits if_splits)

lemma flush_drained:
  "\<exists>w'. drain_bracket 2 sample_api late_clock (sample_worker (request_mem 4) flush_ring) = Some (Done, w')
     \<and> \<not> wk_poisoned w' \<and> length (sr_used (wk_queue w')) = 1"
proof -
  let ?w = "sample_worker (request_mem 4) flush_ring" and ?q = "flush_ring\<lparr>sr_next := 1\<rparr>"
  obtain w1 where w1: "process_chain sample_api late_clock 3 flush_chain (sample_worker (request_mem 4) ?q) = (ChainDone True, w1)"
    "wk_queue w1 = ?q\<lparr>sr_used := [(3, 1)]\<rparr>" "\<not> wk_poisoned w1"
    using flush_done [of late_clock ?q] by (auto simp: flush_ring_def)
  have w: "wk_queue ?w = flush_ring" "?w\<lparr>wk_queue := ?q\<rparr> = sample_worker (request_mem 4) ?q" "disable_notification sample_api ?w = ?w"
    "\<not> wk_poisoned ?w" by (simp_all add: sample_worker_def disable_notification_def sample_api_def)
  have it: "vq_iter_next sample_api m flush_ring = (Chain 3 flush_chain, ?q)" "vq_iter_next sample_api m (wk_queue w1) = (NoChain, wk_queue w1)"
    "vq_enable_notification sample_api m (wk_queue w1) = (Some False, m, wk_queue w1)" "vq_ready sample_api q" for m q
    by (simp_all add: sample_api_def flush_ring_def w1(2))
  have "drain_inner 2 sample_api late_clock False ?w = Some (RingEmpty, True, w1)"
    by (simp add: numeral_2_eq_2 it w w1(1))
  then have "drain_bracket 2 sample_api late_clock ?w = Some (Done, signal_used sample_api w1)"
    by (simp add: drain_bracket_def numeral_2_eq_2 it w enable_notification_def)
  moreover have "wk_queue (signal_used sample_api w1) = wk_queue w1" by (simp add: signal_used_def sample_api_def Let_def)
  ultimately show ?thesis using w1(2,3) by (simp add: signal_used_keeps)
qed

theorem drain_terminates_witness:
  "\<exists>w'. drain_bracket 2 sample_api late_clock (sample_worker (request_mem 4) flush_ring) = Some (Done, w')
     \<and> ring_pending (wk_queue w') = 0 \<and> length (sr_used (wk_queue w')) = 1 \<and> wk_irqs w' = 1
     \<and> wk_interrupt_status w' AND VIRTIO_MMIO_INT_VRING = VIRTIO_MMIO_INT_VRING"
proof -
  let ?w = "sample_worker (request_mem 4) flush_ring"
  have pre: "ring_pending (wk_queue ?w) < 2" "vq_ready sample_api (wk_queue ?w)" "\<not> wk_poisoned ?w"
    by (simp_all add: ring_pending_def sample_defs flush_ring_def)
  obtain w' where r: "drain_bracket 2 sample_api late_clock ?w = Some (Done, w')" "\<not> wk_poisoned w'" "length (sr_used (wk_queue w')) = 1"
    using flush_drained by blast
  have z: "length (sr_used (wk_queue ?w)) = 0" "wk_irqs ?w = 0" by (simp_all add: sample_defs flush_ring_def)
  have needs: "vq_needs_notification sample_api m q = (Some True, q)" for m q by (simp add: sample_api_def)
  from drain_terminates [OF sample_queue_laws mono_late_clock(1) sample_worker_inv pre] r z show ?thesis
    by (auto simp: needs split: if_splits)
qed

theorem drain_keeps_invariant_witness:
  "\<exists>out w'. drain_bracket 1 sample_api late_clock (sample_worker (request_mem 4) empty_ring) = Some (out, w')
     \<and> out \<noteq> DrainPanic \<and> worker_inv late_clock w'"
proof -
  obtain out w' where r: "drain_bracket 1 sample_api late_clock (sample_worker (request_mem 4) empty_ring) = Some (out, w')"
    by (simp add: drain_bracket_def disable_notification_def enable_notification_def sample_defs)
  from drain_keeps_invariant [OF sample_worker_inv mono_late_clock(1) r] r show ?thesis by blast
qed

end
