(* ===== verification/Virtio_Net.thy ===== *)
theory Virtio_Net
  imports Virtio_Status
begin

text \<open>
  The network device of \<^verbatim>\<open>src/vmm/virtio_net/device.rs\<close>: every frame the guest transmits is
  looped back into a receive buffer of the same guest. Guest memory (\<^verbatim>\<open>vm_memory\<close>) and the two
  virtqueues (\<^verbatim>\<open>virtio_queue\<close>) enter as a record of operations over abstract states; a write that
  fails may still have changed memory. The descriptors of a chain are those its iterator yields.
  Writes to the interrupt event are counted, log messages are left out. The device runs on the
  vCPU thread alone, so a register write is one function from device to device; the guest can make it
  panic, and a run of the transmit loop takes fuel.
\<close>

section \<open>Environment\<close>

record ('m, 'q) net_api = "'q queue_api" +
  nm_read_slice :: "'m \<Rightarrow> u64 \<Rightarrow> nat \<Rightarrow> bytes option"
  nm_write_slice :: "'m \<Rightarrow> bytes \<Rightarrow> u64 \<Rightarrow> bool \<times> 'm"
  nq_iter_next :: "'m \<Rightarrow> 'q \<Rightarrow> vq_next \<times> 'q"
  nq_add_used :: "'m \<Rightarrow> 'q \<Rightarrow> u16 \<Rightarrow> u32 \<Rightarrow> bool \<times> 'm \<times> 'q"

section \<open>Constants\<close>

definition NET_MMIO_MAGIC :: u32 where "NET_MMIO_MAGIC = 0x74726976"
definition NET_MMIO_VERSION :: u32 where "NET_MMIO_VERSION = 2"
definition NET_VENDOR_ID :: u32 where "NET_VENDOR_ID = 0"
definition VIRTIO_ID_NET :: u32 where "VIRTIO_ID_NET = 1"
definition VIRTIO_NET_F_MAC :: nat where "VIRTIO_NET_F_MAC = 5"
definition NET_NUM_QUEUES :: nat where "NET_NUM_QUEUES = 2"
definition RXQ :: nat where "RXQ = 0"
definition TXQ :: nat where "TXQ = 1"
definition VIRTIO_NET_HDR_LEN :: nat where "VIRTIO_NET_HDR_LEN = 12"
definition MAX_FRAME_SIZE :: nat where "MAX_FRAME_SIZE = 65536"
definition TX_DESC_MAX :: nat where "TX_DESC_MAX = MAX_FRAME_SIZE"

text \<open>The header of every looped-back frame: \<^verbatim>\<open>num_buffers\<close> is one, everything else zero.\<close>

definition RX_HDR :: bytes where
  "RX_HDR = (replicate VIRTIO_NET_HDR_LEN 0)[10 := 1, 11 := 0]"

section \<open>Counters\<close>

record net_counters =
  tx_packets :: u64
  tx_bytes :: u64
  rx_packets :: u64
  rx_bytes :: u64
  tx_dropped_no_rx_buffer :: u64
  tx_chain_invalid :: u64
  rx_chain_invalid :: u64
  rx_write_failed :: u64
  tx_add_used_failures :: u64
  rx_add_used_failures :: u64
  invalid_avail_idx_count :: u64

definition net_counters_default :: net_counters where
  "net_counters_default = \<lparr>tx_packets = 0, tx_bytes = 0, rx_packets = 0, rx_bytes = 0,
     tx_dropped_no_rx_buffer = 0, tx_chain_invalid = 0, rx_chain_invalid = 0, rx_write_failed = 0,
     tx_add_used_failures = 0, rx_add_used_failures = 0, invalid_avail_idx_count = 0\<rparr>"

definition record_tx_completed :: "u64 \<Rightarrow> net_counters \<Rightarrow> net_counters" where
  "record_tx_completed frame_bytes c = c\<lparr>tx_packets := tx_packets c + 1, tx_bytes := tx_bytes c + frame_bytes\<rparr>"

definition record_rx_delivered :: "u64 \<Rightarrow> net_counters \<Rightarrow> net_counters" where
  "record_rx_delivered frame_bytes c = c\<lparr>rx_packets := rx_packets c + 1, rx_bytes := rx_bytes c + frame_bytes\<rparr>"

definition record_tx_dropped_no_rx_buffer :: "net_counters \<Rightarrow> net_counters" where
  "record_tx_dropped_no_rx_buffer c = c\<lparr>tx_dropped_no_rx_buffer := tx_dropped_no_rx_buffer c + 1\<rparr>"

definition record_tx_chain_invalid :: "net_counters \<Rightarrow> net_counters" where
  "record_tx_chain_invalid c = c\<lparr>tx_chain_invalid := tx_chain_invalid c + 1\<rparr>"

definition record_rx_chain_invalid :: "net_counters \<Rightarrow> net_counters" where
  "record_rx_chain_invalid c = c\<lparr>rx_chain_invalid := rx_chain_invalid c + 1\<rparr>"

definition record_rx_write_failed :: "net_counters \<Rightarrow> net_counters" where
  "record_rx_write_failed c = c\<lparr>rx_write_failed := rx_write_failed c + 1\<rparr>"

definition record_tx_add_used_failure :: "net_counters \<Rightarrow> net_counters" where
  "record_tx_add_used_failure c = c\<lparr>tx_add_used_failures := tx_add_used_failures c + 1\<rparr>"

definition record_rx_add_used_failure :: "net_counters \<Rightarrow> net_counters" where
  "record_rx_add_used_failure c = c\<lparr>rx_add_used_failures := rx_add_used_failures c + 1\<rparr>"

definition net_record_invalid_avail_idx :: "net_counters \<Rightarrow> net_counters" where
  "net_record_invalid_avail_idx c = c\<lparr>invalid_avail_idx_count := invalid_avail_idx_count c + 1\<rparr>"

section \<open>The device\<close>

text \<open>
  The arrays \<^verbatim>\<open>queues\<close> and \<^verbatim>\<open>queue_poisoned\<close> of length two are the fields with the prefixes \<open>rx_\<close> and
  \<open>tx_\<close>; \<open>net_irqs\<close> counts the writes to the interrupt event.
\<close>

record net_config =
  cfg_mac :: bytes
  cfg_status :: u16
  cfg_max_virtqueue_pairs :: u16
  cfg_mtu :: u16

record ('m, 'q) net_device =
  rx_queue :: 'q
  tx_queue :: 'q
  queue_select :: u32
  device_features_sel :: u32
  driver_features_sel :: u32
  driver_features :: u64
  device_status :: u32
  interrupt_status :: u32
  config_generation :: u32
  net_irqs :: nat
  net_mem :: "'m option"
  mem_unset_warned :: bool
  net_cfg :: net_config
  counters :: net_counters
  tx_frame_scratch :: bytes
  rx_poisoned :: bool
  tx_poisoned :: bool

definition net_new :: "'q \<Rightarrow> bytes \<Rightarrow> ('m, 'q) net_device" where
  "net_new q mac =
     \<lparr>rx_queue = q, tx_queue = q, queue_select = 0, device_features_sel = 0, driver_features_sel = 0,
      driver_features = 0, device_status = 0, interrupt_status = 0, config_generation = 0, net_irqs = 0,
      net_mem = None, mem_unset_warned = False,
      net_cfg = \<lparr>cfg_mac = mac, cfg_status = 0, cfg_max_virtqueue_pairs = 0, cfg_mtu = 0\<rparr>,
      counters = net_counters_default, tx_frame_scratch = [], rx_poisoned = False, tx_poisoned = False\<rparr>"

definition set_mem :: "'m \<Rightarrow> ('m, 'q) net_device \<Rightarrow> ('m, 'q) net_device" where
  "set_mem m d = (case net_mem d of None \<Rightarrow> d\<lparr>net_mem := Some m\<rparr> | Some _ \<Rightarrow> d)"

definition net_count :: "(net_counters \<Rightarrow> net_counters) \<Rightarrow> ('m, 'q) net_device \<Rightarrow> ('m, 'q) net_device" where
  "net_count f d = d\<lparr>counters := f (counters d)\<rparr>"

definition net_device_features :: u64 where
  "net_device_features = feature_bit VIRTIO_F_VERSION_1 OR feature_bit VIRTIO_NET_F_MAC"

definition net_selected_queue :: "('m, 'q) net_device \<Rightarrow> nat option" where
  "net_selected_queue d = (let idx = unat (queue_select d) in if idx < NET_NUM_QUEUES then Some idx else None)"

definition net_queue :: "nat \<Rightarrow> ('m, 'q) net_device \<Rightarrow> 'q" where
  "net_queue i d = (if i = RXQ then rx_queue d else tx_queue d)"

definition net_signal_used :: "('m, 'q) net_device \<Rightarrow> ('m, 'q) net_device" where
  "net_signal_used d =
     d\<lparr>interrupt_status := interrupt_status d OR VIRTIO_MMIO_INT_VRING, net_irqs := net_irqs d + 1\<rparr>"

definition signal_queue_poisoned :: "('m, 'q) net_device \<Rightarrow> ('m, 'q) net_device" where
  "signal_queue_poisoned d =
     d\<lparr>device_status := device_status d OR VIRTIO_CONFIG_S_NEEDS_RESET,
       interrupt_status := interrupt_status d OR VIRTIO_MMIO_INT_CONFIG, net_irqs := net_irqs d + 1\<rparr>"

section \<open>Capturing a transmitted frame\<close>

text \<open>
  The loop over the descriptors of a transmit chain: header bytes still to skip and the frame
  captured so far (its length is \<^verbatim>\<open>total_data_bytes\<close>). The flag of the result is \<^verbatim>\<open>chain_invalid\<close>.
\<close>

primrec tx_walk ::
  "('m, 'q) net_api \<Rightarrow> 'm \<Rightarrow> chain_descriptor list \<Rightarrow> nat \<Rightarrow> bytes \<Rightarrow> bool \<times> nat \<times> bytes" where
  "tx_walk api m [] hdr_remaining frame = (False, hdr_remaining, frame)"
| "tx_walk api m (desc # descs) hdr_remaining frame =
     (if d_write_only desc then (True, hdr_remaining, frame)
      else let desc_len = min (unat (d_len desc)) TX_DESC_MAX;
               skip = min hdr_remaining desc_len in
        case (if 0 < hdr_remaining then checked_add (d_addr desc) (of_nat skip) else Some (d_addr desc)) of
          None \<Rightarrow> (True, hdr_remaining, frame)
        | Some desc_addr \<Rightarrow>
            let hdr_remaining' = hdr_remaining - skip;
                desc_len' = desc_len - skip in
            if desc_len' = 0 then tx_walk api m descs hdr_remaining' frame
            else let take' = min desc_len' (MAX_FRAME_SIZE - length frame) in
              if take' = 0 then (False, hdr_remaining', frame)
              else (case nm_read_slice api m desc_addr take' of
                      None \<Rightarrow> (True, hdr_remaining', frame)
                    | Some bs \<Rightarrow> tx_walk api m descs hdr_remaining' (frame @ bs)))"

datatype tx_pop_outcome = TxEmpty | TxJustPoisoned | TxChain u16 "nat option"

definition pop_and_capture_tx ::
  "('m, 'q) net_api \<Rightarrow> 'm \<Rightarrow> ('m, 'q) net_device \<Rightarrow> tx_pop_outcome \<times> ('m, 'q) net_device" where
  "pop_and_capture_tx api m d =
     (if tx_poisoned d then (TxEmpty, d)
      else case nq_iter_next api m (tx_queue d) of
        (next', q) \<Rightarrow>
          let d1 = d\<lparr>tx_queue := q\<rparr> in
          case next' of
            NoChain \<Rightarrow> (TxEmpty, d1)
          | Chain head descs \<Rightarrow>
              (case tx_walk api m descs VIRTIO_NET_HDR_LEN [] of
                 (chain_invalid, hdr_remaining, frame) \<Rightarrow>
                   let d2 = d1\<lparr>tx_frame_scratch := frame\<rparr> in
                   if chain_invalid \<or> hdr_remaining \<noteq> 0
                   then (TxChain head None, net_count record_tx_chain_invalid d2)
                   else (TxChain head (Some (length frame)), d2))
          | _ \<Rightarrow> (TxJustPoisoned, net_count net_record_invalid_avail_idx (d1\<lparr>tx_poisoned := True\<rparr>)))"

section \<open>Looping a frame back\<close>

text \<open>
  The walk over a receive chain. \<open>hdr_write_slots\<close> holds the first \<^verbatim>\<open>hdr_write_count\<close> entries of the
  array of that name, which has \<open>VIRTIO_NET_HDR_LEN\<close> places.
\<close>

record 'm rx_state =
  rw_mem :: 'm
  rw_bytes_written :: u32
  rw_hdr_remaining :: nat
  rw_frame_pos :: nat
  hdr_write_slots :: "(u64 \<times> nat) list"

datatype invalid_reason = Shape | WriteFailed

datatype 'a rx_flow = RxPanic | RxInvalid invalid_reason | RxGo 'a

text \<open>The header bytes that go into a descriptor; what remains of the descriptor is returned.\<close>

definition rx_place_header ::
  "('m, 'q) net_api \<Rightarrow> u64 \<Rightarrow> nat \<Rightarrow> 'm rx_state \<Rightarrow> (u64 \<times> nat) rx_flow \<times> 'm rx_state" where
  "rx_place_header api desc_addr desc_len s =
     (if 0 < rw_hdr_remaining s then
        let take' = min (rw_hdr_remaining s) desc_len;
            hdr_start = VIRTIO_NET_HDR_LEN - rw_hdr_remaining s;
            (ok, m) = nm_write_slice api (rw_mem s) (byte_slice RX_HDR hdr_start (hdr_start + take')) desc_addr;
            s1 = s\<lparr>rw_mem := m\<rparr>
        in if \<not> ok then (RxInvalid WriteFailed, s1)
           else if VIRTIO_NET_HDR_LEN \<le> length (hdr_write_slots s1) then (RxPanic, s1)
           else let s2 = s1\<lparr>hdr_write_slots := hdr_write_slots s1 @ [(desc_addr, take')]\<rparr> in
             (case checked_add desc_addr (of_nat take') of
                None \<Rightarrow> (RxInvalid Shape, s2)
              | Some new_addr \<Rightarrow>
                  (case checked_add (rw_bytes_written s2) (of_nat take') of
                     None \<Rightarrow> (RxPanic, s2)
                   | Some n \<Rightarrow> (RxGo (new_addr, desc_len - take'),
                               s2\<lparr>rw_bytes_written := n, rw_hdr_remaining := rw_hdr_remaining s2 - take'\<rparr>)))
      else (RxGo (desc_addr, desc_len), s))"

text \<open>The frame bytes that go into the rest of a descriptor; the flag says that the loop is left.\<close>

definition rx_place_frame ::
  "('m, 'q) net_api \<Rightarrow> bytes \<Rightarrow> nat \<Rightarrow> u64 \<Rightarrow> nat \<Rightarrow> 'm rx_state \<Rightarrow> bool rx_flow \<times> 'm rx_state" where
  "rx_place_frame api scratch frame_len desc_addr desc_len s =
     (if desc_len = 0 \<or> rw_frame_pos s = frame_len then (RxGo False, s)
      else let take' = min desc_len (frame_len - rw_frame_pos s);
               frame_end = rw_frame_pos s + take' in
        if length scratch < frame_end then (RxPanic, s)
        else let (ok, m) = nm_write_slice api (rw_mem s) (byte_slice scratch (rw_frame_pos s) frame_end) desc_addr;
                 s1 = s\<lparr>rw_mem := m\<rparr>
             in if \<not> ok then (RxInvalid WriteFailed, s1)
                else (case checked_add (rw_bytes_written s1) (of_nat take') of
                        None \<Rightarrow> (RxPanic, s1)
                      | Some n \<Rightarrow> (RxGo (frame_end = frame_len \<and> rw_hdr_remaining s1 = 0),
                                  s1\<lparr>rw_bytes_written := n, rw_frame_pos := frame_end\<rparr>)))"

primrec rx_walk ::
  "('m, 'q) net_api \<Rightarrow> bytes \<Rightarrow> nat \<Rightarrow> chain_descriptor list \<Rightarrow> 'm rx_state \<Rightarrow> unit rx_flow \<times> 'm rx_state" where
  "rx_walk api scratch frame_len [] s = (RxGo (), s)"
| "rx_walk api scratch frame_len (desc # descs) s =
     (if \<not> d_write_only desc then (RxInvalid Shape, s)
      else case rx_place_header api (d_addr desc) (unat (d_len desc)) s of
        (RxPanic, s1) \<Rightarrow> (RxPanic, s1)
      | (RxInvalid r, s1) \<Rightarrow> (RxInvalid r, s1)
      | (RxGo (desc_addr, desc_len), s1) \<Rightarrow>
          (case rx_place_frame api scratch frame_len desc_addr desc_len s1 of
             (RxPanic, s2) \<Rightarrow> (RxPanic, s2)
           | (RxInvalid r, s2) \<Rightarrow> (RxInvalid r, s2)
           | (RxGo True, s2) \<Rightarrow> (RxGo (), s2)
           | (RxGo False, s2) \<Rightarrow> rx_walk api scratch frame_len descs s2))"

definition rx_start :: "'m \<Rightarrow> 'm rx_state" where
  "rx_start m = \<lparr>rw_mem = m, rw_bytes_written = 0, rw_hdr_remaining = VIRTIO_NET_HDR_LEN, rw_frame_pos = 0,
     hdr_write_slots = []\<rparr>"

definition zero_header_slots :: "('m, 'q) net_api \<Rightarrow> (u64 \<times> nat) list \<Rightarrow> 'm \<Rightarrow> 'm" where
  "zero_header_slots api slots m =
     foldl (\<lambda>m (addr, len). snd (nm_write_slice api m (replicate len 0) addr)) m slots"

datatype loopback_outcome =
    Delivered u64 | DeliveredButAddUsedFailed | NoRxBuffer | RxChainInvalid bool | JustRxPoisoned | RxAlreadyPoisoned

text \<open>Returning a receive chain to the guest.\<close>

definition rx_add_used ::
  "('m, 'q) net_api \<Rightarrow> u16 \<Rightarrow> u32 \<Rightarrow> 'm \<Rightarrow> ('m, 'q) net_device \<Rightarrow> bool \<times> 'm \<times> ('m, 'q) net_device" where
  "rx_add_used api head len m d =
     (case nq_add_used api m (rx_queue d) head len of
        (ok, m', q) \<Rightarrow>
          let d' = d\<lparr>rx_queue := q\<rparr>
          in (ok, m', if ok then d' else net_count record_rx_add_used_failure d'))"

text \<open>What follows the walk. A panic of the walk is \<open>None\<close>.\<close>

definition rx_finish ::
  "('m, 'q) net_api \<Rightarrow> u16 \<Rightarrow> unit rx_flow \<times> 'm rx_state \<Rightarrow> ('m, 'q) net_device
     \<Rightarrow> (loopback_outcome \<times> 'm \<times> ('m, 'q) net_device) option" where
  "rx_finish api head = (\<lambda>(flow, s) d.
     case flow of
       RxPanic \<Rightarrow> None
     | RxInvalid reason \<Rightarrow>
         let d1 = net_count (case reason of Shape \<Rightarrow> record_rx_chain_invalid | WriteFailed \<Rightarrow> record_rx_write_failed) d;
             (ok, m, d2) = rx_add_used api head 0 (zero_header_slots api (hdr_write_slots s) (rw_mem s)) d1
         in Some (RxChainInvalid ok, m, d2)
     | RxGo _ \<Rightarrow>
         let hdr_taken = of_nat (VIRTIO_NET_HDR_LEN - rw_hdr_remaining s);
             l2_bytes = ucast (saturating_sub (rw_bytes_written s) hdr_taken);
             (ok, m, d1) = rx_add_used api head (rw_bytes_written s) (rw_mem s) d
         in Some (if ok then Delivered l2_bytes else DeliveredButAddUsedFailed, m, d1))"

definition try_loopback_to_rx ::
  "('m, 'q) net_api \<Rightarrow> 'm \<Rightarrow> nat \<Rightarrow> ('m, 'q) net_device
     \<Rightarrow> (loopback_outcome \<times> 'm \<times> ('m, 'q) net_device) option" where
  "try_loopback_to_rx api m frame_len d =
     (if rx_poisoned d then Some (RxAlreadyPoisoned, m, d)
      else if \<not> q_ready api (rx_queue d) then Some (NoRxBuffer, m, d)
      else case nq_iter_next api m (rx_queue d) of
        (next', q) \<Rightarrow>
          let d1 = d\<lparr>rx_queue := q\<rparr> in
          case next' of
            NoChain \<Rightarrow> Some (NoRxBuffer, m, d1)
          | Chain head descs \<Rightarrow>
              rx_finish api head (rx_walk api (tx_frame_scratch d1) frame_len descs (rx_start m)) d1
          | _ \<Rightarrow> Some (JustRxPoisoned, m, net_count net_record_invalid_avail_idx (d1\<lparr>rx_poisoned := True\<rparr>)))"

section \<open>The transmit loop\<close>

text \<open>The bookkeeping of one loopback outcome: whether the used ring was published to, whether the queue is poisoned.\<close>

definition account_loopback ::
  "loopback_outcome \<Rightarrow> ('m, 'q) net_device \<Rightarrow> bool \<times> bool \<times> ('m, 'q) net_device" where
  "account_loopback outcome d =
     (case outcome of
        Delivered l2_bytes_written \<Rightarrow> (True, False, net_count (record_rx_delivered l2_bytes_written) d)
      | DeliveredButAddUsedFailed \<Rightarrow> (False, False, d)
      | RxAlreadyPoisoned \<Rightarrow> (False, False, d)
      | JustRxPoisoned \<Rightarrow> (False, True, d)
      | NoRxBuffer \<Rightarrow> (False, False, net_count record_tx_dropped_no_rx_buffer d)
      | RxChainInvalid add_used_ok \<Rightarrow> (add_used_ok, False, d))"

definition tx_complete ::
  "('m, 'q) net_api \<Rightarrow> u16 \<Rightarrow> nat option \<Rightarrow> 'm \<Rightarrow> ('m, 'q) net_device \<Rightarrow> bool \<times> 'm \<times> ('m, 'q) net_device" where
  "tx_complete api head frame_len m d =
     (case nq_add_used api m (tx_queue d) head 0 of
        (ok, m', q) \<Rightarrow>
          let d' = d\<lparr>tx_queue := q\<rparr>
          in (ok, m', if ok then (case frame_len of Some len \<Rightarrow> net_count (record_tx_completed (of_nat len)) d' | None \<Rightarrow> d')
                      else net_count record_tx_add_used_failure d'))"

text \<open>
  The loop. \<open>published\<close> is \<^verbatim>\<open>had_used_ring_publish\<close>; the result is that flag, whether a queue was poisoned,
  guest memory and the device.
\<close>

primrec tx_loop ::
  "nat \<Rightarrow> ('m, 'q) net_api \<Rightarrow> bool \<Rightarrow> 'm \<Rightarrow> ('m, 'q) net_device \<Rightarrow> (bool \<times> bool \<times> 'm \<times> ('m, 'q) net_device) run" where
  "tx_loop 0 api published m d = OutOfFuel"
| "tx_loop (Suc fuel) api published m d =
     (case pop_and_capture_tx api m d of
        (TxEmpty, d1) \<Rightarrow> Returns (published, False, m, d1)
      | (TxJustPoisoned, d1) \<Rightarrow> Returns (published, True, m, d1)
      | (TxChain head frame_len, d1) \<Rightarrow>
          (case (case frame_len of
                   None \<Rightarrow> Some ((False, False, d1), m)
                 | Some len \<Rightarrow>
                     map_option (\<lambda>(outcome, m', d2). (account_loopback outcome d2, m')) (try_loopback_to_rx api m len d1)) of
             None \<Rightarrow> Panics
           | Some ((rx_published, rx_just_poisoned, d2), m2) \<Rightarrow>
               (case tx_complete api head frame_len m2 d2 of
                  (ok, m3, d3) \<Rightarrow>
                    let published' = (published \<or> rx_published \<or> ok)
                    in if rx_just_poisoned then Returns (published', True, m3, d3)
                       else tx_loop fuel api published' m3 d3)))"

definition process_tx_loopback :: "nat \<Rightarrow> ('m, 'q) net_api \<Rightarrow> ('m, 'q) net_device \<Rightarrow> (('m, 'q) net_device) run" where
  "process_tx_loopback fuel api d =
     (if device_status d AND VIRTIO_CONFIG_S_DRIVER_OK = 0 then Returns d
      else case net_mem d of
        None \<Rightarrow> Returns (d\<lparr>mem_unset_warned := True\<rparr>)
      | Some m \<Rightarrow>
          (case tx_loop fuel api False m d of
             OutOfFuel \<Rightarrow> OutOfFuel
           | Panics \<Rightarrow> Panics
           | Returns (published, poisoned, m', d1) \<Rightarrow>
               let d2 = d1\<lparr>net_mem := Some m'\<rparr>;
                   d3 = (if published then net_signal_used d2 else d2)
               in Returns (if poisoned then signal_queue_poisoned d3 else d3)))"

section \<open>Registers\<close>

definition net_config_bytes :: "net_config \<Rightarrow> bytes" where
  "net_config_bytes c =
     cfg_mac c @ to_le_bytes 2 (cfg_status c) @ to_le_bytes 2 (cfg_max_virtqueue_pairs c) @ to_le_bytes 2 (cfg_mtu c)"

definition read_config_space :: "('m, 'q) net_device \<Rightarrow> u64 \<Rightarrow> nat \<Rightarrow> bytes" where
  "read_config_space d offset len =
     (let config_bytes = net_config_bytes (net_cfg d); start = unat offset
      in map (\<lambda>i. case rust_index config_bytes (start + i) of Some b \<Rightarrow> b | None \<Rightarrow> 0) [0..<len])"

definition net_mmio_read_reg :: "('m, 'q) net_api \<Rightarrow> ('m, 'q) net_device \<Rightarrow> mmio_reg option \<Rightarrow> u32" where
  "net_mmio_read_reg api d reg =
     (case reg of
        Some MagicValue \<Rightarrow> NET_MMIO_MAGIC
      | Some Version \<Rightarrow> NET_MMIO_VERSION
      | Some DeviceId \<Rightarrow> VIRTIO_ID_NET
      | Some VendorId \<Rightarrow> NET_VENDOR_ID
      | Some DeviceFeatures \<Rightarrow>
          if device_features_sel d = 0 then ucast net_device_features
          else if device_features_sel d = 1 then ucast (rust_shr net_device_features 32)
          else 0
      | Some QueueNumMax \<Rightarrow>
          (case net_selected_queue d of Some i \<Rightarrow> ucast (q_max_size api (net_queue i d)) | None \<Rightarrow> 0)
      | Some QueueReady \<Rightarrow>
          (case net_selected_queue d of Some i \<Rightarrow> of_bool (q_ready api (net_queue i d)) | None \<Rightarrow> 0)
      | Some InterruptStatus \<Rightarrow> interrupt_status d
      | Some Status \<Rightarrow> device_status d
      | Some ConfigGeneration \<Rightarrow> config_generation d
      | _ \<Rightarrow> 0)"

definition net_mmio_read :: "('m, 'q) net_api \<Rightarrow> ('m, 'q) net_device \<Rightarrow> u64 \<Rightarrow> nat \<Rightarrow> bytes" where
  "net_mmio_read api d offset len =
     (if 0x100 \<le> offset then read_config_space d (offset - 0x100) len
      else if len \<noteq> 4 then replicate len 0xff
      else to_le_bytes 4 (net_mmio_read_reg api d (mmio_reg_of offset)))"

definition net_set_status :: "u32 \<Rightarrow> ('m, 'q) net_device \<Rightarrow> ('m, 'q) net_device" where
  "net_set_status val d =
     (let status = device_status d in
      if val AND status \<noteq> status then d
      else let new_bits = val AND NOT status;
               valid = (if new_bits = VIRTIO_CONFIG_S_ACKNOWLEDGE then status = 0
                        else if new_bits = VIRTIO_CONFIG_S_DRIVER then status = S_ACK
                        else if new_bits = VIRTIO_CONFIG_S_FEATURES_OK then status = S_DRV
                        else if new_bits = VIRTIO_CONFIG_S_DRIVER_OK then status = S_FEAT
                        else False) in
        if \<not> valid then d
        else if new_bits = VIRTIO_CONFIG_S_FEATURES_OK
             \<and> (driver_features d AND NOT net_device_features \<noteq> 0
                 \<or> driver_features d AND feature_bit VIRTIO_F_VERSION_1 = 0)
        then d\<lparr>device_status := status OR VIRTIO_CONFIG_S_FAILED\<rparr>
        else d\<lparr>device_status := val\<rparr>)"

definition net_reset :: "('m, 'q) net_api \<Rightarrow> ('m, 'q) net_device \<Rightarrow> ('m, 'q) net_device" where
  "net_reset api d =
     d\<lparr>device_status := 0, interrupt_status := 0, queue_select := 0, device_features_sel := 0,
       driver_features_sel := 0, driver_features := 0, tx_frame_scratch := [], rx_poisoned := False,
       tx_poisoned := False, rx_queue := q_reset api (rx_queue d), tx_queue := q_reset api (tx_queue d)\<rparr>"

definition net_write_driver_features :: "u32 \<Rightarrow> ('m, 'q) net_device \<Rightarrow> ('m, 'q) net_device" where
  "net_write_driver_features val d =
     (if \<not> features_write_allowed (device_status d) then d
      else if driver_features_sel d = 0 then
        d\<lparr>driver_features := (driver_features d AND 0xffffffff00000000) OR ucast val\<rparr>
      else if driver_features_sel d = 1 then
        d\<lparr>driver_features := (driver_features d AND 0x00000000ffffffff) OR rust_shl (ucast val) 32\<rparr>
      else d)"

definition net_configure_queue :: "('q \<Rightarrow> 'q) \<Rightarrow> ('m, 'q) net_device \<Rightarrow> ('m, 'q) net_device" where
  "net_configure_queue f d =
     (if queue_config_allowed (device_status d) then
        (case net_selected_queue d of
           None \<Rightarrow> d
         | Some i \<Rightarrow> if i = RXQ then d\<lparr>rx_queue := f (rx_queue d)\<rparr> else d\<lparr>tx_queue := f (tx_queue d)\<rparr>)
      else d)"

definition net_mmio_write_reg ::
  "nat \<Rightarrow> ('m, 'q) net_api \<Rightarrow> mmio_reg option \<Rightarrow> u32 \<Rightarrow> ('m, 'q) net_device \<Rightarrow> (('m, 'q) net_device) run" where
  "net_mmio_write_reg fuel api reg val d =
     (case reg of
        Some DeviceFeaturesSel \<Rightarrow> Returns (d\<lparr>device_features_sel := val\<rparr>)
      | Some DriverFeaturesSel \<Rightarrow> Returns (d\<lparr>driver_features_sel := val\<rparr>)
      | Some DriverFeatures \<Rightarrow> Returns (net_write_driver_features val d)
      | Some QueueSel \<Rightarrow> Returns (d\<lparr>queue_select := val\<rparr>)
      | Some QueueNum \<Rightarrow> Returns (net_configure_queue (q_set_size api (ucast val)) d)
      | Some QueueReady \<Rightarrow> Returns (net_configure_queue (q_set_ready api (val = 1)) d)
      | Some QueueNotify \<Rightarrow> if unat val = TXQ then process_tx_loopback fuel api d else Returns d
      | Some InterruptAck \<Rightarrow> Returns (d\<lparr>interrupt_status := interrupt_status d AND NOT val\<rparr>)
      | Some Status \<Rightarrow> Returns (if val = 0 then net_reset api d else net_set_status val d)
      | Some QueueDescLow \<Rightarrow> Returns (net_configure_queue (q_set_desc api (Some val) None) d)
      | Some QueueDescHigh \<Rightarrow> Returns (net_configure_queue (q_set_desc api None (Some val)) d)
      | Some QueueAvailLow \<Rightarrow> Returns (net_configure_queue (q_set_avail api (Some val) None) d)
      | Some QueueAvailHigh \<Rightarrow> Returns (net_configure_queue (q_set_avail api None (Some val)) d)
      | Some QueueUsedLow \<Rightarrow> Returns (net_configure_queue (q_set_used api (Some val) None) d)
      | Some QueueUsedHigh \<Rightarrow> Returns (net_configure_queue (q_set_used api None (Some val)) d)
      | _ \<Rightarrow> Returns d)"

definition net_mmio_write ::
  "nat \<Rightarrow> ('m, 'q) net_api \<Rightarrow> u64 \<Rightarrow> bytes \<Rightarrow> ('m, 'q) net_device \<Rightarrow> (('m, 'q) net_device) run" where
  "net_mmio_write fuel api offset data d =
     (if 0x100 \<le> offset then Returns d
      else if length data \<noteq> 4 then Returns d
      else net_mmio_write_reg fuel api (mmio_reg_of offset) (from_le_bytes data) d)"

text \<open>
  A step of the device is a register write that returns, or the one-time binding of guest memory.
\<close>

inductive net_step :: "('m, 'q) net_api \<Rightarrow> ('m, 'q) net_device \<Rightarrow> ('m, 'q) net_device \<Rightarrow> bool" for api where
  guest_write: "net_mmio_write fuel api offset data d = Returns d' \<Longrightarrow> net_step api d d'"
| bind_memory: "net_step api d (set_mem m d)"

inductive net_reachable :: "('m, 'q) net_api \<Rightarrow> ('m, 'q) net_device \<Rightarrow> bool" for api where
  initial: "net_reachable api (net_new q mac)"
| step: "net_reachable api d \<Longrightarrow> net_step api d d' \<Longrightarrow> net_reachable api d'"

inductive_cases net_stepE: "net_step api d d'"

end
