(* ===== verification/Virtio_Net_Loopback.thy ===== *)
theory Virtio_Net_Loopback
  imports Virtio_Net
begin

text \<open>
  One frame through the network device: what guest memory has to provide, the capture of a transmit
  chain, and the layout of the receive header and the frame over the descriptors of a receive chain.
\<close>

section \<open>Guest memory as the device relies on it\<close>

text \<open>
  \<open>view m\<close> is the byte at each mapped address. A write within mapped memory succeeds, a successful one
  stores its bytes, and even a failed one changes nothing outside the addressed range; a read
  within mapped memory returns the bytes, and every successful read the number of bytes asked for.
\<close>

type_synonym mem_view = "nat \<Rightarrow> u8 option"

definition store :: "bytes \<Rightarrow> nat \<Rightarrow> mem_view \<Rightarrow> mem_view" where
  "store bs a v = (\<lambda>x. if a \<le> x \<and> x < a + length bs then Some (bs ! (x - a)) else v x)"

definition load :: "mem_view \<Rightarrow> nat \<Rightarrow> nat \<Rightarrow> bytes" where
  "load v a n = map (\<lambda>i. the (v (a + i))) [0..<n]"

definition net_write_law :: "('m, 'q) net_api \<Rightarrow> ('m \<Rightarrow> mem_view) \<Rightarrow> bool" where
  "net_write_law api view \<longleftrightarrow>
     (\<forall>m bs a ok m'. nm_write_slice api m bs a = (ok, m') \<longrightarrow>
        dom (view m') = dom (view m)
      \<and> (\<forall>x. x \<notin> {unat a..<unat a + length bs} \<longrightarrow> view m' x = view m x)
      \<and> (ok \<longrightarrow> view m' = store bs (unat a) (view m))
      \<and> (bs \<noteq> [] \<and> {unat a..<unat a + length bs} \<subseteq> dom (view m) \<or> bs = [] \<and> unat a \<in> dom (view m) \<longrightarrow> ok))"

definition net_read_law :: "('m, 'q) net_api \<Rightarrow> ('m \<Rightarrow> mem_view) \<Rightarrow> bool" where
  "net_read_law api view \<longleftrightarrow>
     (\<forall>m a n. 0 < n \<and> {unat a..<unat a + n} \<subseteq> dom (view m) \<longrightarrow> nm_read_slice api m a n = Some (load (view m) (unat a) n))
   \<and> (\<forall>m a n bs. nm_read_slice api m a n = Some bs \<longrightarrow> length bs = n)"

definition desc_range :: "chain_descriptor \<Rightarrow> nat set" where
  "desc_range d = {unat (d_addr d)..<unat (d_addr d) + unat (d_len d)}"

definition desc_mapped :: "mem_view \<Rightarrow> chain_descriptor \<Rightarrow> bool" where
  "desc_mapped v d \<longleftrightarrow> desc_range d \<subseteq> dom v \<and> unat (d_addr d) + unat (d_len d) < 2 ^ 64"

text \<open>The bytes a transmit chain holds, and the effect of spreading bytes over a receive chain.\<close>

definition chain_bytes :: "mem_view \<Rightarrow> chain_descriptor list \<Rightarrow> bytes" where
  "chain_bytes v descs = concat (map (\<lambda>d. load v (unat (d_addr d)) (min (unat (d_len d)) TX_DESC_MAX)) descs)"

definition chain_len :: "chain_descriptor list \<Rightarrow> nat" where
  "chain_len descs = sum_list (map (\<lambda>d. unat (d_len d)) descs)"

primrec store_chain :: "bytes \<Rightarrow> chain_descriptor list \<Rightarrow> mem_view \<Rightarrow> mem_view" where
  "store_chain bs [] v = v"
| "store_chain bs (d # ds) v =
     store_chain (drop (unat (d_len d)) bs) ds (store (take (unat (d_len d)) bs) (unat (d_addr d)) v)"

section \<open>Specification functions and sample values\<close>

text \<open>The state of the walk: the bytes written are the header bytes placed and then the frame bytes placed.\<close>

definition rx_ok :: "nat \<Rightarrow> 'm rx_state \<Rightarrow> bool" where
  "rx_ok frame_len s \<longleftrightarrow> length (hdr_write_slots s) + rw_hdr_remaining s \<le> VIRTIO_NET_HDR_LEN
     \<and> unat (rw_bytes_written s) + rw_hdr_remaining s = VIRTIO_NET_HDR_LEN + rw_frame_pos s
     \<and> rw_frame_pos s \<le> frame_len \<and> (0 < rw_hdr_remaining s \<longrightarrow> rw_frame_pos s = 0)"

text \<open>The stream the walk lays out over the descriptors.\<close>

definition rx_stream :: "bytes \<Rightarrow> bytes" where "rx_stream frame = RX_HDR @ frame"

definition rx_bytes_of :: "mem_view \<Rightarrow> chain_descriptor list \<Rightarrow> bytes" where
  "rx_bytes_of v descs = concat (map (\<lambda>d. load v (unat (d_addr d)) (unat (d_len d))) descs)"

definition chain_disjoint :: "chain_descriptor list \<Rightarrow> bool" where
  "chain_disjoint descs \<longleftrightarrow> sorted_wrt (\<lambda>d e. desc_range d \<inter> desc_range e = {}) descs"

definition chain_range :: "chain_descriptor list \<Rightarrow> nat set" where
  "chain_range descs = \<Union> (desc_range ` set descs)"

definition loopback_counters :: "nat \<Rightarrow> nat \<Rightarrow> bool \<Rightarrow> bool \<Rightarrow> net_counters \<Rightarrow> net_counters" where
  "loopback_counters frame_bytes l2_bytes rx_done tx_done c =
     (if tx_done then record_tx_completed (of_nat frame_bytes) else record_tx_add_used_failure)
       ((if rx_done then record_rx_delivered (of_nat l2_bytes) else record_rx_add_used_failure) c)"

section \<open>Capturing\<close>

lemma load_length [simp]: "length (load v a n) = n" by (simp add: load_def)

lemma load_drop: "drop k (load v a n) = load v (a + k) (n - k)"
proof (rule nth_equalityI)
  fix i
  assume "i < length (drop k (load v a n))"
  then show "drop k (load v a n) ! i = load v (a + k) (n - k) ! i"
    using nth_upt [of 0 "k + i" n] by (simp add: load_def add.assoc)
qed simp

lemma load_take: "take k (load v a n) = load v a (min k n)"
  by (rule nth_equalityI) (simp_all add: load_def)

lemma tx_walk_reads:
  assumes "net_read_law api view" and "\<forall>d \<in> set descs. \<not> d_write_only d \<and> desc_mapped (view m) d"
  shows "length fr \<le> MAX_FRAME_SIZE \<Longrightarrow> tx_walk api m descs h fr =
    (False, h - length (chain_bytes (view m) descs),
     fr @ take (MAX_FRAME_SIZE - length fr) (drop h (chain_bytes (view m) descs)))"
  using assms(2)
proof (induction descs arbitrary: h fr)
  case Nil
  then show ?case by (simp add: chain_bytes_def)
next
  case (Cons d descs)
  define a where "a = unat (d_addr d)"
  define n where "n = min (unat (d_len d)) TX_DESC_MAX"
  define s where "s = min h n"
  define b where "b = d_addr d + of_nat s"
  have "{a..<a + n} \<subseteq> desc_range d" by (auto simp: desc_range_def a_def n_def)
  then have map: "{a..<a + n} \<subseteq> dom (view m)" "a + n < 2 ^ 64" and ro: "\<not> d_write_only d"
    using Cons.prems(2) by (auto simp: desc_mapped_def a_def n_def)
  have sn: "s \<le> n" by (simp add: s_def)
  have su: "unat (of_nat s :: u64) = s" using map(2) sn by (intro unat_of_nat_no_overflow) simp
  have ca: "(if 0 < h then checked_add (d_addr d) (of_nat s) else Some (d_addr d)) = Some b"
  proof (cases "0 < h")
    case True
    with map(2) sn show ?thesis by (simp add: checked_add_def su b_def a_def)
  qed (simp add: b_def s_def)
  have ub: "unat b = a + s" using map(2) sn su by (simp add: unat_add_no_overflow b_def a_def)
  have cb: "chain_bytes (view m) (d # descs) = load (view m) a n @ chain_bytes (view m) descs"
    by (simp add: chain_bytes_def a_def n_def)
  have rd: "nm_read_slice api m b k = Some (load (view m) (a + s) k)" if "0 < k" "k \<le> n - s" for k
  proof -
    from that sn have "{unat b..<unat b + k} \<subseteq> {a..<a + n}" by (auto simp: ub)
    with map(1) \<open>0 < k\<close> assms(1) show ?thesis unfolding net_read_law_def ub [symmetric] by (meson order_trans)
  qed
  have step: "tx_walk api m (d # descs) h fr =
     (if n - s = 0 then tx_walk api m descs (h - s) fr
      else let t = min (n - s) (MAX_FRAME_SIZE - length fr)
           in if t = 0 then (False, h - s, fr) else tx_walk api m descs (h - s) (fr @ load (view m) (a + s) t))"
    using ro by (simp only: tx_walk.simps ca n_def [symmetric] s_def [symmetric] if_False Let_def option.case)
      (cases "min (n - s) (MAX_FRAME_SIZE - length fr) = 0"; simp only: if_True if_False rd option.case; simp add: rd)
  show ?case
  proof (cases "n - s = 0")
    case True
    then have "n \<le> h" by (simp add: s_def)
    with True Cons s_def show ?thesis unfolding step by (simp add: cb)
  next
    case False
    then have hs: "s = h" "h < n" by (auto simp: s_def)
    show ?thesis
    proof (cases "MAX_FRAME_SIZE = length fr")
      case True
      with False hs show ?thesis unfolding step by (simp add: cb)
    next
      case t: False
      let ?t = "min (n - s) (MAX_FRAME_SIZE - length fr)"
      let ?fr = "fr @ load (view m) (a + s) ?t"
      have "tx_walk api m (d # descs) h fr = tx_walk api m descs 0 ?fr"
        using False t hs Cons.prems(1) unfolding step by (auto simp: Let_def)
      also have "\<dots> = (False, 0, ?fr @ take (MAX_FRAME_SIZE - length ?fr) (chain_bytes (view m) descs))"
        using Cons by simp
      finally have e: "tx_walk api m (d # descs) h fr = \<dots>" .
      have "MAX_FRAME_SIZE - length ?fr = MAX_FRAME_SIZE - length fr - (n - h)" using hs by (simp add: min_def)
      then show ?thesis using hs unfolding e by (simp add: cb load_drop load_take min.commute)
    qed
  qed
qed

section \<open>Placing a frame\<close>

lemma RX_HDR_length [simp]: "length RX_HDR = VIRTIO_NET_HDR_LEN" by (simp add: RX_HDR_def)

lemma checked_add_small:
  "unat n + t < 2 ^ LENGTH('a) \<Longrightarrow> \<exists>k. checked_add (n :: 'a::len word) (of_nat t) = Some k \<and> unat k = unat n + t"
  by (simp add: checked_add_def unat_of_nat_no_overflow unat_add_no_overflow)

lemma rx_place_header_ok:
  assumes ok: "rx_ok fl s" and fl: "fl \<le> MAX_FRAME_SIZE" and "0 < len" and run: "rx_place_header api a len s = (flow, s')"
  shows "flow \<noteq> RxPanic" and "flow = RxGo (a', l') \<Longrightarrow> rx_ok fl s' \<and> (0 < l' \<longrightarrow> rw_hdr_remaining s' = 0)"
proof -
  let ?t = "min (rw_hdr_remaining s) len"
  have "unat (rw_bytes_written s) + ?t < 2 ^ 32"
    using ok fl by (auto simp: rx_ok_def VIRTIO_NET_HDR_LEN_def MAX_FRAME_SIZE_def)
  then obtain n where n: "checked_add (rw_bytes_written s) (of_nat ?t) = Some n" "unat n = unat (rw_bytes_written s) + ?t"
    using checked_add_small [where 'a = 32] by fastforce
  obtain r m where w: "nm_write_slice api (rw_mem s) (byte_slice RX_HDR (VIRTIO_NET_HDR_LEN - rw_hdr_remaining s)
      (VIRTIO_NET_HDR_LEN - rw_hdr_remaining s + ?t)) a = (r, m)" by fastforce
  show "flow \<noteq> RxPanic" "flow = RxGo (a', l') \<Longrightarrow> rx_ok fl s' \<and> (0 < l' \<longrightarrow> rw_hdr_remaining s' = 0)"
    using run ok n \<open>0 < len\<close> w unfolding rx_place_header_def
    by (auto simp: Let_def rx_ok_def split: if_splits option.splits)
qed

lemma rx_place_frame_ok:
  assumes ok: "rx_ok fl s" and fl: "fl \<le> MAX_FRAME_SIZE" "fl = length scratch" and "0 < len \<longrightarrow> rw_hdr_remaining s = 0"
    and run: "rx_place_frame api scratch fl a len s = (flow, s')"
  shows "flow \<noteq> RxPanic" and "flow = RxGo b \<Longrightarrow> rx_ok fl s'"
proof -
  let ?t = "min len (fl - rw_frame_pos s)"
  have "unat (rw_bytes_written s) + ?t < 2 ^ 32"
    using ok fl by (auto simp: rx_ok_def VIRTIO_NET_HDR_LEN_def MAX_FRAME_SIZE_def)
  then obtain n where n: "checked_add (rw_bytes_written s) (of_nat ?t) = Some n" "unat n = unat (rw_bytes_written s) + ?t"
    using checked_add_small [where 'a = 32] by fastforce
  have t: "rw_frame_pos s + ?t \<le> fl" using ok by (auto simp: rx_ok_def)
  obtain r m where w: "nm_write_slice api (rw_mem s) (byte_slice scratch (rw_frame_pos s) (rw_frame_pos s + ?t)) a = (r, m)"
    by fastforce
  show "flow \<noteq> RxPanic" "flow = RxGo b \<Longrightarrow> rx_ok fl s'"
    using run ok n t assms(4) fl(2) w unfolding rx_place_frame_def
    by (auto simp: Let_def rx_ok_def split: if_splits option.splits)
qed

lemma rx_walk_never_panics:
  assumes "fl \<le> MAX_FRAME_SIZE" "fl = length scratch"
  shows "rx_ok fl s \<Longrightarrow> \<forall>d \<in> set descs. d_len d \<noteq> 0 \<Longrightarrow> fst (rx_walk api scratch fl descs s) \<noteq> RxPanic"
proof (induction descs arbitrary: s)
  case (Cons d descs)
  obtain f1 s1 where h: "rx_place_header api (d_addr d) (unat (d_len d)) s = (f1, s1)" by fastforce
  have "0 < unat (d_len d)" using Cons.prems by (simp add: unat_gt_0_iff)
  note hok = rx_place_header_ok [OF Cons.prems(1) assms(1) this h]
  show ?case
  proof (cases f1)
    case (RxGo al)
    obtain a l where al: "al = (a, l)" by fastforce
    obtain f2 s2 where f: "rx_place_frame api scratch fl a l s1 = (f2, s2)" by fastforce
    from hok(2) RxGo al have "rx_ok fl s1" "0 < l \<longrightarrow> rw_hdr_remaining s1 = 0" by blast+
    note fok = rx_place_frame_ok [OF this(1) assms this(2) f]
    show ?thesis
    proof (cases f2)
      case (RxGo b)
      with fok(2) have "rx_ok fl s2" by blast
      with Cons have "fst (rx_walk api scratch fl descs s2) \<noteq> RxPanic" by simp
      with h \<open>f1 = RxGo al\<close> al f RxGo show ?thesis by (cases b) simp_all
    qed (use fok h \<open>f1 = RxGo al\<close> al f in simp_all)
  qed (use hok h in simp_all)
qed simp

section \<open>Delivery\<close>

lemma store_Nil [simp]: "store [] a v = v" by (rule ext) (auto simp: store_def)

lemma dom_store: "{a..<a + length bs} \<subseteq> dom v \<Longrightarrow> dom (store bs a v) = dom v"
  by (auto simp: store_def subset_iff dom_def)

lemma store_append: "store (xs @ ys) a v = store ys (a + length xs) (store xs a v)"
  by (rule ext) (auto simp: store_def nth_append diff_diff_left)

lemma store_chain_Nil [simp]: "store_chain [] ds v = v"
  by (induction ds arbitrary: v) simp_all

lemma net_write_lawD:
  assumes "net_write_law api view" and "nm_write_slice api m bs a = (ok, m')"
  shows "dom (view m') = dom (view m)" and "x \<notin> {unat a..<unat a + length bs} \<Longrightarrow> view m' x = view m x"
    and "ok \<Longrightarrow> view m' = store bs (unat a) (view m)"
    and "bs \<noteq> [] \<Longrightarrow> {unat a..<unat a + length bs} \<subseteq> dom (view m) \<Longrightarrow> ok"
    and "bs = [] \<Longrightarrow> unat a \<in> dom (view m) \<Longrightarrow> ok"
  using assms unfolding net_write_law_def by blast+

lemma write_ok:
  assumes "net_write_law api view" and "{unat a..<unat a + length bs} \<subseteq> dom (view m)" and "bs \<noteq> []"
  shows "\<exists>m'. nm_write_slice api m bs a = (True, m') \<and> view m' = store bs (unat a) (view m)"
proof -
  obtain ok m' where w: "nm_write_slice api m bs a = (ok, m')" by fastforce
  with net_write_lawD(3,4) [OF assms(1) w] assms(2,3) show ?thesis by simp
qed

lemma rx_place_header_writes:
  assumes law: "net_write_law api view" and ok: "rx_ok (length frame) s" and fl: "length frame \<le> MAX_FRAME_SIZE"
    and len: "0 < len" "{unat a..<unat a + len} \<subseteq> dom (view (rw_mem s))" "unat a + len < 2 ^ 64"
    and t: "t = min (rw_hdr_remaining s) len" and p: "p = unat (rw_bytes_written s)"
  shows "\<exists>a' s'. rx_place_header api a len s = (RxGo (a', len - t), s') \<and> unat a' = unat a + t
    \<and> rx_ok (length frame) s' \<and> unat (rw_bytes_written s') = p + t \<and> (0 < len - t \<longrightarrow> rw_hdr_remaining s' = 0)
    \<and> view (rw_mem s') = store (byte_slice (rx_stream frame) p (p + t)) (unat a) (view (rw_mem s))"
proof (cases "rw_hdr_remaining s = 0")
  case True
  with ok t p show ?thesis by (simp add: rx_place_header_def byte_slice_def)
next
  case False
  with ok p have hp: "VIRTIO_NET_HDR_LEN - rw_hdr_remaining s = p" "p + t \<le> VIRTIO_NET_HDR_LEN" "rw_frame_pos s = 0"
    "length (hdr_write_slots s) < VIRTIO_NET_HDR_LEN"
    using t by (auto simp: rx_ok_def)
  have t0: "0 < t" "t \<le> len" using False len(1) t by auto
  have sl: "byte_slice (rx_stream frame) p (p + t) = byte_slice RX_HDR p (p + t)" "length (byte_slice RX_HDR p (p + t)) = t"
    using hp(2) by (simp_all add: rx_stream_def byte_slice_def)
  obtain m where m: "nm_write_slice api (rw_mem s) (byte_slice RX_HDR p (p + t)) a = (True, m)"
    "view m = store (byte_slice RX_HDR p (p + t)) (unat a) (view (rw_mem s))"
    using write_ok [OF law, of a "byte_slice RX_HDR p (p + t)" "rw_mem s"] len(2) t0 sl(2)
    by (fastforce simp: subset_iff)
  obtain a' where a': "checked_add a (of_nat t) = Some a'" "unat a' = unat a + t"
    using checked_add_small [of a t] len(3) t0 by auto
  obtain n where n: "checked_add (rw_bytes_written s) (of_nat t) = Some n" "unat n = p + t"
    using checked_add_small [of "rw_bytes_written s" t] hp p by (auto simp: VIRTIO_NET_HDR_LEN_def)
  let ?s = "s\<lparr>rw_mem := m, hdr_write_slots := hdr_write_slots s @ [(a, t)], rw_bytes_written := n,
    rw_hdr_remaining := rw_hdr_remaining s - t\<rparr>"
  have run: "rx_place_header api a len s = (RxGo (a', len - t), ?s)"
    using False hp m a'(1) n(1) by (simp add: rx_place_header_def Let_def t [symmetric])
  have "rx_ok (length frame) ?s" "0 < len - t \<longrightarrow> rw_hdr_remaining ?s = 0"
    using rx_place_header_ok(2) [OF ok fl len(1) run refl] by simp_all
  with run a' n m(2) sl(1) show ?thesis by (intro exI [of _ a'] exI [of _ ?s]) simp
qed

lemma rx_place_frame_writes:
  assumes law: "net_write_law api view" and ok: "rx_ok (length frame) s" and fl: "length frame \<le> MAX_FRAME_SIZE"
    and len: "{unat a..<unat a + len} \<subseteq> dom (view (rw_mem s))" and hdr: "0 < len \<longrightarrow> rw_hdr_remaining s = 0"
    and p: "p = unat (rw_bytes_written s)" and t: "t = min len (length (rx_stream frame) - p)"
  shows "\<exists>b s'. rx_place_frame api frame (length frame) a len s = (RxGo b, s')
    \<and> rx_ok (length frame) s' \<and> unat (rw_bytes_written s') = p + t \<and> (b \<longrightarrow> p + t = length (rx_stream frame))
    \<and> view (rw_mem s') = store (byte_slice (rx_stream frame) p (p + t)) (unat a) (view (rw_mem s))"
proof (cases "len = 0 \<or> rw_frame_pos s = length frame")
  case True
  with ok p hdr have "t = 0" by (auto simp: t rx_ok_def rx_stream_def)
  with True ok p show ?thesis by (intro exI [of _ False] exI [of _ s]) (simp add: rx_place_frame_def byte_slice_def)
next
  case False
  with ok p hdr have hp: "p = VIRTIO_NET_HDR_LEN + rw_frame_pos s" "rw_frame_pos s < length frame" "rw_hdr_remaining s = 0"
    by (auto simp: rx_ok_def)
  then have t1: "t = min len (length frame - rw_frame_pos s)" "0 < t" "rw_frame_pos s + t \<le> length frame" "t \<le> len"
    using False by (auto simp: t rx_stream_def)
  have sl: "byte_slice (rx_stream frame) p (p + t) = byte_slice frame (rw_frame_pos s) (rw_frame_pos s + t)"
    "length (byte_slice frame (rw_frame_pos s) (rw_frame_pos s + t)) = t"
    using hp(1) t1(3) by (simp_all add: rx_stream_def byte_slice_def)
  obtain m where m: "nm_write_slice api (rw_mem s) (byte_slice frame (rw_frame_pos s) (rw_frame_pos s + t)) a = (True, m)"
    "view m = store (byte_slice frame (rw_frame_pos s) (rw_frame_pos s + t)) (unat a) (view (rw_mem s))"
    using write_ok [OF law, of a "byte_slice frame (rw_frame_pos s) (rw_frame_pos s + t)" "rw_mem s"] len t1 sl(2)
    by (fastforce simp: subset_iff)
  obtain n where n: "checked_add (rw_bytes_written s) (of_nat t) = Some n" "unat n = p + t"
    using checked_add_small [of "rw_bytes_written s" t] hp p t1(3) fl by (auto simp: VIRTIO_NET_HDR_LEN_def MAX_FRAME_SIZE_def)
  let ?s = "s\<lparr>rw_mem := m, rw_bytes_written := n, rw_frame_pos := rw_frame_pos s + t\<rparr>"
  let ?b = "rw_frame_pos s + t = length frame"
  have run: "rx_place_frame api frame (length frame) a len s = (RxGo ?b, ?s)"
    using False hp m n(1) t1(2,3) by (simp add: rx_place_frame_def Let_def t1(1) [symmetric])
  have "rx_ok (length frame) ?s" using rx_place_frame_ok(2) [OF ok fl refl hdr run refl] .
  with run n m(2) sl(1) hp(1) show ?thesis by (intro exI [of _ ?b] exI [of _ ?s]) (simp add: rx_stream_def)
qed

lemma store_chain_slice:
  assumes "p \<le> length D" "p' = min (p + unat (d_len d)) (length D)"
  shows "store_chain (drop p D) (d # ds) v = store_chain (drop p' D) ds (store (byte_slice D p p') (unat (d_addr d)) v)"
proof -
  have "take (unat (d_len d)) (drop p D) = byte_slice D p p'" using assms by (auto simp: byte_slice_def min_def)
  moreover have "drop (unat (d_len d)) (drop p D) = drop p' D" using assms by (auto simp: min_def add.commute)
  ultimately show ?thesis by (simp del: drop_drop)
qed

lemma rx_walk_writes:
  assumes law: "net_write_law api view" and fl: "length frame \<le> MAX_FRAME_SIZE"
  shows "rx_ok (length frame) s \<Longrightarrow> \<forall>d \<in> set descs. d_write_only d \<and> d_len d \<noteq> 0 \<and> desc_mapped (view (rw_mem s)) d
    \<Longrightarrow> \<exists>s'. rx_walk api frame (length frame) descs s = (RxGo (), s') \<and> rx_ok (length frame) s'
      \<and> unat (rw_bytes_written s') = min (unat (rw_bytes_written s) + chain_len descs) (length (rx_stream frame))
      \<and> view (rw_mem s') = store_chain (drop (unat (rw_bytes_written s)) (rx_stream frame)) descs (view (rw_mem s))"
proof (induction descs arbitrary: s)
  case Nil
  then have "unat (rw_bytes_written s) \<le> length (rx_stream frame)" by (auto simp: rx_ok_def rx_stream_def)
  with Nil show ?case by (simp add: chain_len_def)
next
  case (Cons d descs)
  define n where "n = unat (d_len d)"
  define p where "p = unat (rw_bytes_written s)"
  define t where "t = min (rw_hdr_remaining s) n"
  let ?D = "rx_stream frame" and ?a = "unat (d_addr d)"
  have d: "d_write_only d" "0 < n" "{?a..<?a + n} \<subseteq> dom (view (rw_mem s))" "?a + n < 2 ^ 64"
    using Cons.prems(2) by (simp_all add: desc_mapped_def desc_range_def n_def unat_gt_0_iff)
  have pl: "p \<le> length ?D" "t \<le> length ?D - p" using Cons.prems(1) by (auto simp: rx_ok_def rx_stream_def p_def t_def)
  obtain a1 s1 where h: "rx_place_header api (d_addr d) n s = (RxGo (a1, n - t), s1)" "unat a1 = ?a + t"
    "rx_ok (length frame) s1" "unat (rw_bytes_written s1) = p + t" "0 < n - t \<longrightarrow> rw_hdr_remaining s1 = 0"
    "view (rw_mem s1) = store (byte_slice ?D p (p + t)) ?a (view (rw_mem s))"
    using rx_place_header_writes [OF law Cons.prems(1) fl d(2,3,4) t_def p_def] by (elim exE conjE) (rule that)
  have tn: "t \<le> n" "length (byte_slice ?D p (p + t)) = t" using pl by (simp_all add: t_def)
  then have "{?a..<?a + length (byte_slice ?D p (p + t))} \<subseteq> dom (view (rw_mem s))" using d(3) by (auto simp: subset_iff)
  then have dom1: "dom (view (rw_mem s1)) = dom (view (rw_mem s))" unfolding h(6) by (rule dom_store)
  define t2 where "t2 = min (n - t) (length ?D - (p + t))"
  have "{?a + t..<?a + t + (n - t)} \<subseteq> {?a..<?a + n}" using tn(1) by auto
  then have "{unat a1..<unat a1 + (n - t)} \<subseteq> dom (view (rw_mem s1))" unfolding dom1 h(2) using d(3) by (rule order_trans)
  from rx_place_frame_writes [OF law h(3) fl this h(5) h(4) [symmetric] t2_def]
  obtain b s2 where f: "rx_place_frame api frame (length frame) a1 (n - t) s1 = (RxGo b, s2)" "rx_ok (length frame) s2"
    "unat (rw_bytes_written s2) = p + t + t2" "b \<longrightarrow> p + t + t2 = length ?D"
    "view (rw_mem s2) = store (byte_slice ?D (p + t) (p + t + t2)) (unat a1) (view (rw_mem s1))" by (elim exE conjE) (rule that)
  have p': "p + t + t2 = min (p + n) (length ?D)" using pl tn(1) by (cases "p + n \<le> length ?D") (simp_all add: t2_def)
  have ap: "byte_slice ?D p (p + t) @ byte_slice ?D (p + t) (p + t + t2) = byte_slice ?D p (p + t + t2)"
    by (rule byte_slice_append) simp_all
  have v2: "view (rw_mem s2) = store (byte_slice ?D p (p + t + t2)) ?a (view (rw_mem s))"
    unfolding f(5) h(2,6) ap [symmetric] store_append tn(2) ..
  have sc: "store_chain (drop p ?D) (d # descs) (view (rw_mem s)) = store_chain (drop (p + t + t2) ?D) descs (view (rw_mem s2))"
    unfolding v2 by (rule store_chain_slice) (use pl(1) p' in \<open>simp_all add: n_def\<close>)
  have "length (byte_slice ?D p (p + t + t2)) \<le> n" using p' by simp
  then have "dom (view (rw_mem s2)) = dom (view (rw_mem s))" unfolding v2 using d(3) by (intro dom_store) (auto simp: subset_iff)
  then have maps: "\<forall>d \<in> set descs. d_write_only d \<and> d_len d \<noteq> 0 \<and> desc_mapped (view (rw_mem s2)) d"
    using Cons.prems(2) by (simp add: desc_mapped_def)
  have cl: "min (p + t + t2 + chain_len descs) (length ?D) = min (p + chain_len (d # descs)) (length ?D)"
    using p' by (simp add: chain_len_def n_def)
  have run: "rx_walk api frame (length frame) (d # descs) s =
      (if b then (RxGo (), s2) else rx_walk api frame (length frame) descs s2)"
    unfolding rx_walk.simps n_def [symmetric] h(1) using d(1) f(1) by (cases b) (simp_all only: prod.case rx_flow.case bool.case if_True if_False not_True_eq_False)
  show ?case
  proof (cases b)
    case True
    with f(4) have "p + t + t2 = length ?D" by simp
    then have "min (p + chain_len (d # descs)) (length ?D) = p + t + t2" "drop (p + t + t2) ?D = []"
      using cl by simp_all
    with True f(2,3) show ?thesis unfolding run sc p_def [symmetric] by (intro exI [of _ s2]) simp
  next
    case False
    show ?thesis using Cons.IH [OF f(2) maps] False unfolding run sc f(3) cl p_def [symmetric] by simp
  qed
qed

lemma store_other: "\<not> (a \<le> x \<and> x < a + length bs) \<Longrightarrow> store bs a v x = v x"
  by (simp only: store_def if_False)

lemma store_chain_other: "x \<notin> chain_range descs \<Longrightarrow> store_chain bs descs v x = v x"
proof (induction descs arbitrary: bs v)
  case (Cons d descs)
  then have "x \<notin> chain_range descs" "\<not> (unat (d_addr d) \<le> x \<and> x < unat (d_addr d) + length (take (unat (d_len d)) bs))"
    by (auto simp: chain_range_def desc_range_def)
  then show ?case using Cons.IH by (simp add: store_other)
qed simp

lemma load_cong: "(\<And>x. x \<in> {a..<a + n} \<Longrightarrow> v x = w x) \<Longrightarrow> load v a n = load w a n"
  by (simp add: load_def)

lemma load_store: "length bs \<le> n \<Longrightarrow> take (length bs) (load (store bs a v) a n) = bs"
  by (rule nth_equalityI) (simp_all add: load_take, simp add: load_def store_def)

lemma rx_bytes_store_chain:
  "chain_disjoint descs \<Longrightarrow> n \<le> chain_len descs \<Longrightarrow> n \<le> length bs \<Longrightarrow> take n (rx_bytes_of (store_chain bs descs v) descs) = take n bs"
proof (induction descs arbitrary: bs v n)
  case Nil
  then show ?case by (simp add: chain_len_def)
next
  case (Cons d descs)
  let ?k = "unat (d_len d)" and ?a = "unat (d_addr d)"
  let ?w = "store_chain (drop ?k bs) descs (store (take ?k bs) ?a v)"
  have "chain_range descs \<inter> desc_range d = {}" using Cons.prems(1) by (auto simp: chain_disjoint_def chain_range_def)
  then have l: "load ?w ?a ?k = load (store (take ?k bs) ?a v) ?a ?k"
    by (intro load_cong store_chain_other) (auto simp: desc_range_def)
  have t: "take n (load (store (take ?k bs) ?a v) ?a ?k) = take (min n ?k) bs"
  proof -
    have "take (min n ?k) (load (store (take ?k bs) ?a v) ?a ?k)
        = take (min n ?k) (take (length (take ?k bs)) (load (store (take ?k bs) ?a v) ?a ?k))"
      using Cons.prems(3) by (simp add: min_def)
    also have "\<dots> = take (min n ?k) (take ?k bs)" using load_store [of "take ?k bs" ?k ?a v] by simp
    finally show ?thesis by (simp add: load_take min.left_commute min.commute)
  qed
  have "take (n - ?k) (rx_bytes_of ?w descs) = take (n - ?k) (drop ?k bs)"
    using Cons.prems by (intro Cons.IH) (auto simp: chain_disjoint_def chain_len_def)
  then have "take n (rx_bytes_of (store_chain bs (d # descs) v) (d # descs)) = take (min n ?k) bs @ take (n - ?k) (drop ?k bs)"
    using t by (simp add: rx_bytes_of_def l)
  also have "\<dots> = take n bs"
    by (cases "n \<le> ?k") (simp_all add: min_def take_add [of ?k "n - ?k", simplified, symmetric])
  finally show ?case .
qed

lemma rx_ok_start: "rx_ok fl (rx_start m)" by (simp add: rx_ok_def rx_start_def)

lemma chain_bytes_frame:
  "length (take MAX_FRAME_SIZE xs) \<le> MAX_FRAME_SIZE" by simp

lemma pop_captures:
  assumes "net_read_law api view" and "\<not> tx_poisoned d" and "nq_iter_next api m (tx_queue d) = (Chain head tds, tq)"
    and "\<forall>t \<in> set tds. \<not> d_write_only t \<and> desc_mapped (view m) t"
    and "VIRTIO_NET_HDR_LEN \<le> length (chain_bytes (view m) tds)"
    and "frame = take MAX_FRAME_SIZE (drop VIRTIO_NET_HDR_LEN (chain_bytes (view m) tds))"
  shows "pop_and_capture_tx api m d
    = (TxChain head (Some (length frame)), d\<lparr>tx_queue := tq, tx_frame_scratch := frame\<rparr>)"
  using assms tx_walk_reads [OF assms(1,4), of "[]" VIRTIO_NET_HDR_LEN] by (simp add: pop_and_capture_tx_def)

lemma loopback_delivers:
  assumes law: "net_write_law api view" and d: "\<not> rx_poisoned d" "q_ready api (rx_queue d)"
    and next': "nq_iter_next api m (rx_queue d) = (Chain rhead rds, rq)"
    and frame: "tx_frame_scratch d = frame" "length frame \<le> MAX_FRAME_SIZE"
    and rds: "\<forall>r \<in> set rds. d_write_only r \<and> d_len r \<noteq> 0 \<and> desc_mapped (view m) r"
    and n: "n = min (chain_len rds) (length (rx_stream frame))"
  shows "\<exists>m1. view m1 = store_chain (rx_stream frame) rds (view m)
    \<and> try_loopback_to_rx api m (length frame) d = (case nq_add_used api m1 rq rhead (of_nat n) of (ok, m2, rq') \<Rightarrow>
        Some (if ok then Delivered (of_nat (n - VIRTIO_NET_HDR_LEN)) else DeliveredButAddUsedFailed, m2,
              d\<lparr>rx_queue := rq', counters := (if ok then id else record_rx_add_used_failure) (counters d)\<rparr>))"
proof -
  have "\<forall>r \<in> set rds. d_write_only r \<and> d_len r \<noteq> 0 \<and> desc_mapped (view (rw_mem (rx_start m))) r"
    using rds by (simp add: rx_start_def)
  from rx_walk_writes [OF law frame(2) rx_ok_start this]
  obtain s where s: "rx_walk api frame (length frame) rds (rx_start m) = (RxGo (), s)" "rx_ok (length frame) s"
    "unat (rw_bytes_written s) = n" "view (rw_mem s) = store_chain (rx_stream frame) rds (view m)"
    by (auto simp: rx_start_def n)
  have bw: "rw_bytes_written s = of_nat n" unfolding s(3) [symmetric] by simp
  define h where "h = VIRTIO_NET_HDR_LEN - rw_hdr_remaining s"
  have "h < 2 ^ 32" by (simp add: h_def VIRTIO_NET_HDR_LEN_def)
  then have "unat (of_nat h :: u32) = h" by (intro unat_of_nat_no_overflow) simp
  moreover have "h \<le> n" "n - h = n - VIRTIO_NET_HDR_LEN" using s(2,3) by (auto simp: h_def rx_ok_def)
  ultimately have h: "unat (of_nat h :: u32) = h" "h \<le> n" "n - h = n - VIRTIO_NET_HDR_LEN" by simp_all
  have n32: "unat (of_nat n :: u32) = n" using s(3) bw by simp
  have "unat (saturating_sub (of_nat n) (of_nat h) :: u32) = n - VIRTIO_NET_HDR_LEN"
    using h n32 by (simp add: saturating_sub_def unat_sub_if' word_less_nat_alt)
  then have l2: "ucast (saturating_sub (of_nat n) (of_nat h) :: u32) = (of_nat (n - VIRTIO_NET_HDR_LEN) :: u64)"
    by (metis of_nat_unat)
  show ?thesis
    using d next' frame(1) s bw l2 [unfolded h_def]
    by (intro exI [of _ "rw_mem s"])
      (cases "nq_add_used api (rw_mem s) rq rhead (of_nat n)";
       simp add: try_loopback_to_rx_def rx_finish_def rx_add_used_def net_count_def)
qed

lemma rx_walk_empty_descs:
  assumes law: "net_write_law api view"
  shows "rw_hdr_remaining s = VIRTIO_NET_HDR_LEN \<Longrightarrow> length (hdr_write_slots s) \<le> VIRTIO_NET_HDR_LEN
    \<Longrightarrow> VIRTIO_NET_HDR_LEN < length (hdr_write_slots s) + length descs
    \<Longrightarrow> \<forall>r \<in> set descs. d_write_only r \<and> d_len r = 0 \<and> unat (d_addr r) \<in> dom (view (rw_mem s))
    \<Longrightarrow> fst (rx_walk api scratch fl (descs @ rest) s) = RxPanic"
proof (induction descs arbitrary: s)
  case (Cons r descs)
  have r: "d_write_only r" "d_len r = 0" "unat (d_addr r) \<in> dom (view (rw_mem s))" using Cons.prems(4) by simp_all
  obtain ok m where w: "nm_write_slice api (rw_mem s) [] (d_addr r) = (ok, m)" by fastforce
  have ok: ok and m: "view m = view (rw_mem s)" using net_write_lawD(5) [OF law w refl r(3)] net_write_lawD(3) [OF law w] by simp_all
  have hdr: "0 < rw_hdr_remaining s" using Cons.prems(1) by (simp add: VIRTIO_NET_HDR_LEN_def)
  have z: "byte_slice RX_HDR k k = []" "checked_add (a :: 'x::len word) 0 = Some a" for k a
    by (simp_all add: byte_slice_def checked_add_def)
  show ?case
  proof (cases "length (hdr_write_slots s) = VIRTIO_NET_HDR_LEN")
    case True
    with r w ok hdr show ?thesis by (simp add: rx_place_header_def z)
  next
    case False
    let ?s = "s\<lparr>rw_mem := m, hdr_write_slots := hdr_write_slots s @ [(d_addr r, 0)]\<rparr>"
    have "fst (rx_walk api scratch fl (descs @ rest) ?s) = RxPanic"
      using Cons.prems False m by (intro Cons.IH) simp_all
    with False r w ok hdr Cons.prems(2) show ?thesis by (simp add: rx_place_header_def rx_place_frame_def z)
  qed
qed simp

end
