(* ===== verification/Virtio_Net_Loop.thy ===== *)
theory Virtio_Net_Loop
  imports Virtio_Net_Loopback
begin

text \<open>
  The transmit loop of the network device as a whole: what it leaves alone, that it returns every chain it
  pops, when it ends and when it panics, and the states the device can reach through its registers.
\<close>

text \<open>What the data path leaves alone: everything but the queues, the counters, the scratch buffer and the poison flags.\<close>

definition same_regs :: "('m, 'q) net_device \<Rightarrow> ('m, 'q) net_device \<Rightarrow> bool" where
  "same_regs d d' \<longleftrightarrow> queue_select d' = queue_select d \<and> device_features_sel d' = device_features_sel d
     \<and> driver_features_sel d' = driver_features_sel d \<and> driver_features d' = driver_features d
     \<and> device_status d' = device_status d \<and> interrupt_status d' = interrupt_status d
     \<and> config_generation d' = config_generation d \<and> net_irqs d' = net_irqs d \<and> net_mem d' = net_mem d
     \<and> mem_unset_warned d' = mem_unset_warned d \<and> net_cfg d' = net_cfg d"

section \<open>Specification functions and sample values\<close>

text \<open>
  The queues as the loop relies on them: \<open>pending\<close> chains wait to be popped, \<open>used\<close> have been returned. The
  guest adds none while the loop runs, and no chain it posts has an empty descriptor.
\<close>

definition net_queue_law :: "('m, 'q) net_api \<Rightarrow> ('q \<Rightarrow> nat) \<Rightarrow> ('q \<Rightarrow> nat) \<Rightarrow> bool" where
  "net_queue_law api pending used \<longleftrightarrow>
     (\<forall>m q r q'. nq_iter_next api m q = (r, q') \<longrightarrow> used q' = used q
        \<and> (case r of Chain h descs \<Rightarrow> pending q = Suc (pending q') \<and> (\<forall>d \<in> set descs. d_len d \<noteq> 0)
            | NoChain \<Rightarrow> pending q = 0 \<and> pending q' = 0
            | _ \<Rightarrow> pending q' = pending q))
   \<and> (\<forall>m q h n ok m' q'. nq_add_used api m q h n = (ok, m', q') \<longrightarrow>
        pending q' = pending q \<and> used q' = used q + of_bool ok)"

text \<open>One turn of the loop: the receive side and the completion of a popped chain.\<close>

definition tx_turn ::
  "('m, 'q) net_api \<Rightarrow> u16 \<Rightarrow> nat option \<Rightarrow> 'm \<Rightarrow> ('m, 'q) net_device \<Rightarrow> (bool \<times> bool \<times> 'm \<times> ('m, 'q) net_device) option" where
  "tx_turn api head frame_len m d =
     map_option (\<lambda>((rx_published, rx_just_poisoned, d2), m2).
         case tx_complete api head frame_len m2 d2 of (ok, m3, d3) \<Rightarrow> (rx_published \<or> ok, rx_just_poisoned, m3, d3))
       (case frame_len of
          None \<Rightarrow> Some ((False, False, d), m)
        | Some len \<Rightarrow> map_option (\<lambda>(outcome, m', d2). (account_loopback outcome d2, m')) (try_loopback_to_rx api m len d))"

text \<open>Every chain taken from a queue is in its used ring or counted as a failure to put it there.\<close>

definition ring_accounted :: "('q \<Rightarrow> nat) \<Rightarrow> ('q \<Rightarrow> nat) \<Rightarrow> 'q \<Rightarrow> 'q \<Rightarrow> u64 \<Rightarrow> u64 \<Rightarrow> bool" where
  "ring_accounted pending used q q' failures failures' \<longleftrightarrow>
     (\<exists>failed. pending q + used q = pending q' + used q' + failed \<and> failures' = failures + of_nat failed) \<and> used q \<le> used q'"

definition chains_accounted :: "('q \<Rightarrow> nat) \<Rightarrow> ('q \<Rightarrow> nat) \<Rightarrow> ('m, 'q) net_device \<Rightarrow> ('m, 'q) net_device \<Rightarrow> bool" where
  "chains_accounted pending used d d' \<longleftrightarrow>
     ring_accounted pending used (tx_queue d) (tx_queue d') (tx_add_used_failures (counters d)) (tx_add_used_failures (counters d'))
   \<and> ring_accounted pending used (rx_queue d) (rx_queue d') (rx_add_used_failures (counters d)) (rx_add_used_failures (counters d'))"

text \<open>How a header of \<open>n\<close> bytes lies over the leading writable descriptors of a chain, and the addresses of such slots.\<close>

fun header_layout :: "nat \<Rightarrow> chain_descriptor list \<Rightarrow> (u64 \<times> nat) list" where
  "header_layout n [] = []"
| "header_layout n (d # ds) =
     (if n = 0 \<or> \<not> d_write_only d then []
      else let k = min n (unat (d_len d)) in (d_addr d, k) # header_layout (n - k) ds)"

definition slot_range :: "(u64 \<times> nat) list \<Rightarrow> nat set" where
  "slot_range slots = (\<Union>(a, n) \<in> set slots. {unat a..<unat a + n})"

text \<open>
  No header byte stays in the chain: the first \<open>k\<close> slots of the header are zero, and unless those are all of them,
  nothing else was touched; a header write that failed may have left bytes in the slot after them.
\<close>

definition header_undone :: "mem_view \<Rightarrow> mem_view \<Rightarrow> chain_descriptor list \<Rightarrow> bool \<Rightarrow> bool" where
  "header_undone v v' descs write_failed \<longleftrightarrow>
     (let slots = header_layout VIRTIO_NET_HDR_LEN descs in
      \<exists>k \<le> length slots. (\<forall>x \<in> slot_range (take k slots). v' x = Some 0)
        \<and> (k = length slots \<or> (\<forall>x. x \<in> slot_range (take (if write_failed then Suc k else k) slots) \<or> v' x = v x)))"

definition slots_within :: "nat set \<Rightarrow> (u64 \<times> nat) list \<Rightarrow> bool" where
  "slots_within R slots \<longleftrightarrow> (\<forall>(a, n) \<in> set slots. {unat a..<unat a + n} \<subseteq> R)"

text \<open>Memory differs only inside \<open>R\<close>, the header slots lie in \<open>R\<close> and in mapped memory.\<close>

definition rx_confined :: "('m \<Rightarrow> mem_view) \<Rightarrow> nat set \<Rightarrow> 'm rx_state \<Rightarrow> 'm rx_state \<Rightarrow> bool" where
  "rx_confined view R s s' \<longleftrightarrow> dom (view (rw_mem s')) = dom (view (rw_mem s))
     \<and> (\<forall>x. x \<notin> R \<longrightarrow> view (rw_mem s') x = view (rw_mem s) x)
     \<and> (slots_within (R \<inter> dom (view (rw_mem s))) (hdr_write_slots s)
        \<longrightarrow> slots_within (R \<inter> dom (view (rw_mem s))) (hdr_write_slots s'))"

text \<open>What a walk that ended in \<open>flow\<close> has recorded of the header slots, and touched when the header is not complete.\<close>

definition rx_header_so_far ::
  "('m \<Rightarrow> mem_view) \<Rightarrow> (u64 \<times> nat) list \<Rightarrow> unit rx_flow \<Rightarrow> 'm rx_state \<Rightarrow> 'm rx_state \<Rightarrow> bool" where
  "rx_header_so_far view slots flow s s' \<longleftrightarrow>
     (\<exists>k \<le> length slots. hdr_write_slots s' = hdr_write_slots s @ take k slots
        \<and> (k = length slots \<or> (\<forall>x. x \<in> slot_range (take (if flow = RxInvalid WriteFailed then Suc k else k) slots)
              \<or> view (rw_mem s') x = view (rw_mem s) x)))"

definition net_negotiated :: "('m, 'q) net_device \<Rightarrow> bool" where
  "net_negotiated d \<longleftrightarrow> driver_features d AND feature_bit VIRTIO_F_VERSION_1 \<noteq> 0
     \<and> driver_features d AND NOT net_device_features = 0"

text \<open>A poisoned queue shows as NEEDS_RESET until the guest resets the device.\<close>

definition net_inv :: "('m, 'q) net_device \<Rightarrow> bool" where
  "net_inv d \<longleftrightarrow> on_ladder (device_status d)
     \<and> (device_status d AND VIRTIO_CONFIG_S_FEATURES_OK \<noteq> 0 \<longrightarrow> net_negotiated d)
     \<and> (tx_poisoned d \<or> rx_poisoned d \<longrightarrow> device_status d AND VIRTIO_CONFIG_S_NEEDS_RESET \<noteq> 0)"

text \<open>
  Queues that are lists of chains, each an index and descriptors of which those that \<open>keep\<close> rejects are
  left out, with the number of returned chains; memory is its own view.
\<close>

definition sample_net_api ::
  "(chain_descriptor \<Rightarrow> bool) \<Rightarrow> (mem_view, (u16 \<times> chain_descriptor list) list \<times> nat) net_api" where
  "sample_net_api keep =
     \<lparr>q_max_size = (\<lambda>_. 256), q_ready = (\<lambda>_. True), q_set_size = (\<lambda>_ q. q), q_set_ready = (\<lambda>_ q. q),
      q_set_desc = (\<lambda>_ _ q. q), q_set_avail = (\<lambda>_ _ q. q), q_set_used = (\<lambda>_ _ q. q),
      q_set_event_idx = (\<lambda>_ q. q), q_reset = (\<lambda>_. ([], 0)),
      nm_read_slice = (\<lambda>m a n. if \<forall>i<n. m (unat a + i) \<noteq> None then Some (load m (unat a) n) else None),
      nm_write_slice = (\<lambda>m bs a. if \<forall>i<length bs. m (unat a + i) \<noteq> None then (True, store bs (unat a) m) else (False, m)),
      nq_iter_next = (\<lambda>m (cs, u). case cs of [] \<Rightarrow> (NoChain, ([], u)) | (h, ds) # cs' \<Rightarrow> (Chain h (filter keep ds), (cs', u))),
      nq_add_used = (\<lambda>m (cs, u) h n. (True, m, (cs, u + 1)))\<rparr>"

definition sample_net_mem :: mem_view where
  "sample_net_mem = (\<lambda>x. if x < 4096 then Some (of_nat x) else None)"

definition sample_tx_chain :: "u16 \<times> chain_descriptor list" where
  "sample_tx_chain = (3, [\<lparr>d_addr = 0, d_len = 16, d_write_only = False\<rparr>])"

definition sample_rx_chain :: "u16 \<times> chain_descriptor list" where
  "sample_rx_chain = (5, [\<lparr>d_addr = 0x100, d_len = 8, d_write_only = True\<rparr>, \<lparr>d_addr = 0x200, d_len = 64, d_write_only = True\<rparr>])"

definition bad_rx_chain :: "u16 \<times> chain_descriptor list" where
  "bad_rx_chain = (5, [\<lparr>d_addr = 0x100, d_len = 12, d_write_only = True\<rparr>, \<lparr>d_addr = 0x200, d_len = 64, d_write_only = False\<rparr>])"

definition empty_rx_chain :: "u16 \<times> chain_descriptor list" where
  "empty_rx_chain = (5, replicate 13 \<lparr>d_addr = 0x100, d_len = 0, d_write_only = True\<rparr>)"

definition sample_net :: "u16 \<times> chain_descriptor list \<Rightarrow> (mem_view, (u16 \<times> chain_descriptor list) list \<times> nat) net_device" where
  "sample_net rx = (net_new ([], 0) (replicate 6 0))\<lparr>device_status := 0xf, net_mem := Some sample_net_mem,
     tx_queue := ([sample_tx_chain], 0), rx_queue := ([rx], 0)\<rparr>"

definition sample_view :: "mem_view \<Rightarrow> mem_view" where "sample_view m = m"

lemma same_regs_refl [simp]: "same_regs d d" by (simp add: same_regs_def)

lemma same_regs_trans: "same_regs a b \<Longrightarrow> same_regs b c \<Longrightarrow> same_regs a c" by (simp add: same_regs_def)

lemma same_regs_count [simp]: "same_regs d (net_count f d') = same_regs d d'" by (simp add: same_regs_def net_count_def)

lemma net_count_simps [simp]:
  "rx_queue (net_count f d) = rx_queue d" "tx_queue (net_count f d) = tx_queue d" "net_mem (net_count f d) = net_mem d"
  "tx_frame_scratch (net_count f d) = tx_frame_scratch d" "rx_poisoned (net_count f d) = rx_poisoned d"
  "tx_poisoned (net_count f d) = tx_poisoned d" "counters (net_count f d) = f (counters d)"
  by (simp_all add: net_count_def)

lemma tx_walk_length:
  assumes "net_read_law api view"
  shows "length fr \<le> MAX_FRAME_SIZE \<Longrightarrow> tx_walk api m descs h fr = (bad, h', fr') \<Longrightarrow> length fr' \<le> MAX_FRAME_SIZE"
proof (induction descs arbitrary: h fr)
  case (Cons d descs)
  have "length bs = n" if "nm_read_slice api m a n = Some bs" for a n bs
    using assms that unfolding net_read_law_def by blast
  then have "length (fr @ bs) \<le> MAX_FRAME_SIZE"
    if "nm_read_slice api m a (min k (MAX_FRAME_SIZE - length fr)) = Some bs" for a k bs
    using that Cons.prems(1) by fastforce
  with Cons.IH have "length fr' \<le> MAX_FRAME_SIZE" if "nm_read_slice api m a (min k (MAX_FRAME_SIZE - length fr)) = Some bs"
    "tx_walk api m descs h2 (fr @ bs) = (bad, h', fr')" for a k bs h2
    using that by blast
  with Cons show ?case by (auto simp: Let_def split: if_splits option.splits)
qed simp

lemma pop_frame:
  assumes "pop_and_capture_tx api m d = (r, d')"
  shows "same_regs d d'" "rx_queue d' = rx_queue d" "rx_poisoned d' = rx_poisoned d"
    "tx_poisoned d' = (tx_poisoned d \<or> r = TxJustPoisoned)" "r = TxJustPoisoned \<Longrightarrow> \<not> tx_poisoned d"
    "tx_add_used_failures (counters d') = tx_add_used_failures (counters d)"
    "r = TxChain h (Some n) \<Longrightarrow> n = length (tx_frame_scratch d')"
    "rx_add_used_failures (counters d') = rx_add_used_failures (counters d)"
  using assms
  by (auto simp: pop_and_capture_tx_def Let_def same_regs_def net_count_def record_tx_chain_invalid_def
      net_record_invalid_avail_idx_def split: if_splits prod.splits vq_next.splits)

lemma pop_scratch:
  assumes "net_read_law api view" and "pop_and_capture_tx api m d = (TxChain h n, d')"
  shows "length (tx_frame_scratch d') \<le> MAX_FRAME_SIZE"
  using assms(2) tx_walk_length [OF assms(1), of "[]"]
  by (auto simp: pop_and_capture_tx_def Let_def split: if_splits prod.splits vq_next.splits)

lemma rx_finish_frame:
  assumes "rx_finish api head (flow, s) d = Some (outcome, m', d')"
  shows "same_regs d d'" "tx_queue d' = tx_queue d" "tx_poisoned d' = tx_poisoned d" "rx_poisoned d' = rx_poisoned d"
    "tx_frame_scratch d' = tx_frame_scratch d" "outcome \<noteq> JustRxPoisoned"
    "tx_add_used_failures (counters d') = tx_add_used_failures (counters d)"
  using assms
  by (auto simp: rx_finish_def rx_add_used_def Let_def same_regs_def net_count_def record_rx_chain_invalid_def
      record_rx_write_failed_def record_rx_add_used_failure_def
      split: if_splits prod.splits rx_flow.splits invalid_reason.splits)

lemma loopback_frame:
  assumes "try_loopback_to_rx api m n d = Some (outcome, m', d')"
  shows "same_regs d d'" "tx_queue d' = tx_queue d" "tx_poisoned d' = tx_poisoned d"
    "rx_poisoned d' = (rx_poisoned d \<or> outcome = JustRxPoisoned)" "outcome = JustRxPoisoned \<Longrightarrow> \<not> rx_poisoned d"
    "tx_add_used_failures (counters d') = tx_add_used_failures (counters d)"
proof -
  obtain next' q where nx: "nq_iter_next api m (rx_queue d) = (next', q)" by fastforce
  have "same_regs d d' \<and> tx_queue d' = tx_queue d \<and> tx_poisoned d' = tx_poisoned d
    \<and> rx_poisoned d' = (rx_poisoned d \<or> outcome = JustRxPoisoned) \<and> (outcome = JustRxPoisoned \<longrightarrow> \<not> rx_poisoned d)
    \<and> tx_add_used_failures (counters d') = tx_add_used_failures (counters d)"
  proof (cases "rx_poisoned d \<or> \<not> q_ready api (rx_queue d)")
    case False
    show ?thesis
    proof (cases next')
      case (Chain head descs)
      obtain flow s where w: "rx_walk api (tx_frame_scratch d) n descs (rx_start m) = (flow, s)" by fastforce
      with False nx Chain assms have "rx_finish api head (flow, s) (d\<lparr>rx_queue := q\<rparr>) = Some (outcome, m', d')"
        by (simp add: try_loopback_to_rx_def)
      from rx_finish_frame [OF this] False show ?thesis by (simp add: same_regs_def)
    qed (use False nx assms in \<open>auto simp: try_loopback_to_rx_def same_regs_def net_count_def net_record_invalid_avail_idx_def\<close>)
  qed (use assms in \<open>cases "rx_poisoned d"; auto simp: try_loopback_to_rx_def\<close>)
  then show "same_regs d d'" "tx_queue d' = tx_queue d" "tx_poisoned d' = tx_poisoned d"
    "rx_poisoned d' = (rx_poisoned d \<or> outcome = JustRxPoisoned)" "outcome = JustRxPoisoned \<Longrightarrow> \<not> rx_poisoned d"
    "tx_add_used_failures (counters d') = tx_add_used_failures (counters d)" by simp_all
qed

lemma net_queue_lawD:
  assumes "net_queue_law api pending used"
  shows "nq_iter_next api m q = (r, q') \<Longrightarrow> used q' = used q"
    and "nq_iter_next api m q = (Chain h descs, q') \<Longrightarrow> pending q = Suc (pending q')"
    and "nq_iter_next api m q = (Chain h descs, q') \<Longrightarrow> \<forall>d \<in> set descs. d_len d \<noteq> 0"
    and "nq_iter_next api m q = (NoChain, q') \<Longrightarrow> pending q = 0 \<and> pending q' = 0"
    and "nq_iter_next api m q = (InvalidAvailRingIndex, q') \<Longrightarrow> pending q' = pending q"
    and "nq_iter_next api m q = (IterFailed, q') \<Longrightarrow> pending q' = pending q"
    and "nq_add_used api m q head n = (ok, m', q') \<Longrightarrow> pending q' = pending q \<and> used q' = used q + of_bool ok"
  using assms unfolding net_queue_law_def by (auto split: vq_next.splits)

lemma pop_pending:
  assumes "net_queue_law api pending used" and "pop_and_capture_tx api m d = (r, d')"
  shows "used (tx_queue d') = used (tx_queue d)"
    and "pending (tx_queue d) = pending (tx_queue d') + (case r of TxChain _ _ \<Rightarrow> 1 | _ \<Rightarrow> 0)"
    and "r = TxEmpty \<Longrightarrow> tx_poisoned d \<or> pending (tx_queue d') = 0"
  using assms(2) net_queue_lawD [OF assms(1)]
  by (auto simp: pop_and_capture_tx_def Let_def split: if_splits prod.splits vq_next.splits)

lemma rx_add_used_used:
  assumes "net_queue_law api pending used" and "rx_add_used api head n m d = (ok, m', d')"
  shows "used (rx_queue d') = used (rx_queue d) + of_bool ok" and "pending (rx_queue d') = pending (rx_queue d)"
    and "rx_add_used_failures (counters d') = rx_add_used_failures (counters d) + of_bool (\<not> ok)"
  using assms(2) net_queue_lawD(7) [OF assms(1)]
  by (auto simp: rx_add_used_def Let_def net_count_def record_rx_add_used_failure_def split: prod.splits if_splits)

lemma rx_finish_used:
  assumes law: "net_queue_law api pending used" and run: "rx_finish api head (flow, s) d = Some (outcome, m', d')"
  shows "\<exists>ok. used (rx_queue d') = used (rx_queue d) + of_bool ok \<and> pending (rx_queue d') = pending (rx_queue d)
    \<and> rx_add_used_failures (counters d') = rx_add_used_failures (counters d) + of_bool (\<not> ok)
    \<and> fst (account_loopback outcome d') = ok"
proof (cases flow)
  case (RxInvalid reason)
  let ?d = "net_count (case reason of Shape \<Rightarrow> record_rx_chain_invalid | WriteFailed \<Rightarrow> record_rx_write_failed) d"
  obtain ok m d2 where a: "rx_add_used api head 0 (zero_header_slots api (hdr_write_slots s) (rw_mem s)) ?d = (ok, m, d2)" by (rule prod_cases3)
  with run RxInvalid have "outcome = RxChainInvalid ok" "d' = d2" by (simp_all add: rx_finish_def)
  moreover have "rx_add_used_failures (counters ?d) = rx_add_used_failures (counters d)"
    by (cases reason) (simp_all add: net_count_def record_rx_chain_invalid_def record_rx_write_failed_def)
  ultimately show ?thesis using rx_add_used_used [OF law a] by (simp add: account_loopback_def)
next
  case (RxGo u)
  obtain ok m d1 where a: "rx_add_used api head (rw_bytes_written s) (rw_mem s) d = (ok, m, d1)" by (rule prod_cases3)
  with run RxGo a rx_add_used_used [OF law a] show ?thesis
    by (cases ok) (auto simp: rx_finish_def account_loopback_def)
qed (use run in \<open>simp add: rx_finish_def\<close>)

lemma loopback_used:
  assumes law: "net_queue_law api pending used" and run: "try_loopback_to_rx api m n d = Some (outcome, m', d')"
  shows "used (rx_queue d') = used (rx_queue d) + of_bool (fst (account_loopback outcome d'))"
    and "ring_accounted pending used (rx_queue d) (rx_queue d') (rx_add_used_failures (counters d)) (rx_add_used_failures (counters d'))"
proof -
  obtain next' q where nx: "nq_iter_next api m (rx_queue d) = (next', q)" by fastforce
  note u = net_queue_lawD(1) [OF law nx]
  have "used (rx_queue d') = used (rx_queue d) + of_bool (fst (account_loopback outcome d'))
    \<and> ring_accounted pending used (rx_queue d) (rx_queue d') (rx_add_used_failures (counters d)) (rx_add_used_failures (counters d'))"
  proof (cases "rx_poisoned d \<or> \<not> q_ready api (rx_queue d)")
    case False
    show ?thesis
    proof (cases next')
      case (Chain head descs)
      obtain flow s where w: "rx_walk api (tx_frame_scratch d) n descs (rx_start m) = (flow, s)" by fastforce
      with False nx Chain run have "rx_finish api head (flow, s) (d\<lparr>rx_queue := q\<rparr>) = Some (outcome, m', d')"
        by (simp add: try_loopback_to_rx_def)
      from rx_finish_used [OF law this] obtain ok where "used (rx_queue d') = used q + of_bool ok" "pending (rx_queue d') = pending q"
        "rx_add_used_failures (counters d') = rx_add_used_failures (counters d) + of_bool (\<not> ok)" "fst (account_loopback outcome d') = ok" by auto
      moreover have "pending (rx_queue d) = Suc (pending q)" using net_queue_lawD(2) [OF law] nx Chain by blast
      ultimately show ?thesis using u unfolding ring_accounted_def by (intro conjI exI [of _ "of_bool (\<not> ok)"]) auto
    qed (use False nx run u net_queue_lawD(4-6) [OF law] in
        \<open>auto simp: try_loopback_to_rx_def account_loopback_def ring_accounted_def net_count_def net_record_invalid_avail_idx_def\<close>)
  qed (use run in \<open>cases "rx_poisoned d"; auto simp: try_loopback_to_rx_def account_loopback_def ring_accounted_def\<close>)
  then show "used (rx_queue d') = used (rx_queue d) + of_bool (fst (account_loopback outcome d'))"
    "ring_accounted pending used (rx_queue d) (rx_queue d') (rx_add_used_failures (counters d)) (rx_add_used_failures (counters d'))" by blast+
qed

lemma loopback_never_panics:
  assumes law: "net_queue_law api pending used" and "n = length (tx_frame_scratch d)" "n \<le> MAX_FRAME_SIZE"
  shows "try_loopback_to_rx api m n d \<noteq> None"
proof -
  obtain next' q where nx: "nq_iter_next api m (rx_queue d) = (next', q)" by fastforce
  have "rx_finish api head (rx_walk api (tx_frame_scratch d) n descs (rx_start m)) (d\<lparr>rx_queue := q\<rparr>) \<noteq> None"
    if "next' = Chain head descs" for head descs
  proof -
    obtain flow s where w: "rx_walk api (tx_frame_scratch d) n descs (rx_start m) = (flow, s)" by fastforce
    have "\<forall>d \<in> set descs. d_len d \<noteq> 0" using net_queue_lawD(3) [OF law] nx that by blast
    from rx_walk_never_panics [OF assms(3,2) rx_ok_start this, of api m] have "flow \<noteq> RxPanic" by (simp add: w)
    then show ?thesis by (cases flow) (simp_all add: w rx_finish_def Let_def split: prod.splits)
  qed
  then show ?thesis using nx by (cases next') (simp_all add: try_loopback_to_rx_def Let_def)
qed

lemma account_frame:
  "account_loopback outcome d = (pub, poisoned, d') \<Longrightarrow>
     same_regs d d' \<and> rx_queue d' = rx_queue d \<and> tx_queue d' = tx_queue d \<and> rx_poisoned d' = rx_poisoned d
     \<and> tx_poisoned d' = tx_poisoned d \<and> (poisoned \<longleftrightarrow> outcome = JustRxPoisoned)
     \<and> tx_add_used_failures (counters d') = tx_add_used_failures (counters d)
     \<and> rx_add_used_failures (counters d') = rx_add_used_failures (counters d)"
  by (cases outcome) (auto simp: account_loopback_def record_rx_delivered_def record_tx_dropped_no_rx_buffer_def)

lemma tx_complete_frame:
  assumes "tx_complete api head n m d = (ok, m', d')"
  shows "same_regs d d'" "rx_queue d' = rx_queue d" "rx_poisoned d' = rx_poisoned d" "tx_poisoned d' = tx_poisoned d"
    "tx_add_used_failures (counters d') = tx_add_used_failures (counters d) + of_bool (\<not> ok)"
    "net_queue_law api pending used \<Longrightarrow> pending (tx_queue d') = pending (tx_queue d) \<and> used (tx_queue d') = used (tx_queue d) + of_bool ok"
    "rx_add_used_failures (counters d') = rx_add_used_failures (counters d)"
  using assms net_queue_lawD(7) [of api pending used]
  by (auto simp: tx_complete_def Let_def same_regs_def net_count_def record_tx_completed_def record_tx_add_used_failure_def
      split: prod.splits if_splits option.splits)

lemma tx_loop_turn:
  "tx_loop (Suc fuel) api published m d =
     (case pop_and_capture_tx api m d of
        (TxEmpty, d1) \<Rightarrow> Returns (published, False, m, d1)
      | (TxJustPoisoned, d1) \<Rightarrow> Returns (published, True, m, d1)
      | (TxChain head frame_len, d1) \<Rightarrow>
          (case tx_turn api head frame_len m d1 of
             None \<Rightarrow> Panics
           | Some (pub, poisoned, m3, d3) \<Rightarrow>
               if poisoned then Returns (published \<or> pub, True, m3, d3) else tx_loop fuel api (published \<or> pub) m3 d3))"
  by (auto simp: tx_turn_def Let_def disj_assoc split: prod.splits tx_pop_outcome.splits option.splits)

lemma tx_turnE:
  assumes "tx_turn api head frame_len m d = Some (pub, poisoned, m', d')"
  obtains p1 d2 m2 ok where "tx_complete api head frame_len m2 d2 = (ok, m', d')" "pub = (p1 \<or> ok)"
    "frame_len = None \<and> \<not> p1 \<and> \<not> poisoned \<and> d2 = d
     \<or> (\<exists>len outcome d1. frame_len = Some len \<and> try_loopback_to_rx api m len d = Some (outcome, m2, d1)
          \<and> account_loopback outcome d1 = (p1, poisoned, d2))"
proof -
  let ?x = "case frame_len of None \<Rightarrow> Some ((False, False, d), m)
        | Some len \<Rightarrow> map_option (\<lambda>(outcome, m', d2). (account_loopback outcome d2, m')) (try_loopback_to_rx api m len d)"
  obtain x where x: "?x = Some x" using assms by (auto simp: tx_turn_def)
  obtain p1 b d2 m2 where x': "x = ((p1, b, d2), m2)" by (metis surj_pair)
  obtain ok m3 d3 where t: "tx_complete api head frame_len m2 d2 = (ok, m3, d3)" by (rule prod_cases3)
  from assms x x' t have "m3 = m'" "d3 = d'" "b = poisoned" "pub = (p1 \<or> ok)" by (auto simp: tx_turn_def)
  with t x x' that [of m2 d2 ok p1] show thesis by (cases frame_len) auto
qed

lemma tx_turn_frame:
  assumes "tx_turn api head frame_len m d = Some (pub, poisoned, m', d')"
  shows "same_regs d d'" "tx_poisoned d' = tx_poisoned d" "rx_poisoned d' = (rx_poisoned d \<or> poisoned)"
    "poisoned \<Longrightarrow> \<not> rx_poisoned d"
proof -
  from assms obtain p1 d2 m2 ok where t: "tx_complete api head frame_len m2 d2 = (ok, m', d')" and
    c: "frame_len = None \<and> \<not> p1 \<and> \<not> poisoned \<and> d2 = d
     \<or> (\<exists>len outcome d1. frame_len = Some len \<and> try_loopback_to_rx api m len d = Some (outcome, m2, d1)
          \<and> account_loopback outcome d1 = (p1, poisoned, d2))" by (rule tx_turnE)
  from c have "same_regs d d2 \<and> tx_poisoned d2 = tx_poisoned d \<and> rx_poisoned d2 = (rx_poisoned d \<or> poisoned) \<and> (poisoned \<longrightarrow> \<not> rx_poisoned d)"
  proof (elim disjE exE conjE)
    fix len outcome d1
    assume l: "try_loopback_to_rx api m len d = Some (outcome, m2, d1)" "account_loopback outcome d1 = (p1, poisoned, d2)"
    from account_frame [OF l(2)] loopback_frame [OF l(1)] show ?thesis by (auto intro: same_regs_trans)
  qed simp
  with tx_complete_frame(1-4) [OF t] show "same_regs d d'" "tx_poisoned d' = tx_poisoned d"
    "rx_poisoned d' = (rx_poisoned d \<or> poisoned)" "poisoned \<Longrightarrow> \<not> rx_poisoned d" by (auto intro: same_regs_trans)
qed

lemma tx_turn_queues:
  assumes law: "net_queue_law api pending used" and turn: "tx_turn api head frame_len m d = Some (pub, poisoned, m', d')"
  shows "pending (tx_queue d') = pending (tx_queue d)"
    "\<exists>ok. used (tx_queue d') = used (tx_queue d) + of_bool ok
       \<and> tx_add_used_failures (counters d') = tx_add_used_failures (counters d) + of_bool (\<not> ok)
       \<and> (pub \<longleftrightarrow> used (tx_queue d) + used (rx_queue d) < used (tx_queue d') + used (rx_queue d'))
       \<and> ring_accounted pending used (rx_queue d) (rx_queue d') (rx_add_used_failures (counters d)) (rx_add_used_failures (counters d'))"
proof -
  from turn obtain p1 d2 m2 ok where t: "tx_complete api head frame_len m2 d2 = (ok, m', d')" "pub = (p1 \<or> ok)" and
    c: "frame_len = None \<and> \<not> p1 \<and> \<not> poisoned \<and> d2 = d
     \<or> (\<exists>len outcome d1. frame_len = Some len \<and> try_loopback_to_rx api m len d = Some (outcome, m2, d1)
          \<and> account_loopback outcome d1 = (p1, poisoned, d2))" by (rule tx_turnE)
  from c have d2: "tx_queue d2 = tx_queue d \<and> used (rx_queue d2) = used (rx_queue d) + of_bool p1
      \<and> tx_add_used_failures (counters d2) = tx_add_used_failures (counters d)
      \<and> ring_accounted pending used (rx_queue d) (rx_queue d2) (rx_add_used_failures (counters d)) (rx_add_used_failures (counters d2))"
  proof (elim disjE exE conjE)
    fix len outcome d1
    assume l: "try_loopback_to_rx api m len d = Some (outcome, m2, d1)" "account_loopback outcome d1 = (p1, poisoned, d2)"
    from account_frame [OF l(2)] loopback_frame [OF l(1)] loopback_used [OF law l(1)] l(2) show ?thesis by simp
  qed (simp add: ring_accounted_def)
  note f = tx_complete_frame(2,5) [OF t(1)] tx_complete_frame(6) [OF t(1) law] tx_complete_frame(7) [OF t(1)]
  show "pending (tx_queue d') = pending (tx_queue d)" using f(3) d2 by simp
  show "\<exists>ok. used (tx_queue d') = used (tx_queue d) + of_bool ok
       \<and> tx_add_used_failures (counters d') = tx_add_used_failures (counters d) + of_bool (\<not> ok)
       \<and> (pub \<longleftrightarrow> used (tx_queue d) + used (rx_queue d) < used (tx_queue d') + used (rx_queue d'))
       \<and> ring_accounted pending used (rx_queue d) (rx_queue d') (rx_add_used_failures (counters d)) (rx_add_used_failures (counters d'))"
    using f d2 t(2) by (intro exI [of _ ok]) auto
qed

lemma tx_turn_returns:
  assumes "net_queue_law api pending used" and "\<And>n. frame_len = Some n \<Longrightarrow> n = length (tx_frame_scratch d) \<and> n \<le> MAX_FRAME_SIZE"
  shows "\<exists>pub poisoned m' d'. tx_turn api head frame_len m d = Some (pub, poisoned, m', d')"
proof -
  have "tx_turn api head frame_len m d \<noteq> None"
    using assms(2) loopback_never_panics [OF assms(1), of _ d m]
    by (cases frame_len) (auto simp: tx_turn_def)
  then show ?thesis by auto
qed

text \<open>Whatever the queues do, the loop touches no register and reports every new poisoning.\<close>

lemma tx_loop_frame:
  "tx_loop fuel api published m d = Returns (pub, poisoned, m', d') \<Longrightarrow>
     same_regs d d' \<and> (tx_poisoned d' \<or> rx_poisoned d' \<longleftrightarrow> tx_poisoned d \<or> rx_poisoned d \<or> poisoned)"
proof (induction fuel arbitrary: published m d)
  case (Suc fuel)
  obtain r d1 where p: "pop_and_capture_tx api m d = (r, d1)" by fastforce
  note pf = pop_frame(1,3,4,5) [OF p]
  show ?case
  proof (cases r)
    case (TxChain head frame_len)
    with Suc.prems p obtain pb po m3 d3 where t: "tx_turn api head frame_len m d1 = Some (pb, po, m3, d3)"
      by (auto simp: tx_loop_turn split: option.splits simp del: tx_loop.simps)
    note tf = tx_turn_frame [OF t]
    show ?thesis
    proof (cases po)
      case True
      with Suc.prems p TxChain t have "poisoned" "d' = d3" by (auto simp: tx_loop_turn simp del: tx_loop.simps)
      with True pf tf show ?thesis by (auto intro: same_regs_trans)
    next
      case False
      with Suc.prems p TxChain t have "tx_loop fuel api (published \<or> pb) m3 d3 = Returns (pub, poisoned, m', d')"
        by (auto simp: tx_loop_turn simp del: tx_loop.simps)
      from Suc.IH [OF this] False pf tf TxChain show ?thesis by (auto intro: same_regs_trans)
    qed
  qed (use Suc.prems p pf in \<open>auto simp: tx_loop_turn simp del: tx_loop.simps\<close>)
qed simp

lemma ring_accounted_trans:
  assumes "ring_accounted pending used a b x y" "ring_accounted pending used b c y z" shows "ring_accounted pending used a c x z"
proof -
  from assms obtain k l where "pending a + used a = pending b + used b + k" "y = x + of_nat k"
    "pending b + used b = pending c + used c + l" "z = y + of_nat l" by (auto simp: ring_accounted_def)
  with assms show ?thesis unfolding ring_accounted_def by (intro conjI exI [of _ "k + l"]) (auto simp: add.assoc)
qed

lemma ring_accounted_refl: "ring_accounted pending used q q x x"
  by (simp add: ring_accounted_def)

lemma chains_accounted_trans:
  "chains_accounted pending used a b \<Longrightarrow> chains_accounted pending used b c \<Longrightarrow> chains_accounted pending used a c"
  unfolding chains_accounted_def by (blast intro: ring_accounted_trans)

lemma tx_loop_returns:
  assumes laws: "net_queue_law api pending used" "net_read_law api view"
  shows "pending (tx_queue d) < fuel \<Longrightarrow> \<exists>pub poisoned m' d'. tx_loop fuel api published m d = Returns (pub, poisoned, m', d')
    \<and> (poisoned \<or> tx_poisoned d \<or> pending (tx_queue d') = 0) \<and> chains_accounted pending used d d'
    \<and> (pub \<longleftrightarrow> published \<or> used (tx_queue d) + used (rx_queue d) < used (tx_queue d') + used (rx_queue d'))"
proof (induction fuel arbitrary: published m d)
  case (Suc fuel)
  obtain r d1 where p: "pop_and_capture_tx api m d = (r, d1)" by fastforce
  note pf = pop_frame(2,4,6,8) [OF p] and pp = pop_pending [OF laws(1) p]
  show ?case
  proof (cases r)
    case (TxChain head frame_len)
    have "n = length (tx_frame_scratch d1) \<and> n \<le> MAX_FRAME_SIZE" if "frame_len = Some n" for n
      using pop_frame(7) [OF p] pop_scratch [OF laws(2)] p that TxChain by blast
    from tx_turn_returns [OF laws(1) this] obtain pb po m3 d3
      where t: "tx_turn api head frame_len m d1 = Some (pb, po, m3, d3)" by blast
    from tx_turn_queues [OF laws(1) t] obtain ok where q: "pending (tx_queue d3) = pending (tx_queue d1)"
      "used (tx_queue d3) = used (tx_queue d1) + of_bool ok"
      "tx_add_used_failures (counters d3) = tx_add_used_failures (counters d1) + of_bool (\<not> ok)"
      "pb \<longleftrightarrow> used (tx_queue d1) + used (rx_queue d1) < used (tx_queue d3) + used (rx_queue d3)"
      "ring_accounted pending used (rx_queue d1) (rx_queue d3) (rx_add_used_failures (counters d1)) (rx_add_used_failures (counters d3))" by blast
    have "ring_accounted pending used (tx_queue d) (tx_queue d3) (tx_add_used_failures (counters d)) (tx_add_used_failures (counters d3))"
      unfolding ring_accounted_def using q pf pp TxChain by (intro conjI exI [of _ "of_bool (\<not> ok)"]) auto
    with q(5) pf have acc: "chains_accounted pending used d d3" by (simp add: chains_accounted_def)
    have pb: "pb \<longleftrightarrow> used (tx_queue d) + used (rx_queue d) < used (tx_queue d3) + used (rx_queue d3)" using q(4) pf(1) pp(1) by simp
    have run: "tx_loop (Suc fuel) api published m d
        = (if po then Returns (published \<or> pb, True, m3, d3) else tx_loop fuel api (published \<or> pb) m3 d3)"
      using p TxChain t by (simp add: tx_loop_turn del: tx_loop.simps)
    show ?thesis
    proof (cases po)
      case True
      with run acc pb show ?thesis by auto
    next
      case False
      have "pending (tx_queue d3) < fuel" using Suc.prems pp(2) TxChain q(1) by simp
      from Suc.IH [OF this, of "published \<or> pb" m3] obtain pub poisoned m' d' where
        l: "tx_loop fuel api (published \<or> pb) m3 d3 = Returns (pub, poisoned, m', d')"
        "poisoned \<or> tx_poisoned d3 \<or> pending (tx_queue d') = 0" "chains_accounted pending used d3 d'"
        "pub \<longleftrightarrow> (published \<or> pb) \<or> used (tx_queue d3) + used (rx_queue d3) < used (tx_queue d') + used (rx_queue d')" by blast
      have "tx_poisoned d3 = tx_poisoned d" using tx_turn_frame(2) [OF t] pf(2) TxChain by simp
      moreover have "pub \<longleftrightarrow> published \<or> used (tx_queue d) + used (rx_queue d) < used (tx_queue d') + used (rx_queue d')"
        using l(3,4) acc pb by (auto simp: chains_accounted_def ring_accounted_def)
      ultimately show ?thesis using run False l chains_accounted_trans [OF acc l(3)] by auto
    qed
  qed (use p pf pp in \<open>auto simp: tx_loop_turn chains_accounted_def ring_accounted_def simp del: tx_loop.simps\<close>)
qed simp

section \<open>Confinement\<close>

lemma rx_confined_refl: "rx_confined view R s s" by (simp add: rx_confined_def)

lemma rx_confined_trans: "rx_confined view R a b \<Longrightarrow> rx_confined view R b c \<Longrightarrow> rx_confined view R a c"
  by (simp add: rx_confined_def)

lemma write_confined:
  assumes law: "net_write_law api view" and w: "nm_write_slice api m bs a = (ok, m')" and r: "{unat a..<unat a + length bs} \<subseteq> R"
  shows "dom (view m') = dom (view m)" "x \<notin> R \<Longrightarrow> view m' x = view m x"
    "ok \<Longrightarrow> {unat a..<unat a + length bs} \<subseteq> dom (view m)"
proof -
  show d: "dom (view m') = dom (view m)" using net_write_lawD(1) [OF law w] .
  show "x \<notin> R \<Longrightarrow> view m' x = view m x" using net_write_lawD(2) [OF law w] r by blast
  show "ok \<Longrightarrow> {unat a..<unat a + length bs} \<subseteq> dom (view m)"
    using net_write_lawD(3) [OF law w] unfolding d [symmetric] by (auto simp: store_def dom_def)
qed

lemma rx_place_header_confined:
  assumes law: "net_write_law api view" and R: "{unat a..<unat a + len} \<subseteq> R" and hdr: "rw_hdr_remaining s \<le> VIRTIO_NET_HDR_LEN"
    and run: "rx_place_header api a len s = (flow, s')"
  shows "rx_confined view R s s'" and "flow = RxGo (a', l') \<Longrightarrow> {unat a'..<unat a' + l'} \<subseteq> R" and "rw_hdr_remaining s' \<le> VIRTIO_NET_HDR_LEN"
proof -
  define t where "t = min (rw_hdr_remaining s) len"
  define p where "p = VIRTIO_NET_HDR_LEN - rw_hdr_remaining s"
  obtain ok m where w: "nm_write_slice api (rw_mem s) (byte_slice RX_HDR p (p + t)) a = (ok, m)" by fastforce
  have t: "t \<le> len" "t \<le> VIRTIO_NET_HDR_LEN" and bs: "length (byte_slice RX_HDR p (p + t)) = t" using hdr by (simp_all add: t_def p_def)
  have tR: "{unat a..<unat a + t} \<subseteq> R" using R t(1) by (auto simp: subset_iff)
  then have "{unat a..<unat a + length (byte_slice RX_HDR p (p + t))} \<subseteq> R" unfolding bs .
  note c = write_confined [OF law w this, unfolded bs]
  have sl: "ok \<Longrightarrow> slots_within (R \<inter> dom (view (rw_mem s))) (hdr_write_slots s)
      \<Longrightarrow> slots_within (R \<inter> dom (view (rw_mem s))) (hdr_write_slots s @ [(a, t)])"
    using c(3) tR by (simp add: slots_within_def)
  have adv: "{unat x..<unat x + (len - t)} \<subseteq> R" if "checked_add a (of_nat t) = Some x" for x
  proof -
    have "unat (of_nat t :: u64) = t" using t(2) by (intro unat_of_nat_no_overflow) (simp add: VIRTIO_NET_HDR_LEN_def)
    with checked_add_Some [OF that] have "{unat x..<unat x + (len - t)} \<subseteq> {unat a..<unat a + len}" using t(1) by auto
    with R show ?thesis by blast
  qed
  note run' = run [unfolded rx_place_header_def Let_def t_def [symmetric] p_def [symmetric] w prod.case]
  show "rx_confined view R s s'"
    using run' c(1,2) sl by (simp add: rx_confined_def split: if_splits option.splits) (clarsimp simp: c(1))+
  show "flow = RxGo (a', l') \<Longrightarrow> {unat a'..<unat a' + l'} \<subseteq> R"
    using run' adv R by (simp split: if_splits option.splits)
  show "rw_hdr_remaining s' \<le> VIRTIO_NET_HDR_LEN"
    using run' hdr by (auto split: if_splits option.splits)
qed

lemma rx_place_frame_confined:
  assumes law: "net_write_law api view" and R: "{unat a..<unat a + len} \<subseteq> R" and "rx_place_frame api scratch n a len s = (flow, s')"
  shows "rx_confined view R s s'" and "rw_hdr_remaining s' = rw_hdr_remaining s"
proof -
  let ?t = "min len (n - rw_frame_pos s)"
  let ?bs = "byte_slice scratch (rw_frame_pos s) (rw_frame_pos s + ?t)"
  obtain ok m where w: "nm_write_slice api (rw_mem s) ?bs a = (ok, m)" by fastforce
  have "length ?bs \<le> len" by (simp add: byte_slice_def)
  then have "{unat a..<unat a + length ?bs} \<subseteq> R" using R by (auto simp: subset_iff)
  note c = write_confined(1,2) [OF law w this]
  show "rx_confined view R s s'" "rw_hdr_remaining s' = rw_hdr_remaining s"
    using assms(3) w c unfolding rx_place_frame_def
    by (simp_all add: Let_def rx_confined_def split: if_splits option.splits) (clarsimp simp: c(1))+
qed

lemma rx_walk_confined:
  assumes law: "net_write_law api view"
  shows "chain_range descs \<subseteq> R \<Longrightarrow> rw_hdr_remaining s \<le> VIRTIO_NET_HDR_LEN
    \<Longrightarrow> rx_walk api scratch n descs s = (flow, s') \<Longrightarrow> rx_confined view R s s'"
proof (induction descs arbitrary: s)
  case (Cons d descs)
  have R: "{unat (d_addr d)..<unat (d_addr d) + unat (d_len d)} \<subseteq> R" "chain_range descs \<subseteq> R"
    using Cons.prems(1) by (auto simp: chain_range_def desc_range_def)
  obtain f1 s1 where h: "rx_place_header api (d_addr d) (unat (d_len d)) s = (f1, s1)" by fastforce
  note hc = rx_place_header_confined [OF law R(1) Cons.prems(2) h]
  show ?case
  proof (cases "d_write_only d")
    case wo: True
    show ?thesis
    proof (cases f1)
      case (RxGo al)
      obtain a l where al: "al = (a, l)" by fastforce
      obtain f2 s2 where f: "rx_place_frame api scratch n a l s1 = (f2, s2)" by fastforce
      note fc = rx_place_frame_confined [OF law hc(2) f]
      have c2: "rx_confined view R s s2" using rx_confined_trans [OF hc(1)] fc(1) RxGo al by blast
      show ?thesis
      proof (cases "f2 = RxGo False")
        case True
        with wo h RxGo al f Cons.prems(3) have "rx_walk api scratch n descs s2 = (flow, s')" by simp
        moreover have "rw_hdr_remaining s2 \<le> VIRTIO_NET_HDR_LEN" using hc(3) fc(2) RxGo al by simp
        ultimately show ?thesis using Cons.IH [OF R(2)] rx_confined_trans [OF c2] by blast
      next
        case False
        with wo h RxGo al f Cons.prems(3) have "s' = s2" by (auto split: rx_flow.splits bool.splits)
        with c2 show ?thesis by simp
      qed
    qed (use wo hc h Cons.prems(3) in simp_all)
  qed (use Cons.prems(3) rx_confined_refl in auto)
qed (simp add: rx_confined_refl)

text \<open>The header slots that the walk records.\<close>

lemma header_layout_0 [simp]: "header_layout 0 ds = []" by (cases ds) simp_all

lemma slot_range_simps [simp]:
  "slot_range [] = {}" "slot_range ((a, n) # slots) = {unat a..<unat a + n} \<union> slot_range slots"
  by (simp_all add: slot_range_def)

lemma rx_place_frame_slots:
  "hdr_write_slots (snd (rx_place_frame api scratch n a len s)) = hdr_write_slots s"
  "rw_hdr_remaining (snd (rx_place_frame api scratch n a len s)) = rw_hdr_remaining s"
  by (simp_all add: rx_place_frame_def Let_def split: option.split prod.split)

lemma rx_walk_slots_done:
  "rw_hdr_remaining s = 0 \<Longrightarrow> hdr_write_slots (snd (rx_walk api scratch n descs s)) = hdr_write_slots s"
proof (induction descs arbitrary: s)
  case (Cons d descs)
  obtain f s1 where f: "rx_place_frame api scratch n (d_addr d) (unat (d_len d)) s = (f, s1)" by fastforce
  then have "hdr_write_slots s1 = hdr_write_slots s" "rw_hdr_remaining s1 = 0"
    using rx_place_frame_slots [of api scratch n "d_addr d" "unat (d_len d)" s] Cons.prems by simp_all
  with Cons.IH [of s1] Cons.prems f show ?case by (simp add: rx_place_header_def split: rx_flow.split bool.split)
qed simp

text \<open>How the header bytes of one descriptor end; the slot \<open>(d_addr, t)\<close> is recorded unless the write fails.\<close>

lemma rx_place_header_ends:
  assumes law: "net_write_law api view" and rem: "0 < rw_hdr_remaining s" "rw_hdr_remaining s \<le> VIRTIO_NET_HDR_LEN"
    and run: "rx_place_header api a len s = (flow, s')"
  defines "t \<equiv> min (rw_hdr_remaining s) len"
  shows "flow = RxPanic \<or> (\<forall>x. x \<in> {unat a..<unat a + t} \<or> view (rw_mem s') x = view (rw_mem s) x)
    \<and> (flow = RxInvalid WriteFailed \<and> hdr_write_slots s' = hdr_write_slots s
       \<or> hdr_write_slots s' = hdr_write_slots s @ [(a, t)]
         \<and> (flow = RxInvalid Shape \<or> (\<exists>a'. flow = RxGo (a', len - t)) \<and> rw_hdr_remaining s' = rw_hdr_remaining s - t))"
proof -
  define p where "p = VIRTIO_NET_HDR_LEN - rw_hdr_remaining s"
  obtain ok m where w: "nm_write_slice api (rw_mem s) (byte_slice RX_HDR p (p + t)) a = (ok, m)" by fastforce
  have "length (byte_slice RX_HDR p (p + t)) = t" using rem by (simp add: t_def p_def)
  note out = net_write_lawD(2) [OF law w, unfolded this]
  have "\<forall>x. x \<in> {unat a..<unat a + t} \<or> view m x = view (rw_mem s) x" using out by blast
  with run [unfolded rx_place_header_def Let_def t_def [symmetric] p_def [symmetric] w prod.case] rem(1) show ?thesis
    by (auto split: if_splits option.splits)
qed

lemma rx_header_next:
  assumes "rx_header_so_far view slots flow s1 s'" and "hdr_write_slots s1 = hdr_write_slots s @ [(a, t)]"
    and "\<forall>x. x \<in> {unat a..<unat a + t} \<or> view (rw_mem s1) x = view (rw_mem s) x"
  shows "rx_header_so_far view ((a, t) # slots) flow s s'"
proof -
  from assms(1) obtain k where k: "k \<le> length slots" "hdr_write_slots s' = hdr_write_slots s1 @ take k slots"
    "k = length slots \<or> (\<forall>x. x \<in> slot_range (take (if flow = RxInvalid WriteFailed then Suc k else k) slots)
        \<or> view (rw_mem s') x = view (rw_mem s1) x)" unfolding rx_header_so_far_def by blast
  have "Suc k = length ((a, t) # slots) \<or> (\<forall>x. x \<in> slot_range (take (if flow = RxInvalid WriteFailed then Suc (Suc k) else Suc k) ((a, t) # slots))
        \<or> view (rw_mem s') x = view (rw_mem s) x)"
    (is "?A \<or> (\<forall>x. x \<in> slot_range ?T \<or> _)")
  proof -
    have "slot_range ?T = {unat a..<unat a + t} \<union> slot_range (take (if flow = RxInvalid WriteFailed then Suc k else k) slots)" by simp
    with k(3) assms(3) show ?thesis by (metis UnI1 UnI2 length_Cons)
  qed
  with k(1,2) assms(2) show ?thesis unfolding rx_header_so_far_def by (intro exI [of _ "Suc k"]) simp
qed

lemma rx_header_whole: "hdr_write_slots s' = hdr_write_slots s \<Longrightarrow> rx_header_so_far view [] flow s s'"
  by (simp add: rx_header_so_far_def)

text \<open>The rest of a turn, after the header bytes: frame bytes are placed only when the header is complete.\<close>

lemma rx_frame_header:
  assumes IH: "\<forall>s. rw_hdr_remaining s \<le> VIRTIO_NET_HDR_LEN \<and> rx_walk api scratch n descs s = (flow, s')
      \<longrightarrow> rx_header_so_far view (header_layout (rw_hdr_remaining s) descs) flow s s'"
    and rem: "rw_hdr_remaining s1 \<le> VIRTIO_NET_HDR_LEN" "rw_hdr_remaining s1 = 0 \<or> len = 0"
    and run: "(case rx_place_frame api scratch n a len s1 of
        (RxPanic, s2) \<Rightarrow> (RxPanic, s2)
      | (RxInvalid r, s2) \<Rightarrow> (RxInvalid r, s2)
      | (RxGo True, s2) \<Rightarrow> (RxGo (), s2)
      | (RxGo False, s2) \<Rightarrow> rx_walk api scratch n descs s2) = (flow, s')"
  shows "rx_header_so_far view (header_layout (rw_hdr_remaining s1) descs) flow s1 s'"
proof (cases "len = 0")
  case True
  then have "rx_walk api scratch n descs s1 = (flow, s')" using run by (simp add: rx_place_frame_def)
  then show ?thesis using IH rem(1) by blast
next
  case False
  with rem(2) have r: "rw_hdr_remaining s1 = 0" by simp
  obtain f s2 where f: "rx_place_frame api scratch n a len s1 = (f, s2)" by fastforce
  then have "hdr_write_slots s2 = hdr_write_slots s1" "rw_hdr_remaining s2 = 0"
    using rx_place_frame_slots [of api scratch n a len s1] r by simp_all
  with run f rx_walk_slots_done [of s2 api scratch n descs] have "hdr_write_slots s' = hdr_write_slots s1"
    by (auto split: rx_flow.splits bool.splits)
  then show ?thesis by (simp add: r rx_header_whole)
qed

lemma rx_walk_header:
  assumes law: "net_write_law api view"
  shows "rw_hdr_remaining s \<le> VIRTIO_NET_HDR_LEN \<Longrightarrow> rx_walk api scratch n descs s = (flow, s') \<Longrightarrow> flow \<noteq> RxPanic
    \<Longrightarrow> rx_header_so_far view (header_layout (rw_hdr_remaining s) descs) flow s s'"
proof (induction descs arbitrary: s)
  case (Cons d descs)
  let ?r = "rw_hdr_remaining s" and ?len = "unat (d_len d)"
  define t where "t = min ?r ?len"
  show ?case
  proof (cases "d_write_only d \<and> 0 < ?r")
    case False
    with Cons.prems(2) rx_walk_slots_done [of s api scratch n "d # descs"] have "hdr_write_slots s' = hdr_write_slots s"
      by (cases "d_write_only d") simp_all
    moreover have "header_layout ?r (d # descs) = []" using False by auto
    ultimately show ?thesis by (simp only: rx_header_whole)
  next
    case True
    then have L: "header_layout ?r (d # descs) = (d_addr d, t) # header_layout (?r - t) descs" by (simp add: t_def Let_def)
    obtain f1 s1 where h: "rx_place_header api (d_addr d) ?len s = (f1, s1)" by fastforce
    from h True Cons.prems(2,3) have "f1 \<noteq> RxPanic" by auto
    with rx_place_header_ends [OF law _ Cons.prems(1) h] True
    have out: "\<forall>x. x \<in> {unat (d_addr d)..<unat (d_addr d) + t} \<or> view (rw_mem s1) x = view (rw_mem s) x"
      and ends: "f1 = RxInvalid WriteFailed \<and> hdr_write_slots s1 = hdr_write_slots s
       \<or> hdr_write_slots s1 = hdr_write_slots s @ [(d_addr d, t)]
         \<and> (f1 = RxInvalid Shape \<or> (\<exists>a'. f1 = RxGo (a', ?len - t)) \<and> rw_hdr_remaining s1 = ?r - t)"
      by (simp_all add: t_def)
    from ends consider (failed) "f1 = RxInvalid WriteFailed" "hdr_write_slots s1 = hdr_write_slots s"
      | (shape) "hdr_write_slots s1 = hdr_write_slots s @ [(d_addr d, t)]" "f1 = RxInvalid Shape"
      | (go) a' where "hdr_write_slots s1 = hdr_write_slots s @ [(d_addr d, t)]" "f1 = RxGo (a', ?len - t)" "rw_hdr_remaining s1 = ?r - t"
      by blast
    then show ?thesis
    proof cases
      case failed
      with h True Cons.prems(2) have "flow = RxInvalid WriteFailed" "s' = s1" by simp_all
      with failed out show ?thesis unfolding L rx_header_so_far_def by (intro exI [of _ 0]) auto
    next
      case shape
      with h True Cons.prems(2) have f: "flow = RxInvalid Shape" "s' = s1" by simp_all
      have "rx_header_so_far view (header_layout (?r - t) descs) flow s1 s'"
        unfolding rx_header_so_far_def f by (intro exI [of _ 0]) simp
      from rx_header_next [OF this shape(1) out] show ?thesis unfolding L .
    next
      case go
      have "rx_header_so_far view (header_layout (?r - t) descs) flow s1 s'"
      proof (fold go(3), rule rx_frame_header)
        show "\<forall>s. rw_hdr_remaining s \<le> VIRTIO_NET_HDR_LEN \<and> rx_walk api scratch n descs s = (flow, s')
            \<longrightarrow> rx_header_so_far view (header_layout (rw_hdr_remaining s) descs) flow s s'"
          using Cons.IH Cons.prems(3) by blast
        show "(case rx_place_frame api scratch n a' (?len - t) s1 of (RxPanic, s2) \<Rightarrow> (RxPanic, s2) | (RxInvalid r, s2) \<Rightarrow> (RxInvalid r, s2)
           | (RxGo True, s2) \<Rightarrow> (RxGo (), s2) | (RxGo False, s2) \<Rightarrow> rx_walk api scratch n descs s2) = (flow, s')"
          using go(2) h True Cons.prems(2) by simp
      qed (use go(3) Cons.prems(1) in \<open>auto simp: t_def\<close>)
      from rx_header_next [OF this go(1) out] show ?thesis unfolding L .
    qed
  qed
qed (simp add: rx_header_so_far_def)

text \<open>Zeroing the header slots.\<close>

lemma zero_header_slots_zeroes:
  assumes law: "net_write_law api view"
  shows "slots_within (R \<inter> dom (view m)) slots \<Longrightarrow> dom (view (zero_header_slots api slots m)) = dom (view m)
    \<and> (\<forall>x. x \<notin> R \<longrightarrow> view (zero_header_slots api slots m) x = view m x)
    \<and> (\<forall>x. view m x = Some 0 \<or> (\<exists>(a, n) \<in> set slots. x \<in> {unat a..<unat a + n}) \<longrightarrow> view (zero_header_slots api slots m) x = Some 0)"
proof (induction slots arbitrary: m)
  case Nil
  then show ?case by (simp add: zero_header_slots_def)
next
  case (Cons sl slots)
  obtain a n where sl: "sl = (a, n)" by fastforce
  obtain ok m1 where w: "nm_write_slice api m (replicate n 0) a = (ok, m1)" by fastforce
  have r: "{unat a..<unat a + length (replicate n (0 :: u8))} \<subseteq> R \<inter> dom (view m)" using Cons.prems sl by (auto simp: slots_within_def)
  note c = write_confined(1,2) [OF law w, of R]
  have d1: "dom (view m1) = dom (view m)" using c r by blast
  have v1: "view m1 = store (replicate n 0) (unat a) (view m)"
  proof (cases "n = 0")
    case True
    then show ?thesis using net_write_lawD(2) [OF law w] by auto
  next
    case False
    then show ?thesis using net_write_lawD(3,4) [OF law w] r by (auto simp del: length_replicate)
  qed
  have "slots_within (R \<inter> dom (view m1)) slots" using Cons.prems by (simp add: d1 slots_within_def)
  note IH = Cons.IH [OF this]
  have z: "zero_header_slots api (sl # slots) m = zero_header_slots api slots m1" by (simp add: zero_header_slots_def sl w)
  have "view m x = Some 0 \<or> x \<in> {unat a..<unat a + n} \<Longrightarrow> view m1 x = Some 0" for x
    using v1 by (auto simp: store_def)
  moreover have "x \<notin> R \<Longrightarrow> view m1 x = view m x" for x using c(2) r by blast
  ultimately show ?case unfolding z using IH d1 sl by auto
qed

section \<open>Registers\<close>

lemma net_set_status_cases:
  assumes "st' = device_status (net_set_status val d)" and "st = device_status d"
  shows "st' = st \<or> st' = st OR 0x80 \<or> st = 0 \<and> st' = 1 \<or> st = 1 \<and> st' = 3 \<or> st = 3 \<and> st' = 0xb \<and> net_negotiated d
    \<or> st = 0xb \<and> st' = 0xf"
proof (cases "val AND st = st")
  case True
  define nb where "nb = val AND NOT st"
  have v: "val = st OR nb" unfolding nb_def by (rule superset_eq_or [OF True])
  define valid where "valid = (if nb = VIRTIO_CONFIG_S_ACKNOWLEDGE then st = 0
                        else if nb = VIRTIO_CONFIG_S_DRIVER then st = S_ACK
                        else if nb = VIRTIO_CONFIG_S_FEATURES_OK then st = S_DRV
                        else if nb = VIRTIO_CONFIG_S_DRIVER_OK then st = S_FEAT else False)"
  have eq: "net_set_status val d = (if \<not> valid then d
      else if nb = VIRTIO_CONFIG_S_FEATURES_OK \<and> \<not> net_negotiated d then d\<lparr>device_status := st OR VIRTIO_CONFIG_S_FAILED\<rparr>
      else d\<lparr>device_status := val\<rparr>)"
    unfolding net_set_status_def Let_def assms(2) [symmetric] nb_def [symmetric] valid_def [symmetric] True net_negotiated_def
    by (simp only: simp_thms if_False de_Morgan_conj conj_commute disj_commute)
  have "valid \<Longrightarrow> st = 0 \<and> val = 1 \<or> st = 1 \<and> val = 3 \<or> st = 3 \<and> nb = 8 \<and> val = 0xb \<or> st = 0xb \<and> val = 0xf"
    unfolding valid_def v status_defs by (simp split: if_splits)
  with eq assms show ?thesis by (cases valid; cases "nb = VIRTIO_CONFIG_S_FEATURES_OK \<and> \<not> net_negotiated d") (auto simp: status_defs)
qed (use assms in \<open>simp add: net_set_status_def\<close>)

lemma net_set_status_fields [simp]:
  "driver_features (net_set_status val d) = driver_features d" "tx_poisoned (net_set_status val d) = tx_poisoned d"
  "rx_poisoned (net_set_status val d) = rx_poisoned d"
  by (simp_all only: net_set_status_def Let_def if_distrib [where f = driver_features] if_distrib [where f = tx_poisoned]
      if_distrib [where f = rx_poisoned]) simp_all

interpretation net_status: status_register device_status net_set_status
proof
  fix d :: "('m, 'q) net_device" and v
  let ?st = "device_status d" and ?st' = "device_status (net_set_status v d)"
  note c = net_set_status_cases [of ?st' v d ?st, OF refl refl]
  show "?st AND ?st' = ?st" using c by (elim disjE conjE) (simp_all add: and_or_absorb)
  show "on_ladder ?st \<Longrightarrow> on_ladder ?st'" using c by (elim disjE conjE) (simp_all add: on_ladder_rungs on_ladder_flags)
qed

lemma net_inv_cong:
  "device_status d' = device_status d \<Longrightarrow> driver_features d' = driver_features d
   \<Longrightarrow> tx_poisoned d' = tx_poisoned d \<Longrightarrow> rx_poisoned d' = rx_poisoned d \<Longrightarrow> net_inv d' = net_inv d"
  by (simp add: net_inv_def net_negotiated_def)

lemma net_set_status_inv:
  assumes "net_inv d"
  shows "net_inv (net_set_status val d)"
proof -
  let ?d = "net_set_status val d"
  have "on_ladder (device_status ?d)" using net_status.write_on_ladder [of d val] assms by (simp add: net_inv_def)
  moreover have "net_negotiated d" if "device_status ?d AND VIRTIO_CONFIG_S_FEATURES_OK \<noteq> 0"
    using net_set_status_cases [of "device_status ?d" val d "device_status d"] that assms
    by (auto simp: net_inv_def status_defs or_and_distrib)
  moreover have "device_status ?d AND VIRTIO_CONFIG_S_NEEDS_RESET \<noteq> 0" if "tx_poisoned d \<or> rx_poisoned d"
    using superset_bit [OF net_status.write_keeps_bits [of d val]] that assms by (auto simp: net_inv_def)
  ultimately show ?thesis by (auto simp: net_inv_def net_negotiated_def)
qed

lemma process_inv:
  assumes "process_tx_loopback fuel api d = Returns d'" and "net_inv d"
  shows "net_inv d'"
proof (cases "device_status d AND VIRTIO_CONFIG_S_DRIVER_OK = 0 \<or> net_mem d = None")
  case True
  with assms show ?thesis by (auto simp: process_tx_loopback_def net_inv_def net_negotiated_def split: if_splits)
next
  case False
  then obtain m where m: "net_mem d = Some m" by auto
  with False assms(1) obtain published poisoned m' d1 where l: "tx_loop fuel api False m d = Returns (published, poisoned, m', d1)"
    by (auto simp: process_tx_loopback_def split: run.splits)
  let ?d2 = "d1\<lparr>net_mem := Some m'\<rparr>"
  let ?d3 = "if published then net_signal_used ?d2 else ?d2"
  have d': "d' = (if poisoned then signal_queue_poisoned ?d3 else ?d3)"
    using False m l assms(1) by (simp add: process_tx_loopback_def Let_def)
  from tx_loop_frame [OF l] have f: "same_regs d d1" "tx_poisoned d1 \<or> rx_poisoned d1 \<longleftrightarrow> tx_poisoned d \<or> rx_poisoned d \<or> poisoned"
    by blast+
  have st: "device_status d' = (if poisoned then device_status d OR VIRTIO_CONFIG_S_NEEDS_RESET else device_status d)"
    "driver_features d' = driver_features d" "tx_poisoned d' = tx_poisoned d1" "rx_poisoned d' = rx_poisoned d1"
    using f(1) by (simp_all add: d' signal_queue_poisoned_def net_signal_used_def same_regs_def)
  have "(s OR 0x40) AND 8 = s AND 8" for s :: u32 by (simp add: or_and_distrib)
  with st(1) assms(2) have "on_ladder (device_status d')" "device_status d' AND 8 = device_status d AND 8"
    using on_ladder_flags(1) by (simp_all add: net_inv_def status_defs)
  moreover have "device_status d' AND VIRTIO_CONFIG_S_NEEDS_RESET \<noteq> 0" if "tx_poisoned d' \<or> rx_poisoned d'"
    using that f(2) st assms(2) or_flag_bit by (auto simp: net_inv_def)
  ultimately show ?thesis using assms(2) st by (auto simp: net_inv_def net_negotiated_def status_defs)
qed

lemma net_reset_inv: "net_inv (net_reset api d)" by (simp add: net_reset_def net_inv_def on_ladder_rungs)

lemma net_write_driver_features_inv: "net_inv d \<Longrightarrow> net_inv (net_write_driver_features val d)"
  by (auto simp: net_write_driver_features_def net_inv_def features_write_allowed_def)

lemma net_configure_queue_inv: "net_inv (net_configure_queue f d) = net_inv d"
  by (rule net_inv_cong) (simp_all add: net_configure_queue_def split: option.split)

lemma net_mmio_write_inv:
  assumes "net_mmio_write fuel api offset data d = Returns d'" and "net_inv d"
  shows "net_inv d'"
proof -
  have "net_inv d'" if "net_mmio_write_reg fuel api reg val d = Returns d'" for reg val
  proof (cases reg)
    case (Some r)
    show ?thesis
      using that [unfolded Some net_mmio_write_reg_def] assms(2) net_set_status_inv [OF assms(2), of val] net_reset_inv [of api d]
        net_write_driver_features_inv [OF assms(2), of val] process_inv [of fuel api d d'] net_configure_queue_inv [of _ d]
        net_inv_cong [of "d\<lparr>device_features_sel := val\<rparr>" d] net_inv_cong [of "d\<lparr>driver_features_sel := val\<rparr>" d]
        net_inv_cong [of "d\<lparr>queue_select := val\<rparr>" d]
        net_inv_cong [of "d\<lparr>interrupt_status := interrupt_status d AND NOT val\<rparr>" d]
      by (cases r) (auto split: if_splits)
  qed (use that assms(2) in \<open>simp add: net_mmio_write_reg_def\<close>)
  then show ?thesis using assms by (auto simp: net_mmio_write_def split: if_splits)
qed

lemma net_reachable_inv: "net_reachable api d \<Longrightarrow> net_inv d"
proof (induction rule: net_reachable.induct)
  case (initial q mac)
  show ?case by (simp add: net_new_def net_inv_def on_ladder_rungs)
next
  case (step d d')
  from step(2) show ?case
  proof (rule net_stepE)
    fix m
    assume "d' = set_mem m d"
    with step(3) show ?thesis by (simp add: set_mem_def net_inv_def net_negotiated_def split: option.split)
  qed (use net_mmio_write_inv step(3) in blast)
qed

section \<open>Properties\<close>

text \<open>
  C14: A transmitted frame comes back. When the next transmit chain is readable and holds at least the
  12-byte header, and the next receive chain is writable with non-empty disjoint descriptors, one
  turn of the loop lays the receive header and then the frame (all bytes after the transmit header,
  up to the maximal size) over the receive descriptors in order, truncated to their capacity, changes no
  other byte of guest memory, returns the receive chain with the number of bytes written and the transmit
  chain with zero, counts exactly what happened, and goes on with the next chain.
\<close>

theorem net_loopback_echo:
  assumes laws: "net_write_law api view" "net_read_law api view"
    and d: "\<not> tx_poisoned d" "\<not> rx_poisoned d" "q_ready api (rx_queue d)"
    and tx: "nq_iter_next api m (tx_queue d) = (Chain head tds, tq)"
      "\<forall>t \<in> set tds. \<not> d_write_only t \<and> desc_mapped (view m) t" "VIRTIO_NET_HDR_LEN \<le> length (chain_bytes (view m) tds)"
    and rx: "nq_iter_next api m (rx_queue d) = (Chain rhead rds, rq)"
      "\<forall>r \<in> set rds. d_write_only r \<and> d_len r \<noteq> 0 \<and> desc_mapped (view m) r" "chain_disjoint rds"
    and frame: "frame = take MAX_FRAME_SIZE (drop VIRTIO_NET_HDR_LEN (chain_bytes (view m) tds))"
    and n: "n = min (chain_len rds) (VIRTIO_NET_HDR_LEN + length frame)"
  shows "\<exists>m1. take n (rx_bytes_of (view m1) rds) = take n (RX_HDR @ frame) \<and> (\<forall>x. x \<notin> chain_range rds \<longrightarrow> view m1 x = view m x)
    \<and> tx_loop (Suc fuel) api published m d =
       (case nq_add_used api m1 rq rhead (of_nat n) of (ok, m2, rq') \<Rightarrow>
          case nq_add_used api m2 tq head 0 of (ok', m3, tq') \<Rightarrow>
            tx_loop fuel api (published \<or> ok \<or> ok') m3
              (d\<lparr>tx_frame_scratch := frame, rx_queue := rq', tx_queue := tq',
                 counters := loopback_counters (length frame) (n - VIRTIO_NET_HDR_LEN) ok ok' (counters d)\<rparr>))"
proof -
  let ?d = "d\<lparr>tx_queue := tq, tx_frame_scratch := frame\<rparr>"
  have fl: "length frame \<le> MAX_FRAME_SIZE" by (simp add: frame)
  have n': "n = min (chain_len rds) (length (rx_stream frame))" by (simp add: n rx_stream_def)
  note pop = pop_captures [OF laws(2) d(1) tx frame]
  obtain m1 where m1: "view m1 = store_chain (rx_stream frame) rds (view m)"
    "try_loopback_to_rx api m (length frame) ?d = (case nq_add_used api m1 rq rhead (of_nat n) of (ok, m2, rq') \<Rightarrow>
        Some (if ok then Delivered (of_nat (n - VIRTIO_NET_HDR_LEN)) else DeliveredButAddUsedFailed, m2,
              ?d\<lparr>rx_queue := rq', counters := (if ok then id else record_rx_add_used_failure) (counters ?d)\<rparr>))"
    using loopback_delivers [OF laws(1), of ?d m rhead rds rq frame n] d rx(1,2) fl n' by auto
  have "take n (rx_bytes_of (view m1) rds) = take n (RX_HDR @ frame)"
    using rx_bytes_store_chain [OF rx(3), of n "rx_stream frame" "view m"] m1(1) n by (simp add: rx_stream_def)
  moreover have "x \<notin> chain_range rds \<Longrightarrow> view m1 x = view m x" for x by (simp add: m1(1) store_chain_other)
  moreover obtain ok m2 rq' where u1: "nq_add_used api m1 rq rhead (of_nat n) = (ok, m2, rq')" by (rule prod_cases3)
  moreover obtain ok' m3 tq' where u2: "nq_add_used api m2 tq head 0 = (ok', m3, tq')" by (rule prod_cases3)
  moreover have "tx_loop (Suc fuel) api published m d = tx_loop fuel api (published \<or> ok \<or> ok') m3
              (d\<lparr>tx_frame_scratch := frame, rx_queue := rq', tx_queue := tq',
                 counters := loopback_counters (length frame) (n - VIRTIO_NET_HDR_LEN) ok ok' (counters d)\<rparr>)"
    by (simp add: pop m1(2) u1 account_loopback_def tx_complete_def u2 net_count_def loopback_counters_def)
  ultimately show ?thesis by (intro exI [of _ m1]) (simp only: prod.case, blast)
qed

text \<open>
  C18: A notification ends. On queues that do not grow and whose receive chains have no empty descriptor,
  enough fuel makes the handler of a transmit notification return without a panic; every transmit and every receive chain it took is in
  the used ring of its queue or counted as an add_used failure; nothing is left pending unless a queue got
  poisoned; the interrupt for used buffers is raised exactly when some chain was returned, and a
  poisoning sets NEEDS_RESET and raises the configuration interrupt.
\<close>

theorem net_notify_completes:
  assumes laws: "net_queue_law api pending used" "net_read_law api view"
    and live: "device_status d AND VIRTIO_CONFIG_S_DRIVER_OK \<noteq> 0" "net_mem d = Some m" "\<not> tx_poisoned d" "\<not> rx_poisoned d"
    and fuel: "pending (tx_queue d) < fuel"
  shows "\<exists>d'. process_tx_loopback fuel api d = Returns d' \<and> chains_accounted pending used d d'
    \<and> (\<not> tx_poisoned d' \<and> \<not> rx_poisoned d' \<longrightarrow> pending (tx_queue d') = 0)
    \<and> (let published = used (tx_queue d) + used (rx_queue d) < used (tx_queue d') + used (rx_queue d');
           poisoned = (tx_poisoned d' \<or> rx_poisoned d')
       in device_status d' = device_status d OR (if poisoned then VIRTIO_CONFIG_S_NEEDS_RESET else 0)
        \<and> interrupt_status d' = interrupt_status d OR (if published then VIRTIO_MMIO_INT_VRING else 0)
                                  OR (if poisoned then VIRTIO_MMIO_INT_CONFIG else 0)
        \<and> net_irqs d' = net_irqs d + of_bool published + of_bool poisoned)"
proof -
  from tx_loop_returns [OF laws fuel, of False m] obtain pub poisoned m' d1 where
    l: "tx_loop fuel api False m d = Returns (pub, poisoned, m', d1)" "poisoned \<or> tx_poisoned d \<or> pending (tx_queue d1) = 0"
    "chains_accounted pending used d d1"
    "pub \<longleftrightarrow> False \<or> used (tx_queue d) + used (rx_queue d) < used (tx_queue d1) + used (rx_queue d1)" by blast
  from tx_loop_frame [OF l(1)] live(3,4) have f: "same_regs d d1" "tx_poisoned d1 \<or> rx_poisoned d1 \<longleftrightarrow> poisoned" by blast+
  define d2 where "d2 = d1\<lparr>net_mem := Some m'\<rparr>"
  define d3 where "d3 = (if pub then net_signal_used d2 else d2)"
  define d' where "d' = (if poisoned then signal_queue_poisoned d3 else d3)"
  have run: "process_tx_loopback fuel api d = Returns d'"
    using live(1,2) l(1) by (simp add: process_tx_loopback_def d'_def d3_def d2_def)
  have q: "tx_queue d' = tx_queue d1" "rx_queue d' = rx_queue d1" "counters d' = counters d1"
    "tx_poisoned d' = tx_poisoned d1" "rx_poisoned d' = rx_poisoned d1"
    by (simp_all add: d'_def d3_def d2_def signal_queue_poisoned_def net_signal_used_def)
  have st: "device_status d' = device_status d OR (if poisoned then VIRTIO_CONFIG_S_NEEDS_RESET else 0)"
    "interrupt_status d' = interrupt_status d OR (if pub then VIRTIO_MMIO_INT_VRING else 0) OR (if poisoned then VIRTIO_MMIO_INT_CONFIG else 0)"
    "net_irqs d' = net_irqs d + of_bool pub + of_bool poisoned"
    using f(1) by (simp_all add: d'_def d3_def d2_def signal_queue_poisoned_def net_signal_used_def same_regs_def or.assoc)
  have "chains_accounted pending used d d'" using l(3) by (simp add: chains_accounted_def q)
  moreover have "\<not> tx_poisoned d' \<and> \<not> rx_poisoned d' \<longrightarrow> pending (tx_queue d') = 0" using l(2) f(2) live(3) by (auto simp: q)
  ultimately show ?thesis using run st l(4) f(2) unfolding Let_def q by (intro exI [of _ d']) (simp add: q)
qed

text \<open>
  C16: The guest can make the device panic. The table of header slots has twelve entries because every
  descriptor is taken to receive at least one header byte, but an empty descriptor receives none:
  when the next receive chain starts with thirteen empty writable descriptors at mapped
  addresses, the notification that loops a well-formed frame back indexes past the table.
\<close>

theorem net_empty_descriptors_panic:
  assumes laws: "net_write_law api view" "net_read_law api view"
    and d: "device_status d AND VIRTIO_CONFIG_S_DRIVER_OK \<noteq> 0" "net_mem d = Some m" "\<not> tx_poisoned d" "\<not> rx_poisoned d" "q_ready api (rx_queue d)"
    and tx: "nq_iter_next api m (tx_queue d) = (Chain head tds, tq)"
      "\<forall>t \<in> set tds. \<not> d_write_only t \<and> desc_mapped (view m) t" "VIRTIO_NET_HDR_LEN \<le> length (chain_bytes (view m) tds)"
    and rx: "nq_iter_next api m (rx_queue d) = (Chain rhead (rds @ rest), rq)" "length rds = 13"
      "\<forall>r \<in> set rds. d_write_only r \<and> d_len r = 0 \<and> unat (d_addr r) \<in> dom (view m)"
  shows "net_mmio_write (Suc fuel) api 0x50 (to_le_bytes 4 (1 :: u32)) d = Panics"
proof -
  let ?frame = "take MAX_FRAME_SIZE (drop VIRTIO_NET_HDR_LEN (chain_bytes (view m) tds))"
  note pop = pop_captures [OF laws(2) d(3) tx refl]
  have "fst (rx_walk api ?frame (length ?frame) (rds @ rest) (rx_start m)) = RxPanic"
    using rx_walk_empty_descs [OF laws(1), of "rx_start m" rds] rx(2,3) by (simp add: rx_start_def VIRTIO_NET_HDR_LEN_def)
  then obtain s where w: "rx_walk api ?frame (length ?frame) (rds @ rest) (rx_start m) = (RxPanic, s)" by (metis prod.collapse)
  have "try_loopback_to_rx api m (length ?frame) (d\<lparr>tx_queue := tq, tx_frame_scratch := ?frame\<rparr>) = None"
    using d rx(1) w by (simp add: try_loopback_to_rx_def rx_finish_def)
  then have "tx_loop (Suc fuel) api False m d = Panics" by (simp add: pop)
  moreover have "mmio_reg_of 0x50 = Some QueueNotify" by (simp add: mmio_reg_of_def)
  moreover have "from_le_bytes (to_le_bytes 4 (1 :: u32)) = (1 :: u32)" by (simp add: from_le_to_le)
  ultimately show ?thesis using d(1,2) by (simp add: net_mmio_write_def net_mmio_write_reg_def TXQ_def process_tx_loopback_def)
qed

lemma slots_within_Int: "slots_within (A \<inter> B) slots \<longleftrightarrow> slots_within A slots \<and> slots_within B slots"
  by (auto simp: slots_within_def)

lemma slots_within_range: "slots_within (slot_range slots) slots"
  by (force simp: slots_within_def slot_range_def)

lemma slot_range_iff: "x \<in> slot_range slots \<longleftrightarrow> (\<exists>(a, n) \<in> set slots. x \<in> {unat a..<unat a + n})"
  by (auto simp: slot_range_def case_prod_unfold)

lemma rejected_header_undone:
  assumes law: "net_write_law api view" and walk: "rx_walk api scratch n descs (rx_start m) = (RxInvalid reason, s)"
  defines "m1 \<equiv> zero_header_slots api (hdr_write_slots s) (rw_mem s)"
  shows "\<forall>x. x \<notin> chain_range descs \<longrightarrow> view m1 x = view m x"
    and "header_undone (view m) (view m1) descs (reason = WriteFailed)"
proof -
  let ?L = "header_layout VIRTIO_NET_HDR_LEN descs"
  have c: "rx_confined view (chain_range descs) (rx_start m) s"
    by (rule rx_walk_confined [OF law subset_refl _ walk]) (simp add: rx_start_def)
  then have sl: "slots_within (chain_range descs \<inter> dom (view (rw_mem s))) (hdr_write_slots s)"
    by (simp add: rx_confined_def rx_start_def slots_within_def)
  note z = zero_header_slots_zeroes [OF law sl, folded m1_def]
  show "\<forall>x. x \<notin> chain_range descs \<longrightarrow> view m1 x = view m x" using z c by (simp add: rx_confined_def rx_start_def)
  have "rx_header_so_far view ?L (RxInvalid reason) (rx_start m) s"
    using rx_walk_header [OF law _ walk] by (simp add: rx_start_def)
  then obtain k where k: "k \<le> length ?L" "hdr_write_slots s = take k ?L"
    "k = length ?L \<or> (\<forall>x. x \<in> slot_range (take (if reason = WriteFailed then Suc k else k) ?L) \<or> view (rw_mem s) x = view m x)"
    by (auto simp: rx_header_so_far_def rx_start_def)
  have "slots_within (slot_range (take k ?L) \<inter> dom (view (rw_mem s))) (hdr_write_slots s)"
    using sl unfolding k(2) slots_within_Int by (simp add: slots_within_range)
  note y = zero_header_slots_zeroes [OF law this, folded m1_def]
  have zero: "\<forall>x \<in> slot_range (take k ?L). view m1 x = Some 0" using z unfolding k(2) unfolding Ball_def slot_range_iff by blast
  have "slot_range (take k ?L) \<subseteq> slot_range (take (if reason = WriteFailed then Suc k else k) ?L)"
    unfolding slot_range_def by (intro UN_mono set_take_subset_set_take) simp_all
  then have "k = length ?L \<or> (\<forall>x. x \<in> slot_range (take (if reason = WriteFailed then Suc k else k) ?L) \<or> view m1 x = view m x)"
    using k(3) y by (metis subsetD)
  with zero k(1) show "header_undone (view m) (view m1) descs (reason = WriteFailed)" unfolding header_undone_def Let_def by blast
qed

text \<open>
  C20: A receive chain, however malformed, is written only inside its descriptors. Whatever becomes of the chain taken
  for a frame, guest memory outside its descriptors is as before when the chain is returned to the used ring.
  A rejected chain is returned with length zero after a roll-back that leaves no byte of the header
  in it: every header byte placed is zero, and if the header was not complete nothing else was touched, except the
  slot of a header write that itself failed.
\<close>

theorem net_rx_confined:
  assumes law: "net_write_law api view" and d: "\<not> rx_poisoned d" "q_ready api (rx_queue d)"
    and chain: "nq_iter_next api m (rx_queue d) = (Chain head descs, q)"
    and run: "try_loopback_to_rx api m n d = Some (outcome, m', d')"
  shows "\<exists>m1 len ok. nq_add_used api m1 q head len = (ok, m', rx_queue d')
    \<and> (\<forall>x. x \<notin> chain_range descs \<longrightarrow> view m1 x = view m x)
    \<and> (if outcome = RxChainInvalid ok
       then len = 0 \<and> header_undone (view m) (view m1) descs (rx_write_failed (counters d') \<noteq> rx_write_failed (counters d))
       else if ok then \<exists>l2. outcome = Delivered l2 else outcome = DeliveredButAddUsedFailed)"
proof -
  obtain flow s where w: "rx_walk api (tx_frame_scratch d) n descs (rx_start m) = (flow, s)" by fastforce
  have fin: "rx_finish api head (flow, s) (d\<lparr>rx_queue := q\<rparr>) = Some (outcome, m', d')"
    using run d chain w by (simp add: try_loopback_to_rx_def)
  show ?thesis
  proof (cases flow)
    case (RxInvalid reason)
    let ?m1 = "zero_header_slots api (hdr_write_slots s) (rw_mem s)"
    obtain ok m2 q' where a: "nq_add_used api ?m1 q head 0 = (ok, m2, q')" by (rule prod_cases3)
    with fin RxInvalid have r: "outcome = RxChainInvalid ok" "m' = m2" "rx_queue d' = q'"
      "rx_write_failed (counters d') \<noteq> rx_write_failed (counters d) \<longleftrightarrow> reason = WriteFailed"
      by (auto simp: rx_finish_def rx_add_used_def net_count_def record_rx_chain_invalid_def record_rx_write_failed_def
          record_rx_add_used_failure_def Let_def split: invalid_reason.splits if_splits)
    note u = rejected_header_undone [OF law w [unfolded RxInvalid]]
    show ?thesis by (rule exI [of _ ?m1], rule exI [of _ 0], rule exI [of _ ok]) (use a r u in simp)
  next
    case (RxGo y)
    obtain ok m2 q' where a: "nq_add_used api (rw_mem s) q head (rw_bytes_written s) = (ok, m2, q')" by (rule prod_cases3)
    have "rx_confined view (chain_range descs) (rx_start m) s"
      by (rule rx_walk_confined [OF law subset_refl _ w]) (simp add: rx_start_def)
    then have out: "\<forall>x. x \<notin> chain_range descs \<longrightarrow> view (rw_mem s) x = view m x" by (simp add: rx_confined_def rx_start_def)
    from fin RxGo a have "m' = m2" "rx_queue d' = q'" "if ok then \<exists>l2. outcome = Delivered l2 else outcome = DeliveredButAddUsedFailed"
      by (auto simp: rx_finish_def rx_add_used_def net_count_def Let_def split: if_splits)
    with a out show ?thesis
      by (intro exI [of _ "rw_mem s"] exI [of _ "rw_bytes_written s"] exI [of _ ok]) (auto split: if_splits)
  qed (use fin in \<open>simp add: rx_finish_def\<close>)
qed

text \<open>
  C31: Every state the device can reach by register writes and the binding of guest memory is on the status
  ladder; FEATURES_OK is set only when VERSION_1 and no feature that was not offered is accepted; a
  poisoned queue shows as NEEDS_RESET; and no sequence of status writes but a reset clears a bit.
\<close>

theorem net_reachable_states:
  assumes "net_reachable api d"
  shows "on_ladder (device_status d)
    \<and> (device_status d AND VIRTIO_CONFIG_S_FEATURES_OK \<noteq> 0 \<longrightarrow> net_negotiated d)
    \<and> (tx_poisoned d \<or> rx_poisoned d \<longrightarrow> device_status d AND VIRTIO_CONFIG_S_NEEDS_RESET \<noteq> 0)
    \<and> (\<forall>vs. device_status d AND device_status (fold net_set_status vs d) = device_status d)"
  using net_reachable_inv [OF assms] net_status.writes_keep_bits [of d] by (simp add: net_inv_def)

section \<open>Witnesses\<close>

lemma mapped_iff: "(\<forall>i<n. \<exists>y. m (a + i) = Some y) \<longleftrightarrow> {a..<a + n} \<subseteq> dom (m :: mem_view)"
proof
  assume "\<forall>i<n. \<exists>y. m (a + i) = Some y"
  then show "{a..<a + n} \<subseteq> dom m" by (force simp: le_iff_add)
next
  assume s: "{a..<a + n} \<subseteq> dom m"
  then have "a + i \<in> dom m" if "i < n" for i using that by (intro subsetD [OF s]) simp
  then show "\<forall>i<n. \<exists>y. m (a + i) = Some y" by blast
qed

lemma sample_slices:
  "nm_write_slice (sample_net_api keep) m bs a
     = (if {unat a..<unat a + length bs} \<subseteq> dom m then (True, store bs (unat a) m) else (False, m))"
  "nm_read_slice (sample_net_api keep) m a n = (if {unat a..<unat a + n} \<subseteq> dom m then Some (load m (unat a) n) else None)"
  by (simp_all add: sample_net_api_def mapped_iff)

lemma sample_net_write_law: "net_write_law (sample_net_api keep) sample_view"
  unfolding net_write_law_def sample_view_def sample_slices
  by (simp add: dom_store store_other split: if_splits)

lemma sample_net_read_law: "net_read_law (sample_net_api keep) sample_view"
  unfolding net_read_law_def sample_view_def sample_slices by (simp split: if_splits)

lemma sample_net_queue_law:
  "net_queue_law (sample_net_api (\<lambda>d. d_len d \<noteq> 0)) (\<lambda>(cs, u). length cs) (\<lambda>(cs, u). u)"
  by (auto simp: net_queue_law_def sample_net_api_def split: list.splits prod.splits)

lemma sample_net_live: "device_status (sample_net rx) AND VIRTIO_CONFIG_S_DRIVER_OK \<noteq> 0" "net_mem (sample_net rx) = Some sample_net_mem"
  "\<not> tx_poisoned (sample_net rx)" "\<not> rx_poisoned (sample_net rx)" "q_ready (sample_net_api keep) (rx_queue (sample_net rx))"
  by (simp_all add: sample_net_def net_new_def status_defs sample_net_api_def)

lemma sample_desc_mapped:
  "unat (d_addr d) + unat (d_len d) \<le> 4096 \<Longrightarrow> desc_mapped (sample_view sample_net_mem) d"
  by (auto simp: desc_mapped_def desc_range_def sample_net_mem_def sample_view_def split: if_splits)

lemma sample_tx:
  "nq_iter_next (sample_net_api (\<lambda>_. True)) sample_net_mem (tx_queue (sample_net rx)) = (Chain 3 (snd sample_tx_chain), ([], 0))"
  "\<forall>t \<in> set (snd sample_tx_chain). \<not> d_write_only t \<and> desc_mapped (sample_view sample_net_mem) t"
  "chain_bytes (sample_view sample_net_mem) (snd sample_tx_chain) = map of_nat [0..<16]"
  "VIRTIO_NET_HDR_LEN \<le> length (chain_bytes (sample_view sample_net_mem) (snd sample_tx_chain))"
proof -
  show "nq_iter_next (sample_net_api (\<lambda>_. True)) sample_net_mem (tx_queue (sample_net rx)) = (Chain 3 (snd sample_tx_chain), ([], 0))"
    by (simp add: sample_net_api_def sample_net_def sample_tx_chain_def)
  show "\<forall>t \<in> set (snd sample_tx_chain). \<not> d_write_only t \<and> desc_mapped (sample_view sample_net_mem) t"
    by (simp add: sample_tx_chain_def sample_desc_mapped)
  show c: "chain_bytes (sample_view sample_net_mem) (snd sample_tx_chain) = map of_nat [0..<16]"
    by (simp add: sample_tx_chain_def chain_bytes_def load_def sample_net_mem_def sample_view_def TX_DESC_MAX_def MAX_FRAME_SIZE_def)
  show "VIRTIO_NET_HDR_LEN \<le> length (chain_bytes (sample_view sample_net_mem) (snd sample_tx_chain))"
    by (simp add: c VIRTIO_NET_HDR_LEN_def)
qed

theorem net_notify_completes_witness:
  "\<exists>d'. process_tx_loopback 2 (sample_net_api (\<lambda>d. d_len d \<noteq> 0)) (sample_net sample_rx_chain) = Returns d'
     \<and> chains_accounted (\<lambda>(cs, u). length cs) (\<lambda>(cs, u). u) (sample_net sample_rx_chain) d'"
proof -
  have "(\<lambda>(cs, u). length cs) (tx_queue (sample_net sample_rx_chain)) < 2" by (simp add: sample_net_def)
  from net_notify_completes [OF sample_net_queue_law sample_net_read_law sample_net_live(1-4) this] show ?thesis by blast
qed

theorem net_empty_descriptors_panic_witness:
  "net_mmio_write 1 (sample_net_api (\<lambda>_. True)) 0x50 (to_le_bytes 4 (1 :: u32)) (sample_net empty_rx_chain) = Panics"
proof -
  have rx: "nq_iter_next (sample_net_api (\<lambda>_. True)) sample_net_mem (rx_queue (sample_net empty_rx_chain))
      = (Chain 5 (snd empty_rx_chain @ []), ([], 0))"
    by (simp add: sample_net_api_def sample_net_def empty_rx_chain_def)
  have e: "length (snd empty_rx_chain) = 13"
    "\<forall>r \<in> set (snd empty_rx_chain). d_write_only r \<and> d_len r = 0 \<and> unat (d_addr r) \<in> dom (sample_view sample_net_mem)"
    by (simp_all add: empty_rx_chain_def sample_net_mem_def sample_view_def dom_def)
  from net_empty_descriptors_panic [where api = "sample_net_api (\<lambda>_. True)" and view = sample_view and m = sample_net_mem
      and d = "sample_net empty_rx_chain" and rest = "[]" and fuel = 0,
      OF sample_net_write_law sample_net_read_law sample_net_live sample_tx(1,2,4) rx e] show ?thesis by simp
qed

text \<open>A chain whose header slot is followed by a read-only descriptor is rejected.\<close>

lemma sample_rejected:
  "\<exists>m' d'. try_loopback_to_rx (sample_net_api (\<lambda>_. True)) sample_net_mem 0 (sample_net bad_rx_chain) = Some (RxChainInvalid True, m', d')
     \<and> rx_write_failed (counters d') = 0"
  by (simp add: try_loopback_to_rx_def sample_net_def net_new_def sample_net_api_def bad_rx_chain_def rx_start_def rx_place_header_def
      rx_place_frame_def VIRTIO_NET_HDR_LEN_def sample_net_mem_def checked_add_def rx_finish_def rx_add_used_def net_count_def
      record_rx_chain_invalid_def net_counters_default_def Let_def)

theorem net_rx_confined_witness:
  "\<exists>m' d'. try_loopback_to_rx (sample_net_api (\<lambda>_. True)) sample_net_mem 0 (sample_net bad_rx_chain) = Some (RxChainInvalid True, m', d')
     \<and> RX_HDR ! 10 = 1 \<and> m' 0x10A \<noteq> Some 1 \<and> m' 0x240 = Some 0x40"
proof -
  let ?api = "sample_net_api (\<lambda>_. True)" and ?d = "sample_net bad_rx_chain"
  obtain m' d' where r: "try_loopback_to_rx ?api sample_net_mem 0 ?d = Some (RxChainInvalid True, m', d')" "rx_write_failed (counters d') = 0"
    using sample_rejected by blast
  have rx: "nq_iter_next ?api sample_net_mem (rx_queue ?d) = (Chain 5 (snd bad_rx_chain), ([], 0))"
    by (simp add: sample_net_api_def sample_net_def bad_rx_chain_def)
  have ok: "nq_add_used ?api m1 ([], 0) 5 len = (ok, m', q') \<Longrightarrow> ok \<and> m1 = m'" for m1 len ok q' by (simp add: sample_net_api_def)
  obtain m1 len ok where m1: "nq_add_used ?api m1 ([], 0) 5 len = (ok, m', rx_queue d')"
    "\<forall>x. x \<notin> chain_range (snd bad_rx_chain) \<longrightarrow> sample_view m1 x = sample_view sample_net_mem x"
    "if RxChainInvalid True = RxChainInvalid ok
     then len = 0 \<and> header_undone (sample_view sample_net_mem) (sample_view m1) (snd bad_rx_chain)
         (rx_write_failed (counters d') \<noteq> rx_write_failed (counters ?d))
     else if ok then \<exists>l2. RxChainInvalid True = Delivered l2 else RxChainInvalid True = DeliveredButAddUsedFailed"
    using net_rx_confined [OF sample_net_write_law sample_net_live(4,5) rx r(1)] by (elim exE conjE) (rule that)
  have "rx_write_failed (counters ?d) = 0" by (simp add: sample_net_def net_new_def net_counters_default_def)
  with m1(3) ok [OF m1(1)] r(2) have u: "header_undone (sample_view sample_net_mem) (sample_view m1) (snd bad_rx_chain) False" by simp
  have L: "header_layout VIRTIO_NET_HDR_LEN (snd bad_rx_chain) = [(0x100, 12)]" by (simp add: bad_rx_chain_def VIRTIO_NET_HDR_LEN_def)
  have "0x240 \<notin> chain_range (snd bad_rx_chain)" by (simp add: bad_rx_chain_def chain_range_def desc_range_def)
  with m1(2) have "sample_view m1 0x240 = Some 0x40" by (simp add: sample_view_def sample_net_mem_def)
  moreover have "sample_view m1 0x10A = Some 0 \<or> sample_view m1 0x10A = sample_view sample_net_mem 0x10A"
    using u unfolding header_undone_def Let_def L by (auto simp: le_Suc_eq)
  moreover have "RX_HDR ! 10 = 1" by (simp add: RX_HDR_def VIRTIO_NET_HDR_LEN_def)
  ultimately show ?thesis using r(1) ok [OF m1(1)] by (auto simp: sample_view_def sample_net_mem_def)
qed

lemma sample_ack_step:
  "net_step (sample_net_api (\<lambda>_. True)) (net_new ([], 0) (replicate 6 0)) ((net_new ([], 0) (replicate 6 0))\<lparr>device_status := 1\<rparr>)"
proof (rule net_step.guest_write)
  have "mmio_reg_of 0x70 = Some Status" by (simp add: mmio_reg_of_def)
  moreover have "from_le_bytes (to_le_bytes 4 (1 :: u32)) = (1 :: u32)" by (simp add: from_le_to_le)
  ultimately show "net_mmio_write 0 (sample_net_api (\<lambda>_. True)) 0x70 (to_le_bytes 4 (1 :: u32)) (net_new ([], 0) (replicate 6 0))
      = Returns ((net_new ([], 0) (replicate 6 0))\<lparr>device_status := 1\<rparr>)"
    by (simp add: net_mmio_write_def net_mmio_write_reg_def net_set_status_def net_new_def status_defs Let_def)
qed

theorem net_reachable_states_witness:
  "\<exists>d :: (mem_view, (u16 \<times> chain_descriptor list) list \<times> nat) net_device.
     net_reachable (sample_net_api (\<lambda>_. True)) d \<and> device_status d = 1 \<and> on_ladder (device_status d)"
proof -
  let ?d = "(net_new ([], 0) (replicate 6 0))\<lparr>device_status := 1\<rparr> :: (mem_view, (u16 \<times> chain_descriptor list) list \<times> nat) net_device"
  have "net_reachable (sample_net_api (\<lambda>_. True)) ?d" by (rule net_reachable.step [OF net_reachable.initial sample_ack_step])
  from net_reachable_states [OF this] this show ?thesis by (intro exI [of _ ?d]) simp
qed

theorem net_loopback_echo_witness:
  "\<exists>m1. take 16 (rx_bytes_of (sample_view m1) (snd sample_rx_chain)) = RX_HDR @ [12, 13, 14, 15]"
proof -
  define frame where "frame = take MAX_FRAME_SIZE (drop VIRTIO_NET_HDR_LEN (chain_bytes (sample_view sample_net_mem) (snd sample_tx_chain)))"
  have fr: "frame = [12, 13, 14, 15]" by (simp add: frame_def sample_tx(3) MAX_FRAME_SIZE_def VIRTIO_NET_HDR_LEN_def drop_map upt_rec)
  have rx: "nq_iter_next (sample_net_api (\<lambda>_. True)) sample_net_mem (rx_queue (sample_net sample_rx_chain))
      = (Chain 5 (snd sample_rx_chain), ([], 0))"
    by (simp add: sample_net_api_def sample_net_def sample_rx_chain_def)
  have rds: "\<forall>r \<in> set (snd sample_rx_chain). d_write_only r \<and> d_len r \<noteq> 0 \<and> desc_mapped (sample_view sample_net_mem) r"
    "chain_disjoint (snd sample_rx_chain)"
    by (simp_all add: sample_rx_chain_def sample_desc_mapped chain_disjoint_def desc_range_def)
  have n: "16 = min (chain_len (snd sample_rx_chain)) (VIRTIO_NET_HDR_LEN + length frame)"
    by (simp add: sample_rx_chain_def chain_len_def fr VIRTIO_NET_HDR_LEN_def)
  have "take 16 (RX_HDR @ frame) = RX_HDR @ [12, 13, 14, 15]" by (simp add: fr VIRTIO_NET_HDR_LEN_def)
  with net_loopback_echo [where api = "sample_net_api (\<lambda>_. True)" and view = sample_view and m = sample_net_mem
      and d = "sample_net sample_rx_chain",
      OF sample_net_write_law sample_net_read_law sample_net_live(3,4,5) sample_tx(1,2,4) rx rds frame_def n] show ?thesis by metis
qed

end
