(* ===== verification/Spec2Isabelle.thy ===== *)
theory Spec2Isabelle
  imports Boot_Image Console_Bulk Console_Input Serial_Console Token_Bucket Virtio_Blk_Drain Virtio_Net_Loop
begin

text \<open>
  ktstr boots a Linux kernel in a KVM virtual machine, runs scheduler tests in it and collects
  the results. This library verifies the parts of the program whose correctness is a matter
  of computation: how the machine is described to the guest and booted, its disk, network and console
  devices, how the host reads the guest's memory, and how results come back.

  \<^bold>\<open>Conventions.\<close> A struct is a record, an enum a datatype, a fixed-width integer a word, and
  \<^verbatim>\<open>usize\<close> a natural number. Arithmetic that the source leaves unchecked wraps, as in the release
  profile; \<^verbatim>\<open>checked_\<close> operations return an option (\<^verbatim>\<open>Rust_Prelude\<close>). A panic or an error is a value.
  Code outside the repository enters as a parameter: the clock is an argument or a function of
  the number of readings, \<^verbatim>\<open>vm_memory\<close>, \<^verbatim>\<open>virtio_queue\<close>, \<^verbatim>\<open>kvm_ioctls\<close> and \<^verbatim>\<open>vm_superio\<close> are records of
  operations on abstract states, \<^verbatim>\<open>crc32fast\<close> is a function on byte strings. What a theorem needs of
  them is a hypothesis (\<^verbatim>\<open>queue_laws\<close>, \<^verbatim>\<open>rx_laws\<close>, \<^verbatim>\<open>net_queue_law\<close> for queues, \<^verbatim>\<open>write_law\<close>, \<^verbatim>\<open>net_write_law\<close>,
  \<^verbatim>\<open>ram_law\<close> for memory, \<^verbatim>\<open>vcpu_law\<close> for a vCPU, \<^verbatim>\<open>mono clock\<close>), and a witness satisfies it on a
  concrete instance. Writes to event descriptors are counted; log messages are left out.

  \<^bold>\<open>Machine description.\<close>
  \<^item> \<^verbatim>\<open>Topology\<close> models \<^verbatim>\<open>src/vmm/topology.rs\<close>: construction and validation agree, the CPU number
    decomposition is a bijection, every last-level cache belongs to exactly one NUMA node, distances
    are symmetric. It also proves that \<^verbatim>\<open>validate\<close> accepts a cache count that wraps.
  \<^item> \<^verbatim>\<open>Apic_Topology\<close> models \<^verbatim>\<open>src/vmm/x86_64/topology.rs\<close>: APIC ids are unique and below the bound
    reported, and the CPUID leaves decode to the topology they were generated from.
  \<^item> \<^verbatim>\<open>Numa_Memory\<close> models the layout of \<^verbatim>\<open>src/vmm/numa_mem.rs\<close>: regions tile the guest memory
    without overlap and conserve its size.
  \<^item> \<^verbatim>\<open>Acpi_Tables\<close> and \<^verbatim>\<open>Acpi_Discovery\<close> model \<^verbatim>\<open>x86_64/acpi.rs\<close>, \<^verbatim>\<open>Mp_Table\<close> models \<^verbatim>\<open>x86_64/mptable.rs\<close>: a
    reader that follows the pointers and verifies the checksums finds the tables that were built, and
    they describe the CPUs, memory regions and distances of the topology.
  \<^item> \<^verbatim>\<open>Boot\<close> and \<^verbatim>\<open>Boot_Image\<close> model \<^verbatim>\<open>x86_64/boot.rs\<close> with \<^verbatim>\<open>setup_vcpus\<close> and the end of \<^verbatim>\<open>setup_memory\<close> of
    \<^verbatim>\<open>setup.rs\<close>: the e820 map, the memory after all boot structures are written, the registers of the vCPUs
    (\<^verbatim>\<open>vcpu_law\<close> asks of KVM to accept and read back only states that pass its checks), and the number of
    nodes from which the ACPI tables overwrite the kernel.

  \<^bold>\<open>Guest memory.\<close> \<^verbatim>\<open>Guest_Memory\<close> models the accessors, page-table walks, translation cache and xarray
  lookup of \<^verbatim>\<open>src/monitor/reader.rs\<close> and \<^verbatim>\<open>idr.rs\<close>: accesses implement a flat byte string, the cache is
  transparent, the lookup follows the tree. The locale \<^verbatim>\<open>memory_cell\<close> is interpreted for each
  width. \<^verbatim>\<open>layout_reads_node_memory\<close> below joins it with the NUMA layout, and \<^verbatim>\<open>boot_memory_image\<close> walks the boot
  page tables with it.

  \<^bold>\<open>Block device.\<close>
  \<^item> \<^verbatim>\<open>Token_Bucket\<close> models \<^verbatim>\<open>virtio_blk/throttle.rs\<close> and the throttle part of \<^verbatim>\<open>disk_config.rs\<close>:
    the rate limit, the accounting of overdrafts and the sufficiency of the reported wait. The locale
    \<^verbatim>\<open>admission_gate\<close> is what the drain loop relies on.
  \<^item> \<^verbatim>\<open>Virtio_Status\<close> and \<^verbatim>\<open>Virtio_Blk_Device\<close> model the register interface of \<^verbatim>\<open>virtio_blk/device.rs\<close>:
    the status state machine including its race with the worker, feature negotiation, queue
    configuration, configuration space and reset. The locale \<^verbatim>\<open>status_register\<close> is the contract of
    a status register.
  \<^item> \<^verbatim>\<open>Virtio_Blk_Handlers\<close> models the request handlers and counters, \<^verbatim>\<open>Virtio_Blk_Chain\<close> the way of one
    descriptor chain through validation, throttle, handler and completion, and \<^verbatim>\<open>Virtio_Blk_Drain\<close> the
    drain loop of \<^verbatim>\<open>drain.rs\<close> with the decisions of \<^verbatim>\<open>worker.rs\<close>. Shown are: each chain is
    resolved exactly once, no request that needs the device passes the throttle unpaid, a stalled chain is
    admitted after the reported wait, the backing file changes only within the capacity and never on a
    read-only device, short reads are zero-filled, and draining ends, signals what it completed and keeps
    the worker's invariant.

  \<^bold>\<open>Network device.\<close> \<^verbatim>\<open>Virtio_Net\<close> models \<^verbatim>\<open>virtio_net/device.rs\<close>, \<^verbatim>\<open>Virtio_Net_Loopback\<close> follows one frame and
  \<^verbatim>\<open>Virtio_Net_Loop\<close> the transmit loop: a frame is echoed into the next receive chain, a receive chain is
  written only inside its descriptors and a rejected one is rolled back, a notification ends with every chain it
  took accounted for, the reachable states are on the status ladder, and a chain of empty descriptors
  makes the device panic.

  \<^bold>\<open>Consoles and messages.\<close>
  \<^item> \<^verbatim>\<open>Serial_Console\<close> models \<^verbatim>\<open>src/vmm/console.rs\<close>: the cap of the captured output and the resuming search.
  \<^item> \<^verbatim>\<open>Virtio_Console\<close> models \<^verbatim>\<open>src/vmm/virtio_console.rs\<close>, the whole device, and shows that a hostile guest
    keeps it well formed; \<^verbatim>\<open>Console_Input\<close> follows bytes from the host to the guest.
  \<^item> \<^verbatim>\<open>Wire_Format\<close> models the enumerations and fixed-size records of \<^verbatim>\<open>src/vmm/wire.rs\<close>: each decodes
    what it encodes and nothing else. The locales \<^verbatim>\<open>wire_enum\<close> and \<^verbatim>\<open>fixed_codec\<close> state the contract.
  \<^item> \<^verbatim>\<open>Bulk_Stream\<close> models \<^verbatim>\<open>src/vmm/bulk.rs\<close> and the frame writer and parser of \<^verbatim>\<open>guest_comms.rs\<close> and
    \<^verbatim>\<open>host_comms.rs\<close>: however the byte stream is cut, the assembler yields the frames that were
    written, its buffer stays bounded, and it agrees with the one-shot parser.
  \<^item> \<^verbatim>\<open>Bulk_Dispatch\<close> models \<^verbatim>\<open>freeze_coord/dispatch.rs\<close>, the request decoder of \<^verbatim>\<open>snapshot.rs\<close> and the late
    filter of \<^verbatim>\<open>mod.rs\<close>: which messages act on the run and which reach the verdict.
  \<^item> \<^verbatim>\<open>Console_Bulk\<close> joins console device, assembler, dispatcher and collection as interleaved steps of
    guest and coordinator, \<^verbatim>\<open>bulk_run\<close>, and shows that what was sent is what is collected.

  \<^bold>\<open>Bounds and fuel.\<close> The loops of the token bucket, the stream parsers and the zero fill are total
  functions with termination proofs. The status loop carries the retry budget of the source. The loops over
  the chains of a queue carry fuel, one unit for each call of the queue iterator: \<^verbatim>\<open>drain_terminates\<close> and
  \<^verbatim>\<open>net_notify_completes\<close> show that one unit more than the number of pending chains is enough when the
  guest publishes nothing meanwhile, \<^verbatim>\<open>bulk_messages_collected\<close> the same for the console. Page-table walks have
  four or five levels and the xarray lookup as many as the shift of its root.

  \<^bold>\<open>Not modelled.\<close> System calls, threads and the file system: KVM set-up, vCPU threads, the epoll
  loop of the worker, the freeze coordinator outside of its message path, guest init, initramfs and disk images, kernel
  download and build, cgroups and locks, command line tools; the aarch64 support; and the
  evaluation of results: BTF rendering, dumps, assertions, statistics, scenarios and workloads.
\<close>

section \<open>Properties that span components\<close>

text \<open>
  C22: the monitor reads each NUMA node's own memory. For every layout computed from a topology
  that fits the address space, the memory view built from it is well formed and spans the requested
  memory; a 64-bit read at a node's guest address plus an offset inside the node returns the bytes the
  host maps for that node, and never those of another one.
\<close>

theorem layout_reads_node_memory:
  assumes "compute t mb base = Inr rs" and "unat base + region_bytes rs < 2 ^ 64" and "host_maps host rs"
    and "i < length rs" and "unat off + 8 \<le> unat (region_size (rs ! i))"
  shows "\<exists>g. from_layout rs host = Some g \<and> valid_mem g \<and> length (flat g) = region_bytes rs
    \<and> read_u64 g (gpa_start (rs ! i) - base) off
        = from_le_bytes (take 8 (drop (unat off) (the (host (gpa_start (rs ! i))))))"
proof -
  obtain g where g: "from_layout rs host = Some g" "valid_mem g" "gm_regions g = map (\<lambda>r.
      \<lparr>mr_offset = gpa_start r - base, mr_size = region_size r, mr_bytes = the (host (gpa_start r))\<rparr>) rs"
    using from_layout_valid [OF assms(1-3)] by blast
  have "unat (total_bytes rs) = region_bytes rs" using assms(2) by (intro unat_total_bytes) simp
  moreover have "gm_size g = total_bytes rs" using g(1) by (auto simp: from_layout_def split: Option.bind_splits)
  ultimately have "length (flat g) = region_bytes rs" using g(2) by (simp add: valid_mem_def)
  with g read_scalar_region [OF g(2), of i 8 off] assms(4,5) show ?thesis by (simp add: read_u64_def)
qed

text \<open>A host that maps bytes of value 1 for the second node and zeros for the others.\<close>

theorem layout_reads_node_memory_witness:
  "\<exists>rs g. compute topo_cxl 1280 0 = Inr rs
     \<and> from_layout rs (\<lambda>a. Some (if a = 0x20000000 then replicate 0x10000000 1 else replicate 0x20000000 0)) = Some g
     \<and> length (flat g) = 0x50000000 \<and> read_u64 g (gpa_start (rs ! 1)) 16 = from_le_bytes (replicate 8 1)"
  using layout_reads_node_memory [OF compute_topo_cxl, where i = 1 and off = 16
      and host = "\<lambda>a. Some (if a = 0x20000000 then replicate 0x10000000 1 else replicate 0x20000000 0)"]
    compute_topo_cxl
  by (auto simp: host_maps_def region_bytes_def)

end
